(* ===== verification/Prelude.thy ===== *)
theory Prelude
  imports Main "HOL-Library.Word" "HOL-Library.Multiset"
begin

text \<open>
  The base of the development: the types every component uses, the result type of fallible
  code, the parts of the JavaScript language the sources rely on (double rounding of integers,
  \<open>BigInt.asIntN\<close>, truthiness, property assignment) and the lemmas on lists and options the
  component theories share.

  JavaScript strings are lists of Unicode code points (\<open>ustr\<close>): the sources iterate over
  strings by code point and encode them as UTF-8. Bytes of a \<open>Buffer\<close> are \<open>8 word\<close>s.
  Integers held in a \<open>Number\<close> are \<open>int\<close>s; where the code converts a \<open>BigInt\<close> to a
  \<open>Number\<close> the rounding to 53 significant bits is written out.
\<close>

unbundle bit_operations_syntax

type_synonym byte = "8 word"
type_synonym bytes = "8 word list"
type_synonym ustr = "nat list"

named_theorems decode_simps \<open>how the field accessors read the tokens the encoders write\<close>
named_theorems token_simps \<open>the encoders as sequences of tokens\<close>

text \<open>A byte from a number, as \<open>Buffer.from([n])\<close> stores it: modulo 256.\<close>

definition byte_of :: "nat \<Rightarrow> byte" where
  "byte_of n = of_nat n"

lemma unat_byte_of [simp]: "unat (byte_of n) = n mod 256"
  by (simp add: byte_of_def unat_of_nat)

lemma byte_of_unat [simp]: "byte_of (unat b) = b"
  by (simp add: byte_of_def)

lemma unat_byte_less [simp]: "unat (b :: byte) < 256"
  using unsigned_less [of b] by simp

section \<open>Fallible code\<close>

text \<open>A thrown exception is \<open>Inl\<close>; evaluation stops at the first one.\<close>

definition andThen :: "'e + 'a \<Rightarrow> ('a \<Rightarrow> 'e + 'b) \<Rightarrow> 'e + 'b" where
  "andThen r k = (case r of Inl e \<Rightarrow> Inl e | Inr a \<Rightarrow> k a)"

lemma andThen_simps [simp]:
  "andThen (Inl e) k = Inl e" "andThen (Inr a) k = k a"
  by (simp_all add: andThen_def)

lemma andThen_eq_Inr [simp]:
  "andThen r k = Inr b \<longleftrightarrow> (\<exists>a. r = Inr a \<and> k a = Inr b)"
  by (cases r) auto

lemma andThen_cong [fundef_cong]:
  "r = r' \<Longrightarrow> (\<And>a. r' = Inr a \<Longrightarrow> k a = k' a) \<Longrightarrow> andThen r k = andThen r' k'"
  by (cases r') auto

text \<open>\<open>mapM\<close> runs a fallible function over a list in order, as a \<open>for\<close> loop pushing results does.\<close>

fun mapM :: "('a \<Rightarrow> 'e + 'b) \<Rightarrow> 'a list \<Rightarrow> 'e + 'b list" where
  "mapM f [] = Inr []"
| "mapM f (x # xs) = andThen (f x) (\<lambda>y. andThen (mapM f xs) (\<lambda>ys. Inr (y # ys)))"

lemma mapM_append [simp]:
  "mapM f (xs @ ys) = andThen (mapM f xs) (\<lambda>as. andThen (mapM f ys) (\<lambda>bs. Inr (as @ bs)))"
proof (induction xs)
  case Nil
  show ?case by (cases "mapM f ys") simp_all
next
  case (Cons x xs)
  then show ?case
    by (cases "f x"; cases "mapM f xs"; cases "mapM f ys") simp_all
qed

lemma mapM_Inr: "(\<And>x. x \<in> set xs \<Longrightarrow> f x = Inr (g x)) \<Longrightarrow> mapM f xs = Inr (map g xs)"
  by (induction xs) auto

lemma mapM_map [simp]: "mapM f (map g xs) = mapM (f \<circ> g) xs"
  by (induction xs) simp_all

lemma mapM_cong [fundef_cong]:
  "xs = ys \<Longrightarrow> (\<And>x. x \<in> set ys \<Longrightarrow> f x = g x) \<Longrightarrow> mapM f xs = mapM g ys"
  by (induction xs arbitrary: ys) auto

lemma concat_map_Nil [simp]: "concat (map (\<lambda>x. []) xs) = []"
  by (induction xs) simp_all

lemma list_all_True [simp]: "list_all (\<lambda>x. True) xs"
  by (induction xs) simp_all

section \<open>JavaScript numbers\<close>

text \<open>
  \<open>Number(big)\<close> on a non-negative \<open>BigInt\<close>: the nearest value with 53 significant bits, ties to
  the even significand. (At \<open>2 ^ 1024\<close> and above the source gets \<open>Infinity\<close>, where the
  function below goes on rounding; a varint that large has more than 146 bytes.)
\<close>

fun bitlen :: "nat \<Rightarrow> nat" where
  "bitlen n = (if n = 0 then 0 else Suc (bitlen (n div 2)))"

declare bitlen.simps [simp del]

definition js_Number :: "nat \<Rightarrow> nat" where
  "js_Number n =
     (if n < 2 ^ 53 then n
      else let k = bitlen n - 53; q = n div 2 ^ k; r = n mod 2 ^ k; h = 2 ^ (k - 1)
           in (if h < r \<or> r = h \<and> odd q then Suc q else q) * 2 ^ k)"

lemma js_Number_exact [simp]: "n < 2 ^ 53 \<Longrightarrow> js_Number n = n"
  by (simp add: js_Number_def)

text \<open>\<open>BigInt.asIntN(w, v)\<close>: the low \<open>w\<close> bits of \<open>v\<close> read as two's complement.\<close>

definition asIntN :: "nat \<Rightarrow> int \<Rightarrow> int" where
  "asIntN w v = (let m = v mod 2 ^ w in if 2 ^ (w - 1) \<le> m then m - 2 ^ w else m)"

lemma asIntN_32_id [simp]:
  assumes "- (2 ^ 31) \<le> v" and "v < 2 ^ 31"
  shows "asIntN 32 v = v"
proof (cases "0 \<le> v")
  case True
  with assms show ?thesis by (simp add: asIntN_def)
next
  case False
  have "v mod 2 ^ 32 = (v + 2 ^ 32) mod 2 ^ 32" by simp
  also have "\<dots> = v + 2 ^ 32" using False assms by (intro mod_pos_pos_trivial) simp_all
  finally show ?thesis using False assms by (simp add: asIntN_def)
qed

section \<open>JavaScript objects and strings\<close>

text \<open>The ASCII literals of the sources as code points.\<close>

definition asc :: "string \<Rightarrow> ustr" where
  "asc s = map of_char s"

lemma asc_simps [simp]: "asc [] = []" "asc (c # s) = of_char c # asc s"
  by (simp_all add: asc_def)

text \<open>
  \<open>out[key] = value\<close> on a plain object used as a dictionary: an existing key keeps its place, a
  new one goes last, and assigning a primitive to \<open>__proto__\<close> has no effect.
\<close>

fun obj_put :: "ustr \<Rightarrow> 'v \<Rightarrow> (ustr \<times> 'v) list \<Rightarrow> (ustr \<times> 'v) list" where
  "obj_put k v [] = [(k, v)]"
| "obj_put k v ((k', v') # kvs) = (if k = k' then (k, v) # kvs else (k', v') # obj_put k v kvs)"

definition obj_set :: "ustr \<Rightarrow> 'v \<Rightarrow> (ustr \<times> 'v) list \<Rightarrow> (ustr \<times> 'v) list" where
  "obj_set k v kvs = (if k = asc ''__proto__'' then kvs else obj_put k v kvs)"

lemma map_of_obj_put [simp]: "map_of (obj_put k v kvs) = (map_of kvs)(k \<mapsto> v)"
  by (induction kvs) (auto simp: fun_eq_iff)

lemma set_fst_obj_put [simp]: "set (map fst (obj_put k v kvs)) = insert k (set (map fst kvs))"
  by (induction k v kvs rule: obj_put.induct) (simp_all add: insert_commute)

lemma distinct_obj_put: "distinct (map fst kvs) \<Longrightarrow> distinct (map fst (obj_put k v kvs))"
proof (induction k v kvs rule: obj_put.induct)
  case (2 k v k' v' kvs)
  then show ?case using set_fst_obj_put [of k v kvs] by (simp del: set_fst_obj_put)
qed simp

text \<open>The characters \<open>\s\<close> matches and \<open>trim\<close> removes.\<close>

definition js_space :: "nat \<Rightarrow> bool" where
  "js_space c \<longleftrightarrow> 9 \<le> c \<and> c \<le> 13 \<or> c = 32 \<or> c = 0xA0 \<or> c = 0x1680 \<or> 0x2000 \<le> c \<and> c \<le> 0x200A \<or> c = 0x2028 \<or> c = 0x2029 \<or>
     c = 0x202F \<or> c = 0x205F \<or> c = 0x3000 \<or> c = 0xFEFF"

definition trim :: "ustr \<Rightarrow> ustr" where
  "trim s = rev (dropWhile js_space (rev (dropWhile js_space s)))"

text \<open>The UTF-16 code units of a string, by which \<open>Array.prototype.sort\<close> orders strings.\<close>

definition utf16 :: "ustr \<Rightarrow> nat list" where
  "utf16 s = concat (map (\<lambda>c. if c < 0x10000 then [c]
     else [0xD800 + (c - 0x10000) div 0x400, 0xDC00 + (c - 0x10000) mod 0x400]) s)"

fun lex_le :: "nat list \<Rightarrow> nat list \<Rightarrow> bool" where
  "lex_le [] ys = True"
| "lex_le (x # xs) [] = False"
| "lex_le (x # xs) (y # ys) = (x < y \<or> x = y \<and> lex_le xs ys)"

text \<open>A stable insertion sort: \<open>Array.prototype.sort\<close> is stable, so any stable sort agrees with it.\<close>

fun insert_by :: "('a \<Rightarrow> 'a \<Rightarrow> bool) \<Rightarrow> 'a \<Rightarrow> 'a list \<Rightarrow> 'a list" where
  "insert_by le x [] = [x]"
| "insert_by le x (y # ys) = (if le x y then x # y # ys else y # insert_by le x ys)"

fun sort_by :: "('a \<Rightarrow> 'a \<Rightarrow> bool) \<Rightarrow> 'a list \<Rightarrow> 'a list" where
  "sort_by le [] = []"
| "sort_by le (x # xs) = insert_by le x (sort_by le xs)"

lemma mset_insert_by [simp]: "mset (insert_by le x xs) = add_mset x (mset xs)"
  by (induction xs) auto

lemma mset_sort_by [simp]: "mset (sort_by le xs) = mset xs"
  by (induction xs) auto

lemma set_sort_by [simp]: "set (sort_by le xs) = set xs"
  by (metis mset_sort_by set_mset_mset)

lemma length_sort_by [simp]: "length (sort_by le xs) = length xs"
  by (metis mset_sort_by size_mset)


section \<open>Machines\<close>

text \<open>
  The contract of a component driven by events: an invariant of its initial state that every
  event keeps. It then holds after any sequence of events.
\<close>

locale machine =
  fixes init :: 's
    and step :: "'s \<Rightarrow> 'e \<Rightarrow> 's"
    and inv :: "'s \<Rightarrow> bool"
  assumes inv_init: "inv init"
    and inv_step: "inv s \<Longrightarrow> inv (step s e)"
begin

lemma inv_foldl: "inv s \<Longrightarrow> inv (foldl step s es)"
  by (induction es arbitrary: s) (simp_all add: inv_step)

lemma inv_run: "inv (foldl step init es)"
  by (rule inv_foldl [OF inv_init])

end

end
