(* ===== verification/Utf8.thy ===== *)
theory Utf8
  imports Prelude
begin

text \<open>
  \<open>Buffer.from(text, 'utf8')\<close> and \<open>buffer.toString('utf8')\<close> of Node: the encoding of a string
  of code points, and the decoder with its replacement of malformed sequences by U+FFFD (one
  replacement per maximal ill-formed subpart, as the WHATWG decoder does). Decoding an
  encoded string gives the string back; an encoding is empty only for the empty string.
\<close>

definition is_scalar :: "nat \<Rightarrow> bool" where
  "is_scalar c \<longleftrightarrow> c < 0xD800 \<or> 0xE000 \<le> c \<and> c < 0x110000"

definition valid_ustr :: "ustr \<Rightarrow> bool" where
  "valid_ustr s \<longleftrightarrow> list_all is_scalar s"

definition utf8_char :: "nat \<Rightarrow> bytes" where
  "utf8_char c =
     (if c < 0x80 then [byte_of c]
      else if c < 0x800 then [byte_of (0xC0 + c div 64), byte_of (0x80 + c mod 64)]
      else if \<not> is_scalar c then [0xEF, 0xBF, 0xBD]
      else if c < 0x10000 then
        [byte_of (0xE0 + c div 4096), byte_of (0x80 + c div 64 mod 64), byte_of (0x80 + c mod 64)]
      else
        [byte_of (0xF0 + c div 262144), byte_of (0x80 + c div 4096 mod 64),
         byte_of (0x80 + c div 64 mod 64), byte_of (0x80 + c mod 64)])"

definition utf8_encode :: "ustr \<Rightarrow> bytes" where
  "utf8_encode s = concat (map utf8_char s)"

function (sequential) utf8_decode :: "bytes \<Rightarrow> ustr"
  and utf8_cont :: "nat \<Rightarrow> nat \<Rightarrow> nat \<Rightarrow> nat \<Rightarrow> bytes \<Rightarrow> ustr" where
  "utf8_decode [] = []"
| "utf8_decode (w # bs) =
     (let b = unat w in
      if b < 0x80 then b # utf8_decode bs
      else if 0xC2 \<le> b \<and> b \<le> 0xDF then utf8_cont 1 0x80 0xBF (b - 0xC0) bs
      else if 0xE0 \<le> b \<and> b \<le> 0xEF then
        utf8_cont 2 (if b = 0xE0 then 0xA0 else 0x80) (if b = 0xED then 0x9F else 0xBF) (b - 0xE0) bs
      else if 0xF0 \<le> b \<and> b \<le> 0xF4 then
        utf8_cont 3 (if b = 0xF0 then 0x90 else 0x80) (if b = 0xF4 then 0x8F else 0xBF) (b - 0xF0) bs
      else 0xFFFD # utf8_decode bs)"
| "utf8_cont 0 lo hi acc bs = acc # utf8_decode bs"
| "utf8_cont (Suc n) lo hi acc [] = [0xFFFD]"
| "utf8_cont (Suc n) lo hi acc (w # bs) =
     (let b = unat w in
      if lo \<le> b \<and> b \<le> hi then utf8_cont n 0x80 0xBF (acc * 64 + (b - 0x80)) bs
      else 0xFFFD # utf8_decode (w # bs))"
  by pat_completeness auto
termination
  by (relation "measure (\<lambda>x. case x of Inl bs \<Rightarrow> 2 * length bs
        | Inr (n, lo, hi, acc, bs) \<Rightarrow> 2 * length bs + 1)") auto

lemma valid_ustr_simps [simp]:
  "valid_ustr []" "valid_ustr (c # s) \<longleftrightarrow> is_scalar c \<and> valid_ustr s"
  "valid_ustr (s @ t) \<longleftrightarrow> valid_ustr s \<and> valid_ustr t"
  by (simp_all add: valid_ustr_def)

lemma utf8_encode_simps [simp]:
  "utf8_encode [] = []" "utf8_encode (c # s) = utf8_char c @ utf8_encode s"
  by (simp_all add: utf8_encode_def)

lemma utf8_char_nonempty [simp]: "utf8_char c \<noteq> []"
  by (simp add: utf8_char_def)

lemma utf8_encode_eq_Nil [simp]: "utf8_encode s = [] \<longleftrightarrow> s = []"
  by (cases s) simp_all

text \<open>The continuation bytes of one character, read back one at a time.\<close>

lemma utf8_cont_step:
  assumes "lo \<le> 0x80 + d" and "0x80 + d \<le> hi" and "d < 64"
  shows "utf8_cont (Suc n) lo hi acc (byte_of (0x80 + d) # bs) = utf8_cont n 0x80 0xBF (acc * 64 + d) bs"
  using assms by (simp add: Let_def)

lemma split_64:
  fixes c :: nat
  defines "h \<equiv> c div 4096" and "m \<equiv> c div 64 mod 64"
  shows "c = (h * 64 + m) * 64 + c mod 64" "c div 64 = h * 64 + m" "m < 64"
proof -
  have "c div 64 = c div 64 div 64 * 64 + m" by (simp add: m_def)
  then show "c div 64 = h * 64 + m" by (simp add: h_def div_mult2_eq [symmetric])
  then show "c = (h * 64 + m) * 64 + c mod 64" using div_mult_mod_eq [of c 64] by simp
  show "m < 64" by (simp add: m_def)
qed

lemma split_64_bounds:
  fixes c h m r :: nat
  assumes "c = (h * 64 + m) * 64 + r" "m < 64" "r < 64"
  shows "h = 0 \<Longrightarrow> 0x800 \<le> c \<Longrightarrow> 32 \<le> m" "h = 13 \<Longrightarrow> c < 0xE000"
    "h = 13 \<Longrightarrow> c < 0xD800 \<Longrightarrow> m < 32"
    "h = h' * 64 + a \<Longrightarrow> h' = 0 \<Longrightarrow> 0x10000 \<le> c \<Longrightarrow> 16 \<le> a"
    "h = h' * 64 + a \<Longrightarrow> h' = 4 \<Longrightarrow> c < 0x110000 \<Longrightarrow> a < 16"
  using assms by auto

lemma utf8_decode_char:
  assumes "is_scalar c"
  shows "utf8_decode (utf8_char c @ bs) = c # utf8_decode bs"
proof -
  consider "c < 0x80" | "0x80 \<le> c" "c < 0x800" | "0x800 \<le> c" "c < 0x10000"
    | "0x10000 \<le> c" "c < 0x110000"
    using assms unfolding is_scalar_def by fastforce
  then show ?thesis
  proof cases
    case 1
    then show ?thesis by (simp add: utf8_char_def)
  next
    case 2
    then have "2 \<le> c div 64" "c div 64 < 32" by auto
    then have "utf8_decode (utf8_char c @ bs)
        = utf8_cont (Suc 0) 0x80 0xBF (c div 64) (byte_of (0x80 + c mod 64) # bs)"
      using 2 by (simp add: utf8_char_def Let_def del: utf8_cont.simps)
    also have "\<dots> = c # utf8_decode bs"
      by (subst utf8_cont_step) simp_all
    finally show ?thesis .
  next
    case 3
    let ?h = "c div 4096" and ?m = "c div 64 mod 64"
    have h: "?h < 16" using 3 by auto
    note s = split_64 [of c]
    have r: "c mod 64 < 64" by simp
    have e0: "32 \<le> ?m" if "?h = 0" using split_64_bounds(1) [OF s(1) s(3) r] 3 that by simp
    have ed: "?m < 32" if "?h = 13"
    proof -
      have "c < 0xE000" using split_64_bounds(2) [OF s(1) s(3) r] that by simp
      with assms have "c < 0xD800" by (auto simp: is_scalar_def)
      with that show ?thesis using split_64_bounds(3) [OF s(1) s(3) r] by simp
    qed
    have "utf8_decode (utf8_char c @ bs)
        = utf8_cont (Suc (Suc 0)) (if ?h = 0 then 0xA0 else 0x80) (if ?h = 13 then 0x9F else 0xBF) ?h
            (byte_of (0x80 + ?m) # byte_of (0x80 + c mod 64) # bs)"
      using 3 h assms by (simp add: utf8_char_def Let_def numeral_2_eq_2 [symmetric] del: utf8_cont.simps)
    also have "\<dots> = utf8_cont (Suc 0) 0x80 0xBF (?h * 64 + ?m) (byte_of (0x80 + c mod 64) # bs)"
      using e0 ed by (subst utf8_cont_step) auto
    also have "\<dots> = ((?h * 64 + ?m) * 64 + c mod 64) # utf8_decode bs"
      by (subst utf8_cont_step) simp_all
    also have "(?h * 64 + ?m) * 64 + c mod 64 = c" using s(1) by simp
    finally show ?thesis .
  next
    case 4
    let ?h = "c div 262144" and ?a = "c div 4096 mod 64" and ?m = "c div 64 mod 64"
    have h: "?h < 5" using 4 by auto
    have r: "c mod 64 < 64" by simp
    note s = split_64 [of c] and t = split_64 [of "c div 64"]
    have a: "c div 4096 = ?h * 64 + ?a"
      using t(2) by (simp add: div_mult2_eq [symmetric])
    have a64: "?a < 64" by simp
    have f0: "16 \<le> ?a" if "?h = 0" using split_64_bounds(4) [OF s(1) s(3) r a] 4 that by simp
    have f4: "?a < 16" if "?h = 4" using split_64_bounds(5) [OF s(1) s(3) r a] 4 that by simp
    have "utf8_decode (utf8_char c @ bs)
        = utf8_cont (Suc (Suc (Suc 0))) (if ?h = 0 then 0x90 else 0x80) (if ?h = 4 then 0x8F else 0xBF) ?h
            (byte_of (0x80 + ?a) # byte_of (0x80 + ?m) # byte_of (0x80 + c mod 64) # bs)"
      using 4 h assms by (simp add: utf8_char_def Let_def numeral_3_eq_3 [symmetric] del: utf8_cont.simps)
    also have "\<dots> = utf8_cont (Suc (Suc 0)) 0x80 0xBF (?h * 64 + ?a)
            (byte_of (0x80 + ?m) # byte_of (0x80 + c mod 64) # bs)"
      using f0 f4 by (subst utf8_cont_step) auto
    also have "\<dots> = utf8_cont (Suc 0) 0x80 0xBF ((?h * 64 + ?a) * 64 + ?m) (byte_of (0x80 + c mod 64) # bs)"
      by (subst utf8_cont_step) simp_all
    also have "\<dots> = (((?h * 64 + ?a) * 64 + ?m) * 64 + c mod 64) # utf8_decode bs"
      by (subst utf8_cont_step) simp_all
    also have "((?h * 64 + ?a) * 64 + ?m) * 64 + c mod 64 = c" using s(1) a by simp
    finally show ?thesis .
  qed
qed

lemma utf8_decode_encode [simp]: "valid_ustr s \<Longrightarrow> utf8_decode (utf8_encode s) = s"
  by (induction s) (simp_all add: utf8_decode_char)

lemma utf8_decode_Nil [simp]: "utf8_decode [] = []"
  by simp

declare utf8_decode.simps [simp del] utf8_cont.simps [simp del]

end
