(* ===== verification/WireCodec.thy ===== *)
theory WireCodec
  imports Utf8
begin

text \<open>
  The protobuf layer of \<open>clients/tui/sdk/ts/src/wire.js\<close>: varints, the field encoders, the
  field parser and the typed accessors. A message is a sequence of tokens (field number, wire
  type, value); the encoders write tokens, \<open>parseFields\<close> reads them back, and every message
  decoder works on the token list. The lemmas here state that round trip once, for any list of
  tokens, so that the message theories only compare token lists.
\<close>

section \<open>Encoding\<close>

text \<open>
  \<open>uvarint\<close> takes integers of JavaScript's exact range; a negative one is first shifted by
  \<open>2 ^ 64\<close>. (Below \<open>- 2 ^ 64\<close> the loop of the source would not end: no caller has such a value.)
\<close>

function uvarint_loop :: "nat \<Rightarrow> bytes" where
  "uvarint_loop big =
     (let byte = big AND 0x7F; rest = drop_bit 7 big
      in if rest \<noteq> 0 then byte_of (byte OR 0x80) # uvarint_loop rest else [byte_of byte])"
  by pat_completeness auto
termination
  by (relation "measure id") (auto simp: drop_bit_eq_div)

declare uvarint_loop.simps [simp del]

definition u64 :: "int \<Rightarrow> nat" where
  "u64 v = nat (if v < 0 then v + 2 ^ 64 else v)"

definition uvarint :: "int \<Rightarrow> bytes" where
  "uvarint v = uvarint_loop (u64 v)"

definition WIRE_VARINT :: nat where "WIRE_VARINT = 0"
definition WIRE_64BIT :: nat where "WIRE_64BIT = 1"
definition WIRE_LEN :: nat where "WIRE_LEN = 2"
definition WIRE_32BIT :: nat where "WIRE_32BIT = 5"

lemmas wire_types [simp] = WIRE_VARINT_def WIRE_64BIT_def WIRE_LEN_def WIRE_32BIT_def

text \<open>An argument that may be \<open>undefined\<close> or \<open>null\<close> is an option.\<close>

definition fieldVarint :: "nat \<Rightarrow> int option \<Rightarrow> bytes" where
  "fieldVarint field value =
     (case value of None \<Rightarrow> []
      | Some v \<Rightarrow> uvarint (int (push_bit 3 field)) @ uvarint v)"

definition fieldBool :: "nat \<Rightarrow> bool option \<Rightarrow> bytes" where
  "fieldBool field value =
     (case value of None \<Rightarrow> [] | Some b \<Rightarrow> fieldVarint field (Some (if b then 1 else 0)))"

definition fieldBytes :: "nat \<Rightarrow> bytes option \<Rightarrow> bytes" where
  "fieldBytes field data =
     (case data of None \<Rightarrow> []
      | Some d \<Rightarrow>
          if length d = 0 then []
          else uvarint (int (push_bit 3 field OR WIRE_LEN)) @ uvarint (int (length d)) @ d)"

definition fieldString :: "nat \<Rightarrow> ustr option \<Rightarrow> bytes" where
  "fieldString field txt =
     (case txt of None \<Rightarrow> []
      | Some s \<Rightarrow> if s = [] then [] else fieldBytes field (Some (utf8_encode s)))"

definition fieldMsg :: "nat \<Rightarrow> bytes option \<Rightarrow> bytes" where
  "fieldMsg field message = (case message of None \<Rightarrow> [] | Some m \<Rightarrow> fieldBytes field (Some m))"

text \<open>
  \<open>Object.keys(mapping).sort()\<close>: a dictionary is an association list with distinct keys, and its
  entries go out in the order of their keys' UTF-16 code units.
\<close>

definition sorted_entries :: "(ustr \<times> 'v) list \<Rightarrow> (ustr \<times> 'v) list" where
  "sorted_entries kvs = sort_by (\<lambda>a b. lex_le (utf16 (fst a)) (utf16 (fst b))) kvs"

definition fieldMapStringString :: "nat \<Rightarrow> (ustr \<times> ustr) list \<Rightarrow> bytes" where
  "fieldMapStringString field mapping =
     concat (map (\<lambda>(k, v). fieldMsg field (Some (fieldString 1 (Some k) @ fieldString 2 (Some v))))
       (sorted_entries mapping))"

definition fieldMapStringBool :: "nat \<Rightarrow> (ustr \<times> bool) list \<Rightarrow> bytes" where
  "fieldMapStringBool field mapping =
     concat (map (\<lambda>(k, v). fieldMsg field (Some (fieldString 1 (Some k) @ fieldBool 2 (Some v))))
       (sorted_entries mapping))"

section \<open>Decoding\<close>

text \<open>
  Reading past the end of a buffer gives \<open>undefined\<close>, which the bit operations read as 0, so
  \<open>readUvarint\<close> always returns. \<open>NumberOfBytes\<close> marks the one place the model does not follow
  the source: a numeric accessor on a length-delimited field, where JavaScript coerces the
  buffer's text to a \<open>Number\<close>. \<open>RangeError\<close> is what \<open>toString('utf8')\<close> of a \<open>BigInt\<close> throws.
\<close>

datatype wire_error = UnsupportedWireType nat | RangeError | NumberOfBytes

datatype fval = VInt nat | VBytes bytes

type_synonym field = "nat \<times> nat \<times> fval"

definition byte_at :: "bytes \<Rightarrow> nat \<Rightarrow> nat" where
  "byte_at buf i = (if i < length buf then unat (buf ! i) else 0)"

function readUvarint_loop :: "bytes \<Rightarrow> nat \<Rightarrow> nat \<Rightarrow> nat \<Rightarrow> nat \<times> nat" where
  "readUvarint_loop buf index result shift =
     (let byte = byte_at buf index;
          result' = result OR push_bit shift (byte AND 0x7F)
      in if byte AND 0x80 = 0 then (result', Suc index)
         else readUvarint_loop buf (Suc index) result' (shift + 7))"
  by pat_completeness auto
termination
  by (relation "measure (\<lambda>(buf, index, result, shift). length buf - index)")
    (auto simp: byte_at_def split: if_splits)

declare readUvarint_loop.simps [simp del]

definition readUvarint :: "bytes \<Rightarrow> nat \<Rightarrow> nat \<times> nat" where
  "readUvarint buf index = readUvarint_loop buf index 0 0"

lemma readUvarint_loop_advances: "index < snd (readUvarint_loop buf index result shift)"
proof (induction buf index result shift rule: readUvarint_loop.induct)
  case (1 buf index result shift)
  show ?case
    by (subst readUvarint_loop.simps) (use 1 in \<open>auto simp: Let_def intro: Suc_lessD\<close>)
qed

lemma readUvarint_advances: "readUvarint buf index = (v, index') \<Longrightarrow> index < index'"
  using readUvarint_loop_advances [of index buf 0 0] by (simp add: readUvarint_def)

function parse_from :: "bytes \<Rightarrow> nat \<Rightarrow> wire_error + field list" where
  "parse_from data index =
     (if index < length data then
        (let (tag, i) = readUvarint data index;
             field = js_Number (drop_bit 3 tag);
             wire = tag AND 7
         in if wire = WIRE_VARINT then
              (let (value, j) = readUvarint data i
               in andThen (parse_from data j) (\<lambda>out. Inr ((field, wire, VInt value) # out)))
            else if wire = WIRE_LEN then
              (let (len, j) = readUvarint data i; length' = js_Number len
               in andThen (parse_from data (j + length'))
                    (\<lambda>out. Inr ((field, wire, VBytes (take length' (drop j data))) # out)))
            else if wire = WIRE_64BIT then
              andThen (parse_from data (i + 8))
                (\<lambda>out. Inr ((field, wire, VBytes (take 8 (drop i data))) # out))
            else if wire = WIRE_32BIT then
              andThen (parse_from data (i + 4))
                (\<lambda>out. Inr ((field, wire, VBytes (take 4 (drop i data))) # out))
            else Inl (UnsupportedWireType wire))
      else Inr [])"
  by pat_completeness auto
termination
  by (relation "measure (\<lambda>(data, index). length data - index)")
    (auto dest!: readUvarint_advances [OF sym])

declare parse_from.simps [simp del]

definition parseFields :: "bytes \<Rightarrow> wire_error + field list" where
  "parseFields data = parse_from data 0"

definition toInt32 :: "int \<Rightarrow> int" where
  "toInt32 value = asIntN 32 value"

definition toInt64 :: "int \<Rightarrow> int" where
  "toInt64 value = asIntN 64 value"

fun first :: "field list \<Rightarrow> nat \<Rightarrow> fval option" where
  "first [] field = None"
| "first ((number, wire, value) # fields) field = (if number = field then Some value else first fields field)"

fun value_string :: "fval \<Rightarrow> wire_error + ustr" where
  "value_string (VInt n) = Inl RangeError"
| "value_string (VBytes b) = Inr (utf8_decode b)"

fun value_number :: "fval \<Rightarrow> wire_error + int" where
  "value_number (VInt n) = Inr (int (js_Number n))"
| "value_number (VBytes b) = Inl NumberOfBytes"

definition strings :: "field list \<Rightarrow> nat \<Rightarrow> wire_error + ustr list" where
  "strings fields field =
     mapM (\<lambda>(number, wire, value). value_string value)
       (filter (\<lambda>(number, wire, value). number = field) fields)"

definition string_of :: "field list \<Rightarrow> nat \<Rightarrow> wire_error + ustr" where
  "string_of fields field =
     (case first fields field of None \<Rightarrow> Inr [] | Some value \<Rightarrow> value_string value)"

definition uint_of :: "field list \<Rightarrow> nat \<Rightarrow> wire_error + int" where
  "uint_of fields field =
     (case first fields field of None \<Rightarrow> Inr 0 | Some value \<Rightarrow> value_number value)"

definition uints :: "field list \<Rightarrow> nat \<Rightarrow> wire_error + int list" where
  "uints fields field =
     mapM (\<lambda>(number, wire, value). value_number value)
       (filter (\<lambda>(number, wire, value). number = field) fields)"

definition bool_of :: "field list \<Rightarrow> nat \<Rightarrow> wire_error + bool" where
  "bool_of fields field = andThen (uint_of fields field) (\<lambda>n. Inr (n \<noteq> 0))"

text \<open>
  The values of the length-delimited fields with a given number, which the \<open>for\<close> loops over the
  fields visit (\<open>number === field && wire === WIRE_LEN\<close>). Only a \<open>VBytes\<close> value can have that
  wire type.
\<close>

fun len_values :: "nat \<Rightarrow> field list \<Rightarrow> bytes list" where
  "len_values field [] = []"
| "len_values field ((number, wire, VBytes b) # fields) =
     (if number = field \<and> wire = WIRE_LEN then b # len_values field fields
      else len_values field fields)"
| "len_values field ((number, wire, VInt n) # fields) = len_values field fields"

fun obj_fold :: "(bytes \<Rightarrow> wire_error + ustr \<times> 'v) \<Rightarrow> bytes list \<Rightarrow> (ustr \<times> 'v) list
    \<Rightarrow> wire_error + (ustr \<times> 'v) list" where
  "obj_fold entry [] out = Inr out"
| "obj_fold entry (b # bs) out =
     andThen (entry b) (\<lambda>(k, v). obj_fold entry bs (obj_set k v out))"

definition parseMapStringString :: "bytes \<Rightarrow> wire_error + ustr \<times> ustr" where
  "parseMapStringString entry =
     andThen (parseFields entry) (\<lambda>fields.
     andThen (string_of fields 1) (\<lambda>k.
     andThen (string_of fields 2) (\<lambda>v. Inr (k, v))))"

definition parseMapStringBool :: "bytes \<Rightarrow> wire_error + ustr \<times> bool" where
  "parseMapStringBool entry =
     andThen (parseFields entry) (\<lambda>fields.
     andThen (string_of fields 1) (\<lambda>k.
     andThen (bool_of fields 2) (\<lambda>v. Inr (k, v))))"

definition stringMap :: "field list \<Rightarrow> nat \<Rightarrow> wire_error + (ustr \<times> ustr) list" where
  "stringMap fields field = obj_fold parseMapStringString (len_values field fields) []"


section \<open>Varints round trip\<close>

lemma and_127: "n AND 127 = n mod 128" for n :: nat
  using take_bit_eq_mask [of 7 n] by (simp add: take_bit_eq_mod mask_eq_exp_minus_1)

lemma bit_less_exp:
  fixes r :: nat
  assumes "r < 2 ^ s" and "bit r n"
  shows "n < s"
proof (rule ccontr)
  assume "\<not> n < s"
  then have "r < 2 ^ n" using assms(1) power_increasing [of s n "2 :: nat"] by (simp add: less_le_trans)
  with assms(2) show False by (simp add: bit_iff_odd)
qed

lemma or_push_bit:
  fixes r :: nat
  assumes "r < 2 ^ s"
  shows "r OR push_bit s m = r + m * 2 ^ s"
proof -
  have "r AND push_bit s m = 0"
    by (rule bit_eqI) (use assms in \<open>auto simp: bit_and_iff bit_push_bit_iff dest: bit_less_exp\<close>)
  then have "r + push_bit s m = r OR push_bit s m" by (rule disjunctive_add_eq_or)
  then show ?thesis by (simp add: push_bit_eq_mult)
qed

lemma or_128: "n < 128 \<Longrightarrow> n OR 128 = n + 128" for n :: nat
  using or_push_bit [of n 7 1] by (simp add: push_bit_eq_mult)

lemma and_128_eq_0: "n < 256 \<Longrightarrow> n AND 128 = 0 \<longleftrightarrow> n < 128" for n :: nat
proof -
  assume n: "n < 256"
  have "n AND 128 = 0 \<longleftrightarrow> even (n div 128)"
    using and_exp_eq_0_iff_not_bit [of n 7] by (simp add: bit_iff_odd)
  also have "n div 128 < 2" using n by (simp add: less_mult_imp_div_less)
  then have "even (n div 128) \<longleftrightarrow> n div 128 = 0" by (cases "n div 128") (auto simp: less_Suc_eq numeral_2_eq_2)
  also have "\<dots> \<longleftrightarrow> n < 128" by (simp add: div_eq_0_iff)
  finally show ?thesis .
qed

lemma uvarint_loop_unfold:
  "uvarint_loop n = (if n < 128 then [byte_of n] else byte_of (n mod 128 + 128) # uvarint_loop (n div 128))"
  by (subst uvarint_loop.simps)
    (auto simp: Let_def and_127 drop_bit_eq_div or_128 div_eq_0_iff)

lemma uvarint_loop_nonempty [simp]: "uvarint_loop n \<noteq> []"
  by (subst uvarint_loop_unfold) simp

lemma byte_at_append [simp]: "byte_at (pre @ b # post) (length pre) = unat b"
  by (simp add: byte_at_def nth_append)

lemma readUvarint_loop_uvarint:
  "r < 2 ^ s \<Longrightarrow>
    readUvarint_loop (pre @ uvarint_loop n @ post) (length pre) r s
      = (r + n * 2 ^ s, length pre + length (uvarint_loop n))"
proof (induction n arbitrary: pre r s rule: less_induct)
  case (less n)
  show ?case
  proof (cases "n < 128")
    case True
    then have "byte_at (pre @ uvarint_loop n @ post) (length pre) = n"
      by (simp add: uvarint_loop_unfold [of n])
    then show ?thesis
      using True less.prems
      by (subst readUvarint_loop.simps) (simp add: and_128_eq_0 and_127 or_push_bit uvarint_loop_unfold [of n])
  next
    case False
    let ?b = "n mod 128 + 128" and ?pre = "pre @ [byte_of (n mod 128 + 128)]" and ?r = "r + n mod 128 * 2 ^ s"
    have split: "pre @ uvarint_loop n @ post = ?pre @ uvarint_loop (n div 128) @ post"
      using False by (simp add: uvarint_loop_unfold [of n])
    have at: "byte_at (pre @ uvarint_loop n @ post) (length pre) = ?b"
      using False by (simp add: uvarint_loop_unfold [of n])
    have hi: "?b AND 128 \<noteq> 0"
      using and_128_eq_0 [of ?b] by simp
    have lo: "?b AND 127 = n mod 128" by (simp add: and_127)
    have bound: "?r < 2 ^ (s + 7)"
    proof -
      have "n mod 128 * 2 ^ s \<le> 127 * 2 ^ s" by (intro mult_right_mono) simp_all
      then have "?r < 2 ^ s + 127 * 2 ^ s" using less.prems by linarith
      then show ?thesis by (simp add: power_add)
    qed
    have "readUvarint_loop (pre @ uvarint_loop n @ post) (length pre) r s
        = readUvarint_loop (pre @ uvarint_loop n @ post) (Suc (length pre)) ?r (s + 7)"
      by (subst readUvarint_loop.simps) (use at hi less.prems in \<open>simp add: lo or_push_bit Let_def del: push_bit_and\<close>)
    also have "\<dots> = readUvarint_loop (?pre @ uvarint_loop (n div 128) @ post) (length ?pre) ?r (s + 7)"
      by (simp only: split) simp
    also have "\<dots> = (?r + n div 128 * 2 ^ (s + 7), length ?pre + length (uvarint_loop (n div 128)))"
      using False bound by (intro less.IH) simp_all
    also have "?r + n div 128 * 2 ^ (s + 7) = r + n * 2 ^ s"
    proof -
      have "n = n mod 128 + n div 128 * 128" by simp
      then have "n * 2 ^ s = n mod 128 * 2 ^ s + n div 128 * 128 * 2 ^ s"
        by (metis add_mult_distrib)
      then show ?thesis by (simp add: power_add)
    qed
    also have "length ?pre + length (uvarint_loop (n div 128)) = length pre + length (uvarint_loop n)"
      using False by (simp add: uvarint_loop_unfold [of n])
    finally show ?thesis .
  qed
qed

lemma readUvarint_append:
  "readUvarint (pre @ uvarint_loop n @ post) (length pre) = (n, length pre + length (uvarint_loop n))"
  using readUvarint_loop_uvarint [of 0 0 pre n post] by (simp add: readUvarint_def)

section \<open>Tokens\<close>

text \<open>
  The bytes of one token, and what a list of tokens must satisfy to be what an encoder writes:
  wire type 0 carries a varint, wire type 2 a run of bytes.
\<close>

definition tag_of :: "nat \<Rightarrow> nat \<Rightarrow> nat" where
  "tag_of f w = 8 * f + w"

lemma tag_of_split [simp]: "w < 8 \<Longrightarrow> tag_of f w mod 8 = w" "w < 8 \<Longrightarrow> tag_of f w div 8 = f"
  by (simp_all add: tag_of_def)

fun token_bytes :: "field \<Rightarrow> bytes" where
  "token_bytes (f, w, VInt n) = uvarint_loop (tag_of f 0) @ uvarint_loop n"
| "token_bytes (f, w, VBytes b) = uvarint_loop (tag_of f 2) @ uvarint_loop (length b) @ b"

definition tokens :: "field list \<Rightarrow> bytes" where
  "tokens ts = concat (map token_bytes ts)"

fun token_ok :: "field \<Rightarrow> bool" where
  "token_ok (f, w, VInt n) \<longleftrightarrow> f < 2 ^ 29 \<and> w = 0"
| "token_ok (f, w, VBytes b) \<longleftrightarrow> f < 2 ^ 29 \<and> w = 2"

lemma tokens_simps [simp]:
  "tokens [] = []" "tokens (t # ts) = token_bytes t @ tokens ts" "tokens (ts @ us) = tokens ts @ tokens us"
  by (simp_all add: tokens_def)

lemma token_bytes_nonempty [simp]: "token_bytes t \<noteq> []"
  by (cases t rule: token_bytes.cases) simp_all

lemma tokens_eq_Nil [simp]: "tokens ts = [] \<longleftrightarrow> ts = []"
  by (cases ts) simp_all

lemma and_7: "n AND 7 = n mod 8" for n :: nat
  using take_bit_eq_mask [of 3 n] by (simp add: take_bit_eq_mod mask_eq_exp_minus_1)

lemma parse_from_token:
  assumes "token_ok t" and "length (token_bytes t) < 2 ^ 53"
  shows "parse_from (pre @ token_bytes t @ post) (length pre)
    = andThen (parse_from (pre @ token_bytes t @ post) (length pre + length (token_bytes t)))
        (\<lambda>out. Inr (t # out))"
proof -
  define d where "d = pre @ token_bytes t @ post"
  have d: "length pre < length d" by (simp add: d_def)
  have "parse_from d (length pre)
      = andThen (parse_from d (length pre + length (token_bytes t))) (\<lambda>out. Inr (t # out))"
  proof (cases t rule: token_bytes.cases)
    case (1 f w n)
    let ?tag = "uvarint_loop (tag_of f 0)"
    have a: "readUvarint d (length pre) = (tag_of f 0, length pre + length ?tag)"
      using readUvarint_append [of pre "tag_of f 0" "uvarint_loop n @ post"] 1 by (simp add: d_def)
    have b: "readUvarint d (length pre + length ?tag) = (n, length pre + length (token_bytes t))"
      using readUvarint_append [of "pre @ ?tag" n post] 1 by (simp add: d_def)
    show ?thesis
      using assms(1) 1 d by (subst parse_from.simps) (simp add: a b and_7 drop_bit_eq_div)
  next
    case (2 f w c)
    let ?tag = "uvarint_loop (tag_of f 2)" and ?len = "uvarint_loop (length c)"
    have a: "readUvarint d (length pre) = (tag_of f 2, length pre + length ?tag)"
      using readUvarint_append [of pre "tag_of f 2" "?len @ c @ post"] 2 by (simp add: d_def)
    have b: "readUvarint d (length pre + length ?tag) = (length c, length pre + length ?tag + length ?len)"
      using readUvarint_append [of "pre @ ?tag" "length c" "c @ post"] 2 by (simp add: d_def)
    have c: "take (length c) (drop (length pre + length ?tag + length ?len) d) = c"
      using 2 by (simp add: d_def)
    have n: "length c < 2 ^ 53" using assms(2) 2 by simp
    show ?thesis
      using assms(1) 2 d n c
      by (subst parse_from.simps) (simp add: a b and_7 drop_bit_eq_div add.assoc Let_def)
  qed
  then show ?thesis by (simp add: d_def)
qed

lemma parse_from_tokens:
  "list_all token_ok ts \<Longrightarrow> length (tokens ts) < 2 ^ 53 \<Longrightarrow>
    parse_from (pre @ tokens ts) (length pre) = Inr ts"
proof (induction ts arbitrary: pre)
  case Nil
  show ?case by (subst parse_from.simps) simp
next
  case (Cons t ts)
  from Cons.prems have "length (token_bytes t) < 2 ^ 53" by simp
  with Cons.prems have "parse_from (pre @ tokens (t # ts)) (length pre)
      = andThen (parse_from ((pre @ token_bytes t) @ tokens ts) (length (pre @ token_bytes t)))
          (\<lambda>out. Inr (t # out))"
    using parse_from_token [of t pre "tokens ts"] by simp
  also have "parse_from ((pre @ token_bytes t) @ tokens ts) (length (pre @ token_bytes t)) = Inr ts"
    using Cons.prems by (intro Cons.IH) simp_all
  finally show ?case by simp
qed

lemma parseFields_tokens:
  "list_all token_ok ts \<Longrightarrow> length (tokens ts) < 2 ^ 53 \<Longrightarrow> parseFields (tokens ts) = Inr ts"
  using parse_from_tokens [of ts "[]"] by (simp add: parseFields_def)


section \<open>The encoders as token lists\<close>

definition vtok :: "nat \<Rightarrow> int option \<Rightarrow> field list" where
  "vtok f v = (case v of None \<Rightarrow> [] | Some x \<Rightarrow> [(f, 0, VInt (u64 x))])"

definition btok :: "nat \<Rightarrow> bytes \<Rightarrow> field list" where
  "btok f d = (if d = [] then [] else [(f, 2, VBytes d)])"

definition stok :: "nat \<Rightarrow> ustr option \<Rightarrow> field list" where
  "stok f s = (case s of None \<Rightarrow> [] | Some t \<Rightarrow> btok f (utf8_encode t))"

definition booltok :: "nat \<Rightarrow> bool option \<Rightarrow> field list" where
  "booltok f b = vtok f (map_option (\<lambda>b. if b then 1 else 0) b)"

lemma u64_nat [simp]: "0 \<le> v \<Longrightarrow> u64 v = nat v" "u64 (int n) = n"
  by (simp_all add: u64_def)

lemma push_bit_3 [simp]: "push_bit 3 f = tag_of f 0" for f :: nat
  by (simp add: push_bit_eq_mult tag_of_def)

lemma or_2: "tag_of f 0 OR 2 = tag_of f 2" for f :: nat
  using or_push_bit [of 2 3 f] by (simp add: tag_of_def push_bit_eq_mult or.commute mult.commute)

lemma fieldVarint_tokens [token_simps]: "fieldVarint f v = tokens (vtok f v)"
  by (simp add: fieldVarint_def vtok_def uvarint_def split: option.split)

lemma fieldBytes_tokens: "fieldBytes f (Some d) = tokens (btok f d)" "fieldBytes f None = []"
  by (simp_all add: fieldBytes_def btok_def uvarint_def or_2)

definition opt_bytes :: "bytes option \<Rightarrow> bytes" where
  "opt_bytes d = (case d of None \<Rightarrow> [] | Some b \<Rightarrow> b)"

lemma fieldBytes_option_tokens [token_simps]: "fieldBytes f d = tokens (btok f (opt_bytes d))"
  by (simp add: fieldBytes_tokens btok_def opt_bytes_def split: option.split)

lemma fieldMsg_tokens [token_simps]: "fieldMsg f (Some d) = tokens (btok f d)" "fieldMsg f None = []"
  by (simp_all add: fieldMsg_def fieldBytes_tokens)

lemma fieldString_tokens [token_simps]: "fieldString f s = tokens (stok f s)"
  by (simp add: fieldString_def stok_def fieldBytes_tokens btok_def split: option.split)

lemma fieldBool_tokens [token_simps]: "fieldBool f b = tokens (booltok f b)"
  by (simp add: fieldBool_def booltok_def fieldVarint_tokens vtok_def split: option.split)

lemma concat_map_tokens [token_simps]:
  "concat (map (\<lambda>x. tokens (g x)) xs) = tokens (concat (map g xs))"
  by (induction xs) simp_all

text \<open>Appending token runs: the shape in which the message encoders are put.\<close>

lemma tokens_append_sym [token_simps]: "tokens ts @ tokens us = tokens (ts @ us)"
  by simp

lemma toks_ok [simp]:
  "f < 2 ^ 29 \<Longrightarrow> list_all token_ok (vtok f v)"
  "f < 2 ^ 29 \<Longrightarrow> list_all token_ok (btok f d)"
  "f < 2 ^ 29 \<Longrightarrow> list_all token_ok (stok f s)"
  "f < 2 ^ 29 \<Longrightarrow> list_all token_ok (booltok f b)"
  by (simp_all add: vtok_def btok_def stok_def booltok_def split: option.split)

lemma list_all_concat_map: "list_all P (concat (map g xs)) \<longleftrightarrow> list_all (\<lambda>x. list_all P (g x)) xs"
  by (induction xs) simp_all

text \<open>The accessors on token runs.\<close>

lemma first_append [decode_simps]:
  "first (ts @ us) n = (case first ts n of None \<Rightarrow> first us n | Some v \<Rightarrow> Some v)"
  by (induction ts n rule: first.induct) simp_all

lemma first_vtok [decode_simps]:
  "first (vtok f v) n = (if f = n then map_option (\<lambda>x. VInt (u64 x)) v else None)"
  by (simp add: vtok_def split: option.split)

lemma first_btok [decode_simps]:
  "first (btok f d) n = (if f = n \<and> d \<noteq> [] then Some (VBytes d) else None)"
  by (simp add: btok_def)

lemma first_stok [decode_simps]:
  "first (stok f s) n =
     (if f = n \<and> s \<noteq> None \<and> s \<noteq> Some [] then Some (VBytes (utf8_encode (the s))) else None)"
  by (auto simp add: stok_def btok_def split: option.split)

lemma first_booltok [decode_simps]:
  "first (booltok f b) n = (if f = n then map_option (\<lambda>b. VInt (if b then 1 else 0)) b else None)"
  by (auto simp add: booltok_def vtok_def split: option.split)

lemma first_concat_other [decode_simps]:
  "(\<And>x. x \<in> set xs \<Longrightarrow> first (g x) n = None) \<Longrightarrow> first (concat (map g xs)) n = None"
  by (induction xs) (simp_all add: first_append)

definition with_number :: "field list \<Rightarrow> nat \<Rightarrow> field list" where
  "with_number ts n = filter (\<lambda>(number, wire, value). number = n) ts"

lemma with_number_append [decode_simps]: "with_number (ts @ us) n = with_number ts n @ with_number us n"
  by (simp add: with_number_def)

lemma with_number_toks [decode_simps]:
  "with_number (vtok f v) n = (if f = n then vtok f v else [])"
  "with_number (btok f d) n = (if f = n then btok f d else [])"
  "with_number (stok f s) n = (if f = n then stok f s else [])"
  "with_number (booltok f b) n = (if f = n then booltok f b else [])"
  "with_number [] n = []"
  by (auto simp: with_number_def vtok_def btok_def stok_def booltok_def split: option.split)

lemma with_number_concat_same:
  "(\<And>x. x \<in> set xs \<Longrightarrow> with_number (g x) n = g x) \<Longrightarrow> with_number (concat (map g xs)) n = concat (map g xs)"
  by (induction xs) (simp_all add: with_number_def)

lemma with_number_concat_other:
  "(\<And>x. x \<in> set xs \<Longrightarrow> with_number (g x) n = []) \<Longrightarrow> with_number (concat (map g xs)) n = []"
  by (induction xs) (simp_all add: with_number_def)

lemma strings_with_number: "strings ts n = mapM (\<lambda>(number, wire, value). value_string value) (with_number ts n)"
  by (simp add: strings_def with_number_def)

lemma uints_with_number: "uints ts n = mapM (\<lambda>(number, wire, value). value_number value) (with_number ts n)"
  by (simp add: uints_def with_number_def)

lemma mapM_stoks:
  "list_all valid_ustr ss \<Longrightarrow>
    mapM (\<lambda>(number, wire, value). value_string value) (concat (map (\<lambda>s. stok f (Some s)) ss))
      = Inr (filter (\<lambda>s. s \<noteq> []) ss)"
  by (induction ss) (auto simp: stok_def btok_def)

lemma len_values_append [decode_simps]: "len_values n (ts @ us) = len_values n ts @ len_values n us"
  by (induction n ts rule: len_values.induct) simp_all

lemma len_values_toks [decode_simps]:
  "len_values n (vtok f v) = []"
  "len_values n (btok f d) = (if f = n \<and> d \<noteq> [] then [d] else [])"
  "len_values n (stok f s) = (if f = n \<and> s \<noteq> None \<and> s \<noteq> Some [] then [utf8_encode (the s)] else [])"
  "len_values n (booltok f b) = []"
  by (auto simp: vtok_def btok_def stok_def booltok_def split: option.split)

lemma len_values_concat: "len_values n (concat (map g xs)) = concat (map (\<lambda>x. len_values n (g x)) xs)"
  by (induction xs) (simp_all add: len_values_append)

lemma len_values_other: "with_number ts n = [] \<Longrightarrow> len_values n ts = []"
  by (induction n ts rule: len_values.induct) (auto simp: with_number_def split: if_splits)

text \<open>A nested message whose bytes are empty is not written at all.\<close>

lemma stok_string_of [decode_simps]:
  "valid_ustr s \<Longrightarrow> value_string (VBytes (utf8_encode s)) = Inr s"
  by simp


text \<open>A number in the exact range survives the detour through \<open>BigInt\<close> and back.\<close>

definition safe_nat :: "int \<Rightarrow> bool" where
  "safe_nat v \<longleftrightarrow> 0 \<le> v \<and> v < 2 ^ 53"

lemma js_Number_u64 [simp]: "safe_nat v \<Longrightarrow> int (js_Number (u64 v)) = v"
proof -
  assume v: "safe_nat v"
  then have "nat v < 2 ^ 53" by (simp add: safe_nat_def nat_less_iff)
  with v show ?thesis by (simp add: safe_nat_def)
qed

lemma js_Number_01 [simp]: "js_Number 0 = 0" "js_Number 1 = 1" "js_Number (Suc 0) = 1"
  by simp_all

section \<open>Rounding of large varints\<close>

lemma bitlen_eq: "2 ^ m \<le> n \<Longrightarrow> n < 2 ^ Suc m \<Longrightarrow> bitlen n = Suc m"
proof (induction m arbitrary: n)
  case 0
  then have "n = 1" by simp
  then show ?case by (simp add: bitlen.simps)
next
  case (Suc m)
  then have "2 ^ m \<le> n div 2" "n div 2 < 2 ^ Suc m" by auto
  then have "bitlen (n div 2) = Suc m" by (rule Suc.IH)
  moreover have "n \<noteq> 0" using Suc.prems by (metis not_less power_eq_0_iff zero_neq_numeral less_numeral_extra(3) le_zero_eq)
  ultimately show ?case by (subst bitlen.simps) simp
qed

text \<open>
  The 64-bit image of a small negative number: doubles just below \<open>2 ^ 64\<close> are 2048 apart, so
  every number from -1024 to -1 is rounded to \<open>2 ^ 64\<close>.
\<close>

lemma js_Number_small_negative:
  assumes "- 1024 \<le> v" and "v < 0"
  shows "js_Number (u64 v) = 2 ^ 64"
proof -
  define k where "k = nat (- v)"
  have k: "0 < k" "k \<le> 1024" using assms by (auto simp: k_def)
  define q where "q = (2 ^ 53 - 1 :: nat)"
  define r where "r = 2048 - k"
  have u: "u64 v = q * 2048 + r"
    using assms by (simp add: u64_def q_def r_def k_def nat_diff_distrib nat_eq_iff)
  have len: "bitlen (u64 v) = 64"
    using bitlen_eq [of 63 "u64 v"] k by (simp add: u q_def r_def)
  have "r < 2048" using k by (simp add: r_def)
  then have parts: "u64 v div 2048 = q" "u64 v mod 2048 = r" by (simp_all add: u)
  have big: "2 ^ 53 \<le> u64 v" by (simp add: u q_def)
  have "odd q" by (simp add: q_def)
  moreover have "1024 < r \<or> r = 1024" using k by (auto simp: r_def)
  ultimately have "js_Number (u64 v) = Suc q * 2048"
    using parts big len by (auto simp: js_Number_def Let_def)
  then show ?thesis by (simp add: q_def)
qed


section \<open>Repeated nested messages\<close>

text \<open>
  The contract of a nested message: what its encoder writes, its decoder reads. From it follow,
  for any such message, the round trips of a repeated field (\<open>children\<close>, \<open>patches\<close>) and of a
  map field (\<open>props\<close>, \<open>features\<close>). An element whose encoding is empty is not written, so it is
  missing from what is read back.
\<close>

locale msg_codec =
  fixes enc :: "'a \<Rightarrow> bytes"
    and dec :: "bytes \<Rightarrow> wire_error + 'b"
    and norm :: "'a \<Rightarrow> 'b"
    and ok :: "'a \<Rightarrow> bool"
  assumes dec_enc: "ok a \<Longrightarrow> dec (enc a) = Inr (norm a)"
begin

lemma repeated:
  "list_all ok xs \<Longrightarrow>
    mapM dec (len_values n (concat (map (\<lambda>x. btok n (enc x)) xs)))
      = Inr (map norm (filter (\<lambda>x. enc x \<noteq> []) xs))"
  by (induction xs) (simp_all add: len_values_append len_values_toks dec_enc)

end

text \<open>
  Map entries: a message with the key in field 1 and the value in field 2, collected into an
  object whose later entries win.
\<close>

locale entry_codec = msg_codec enc dec norm ok
  for enc :: "ustr \<times> 'v \<Rightarrow> bytes" and dec :: "bytes \<Rightarrow> wire_error + ustr \<times> 'v"
    and norm :: "ustr \<times> 'v \<Rightarrow> ustr \<times> 'v" and ok :: "ustr \<times> 'v \<Rightarrow> bool" +
  assumes norm_id: "norm e = e"
begin

lemma collected:
  "list_all ok es \<Longrightarrow>
    obj_fold dec (len_values n (concat (map (\<lambda>e. btok n (enc e)) es))) out
      = Inr (foldl (\<lambda>ob (k, v). obj_set k v ob) out (filter (\<lambda>e. enc e \<noteq> []) es))"
proof (induction es arbitrary: out)
  case Nil
  show ?case by simp
next
  case (Cons e es)
  obtain k v where "e = (k, v)" by (cases e)
  with Cons show ?case
    by (simp add: len_values_append len_values_toks dec_enc norm_id)
qed

end

lemma obj_put_new: "k \<notin> fst ` set kvs \<Longrightarrow> obj_put k v kvs = kvs @ [(k, v)]"
  by (induction kvs) (auto split: prod.splits)

lemma foldl_obj_set_append:
  assumes "distinct (map fst (out @ es))" and "asc ''__proto__'' \<notin> fst ` set es"
  shows "foldl (\<lambda>ob (k, v). obj_set k v ob) out es = out @ es"
  using assms
proof (induction es arbitrary: out)
  case Nil
  show ?case by simp
next
  case (Cons e es)
  obtain k v where e: "e = (k, v)" by (cases e)
  have "obj_set k v out = out @ [(k, v)]"
    using Cons.prems e by (auto simp: obj_set_def intro!: obj_put_new)
  moreover have "foldl (\<lambda>ob (k, v). obj_set k v ob) (out @ [(k, v)]) es = (out @ [(k, v)]) @ es"
    using Cons.prems e by (intro Cons.IH) auto
  ultimately show ?case using e by simp
qed

definition string_entry :: "ustr \<times> ustr \<Rightarrow> bytes" where
  "string_entry e = fieldString 1 (Some (fst e)) @ fieldString 2 (Some (snd e))"

definition bool_entry :: "ustr \<times> bool \<Rightarrow> bytes" where
  "bool_entry e = fieldString 1 (Some (fst e)) @ fieldBool 2 (Some (snd e))"

lemma string_entry_tokens: "string_entry e = tokens (stok 1 (Some (fst e)) @ stok 2 (Some (snd e)))"
  by (simp add: string_entry_def fieldString_tokens)

lemma bool_entry_tokens: "bool_entry e = tokens (stok 1 (Some (fst e)) @ booltok 2 (Some (snd e)))"
  by (simp add: bool_entry_def fieldString_tokens fieldBool_tokens)

definition string_entry_ok :: "ustr \<times> ustr \<Rightarrow> bool" where
  "string_entry_ok e \<longleftrightarrow> valid_ustr (fst e) \<and> valid_ustr (snd e) \<and> length (string_entry e) < 2 ^ 53"

definition bool_entry_ok :: "ustr \<times> bool \<Rightarrow> bool" where
  "bool_entry_ok e \<longleftrightarrow> valid_ustr (fst e) \<and> length (bool_entry e) < 2 ^ 53"

interpretation se: entry_codec string_entry parseMapStringString id string_entry_ok
proof
  fix e :: "ustr \<times> ustr"
  assume ok: "string_entry_ok e"
  then have "parseFields (string_entry e) = Inr (stok 1 (Some (fst e)) @ stok 2 (Some (snd e)))"
    unfolding string_entry_tokens
    by (intro parseFields_tokens) (simp_all add: string_entry_ok_def string_entry_tokens)
  with ok show "parseMapStringString (string_entry e) = Inr (id e)"
    by (cases e) (auto simp: parseMapStringString_def string_of_def string_entry_ok_def decode_simps)
qed simp

interpretation be: entry_codec bool_entry parseMapStringBool id bool_entry_ok
proof
  fix e :: "ustr \<times> bool"
  assume ok: "bool_entry_ok e"
  then have "parseFields (bool_entry e) = Inr (stok 1 (Some (fst e)) @ booltok 2 (Some (snd e)))"
    unfolding bool_entry_tokens
    by (intro parseFields_tokens) (simp_all add: bool_entry_ok_def bool_entry_tokens)
  with ok show "parseMapStringBool (bool_entry e) = Inr (id e)"
    by (cases e) (auto simp: parseMapStringBool_def string_of_def bool_of_def uint_of_def bool_entry_ok_def decode_simps)
qed simp

lemma fieldMapStringString_tokens:
  "fieldMapStringString n m = tokens (concat (map (\<lambda>e. btok n (string_entry e)) (sorted_entries m)))"
  by (simp add: fieldMapStringString_def string_entry_def fieldMsg_tokens concat_map_tokens case_prod_unfold)

lemma fieldMapStringBool_tokens:
  "fieldMapStringBool n m = tokens (concat (map (\<lambda>e. btok n (bool_entry e)) (sorted_entries m)))"
  by (simp add: fieldMapStringBool_def bool_entry_def fieldMsg_tokens concat_map_tokens case_prod_unfold)

lemma set_sorted_entries [simp]: "set (sorted_entries m) = set m"
  by (simp add: sorted_entries_def)

lemma mset_sorted_entries [simp]: "mset (sorted_entries m) = mset m"
  by (simp add: sorted_entries_def)

lemma distinct_sorted_entries [simp]:
  "distinct (map fst (sorted_entries m)) \<longleftrightarrow> distinct (map fst m)"
  by (metis mset_map mset_sorted_entries distinct_count_atmost_1 mset_eq_imp_distinct_iff)

lemma map_of_sorted_entries: "distinct (map fst m) \<Longrightarrow> map_of (sorted_entries m) = map_of m"
  by (metis map_of_inject_set distinct_sorted_entries set_sorted_entries)

lemma bool_entry_nonempty [simp]: "bool_entry e \<noteq> []"
  by (simp add: bool_entry_tokens booltok_def vtok_def)

lemma string_entry_eq_Nil [simp]: "string_entry e = [] \<longleftrightarrow> e = ([], [])"
  by (cases e) (auto simp: string_entry_tokens stok_def btok_def)


text \<open>Evaluating the encoders on closed terms.\<close>

lemmas wire_eval = fieldString_def fieldBytes_def fieldVarint_def fieldBool_def fieldMsg_def
  uvarint_def u64_def utf8_char_def uvarint_loop_unfold or_2

end
