(* ===== verification/WireMessages.thy ===== *)
theory WireMessages
  imports WireCodec
begin

text \<open>
  The messages a layout program exchanges with its host, from \<open>wire.js\<close>: the decoders of HELLO,
  EVENT, RESPONSE and STREAM and the encoders of RESULT and STREAM. Every decoder is the
  source's, with the fields in its order; an exception of an accessor ends the decoding.
\<close>

section \<open>HELLO\<close>

record limits =
  max_nodes :: int
  max_message_bytes :: int
  max_paste_bytes :: int
  max_inflight_requests :: int
  owner_lease_ttl_ms :: int

record hello =
  schema :: int
  view_id :: ustr
  hello_epoch :: int
  hello_cols :: int
  hello_rows :: int
  components :: "ustr list"
  events :: "ustr list"
  methods :: "ustr list"
  features :: "(ustr \<times> bool) list"
  hello_limits :: "limits option"

definition parseLimits :: "bytes \<Rightarrow> wire_error + limits" where
  "parseLimits data =
     andThen (parseFields data) (\<lambda>fs.
     andThen (uint_of fs 1) (\<lambda>a.
     andThen (uint_of fs 2) (\<lambda>b.
     andThen (uint_of fs 3) (\<lambda>c.
     andThen (uint_of fs 4) (\<lambda>d.
     andThen (uint_of fs 5) (\<lambda>e.
       Inr \<lparr>max_nodes = a, max_message_bytes = b, max_paste_bytes = c,
            max_inflight_requests = d, owner_lease_ttl_ms = e\<rparr>))))))"

text \<open>The loop over the fields: each entry of field 9 is assigned to \<open>features\<close>, the last field 10 wins.\<close>

fun hello_fields :: "field list \<Rightarrow> hello \<Rightarrow> wire_error + hello" where
  "hello_fields [] h = Inr h"
| "hello_fields ((f, w, VBytes b) # fs) h =
     (if f = 9 \<and> w = WIRE_LEN then
        andThen (parseMapStringBool b) (\<lambda>(k, v). hello_fields fs (h\<lparr>features := obj_set k v (features h)\<rparr>))
      else if f = 10 \<and> w = WIRE_LEN then
        andThen (parseLimits b) (\<lambda>l. hello_fields fs (h\<lparr>hello_limits := Some l\<rparr>))
      else hello_fields fs h)"
| "hello_fields ((f, w, VInt n) # fs) h = hello_fields fs h"

definition decodeHello :: "bytes \<Rightarrow> wire_error + hello" where
  "decodeHello data =
     andThen (parseFields data) (\<lambda>fs.
     andThen (uint_of fs 1) (\<lambda>sc.
     andThen (string_of fs 2) (\<lambda>vid.
     andThen (uint_of fs 3) (\<lambda>ep.
     andThen (uint_of fs 4) (\<lambda>cs.
     andThen (uint_of fs 5) (\<lambda>rs.
     andThen (strings fs 6) (\<lambda>co.
     andThen (strings fs 7) (\<lambda>ev.
     andThen (strings fs 8) (\<lambda>me.
       hello_fields fs
         \<lparr>schema = sc, view_id = vid, hello_epoch = ep, hello_cols = cs, hello_rows = rs,
          components = co, events = ev, methods = me, features = [], hello_limits = None\<rparr>)))))))))"

section \<open>EVENT\<close>

record source =
  src_id :: ustr
  src_kind :: ustr
  src_title :: ustr
  src_endpoint :: ustr
  src_terminal_id :: ustr
  src_attached :: bool
  src_exited :: bool
  src_exit_code :: int
  src_health :: ustr
  src_resize_owner :: ustr
  src_owner_epoch :: int
  src_last_seen_ms :: int
  src_cols :: int
  src_rows :: int
  src_tags :: "(ustr \<times> ustr) list"
  src_endpoint_label :: ustr
  src_last_output_ms :: int

datatype event =
    KeyEvent (ev_id: ustr) (ev_key: ustr) (ev_char: ustr)
  | PasteEvent ustr ustr
  | MouseEvent ustr ustr int int ustr
  | WheelEvent int int int ustr
  | ResizeEvent int int
  | SourcesEvent "source list"
  | NoticeEvent ustr ustr
  | ComponentEvent ustr ustr ustr
  | ViewRejectedEvent int int ustr
  | UnknownEvent

definition int32_of :: "field list \<Rightarrow> nat \<Rightarrow> wire_error + int" where
  "int32_of fs field = andThen (uint_of fs field) (\<lambda>n. Inr (toInt32 n))"

definition int64_of :: "field list \<Rightarrow> nat \<Rightarrow> wire_error + int" where
  "int64_of fs field = andThen (uint_of fs field) (\<lambda>n. Inr (toInt64 n))"

definition parseSource :: "bytes \<Rightarrow> wire_error + source" where
  "parseSource data =
     andThen (parseFields data) (\<lambda>fs.
     andThen (string_of fs 1) (\<lambda>i.
     andThen (string_of fs 2) (\<lambda>k.
     andThen (string_of fs 3) (\<lambda>t.
     andThen (string_of fs 4) (\<lambda>e.
     andThen (string_of fs 5) (\<lambda>tid.
     andThen (bool_of fs 6) (\<lambda>att.
     andThen (bool_of fs 7) (\<lambda>ex.
     andThen (int32_of fs 8) (\<lambda>code.
     andThen (string_of fs 9) (\<lambda>hl.
     andThen (string_of fs 10) (\<lambda>own.
     andThen (uint_of fs 11) (\<lambda>oe.
     andThen (int64_of fs 12) (\<lambda>seen.
     andThen (int32_of fs 13) (\<lambda>cs.
     andThen (int32_of fs 14) (\<lambda>rs.
     andThen (stringMap fs 15) (\<lambda>tags.
     andThen (string_of fs 16) (\<lambda>lbl.
     andThen (int64_of fs 17) (\<lambda>out.
       Inr \<lparr>src_id = i, src_kind = k, src_title = t, src_endpoint = e, src_terminal_id = tid,
            src_attached = att, src_exited = ex, src_exit_code = code, src_health = hl,
            src_resize_owner = own, src_owner_epoch = oe, src_last_seen_ms = seen,
            src_cols = cs, src_rows = rs, src_tags = tags, src_endpoint_label = lbl,
            src_last_output_ms = out\<rparr>))))))))))))))))))"

text \<open>The body of the loop of \<open>decodeEvent\<close>: \<open>None\<close> when the field is of no known event.\<close>

definition event_of_field :: "nat \<Rightarrow> field list \<Rightarrow> wire_error + event option" where
  "event_of_field field inner =
     (if field = 1 then
        andThen (string_of inner 1) (\<lambda>i. andThen (string_of inner 2) (\<lambda>k.
        andThen (string_of inner 3) (\<lambda>c. Inr (Some (KeyEvent i k c)))))
      else if field = 2 then
        andThen (string_of inner 1) (\<lambda>i. andThen (string_of inner 2) (\<lambda>t. Inr (Some (PasteEvent i t))))
      else if field = 3 then
        andThen (string_of inner 1) (\<lambda>a. andThen (string_of inner 2) (\<lambda>b.
        andThen (int32_of inner 3) (\<lambda>x. andThen (int32_of inner 4) (\<lambda>y.
        andThen (string_of inner 5) (\<lambda>n. Inr (Some (MouseEvent a b x y n)))))))
      else if field = 4 then
        andThen (int32_of inner 1) (\<lambda>d. andThen (int32_of inner 2) (\<lambda>x.
        andThen (int32_of inner 3) (\<lambda>y. andThen (string_of inner 4) (\<lambda>n.
        Inr (Some (WheelEvent d x y n))))))
      else if field = 5 then
        andThen (uint_of inner 1) (\<lambda>c. andThen (uint_of inner 2) (\<lambda>r. Inr (Some (ResizeEvent c r))))
      else if field = 6 then
        andThen (mapM parseSource (len_values 1 inner)) (\<lambda>items. Inr (Some (SourcesEvent items)))
      else if field = 7 then
        andThen (string_of inner 1) (\<lambda>l. andThen (string_of inner 2) (\<lambda>m. Inr (Some (NoticeEvent l m))))
      else if field = 8 then
        andThen (string_of inner 1) (\<lambda>s. andThen (string_of inner 2) (\<lambda>n.
        andThen (string_of inner 3) (\<lambda>v. Inr (Some (ComponentEvent s n v)))))
      else if field = 9 then
        andThen (uint_of inner 1) (\<lambda>e. andThen (uint_of inner 2) (\<lambda>r.
        andThen (string_of inner 3) (\<lambda>s. Inr (Some (ViewRejectedEvent e r s)))))
      else Inr None)"

fun event_fields :: "field list \<Rightarrow> wire_error + event" where
  "event_fields [] = Inr UnknownEvent"
| "event_fields ((field, wire, VBytes value) # fs) =
     (if wire \<noteq> WIRE_LEN then event_fields fs
      else andThen (parseFields value) (\<lambda>inner.
           andThen (event_of_field field inner) (\<lambda>r.
             case r of Some e \<Rightarrow> Inr e | None \<Rightarrow> event_fields fs)))"
| "event_fields ((field, wire, VInt n) # fs) = event_fields fs"

definition decodeEvent :: "bytes \<Rightarrow> wire_error + event" where
  "decodeEvent data = andThen (parseFields data) event_fields"

section \<open>RESPONSE\<close>

text \<open>\<open>first(fields, n) || Buffer.alloc(0)\<close>: a missing field and a varint 0 both give the empty buffer.\<close>

definition bytes_or_empty :: "field list \<Rightarrow> nat \<Rightarrow> fval" where
  "bytes_or_empty fs n =
     (case first fs n of
        None \<Rightarrow> VBytes []
      | Some (VInt k) \<Rightarrow> if k = 0 then VBytes [] else VInt k
      | Some (VBytes b) \<Rightarrow> VBytes b)"

record method_data =
  md_rows :: "ustr list"
  md_text :: ustr
  md_endpoint :: ustr
  md_id :: ustr
  md_access_result :: fval
  md_offset :: int
  md_found :: bool
  md_wrapped :: bool
  md_match_start :: int
  md_match_end :: int

record response =
  rsp_request_id :: int
  rsp_epoch :: int
  rsp_ok :: bool
  rsp_data :: "method_data option"
  rsp_error :: ustr

definition parse_method_data :: "bytes \<Rightarrow> wire_error + method_data" where
  "parse_method_data data =
     andThen (parseFields data) (\<lambda>fs.
     andThen (strings fs 1) (\<lambda>rs.
     andThen (string_of fs 2) (\<lambda>t.
     andThen (string_of fs 3) (\<lambda>e.
     andThen (string_of fs 4) (\<lambda>i.
     andThen (uint_of fs 6) (\<lambda>off.
     andThen (uint_of fs 7) (\<lambda>fnd.
     andThen (uint_of fs 8) (\<lambda>wr.
     andThen (uint_of fs 9) (\<lambda>ms.
     andThen (uint_of fs 10) (\<lambda>me.
       Inr \<lparr>md_rows = rs, md_text = t, md_endpoint = e, md_id = i,
            md_access_result = bytes_or_empty fs 5, md_offset = off, md_found = (fnd \<noteq> 0),
            md_wrapped = (wr \<noteq> 0), md_match_start = ms, md_match_end = me\<rparr>))))))))))"

fun last_data :: "bytes list \<Rightarrow> method_data option \<Rightarrow> wire_error + method_data option" where
  "last_data [] d = Inr d"
| "last_data (b # bs) d = andThen (parse_method_data b) (\<lambda>m. last_data bs (Some m))"

definition decodeResponse :: "bytes \<Rightarrow> wire_error + response" where
  "decodeResponse data =
     andThen (parseFields data) (\<lambda>fs.
     andThen (uint_of fs 1) (\<lambda>rid.
     andThen (uint_of fs 2) (\<lambda>ep.
     andThen (bool_of fs 3) (\<lambda>okv.
     andThen (string_of fs 5) (\<lambda>err.
     andThen (last_data (len_values 4 fs) None) (\<lambda>d.
       Inr \<lparr>rsp_request_id = rid, rsp_epoch = ep, rsp_ok = okv, rsp_data = d, rsp_error = err\<rparr>))))))"

section \<open>STREAM\<close>

record stream_frame =
  stream_id :: int
  stream_kind :: ustr
  stream_payload :: "bytes option"
  stream_offset :: "int option"
  stream_error :: "ustr option"
  wire_type :: "int option"

record stream_in =
  in_stream_id :: int
  in_kind :: ustr
  in_payload :: fval
  in_offset :: int
  in_error :: ustr
  in_wire_type :: int

definition decodeStream :: "bytes \<Rightarrow> wire_error + stream_in" where
  "decodeStream data =
     andThen (parseFields data) (\<lambda>fs.
     andThen (uint_of fs 1) (\<lambda>sid.
     andThen (string_of fs 2) (\<lambda>k.
     andThen (uint_of fs 4) (\<lambda>off.
     andThen (string_of fs 5) (\<lambda>err.
     andThen (uint_of fs 6) (\<lambda>wt.
       Inr \<lparr>in_stream_id = sid, in_kind = k, in_payload = bytes_or_empty fs 3, in_offset = off,
            in_error = err, in_wire_type = wt\<rparr>))))))"

definition encodeStream :: "stream_frame \<Rightarrow> bytes" where
  "encodeStream f =
     fieldVarint 1 (Some (stream_id f)) @ fieldString 2 (Some (stream_kind f)) @
     fieldBytes 3 (stream_payload f) @ fieldVarint 4 (stream_offset f) @
     fieldString 5 (stream_error f) @ fieldVarint 6 (wire_type f)"

section \<open>RESULT\<close>

record selection =
  sel_mode :: "ustr option"
  sel_start :: "int option"
  sel_end :: "int option"

record params =
  p_endpoint :: "ustr option"
  p_id :: "ustr option"
  p_fit :: "bool option"
  p_expected_owner_epoch :: "int option"
  p_argv :: "ustr list"
  p_cwd :: "ustr option"
  p_env :: "(ustr \<times> ustr) list"
  p_title :: "ustr option"
  p_ephemeral :: "bool option"
  p_delta :: "int option"
  p_sel :: "selection option"
  p_offset :: "int option"
  p_rows :: "int option"
  p_event_id :: "ustr option"
  p_source :: "ustr option"
  p_cleanup_owned :: "bool option"
  p_kind :: "ustr option"
  p_socket :: "ustr option"
  p_connect_mode :: "ustr option"
  p_address :: "ustr option"
  p_access_command :: "bytes option"
  p_stream_id :: "int option"
  p_access_resource :: "bytes option"
  p_query :: "ustr option"
  p_search_mode :: "ustr option"
  p_backward :: "int option"
  p_clipboard_id :: "ustr option"

definition encodeParams :: "params \<Rightarrow> bytes" where
  "encodeParams p =
     fieldString 1 (p_endpoint p) @ fieldString 2 (p_id p) @ fieldBool 3 (p_fit p) @
     fieldVarint 4 (p_expected_owner_epoch p) @
     concat (map (\<lambda>arg. fieldString 5 (Some arg)) (p_argv p)) @
     fieldString 6 (p_cwd p) @
     (if p_env p \<noteq> [] then fieldMapStringString 7 (p_env p) else []) @
     fieldString 8 (p_title p) @ fieldBool 9 (p_ephemeral p) @ fieldVarint 10 (p_delta p) @
     (case p_sel p of None \<Rightarrow> []
      | Some s \<Rightarrow> fieldMsg 11 (Some (fieldString 1 (sel_mode s) @ fieldVarint 2 (sel_start s) @
          fieldVarint 3 (sel_end s)))) @
     fieldVarint 12 (p_offset p) @ fieldVarint 13 (p_rows p) @
     fieldString 14 (p_event_id p) @ fieldString 15 (p_source p) @ fieldBool 16 (p_cleanup_owned p) @
     fieldString 17 (p_kind p) @ fieldString 18 (p_socket p) @ fieldString 19 (p_connect_mode p) @
     fieldString 20 (p_address p) @ fieldBytes 28 (p_access_command p) @
     fieldVarint 29 (p_stream_id p) @ fieldBytes 30 (p_access_resource p) @
     fieldString 31 (p_query p) @ fieldString 32 (p_search_mode p) @ fieldVarint 33 (p_backward p) @
     fieldString 35 (p_clipboard_id p)"

definition encodeResult :: "int \<Rightarrow> int \<Rightarrow> ustr \<Rightarrow> params \<Rightarrow> bytes" where
  "encodeResult requestId epoch method p =
     fieldVarint 1 (Some requestId) @ fieldVarint 2 (Some epoch) @ fieldString 3 (Some method) @
     fieldMsg 4 (Some (encodeParams p))"


section \<open>Properties\<close>

lemma encodeStream_tokens:
  "encodeStream f = tokens (vtok 1 (Some (stream_id f)) @ stok 2 (Some (stream_kind f)) @
     btok 3 (opt_bytes (stream_payload f)) @ vtok 4 (stream_offset f) @
     stok 5 (stream_error f) @ vtok 6 (wire_type f))"
  by (simp add: encodeStream_def fieldVarint_tokens fieldString_tokens fieldBytes_option_tokens)

definition stream_ok :: "stream_frame \<Rightarrow> bool" where
  "stream_ok f \<longleftrightarrow>
     safe_nat (stream_id f) \<and> valid_ustr (stream_kind f) \<and>
     (case stream_offset f of None \<Rightarrow> True | Some n \<Rightarrow> safe_nat n) \<and>
     (case stream_error f of None \<Rightarrow> True | Some s \<Rightarrow> valid_ustr s) \<and>
     (case wire_type f of None \<Rightarrow> True | Some n \<Rightarrow> safe_nat n) \<and>
     length (encodeStream f) < 2 ^ 53"

text \<open>
  A STREAM frame written by \<open>encodeStream\<close> is read back by \<open>decodeStream\<close> field by field:
  an absent payload, offset, error or wire type comes back as the empty buffer, 0, the empty
  string or 0.
\<close>

lemma decodeStream_encodeStream:
  assumes "stream_ok f"
  shows "decodeStream (encodeStream f) =
    Inr \<lparr>in_stream_id = stream_id f, in_kind = stream_kind f,
         in_payload = VBytes (opt_bytes (stream_payload f)),
         in_offset = (case stream_offset f of None \<Rightarrow> 0 | Some n \<Rightarrow> n),
         in_error = (case stream_error f of None \<Rightarrow> [] | Some s \<Rightarrow> s),
         in_wire_type = (case wire_type f of None \<Rightarrow> 0 | Some n \<Rightarrow> n)\<rparr>"
proof -
  define ts where "ts = vtok 1 (Some (stream_id f)) @ stok 2 (Some (stream_kind f)) @
     btok 3 (opt_bytes (stream_payload f)) @ vtok 4 (stream_offset f) @
     stok 5 (stream_error f) @ vtok 6 (wire_type f)"
  have e: "encodeStream f = tokens ts" by (simp add: encodeStream_tokens ts_def)
  have "parseFields (encodeStream f) = Inr ts"
    using assms unfolding e by (intro parseFields_tokens) (simp_all add: ts_def stream_ok_def e)
  then show ?thesis
    using assms
    by (auto simp: decodeStream_def ts_def stream_ok_def uint_of_def string_of_def bytes_or_empty_def
        decode_simps split: option.splits)
qed


text \<open>
  The EVENT message of a mouse wheel as protobuf writes it (\<open>proto/ui/tui2.proto\<close>: a
  \<open>WheelEvent\<close> with three \<open>int32\<close> fields and a string, in field 4 of \<open>Event\<close>). Negative
  \<open>int32\<close> values are sent as 64-bit varints, which is what \<open>fieldVarint\<close> writes.
\<close>

definition wheel_message :: "int \<Rightarrow> int \<Rightarrow> int \<Rightarrow> ustr \<Rightarrow> bytes" where
  "wheel_message delta x y node =
     fieldMsg 4 (Some (fieldVarint 1 (Some delta) @ fieldVarint 2 (Some x) @ fieldVarint 3 (Some y) @
       fieldString 4 (Some node)))"

definition small_nat32 :: "int \<Rightarrow> bool" where
  "small_nat32 n \<longleftrightarrow> 0 \<le> n \<and> n < 2 ^ 31"

lemma small_nat32_safe: "small_nat32 n \<Longrightarrow> safe_nat n" "small_nat32 n \<Longrightarrow> asIntN 32 n = n"
  by (simp_all add: small_nat32_def safe_nat_def)

lemma decodeEvent_wheel:
  fixes delta x y :: int and node :: ustr
  assumes "valid_ustr node" and "length (wheel_message delta x y node) < 2 ^ 53"
  shows "decodeEvent (wheel_message delta x y node) =
    Inr (WheelEvent (asIntN 32 (int (js_Number (u64 delta)))) (asIntN 32 (int (js_Number (u64 x))))
      (asIntN 32 (int (js_Number (u64 y)))) node)"
proof -
  define us where "us = vtok 1 (Some delta) @ vtok 2 (Some x) @ vtok 3 (Some y) @ stok 4 (Some node)"
  have us: "us \<noteq> []" by (simp add: us_def vtok_def)
  have w: "wheel_message delta x y node = tokens (btok 4 (tokens us))"
    by (simp add: wheel_message_def us_def fieldMsg_tokens fieldVarint_tokens fieldString_tokens)
  have outer: "parseFields (wheel_message delta x y node) = Inr (btok 4 (tokens us))"
    using assms(2) unfolding w by (intro parseFields_tokens) simp_all
  have "length (tokens us) < 2 ^ 53"
    using assms(2) us unfolding w by (simp add: btok_def)
  then have inner: "parseFields (tokens us) = Inr us"
    by (intro parseFields_tokens) (simp_all add: us_def)
  show ?thesis
    using outer inner us assms(1)
    by (auto simp: decodeEvent_def btok_def event_of_field_def us_def int32_of_def uint_of_def
        string_of_def toInt32_def decode_simps)
qed

text \<open>
  A wheel event with coordinates and delta in the non-negative \<open>int32\<close> range is decoded
  exactly.
\<close>

lemma decodeEvent_wheel_exact:
  assumes "small_nat32 delta" and "small_nat32 x" and "small_nat32 y" and "valid_ustr node"
    and "length (wheel_message delta x y node) < 2 ^ 53"
  shows "decodeEvent (wheel_message delta x y node) = Inr (WheelEvent delta x y node)"
  using assms by (simp add: decodeEvent_wheel small_nat32_safe)

text \<open>
  A wheel event scrolling backwards by at most 1024 (delta from -1024 to -1) is decoded with
  delta 0: \<open>uint\<close> rounds the 64-bit varint to \<open>2 ^ 64\<close> before \<open>toInt32\<close> reads its low bits.
\<close>

lemma decodeEvent_wheel_negative_lost:
  assumes "- 1024 \<le> delta" and "delta < 0" and "small_nat32 x" and "small_nat32 y"
    and "valid_ustr node" and "length (wheel_message delta x y node) < 2 ^ 53"
  shows "decodeEvent (wheel_message delta x y node) = Inr (WheelEvent 0 x y node)"
proof -
  have "asIntN 32 (int (js_Number (u64 delta))) = 0"
    using assms(1,2) by (simp add: js_Number_small_negative asIntN_def)
  with assms show ?thesis by (simp add: decodeEvent_wheel small_nat32_safe)
qed

text \<open>
  C37: a wheel event with coordinates and delta in the non-negative \<open>int32\<close> range is decoded
  exactly, but one scrolling backwards by at most 1024 (delta from -1024 to -1) is decoded with
  delta 0: \<open>uint\<close> rounds the 64-bit varint to \<open>2 ^ 64\<close> before \<open>toInt32\<close> reads its low bits.
\<close>

theorem decodeEvent_wheel_delta:
  assumes "small_nat32 x" and "small_nat32 y" and "valid_ustr node"
    and "length (wheel_message delta x y node) < 2 ^ 53" and "- 1024 \<le> delta" and "delta < 2 ^ 31"
  shows "decodeEvent (wheel_message delta x y node) = Inr (WheelEvent (if 0 \<le> delta then delta else 0) x y node)"
proof (cases "0 \<le> delta")
  case True
  then have "small_nat32 delta" using assms(6) by (simp add: small_nat32_def)
  with True assms(1-4) show ?thesis by (simp add: decodeEvent_wheel_exact)
next
  case False
  with assms show ?thesis by (simp add: decodeEvent_wheel_negative_lost)
qed

theorem decodeEvent_wheel_delta_witness:
  "decodeEvent (wheel_message 1 40 12 (asc ''log'')) = Inr (WheelEvent 1 40 12 (asc ''log'')) \<and>
   decodeEvent (wheel_message (- 1) 40 12 (asc ''log'')) = Inr (WheelEvent 0 40 12 (asc ''log''))"
proof -
  have len: "length (wheel_message 1 40 12 (asc ''log'')) < 2 ^ 53" "length (wheel_message (- 1) 40 12 (asc ''log'')) < 2 ^ 53"
    by (simp_all add: wheel_message_def wire_eval)
  have "small_nat32 40" "small_nat32 12" "valid_ustr (asc ''log'')" by (simp_all add: small_nat32_def is_scalar_def)
  note hyps = this
  show ?thesis
    using decodeEvent_wheel_delta [OF hyps len(1)] decodeEvent_wheel_delta [OF hyps len(2)] by simp
qed

text \<open>
  The HELLO message of \<open>proto/ui/tui2.proto\<close>, written with the field encoders of \<open>wire.js\<close>.
\<close>

definition limits_message :: "limits \<Rightarrow> bytes" where
  "limits_message l =
     fieldVarint 1 (Some (max_nodes l)) @ fieldVarint 2 (Some (max_message_bytes l)) @
     fieldVarint 3 (Some (max_paste_bytes l)) @ fieldVarint 4 (Some (max_inflight_requests l)) @
     fieldVarint 5 (Some (owner_lease_ttl_ms l))"

definition hello_message :: "hello \<Rightarrow> bytes" where
  "hello_message h =
     fieldVarint 1 (Some (schema h)) @ fieldString 2 (Some (view_id h)) @
     fieldVarint 3 (Some (hello_epoch h)) @ fieldVarint 4 (Some (hello_cols h)) @
     fieldVarint 5 (Some (hello_rows h)) @
     concat (map (\<lambda>s. fieldString 6 (Some s)) (components h)) @
     concat (map (\<lambda>s. fieldString 7 (Some s)) (events h)) @
     concat (map (\<lambda>s. fieldString 8 (Some s)) (methods h)) @
     fieldMapStringBool 9 (features h) @
     fieldMsg 10 (map_option limits_message (hello_limits h))"

lemma hello_fields_skip:
  "list_all (\<lambda>(f, w, v). f \<noteq> 9 \<and> f \<noteq> 10) ts \<Longrightarrow> hello_fields (ts @ us) h = hello_fields us h"
  by (induction ts h rule: hello_fields.induct) auto

lemma hello_fields_features:
  "list_all bool_entry_ok es \<Longrightarrow>
    hello_fields (concat (map (\<lambda>e. btok 9 (bool_entry e)) es) @ us) h
      = hello_fields us (h\<lparr>features := foldl (\<lambda>ob (k, v). obj_set k v ob) (features h) es\<rparr>)"
proof (induction es arbitrary: h)
  case Nil
  show ?case by simp
next
  case (Cons e es)
  obtain k v where "e = (k, v)" by (cases e)
  with Cons show ?case by (simp add: btok_def be.dec_enc)
qed

definition limits_ok :: "limits \<Rightarrow> bool" where
  "limits_ok l \<longleftrightarrow> safe_nat (max_nodes l) \<and> safe_nat (max_message_bytes l) \<and> safe_nat (max_paste_bytes l) \<and>
     safe_nat (max_inflight_requests l) \<and> safe_nat (owner_lease_ttl_ms l) \<and>
     length (limits_message l) < 2 ^ 53"

lemma parseLimits_message: "limits_ok l \<Longrightarrow> parseLimits (limits_message l) = Inr l"
proof -
  assume ok: "limits_ok l"
  define ts where "ts = vtok 1 (Some (max_nodes l)) @ vtok 2 (Some (max_message_bytes l)) @
     vtok 3 (Some (max_paste_bytes l)) @ vtok 4 (Some (max_inflight_requests l)) @
     vtok 5 (Some (owner_lease_ttl_ms l))"
  have e: "limits_message l = tokens ts"
    by (simp add: limits_message_def ts_def fieldVarint_tokens)
  have "parseFields (limits_message l) = Inr ts"
    using ok unfolding e by (intro parseFields_tokens) (simp_all add: ts_def limits_ok_def e)
  with ok show ?thesis
    by (simp add: parseLimits_def ts_def uint_of_def limits_ok_def decode_simps)
qed


definition hello_ok :: "hello \<Rightarrow> bool" where
  "hello_ok h \<longleftrightarrow>
     safe_nat (schema h) \<and> safe_nat (hello_epoch h) \<and> safe_nat (hello_cols h) \<and> safe_nat (hello_rows h) \<and>
     valid_ustr (view_id h) \<and> list_all valid_ustr (components h) \<and> list_all valid_ustr (events h) \<and>
     list_all valid_ustr (methods h) \<and> list_all (valid_ustr \<circ> fst) (features h) \<and>
     distinct (map fst (features h)) \<and> asc ''__proto__'' \<notin> fst ` set (features h) \<and>
     (case hello_limits h of None \<Rightarrow> True | Some l \<Rightarrow> limits_ok l) \<and>
     length (hello_message h) < 2 ^ 53"

definition hello_head :: "hello \<Rightarrow> field list" where
  "hello_head h =
     vtok 1 (Some (schema h)) @ stok 2 (Some (view_id h)) @ vtok 3 (Some (hello_epoch h)) @
     vtok 4 (Some (hello_cols h)) @ vtok 5 (Some (hello_rows h)) @
     concat (map (\<lambda>s. stok 6 (Some s)) (components h)) @
     concat (map (\<lambda>s. stok 7 (Some s)) (events h)) @
     concat (map (\<lambda>s. stok 8 (Some s)) (methods h))"

definition hello_maps :: "hello \<Rightarrow> field list" where
  "hello_maps h =
     concat (map (\<lambda>e. btok 9 (bool_entry e)) (sorted_entries (features h))) @
     (case hello_limits h of None \<Rightarrow> [] | Some l \<Rightarrow> btok 10 (limits_message l))"

lemma hello_message_tokens: "hello_message h = tokens (hello_head h @ hello_maps h)"
  by (simp add: hello_message_def hello_head_def hello_maps_def fieldVarint_tokens fieldString_tokens
      fieldMapStringBool_tokens fieldMsg_tokens concat_map_tokens split: option.split)

lemma hello_maps_numbers: "list_all (\<lambda>(f, w, v). f = 9 \<or> f = 10) (hello_maps h)"
  by (auto simp: hello_maps_def list_all_iff btok_def split: option.splits)

lemma numbers_first: "list_all (\<lambda>(f, w, v). f \<noteq> n) ts \<Longrightarrow> first ts n = None"
  by (induction ts n rule: first.induct) auto

lemma numbers_with_number: "list_all (\<lambda>(f, w, v). f \<noteq> n) ts \<Longrightarrow> with_number ts n = []"
  by (induction ts) (auto simp: with_number_def)

lemma hello_maps_other:
  "n \<noteq> 9 \<Longrightarrow> n \<noteq> 10 \<Longrightarrow> first (hello_maps h) n = None"
  "n \<noteq> 9 \<Longrightarrow> n \<noteq> 10 \<Longrightarrow> with_number (hello_maps h) n = []"
  using hello_maps_numbers [of h]
  by (auto intro!: numbers_first numbers_with_number simp: list_all_iff)

lemma hello_message_lengths:
  assumes "length (hello_message h) < 2 ^ 53"
  shows "e \<in> set (features h) \<Longrightarrow> length (bool_entry e) < 2 ^ 53"
proof -
  assume "e \<in> set (features h)"
  then obtain us vs where "sorted_entries (features h) = us @ e # vs"
    by (metis set_sorted_entries split_list)
  with assms show ?thesis
    by (simp add: hello_message_tokens hello_maps_def btok_def)
qed

lemma hello_eta:
  "h\<lparr>components := A, events := B, methods := C, features := F, hello_limits := L\<rparr>
   = \<lparr>schema = schema h, view_id = view_id h, hello_epoch = hello_epoch h, hello_cols = hello_cols h,
      hello_rows = hello_rows h, components = A, events = B, methods = C, features = F, hello_limits = L\<rparr>"
  by (cases h) simp

lemma hello_fields_message:
  assumes "hello_ok h"
  shows "hello_fields (hello_head h @ hello_maps h) (k\<lparr>features := [], hello_limits := None\<rparr>)
    = Inr (k\<lparr>features := sorted_entries (features h), hello_limits := hello_limits h\<rparr>)"
proof -
  have head: "list_all (\<lambda>(f, w, v). f \<noteq> 9 \<and> f \<noteq> 10) (hello_head h)"
    by (auto simp: hello_head_def list_all_iff vtok_def stok_def btok_def split: option.splits)
  have "length (bool_entry e) < 2 ^ 53" if "e \<in> set (features h)" for e
    using assms that by (intro hello_message_lengths [of h]) (simp_all add: hello_ok_def)
  then have es: "list_all bool_entry_ok (sorted_entries (features h))"
    using assms by (auto simp: list_all_iff hello_ok_def bool_entry_ok_def)
  have fs: "foldl (\<lambda>ob (k, v). obj_set k v ob) [] (sorted_entries (features h)) = sorted_entries (features h)"
    using assms foldl_obj_set_append [of "[]" "sorted_entries (features h)"] by (simp add: hello_ok_def)
  show ?thesis
  proof (cases "hello_limits h")
    case None
    then show ?thesis
      using hello_fields_features [OF es, of "[]"]
      by (simp add: hello_fields_skip [OF head] hello_maps_def fs)
  next
    case (Some l)
    then have "parseLimits (limits_message l) = Inr l"
      using assms by (simp add: hello_ok_def parseLimits_message)
    moreover have "limits_message l \<noteq> []"
      by (simp add: limits_message_def fieldVarint_tokens vtok_def)
    ultimately show ?thesis
      using hello_fields_features [OF es, of "btok 10 (limits_message l)"] Some
      by (simp add: hello_fields_skip [OF head] hello_maps_def fs btok_def)
  qed
qed

text \<open>
  The handshake: a HELLO message is decoded to the values it carries, with its feature flags
  (in key order) and limits; of the three lists of names the empty strings are dropped.
\<close>

theorem decodeHello_message:
  assumes "hello_ok h"
  shows "decodeHello (hello_message h) =
    Inr (h\<lparr>components := filter (\<lambda>s. s \<noteq> []) (components h), events := filter (\<lambda>s. s \<noteq> []) (events h),
           methods := filter (\<lambda>s. s \<noteq> []) (methods h), features := sorted_entries (features h)\<rparr>)"
proof -
  let ?ts = "hello_head h @ hello_maps h"
  have ok: "list_all token_ok ?ts"
    by (simp add: hello_head_def hello_maps_def list_all_concat_map split: option.split)
  have "parseFields (hello_message h) = Inr ?ts"
    using assms ok unfolding hello_message_tokens
    by (intro parseFields_tokens) (simp_all add: hello_ok_def hello_message_tokens)
  moreover have "strings ?ts 6 = Inr (filter (\<lambda>s. s \<noteq> []) (components h))"
    "strings ?ts 7 = Inr (filter (\<lambda>s. s \<noteq> []) (events h))"
    "strings ?ts 8 = Inr (filter (\<lambda>s. s \<noteq> []) (methods h))"
    using assms
    by (simp_all add: strings_with_number hello_maps_other hello_head_def decode_simps
        with_number_concat_same with_number_concat_other mapM_stoks hello_ok_def)
  moreover have "uint_of ?ts 1 = Inr (schema h)" "string_of ?ts 2 = Inr (view_id h)"
    "uint_of ?ts 3 = Inr (hello_epoch h)" "uint_of ?ts 4 = Inr (hello_cols h)" "uint_of ?ts 5 = Inr (hello_rows h)"
    using assms
    by (simp_all add: uint_of_def string_of_def hello_head_def hello_ok_def decode_simps hello_maps_other)
  ultimately show ?thesis
    using hello_fields_message [OF assms,
        of "h\<lparr>components := filter (\<lambda>s. s \<noteq> []) (components h), events := filter (\<lambda>s. s \<noteq> []) (events h),
           methods := filter (\<lambda>s. s \<noteq> []) (methods h)\<rparr>"]
    by (simp add: decodeHello_def hello_eta)
qed


theorem decodeHello_message_witness:
  "decodeHello (hello_message \<lparr>schema = 1, view_id = asc ''v'', hello_epoch = 3, hello_cols = 120,
     hello_rows = 32, components = [asc ''terminal''], events = [asc ''key''], methods = [],
     features = [(asc ''view_delta'', True)], hello_limits = None\<rparr>)
   = Inr \<lparr>schema = 1, view_id = asc ''v'', hello_epoch = 3, hello_cols = 120, hello_rows = 32,
     components = [asc ''terminal''], events = [asc ''key''], methods = [],
     features = [(asc ''view_delta'', True)], hello_limits = None\<rparr>"
proof -
  let ?h = "\<lparr>schema = 1, view_id = asc ''v'', hello_epoch = 3, hello_cols = 120,
     hello_rows = 32, components = [asc ''terminal''], events = [asc ''key''], methods = [],
     features = [(asc ''view_delta'', True)], hello_limits = None\<rparr>"
  have ok: "hello_ok ?h"
    by (simp add: hello_ok_def hello_message_def fieldMapStringBool_def sorted_entries_def wire_eval
        safe_nat_def is_scalar_def)
  show ?thesis using decodeHello_message [OF ok] by (simp add: sorted_entries_def)
qed

end
