(* ===== verification/BoxTree.thy ===== *)
theory BoxTree
  imports WireCodec WireMessages
begin

text \<open>
  The view tree of \<open>wire.js\<close>: boxes as a program builds them (\<open>index.d.ts\<close>, interface \<open>Box\<close>:
  every attribute optional), their encoding, and the boxes \<open>decodeBox\<close> returns, which are what
  the host holds. An object also carries the order of its keys, since \<open>jsonEqual\<close> compares
  JSON texts; with it, JSON equality of two boxes is equality. The round trip theorem says
  which box arrives for every box sent.
\<close>

section \<open>Boxes of a program\<close>

record cursor =
  cur_keys :: "string list"
  cur_row :: int
  cur_col :: int
  cur_shape :: "ustr option"
  cur_visible :: "bool option"

record content =
  con_keys :: "string list"
  con_text :: "ustr option"
  con_lines :: "ustr list option"
  con_self :: "ustr option"
  con_props :: "(ustr \<times> ustr) list option"

record attrs =
  box_id :: "ustr option"
  box_size :: "(int \<times> int \<times> int) option"
  box_pos :: "(int \<times> int) option"
  box_flow :: "ustr option"
  box_visible :: "bool option"
  box_cursor :: "cursor option"
  box_content :: "content option"
  box_input :: "ustr list option"
  box_focused :: "bool option"
  box_style :: "ustr option"

datatype box = Box (keys: "string list") (attrs: attrs) (children: "box list")

definition no_attrs :: attrs where
  "no_attrs = \<lparr>box_id = None, box_size = None, box_pos = None, box_flow = None, box_visible = None,
     box_cursor = None, box_content = None, box_input = None, box_focused = None, box_style = None\<rparr>"

definition opt_list :: "'a list option \<Rightarrow> 'a list" where
  "opt_list x = (case x of None \<Rightarrow> [] | Some xs \<Rightarrow> xs)"

definition encodeCursor :: "cursor \<Rightarrow> bytes" where
  "encodeCursor c =
     fieldVarint 1 (Some (cur_row c)) @ fieldVarint 2 (Some (cur_col c)) @
     fieldString 3 (cur_shape c) @ fieldBool 4 (cur_visible c)"

definition encodeSize :: "int \<times> int \<times> int \<Rightarrow> bytes" where
  "encodeSize s = (case s of (w, h, f) \<Rightarrow>
     fieldVarint 1 (Some w) @ fieldVarint 2 (Some h) @ fieldVarint 3 (Some f))"

definition encodePos :: "int \<times> int \<Rightarrow> bytes" where
  "encodePos p = (case p of (x, y) \<Rightarrow> fieldVarint 1 (Some x) @ fieldVarint 2 (Some y))"

definition encodeContent :: "content \<Rightarrow> bytes" where
  "encodeContent c =
     fieldString 1 (con_text c) @
     concat (map (\<lambda>line. fieldString 2 (Some line)) (opt_list (con_lines c))) @
     fieldString 3 (con_self c) @
     (if opt_list (con_props c) \<noteq> [] then fieldMapStringString 4 (opt_list (con_props c)) else [])"

fun encodeBox :: "box \<Rightarrow> bytes" where
  "encodeBox (Box ks a cs) =
     fieldString 1 (box_id a) @
     fieldMsg 2 (map_option encodeSize (box_size a)) @
     fieldMsg 3 (map_option encodePos (box_pos a)) @
     fieldString 4 (box_flow a) @
     fieldBool 5 (box_visible a) @
     fieldMsg 7 (map_option encodeCursor (box_cursor a)) @
     fieldMsg 8 (map_option encodeContent (box_content a)) @
     concat (map (\<lambda>kind. fieldString 9 (Some kind)) (opt_list (box_input a))) @
     fieldBool 10 (box_focused a) @
     concat (map (\<lambda>child. fieldMsg 11 (Some (encodeBox child))) cs) @
     fieldString 12 (box_style a)"

definition encodeView :: "int \<Rightarrow> int \<Rightarrow> ustr list \<Rightarrow> bool option \<Rightarrow> box \<Rightarrow> bytes" where
  "encodeView epoch rv claim allKeys root =
     fieldVarint 1 (Some epoch) @ fieldVarint 2 (Some rv) @
     fieldMsg 3 (Some (concat (map (\<lambda>key. fieldString 1 (Some key)) claim) @ fieldBool 2 allKeys)) @
     fieldMsg 4 (Some (encodeBox root))"

section \<open>Boxes of the host\<close>

record dcursor =
  dc_row :: int
  dc_col :: int
  dc_shape :: ustr
  dc_visible :: "bool option"

text \<open>The \<open>props\<close> of a decoded content are read as a dictionary: their order has no meaning.\<close>

record dcontent =
  dt_text :: ustr
  dt_lines :: "ustr list"
  dt_self :: ustr
  dt_props :: "ustr \<rightharpoonup> ustr"

record dattrs =
  d_id :: ustr
  d_flow :: ustr
  d_visible :: "bool option"
  d_focused :: bool
  d_style :: ustr
  d_input :: "ustr list"
  d_size :: "(int \<times> int \<times> int) option"
  d_pos :: "(int \<times> int) option"
  d_cursor :: "dcursor option"
  d_content :: "dcontent option"

datatype dbox = DBox (dattrs: dattrs) (dchildren: "dbox list")

text \<open>
  \<open>const m = first(fields, n); if (m) \<dots> parseFields(m)\<close>: a buffer is truthy even when empty; a
  non-zero \<open>BigInt\<close> is truthy too, and has no \<open>length\<close>, so it parses as no fields.
\<close>

definition message_of :: "field list \<Rightarrow> nat \<Rightarrow> wire_error + field list option" where
  "message_of fs n =
     (case first fs n of
        None \<Rightarrow> Inr None
      | Some (VInt k) \<Rightarrow> Inr (if k = 0 then None else Some [])
      | Some (VBytes b) \<Rightarrow> andThen (parseFields b) (\<lambda>inner. Inr (Some inner)))"

definition optional_bool :: "field list \<Rightarrow> nat \<Rightarrow> wire_error + bool option" where
  "optional_bool fs n =
     (case first fs n of None \<Rightarrow> Inr None | Some v \<Rightarrow> andThen (bool_of fs n) (\<lambda>b. Inr (Some b)))"

definition on_message :: "field list \<Rightarrow> nat \<Rightarrow> (field list \<Rightarrow> wire_error + 'a) \<Rightarrow> wire_error + 'a option" where
  "on_message fs n k =
     andThen (message_of fs n) (\<lambda>m.
       case m of None \<Rightarrow> Inr None | Some inner \<Rightarrow> andThen (k inner) (\<lambda>v. Inr (Some v)))"

definition sizeFields :: "field list \<Rightarrow> wire_error + int \<times> int \<times> int" where
  "sizeFields inner =
     andThen (int32_of inner 1) (\<lambda>w. andThen (int32_of inner 2) (\<lambda>h.
     andThen (int32_of inner 3) (\<lambda>f. Inr (w, h, f))))"

definition posFields :: "field list \<Rightarrow> wire_error + int \<times> int" where
  "posFields inner =
     andThen (int32_of inner 1) (\<lambda>x. andThen (int32_of inner 2) (\<lambda>y. Inr (x, y)))"

definition cursorFields :: "field list \<Rightarrow> wire_error + dcursor" where
  "cursorFields inner =
     andThen (int32_of inner 1) (\<lambda>r. andThen (int32_of inner 2) (\<lambda>c.
     andThen (string_of inner 3) (\<lambda>s. andThen (optional_bool inner 4) (\<lambda>v.
       Inr \<lparr>dc_row = r, dc_col = c, dc_shape = s, dc_visible = v\<rparr>))))"

definition contentFields :: "field list \<Rightarrow> wire_error + dcontent" where
  "contentFields inner =
     andThen (string_of inner 1) (\<lambda>t. andThen (strings inner 2) (\<lambda>ls.
     andThen (string_of inner 3) (\<lambda>s.
     andThen (obj_fold parseMapStringString (len_values 4 inner) []) (\<lambda>ps.
       Inr \<lparr>dt_text = t, dt_lines = ls, dt_self = s, dt_props = map_of ps\<rparr>))))"

lemma parse_from_shorter:
  "parse_from data index = Inr fs \<Longrightarrow> (f, w, VBytes b) \<in> set fs \<Longrightarrow> length b < length data"
proof (induction data index arbitrary: fs rule: parse_from.induct)
  case (1 data index)
  note IH = "1.IH" and eq = "1.prems"(1) [unfolded parse_from.simps [of data index]]
  show ?case
  proof (cases "index < length data")
    case False
    with eq "1.prems"(2) show ?thesis by simp
  next
    case True
    obtain tag i where t: "readUvarint data index = (tag, i)" by force
    obtain v j where v: "readUvarint data i = (v, j)" by force
    have i: "0 < i" and j: "0 < j"
      using readUvarint_advances [OF t] readUvarint_advances [OF v] by simp_all
    have short: "length (take m (drop n data)) < length data" if "0 < n" for m n
      using that True by simp
    consider (varint) "tag AND 7 = 0" | (len) "tag AND 7 = 2" | (w64) "tag AND 7 = 1"
      | (w32) "tag AND 7 = 5" | (bad) "tag AND 7 \<notin> {0, 1, 2, 5}" by auto
    then show ?thesis
    proof cases
      case varint
      then show ?thesis using IH(1) [OF True] eq True t v "1.prems"(2) by auto
    next
      case len
      then show ?thesis using IH(2) [OF True] eq True t v "1.prems"(2) short [OF j]
        by (auto simp: Let_def)
    next
      case w64
      then show ?thesis using IH(3) [OF True] eq True t "1.prems"(2) short [OF i] by auto
    next
      case w32
      then show ?thesis using IH(4) [OF True] eq True t "1.prems"(2) short [OF i] by auto
    next
      case bad
      then show ?thesis using eq True t by auto
    qed
  qed
qed


lemma len_values_member: "b \<in> set (len_values n fs) \<Longrightarrow> \<exists>w. (n, w, VBytes b) \<in> set fs"
  by (induction n fs rule: len_values.induct) (auto split: if_splits)

lemma parseFields_shorter:
  "parseFields data = Inr fs \<Longrightarrow> b \<in> set (len_values n fs) \<Longrightarrow> length b < length data"
  unfolding parseFields_def using parse_from_shorter len_values_member by blast

function decodeBox :: "bytes \<Rightarrow> wire_error + dbox" where
  "decodeBox data =
     andThen (parseFields data) (\<lambda>fs.
     andThen (string_of fs 1) (\<lambda>i.
     andThen (string_of fs 4) (\<lambda>fl.
     andThen (optional_bool fs 5) (\<lambda>vis.
     andThen (bool_of fs 10) (\<lambda>foc.
     andThen (string_of fs 12) (\<lambda>st.
     andThen (strings fs 9) (\<lambda>inp.
     andThen (on_message fs 2 sizeFields) (\<lambda>size.
     andThen (on_message fs 3 posFields) (\<lambda>pos.
     andThen (on_message fs 7 cursorFields) (\<lambda>cursor.
     andThen (on_message fs 8 contentFields) (\<lambda>content.
     andThen (mapM decodeBox (len_values 11 fs)) (\<lambda>cs.
       Inr (DBox \<lparr>d_id = i, d_flow = fl, d_visible = vis, d_focused = foc, d_style = st, d_input = inp,
                  d_size = size, d_pos = pos, d_cursor = cursor, d_content = content\<rparr> cs)))))))))))))"
  by pat_completeness auto
termination
  by (relation "measure length") (auto dest: parseFields_shorter)

declare decodeBox.simps [simp del]

section \<open>What the host receives\<close>

definition opt_str :: "ustr option \<Rightarrow> ustr" where
  "opt_str s = (case s of None \<Rightarrow> [] | Some t \<Rightarrow> t)"

definition normCursor :: "cursor \<Rightarrow> dcursor" where
  "normCursor c = \<lparr>dc_row = cur_row c, dc_col = cur_col c, dc_shape = opt_str (cur_shape c),
     dc_visible = cur_visible c\<rparr>"

definition normContent :: "content \<Rightarrow> dcontent" where
  "normContent c =
     \<lparr>dt_text = opt_str (con_text c), dt_lines = filter (\<lambda>s. s \<noteq> []) (opt_list (con_lines c)),
      dt_self = opt_str (con_self c),
      dt_props = map_of (filter (\<lambda>e. e \<noteq> ([], [])) (opt_list (con_props c)))\<rparr>"

definition normAttrs :: "attrs \<Rightarrow> dattrs" where
  "normAttrs a =
     \<lparr>d_id = opt_str (box_id a), d_flow = opt_str (box_flow a), d_visible = box_visible a,
      d_focused = (box_focused a = Some True), d_style = opt_str (box_style a),
      d_input = filter (\<lambda>s. s \<noteq> []) (opt_list (box_input a)),
      d_size = box_size a, d_pos = box_pos a, d_cursor = map_option normCursor (box_cursor a),
      d_content = (case box_content a of None \<Rightarrow> None
        | Some c \<Rightarrow> if encodeContent c = [] then None else Some (normContent c))\<rparr>"

fun norm :: "box \<Rightarrow> dbox" where
  "norm (Box ks a cs) = DBox (normAttrs a) (map norm (filter (\<lambda>c. encodeBox c \<noteq> []) cs))"

text \<open>
  Boxes whose strings are Unicode text, whose numbers are from 0 to 2^31-1 and whose properties have
  distinct names other than \<open>__proto__\<close>. The encoder checks none of this.
\<close>

definition ostr_ok :: "ustr option \<Rightarrow> bool" where
  "ostr_ok s \<longleftrightarrow> (case s of None \<Rightarrow> True | Some t \<Rightarrow> valid_ustr t)"

definition cursor_ok :: "cursor \<Rightarrow> bool" where
  "cursor_ok c \<longleftrightarrow> small_nat32 (cur_row c) \<and> small_nat32 (cur_col c) \<and> ostr_ok (cur_shape c)"

definition content_ok :: "content \<Rightarrow> bool" where
  "content_ok c \<longleftrightarrow> ostr_ok (con_text c) \<and> list_all valid_ustr (opt_list (con_lines c)) \<and>
     ostr_ok (con_self c) \<and>
     list_all (\<lambda>(k, v). valid_ustr k \<and> valid_ustr v) (opt_list (con_props c)) \<and>
     distinct (map fst (opt_list (con_props c))) \<and>
     asc ''__proto__'' \<notin> fst ` set (opt_list (con_props c))"

definition attrs_ok :: "attrs \<Rightarrow> bool" where
  "attrs_ok a \<longleftrightarrow>
     ostr_ok (box_id a) \<and> ostr_ok (box_flow a) \<and> ostr_ok (box_style a) \<and>
     (case box_size a of None \<Rightarrow> True | Some (w, h, f) \<Rightarrow> small_nat32 w \<and> small_nat32 h \<and> small_nat32 f) \<and>
     (case box_pos a of None \<Rightarrow> True | Some (x, y) \<Rightarrow> small_nat32 x \<and> small_nat32 y) \<and>
     (case box_cursor a of None \<Rightarrow> True | Some c \<Rightarrow> cursor_ok c) \<and>
     (case box_content a of None \<Rightarrow> True | Some c \<Rightarrow> content_ok c) \<and>
     list_all valid_ustr (opt_list (box_input a))"

fun box_ok :: "box \<Rightarrow> bool" where
  "box_ok (Box ks a cs) \<longleftrightarrow> attrs_ok a \<and> list_all box_ok cs"

definition box_sendable :: "box \<Rightarrow> bool" where
  "box_sendable b \<longleftrightarrow> box_ok b \<and> length (encodeBox b) < 2 ^ 53"


section \<open>Round trip\<close>

lemma fieldMsg_opt_tokens: "fieldMsg f m = tokens (btok f (opt_bytes m))"
  by (simp add: fieldMsg_tokens opt_bytes_def btok_def split: option.split)

lemma on_message_none: "first fs n = None \<Longrightarrow> on_message fs n k = Inr None"
  by (simp add: on_message_def message_of_def)

lemma on_message_some:
  "first fs n = Some (VBytes b) \<Longrightarrow> parseFields b = Inr inner \<Longrightarrow>
    on_message fs n k = andThen (k inner) (\<lambda>v. Inr (Some v))"
  by (simp add: on_message_def message_of_def)

lemma btok_length: "length b \<le> length (tokens (btok n b))"
  by (simp add: btok_def)

text \<open>
  A nested message decoded from its fields: the contract of the size, position, cursor and
  content of a box.
\<close>

locale submessage =
  fixes toks :: "'a \<Rightarrow> field list"
    and read :: "field list \<Rightarrow> wire_error + 'b"
    and norm :: "'a \<Rightarrow> 'b"
    and ok :: "'a \<Rightarrow> bool"
  assumes toks_ok: "list_all token_ok (toks x)"
    and read_toks: "ok x \<Longrightarrow> length (tokens (toks x)) < 2 ^ 53 \<Longrightarrow> read (toks x) = Inr (norm x)"
begin

lemma on_message_read:
  assumes "first fs n = (if opt_bytes (map_option (\<lambda>x. tokens (toks x)) v) = [] then None
      else Some (VBytes (opt_bytes (map_option (\<lambda>x. tokens (toks x)) v))))"
    and "case v of None \<Rightarrow> True | Some x \<Rightarrow> ok x \<and> length (tokens (toks x)) < 2 ^ 53"
  shows "on_message fs n read
    = Inr (case v of None \<Rightarrow> None | Some x \<Rightarrow> if tokens (toks x) = [] then None else Some (norm x))"
proof (cases v)
  case None
  with assms show ?thesis by (simp add: opt_bytes_def on_message_none)
next
  case (Some x)
  show ?thesis
  proof (cases "tokens (toks x) = []")
    case True
    with Some assms show ?thesis by (simp add: opt_bytes_def on_message_none)
  next
    case False
    with Some assms(1) have "first fs n = Some (VBytes (tokens (toks x)))" by (simp add: opt_bytes_def)
    moreover have "parseFields (tokens (toks x)) = Inr (toks x)"
      using Some assms(2) toks_ok by (intro parseFields_tokens) simp_all
    ultimately show ?thesis
      using Some assms(2) False by (simp add: on_message_some read_toks)
  qed
qed

end

definition sizeToks :: "int \<times> int \<times> int \<Rightarrow> field list" where
  "sizeToks s = (case s of (w, h, f) \<Rightarrow> vtok 1 (Some w) @ vtok 2 (Some h) @ vtok 3 (Some f))"

definition posToks :: "int \<times> int \<Rightarrow> field list" where
  "posToks p = (case p of (x, y) \<Rightarrow> vtok 1 (Some x) @ vtok 2 (Some y))"

definition cursorToks :: "cursor \<Rightarrow> field list" where
  "cursorToks c = vtok 1 (Some (cur_row c)) @ vtok 2 (Some (cur_col c)) @ stok 3 (cur_shape c) @
     booltok 4 (cur_visible c)"

definition contentToks :: "content \<Rightarrow> field list" where
  "contentToks c = stok 1 (con_text c) @ concat (map (\<lambda>l. stok 2 (Some l)) (opt_list (con_lines c))) @
     stok 3 (con_self c) @
     concat (map (\<lambda>e. btok 4 (string_entry e)) (sorted_entries (opt_list (con_props c))))"

lemma encodeSize_tokens: "encodeSize = (\<lambda>s. tokens (sizeToks s))"
  by (auto simp: encodeSize_def sizeToks_def fieldVarint_tokens fun_eq_iff)

lemma encodePos_tokens: "encodePos = (\<lambda>p. tokens (posToks p))"
  by (auto simp: encodePos_def posToks_def fieldVarint_tokens fun_eq_iff)

lemma encodeCursor_tokens: "encodeCursor = (\<lambda>c. tokens (cursorToks c))"
  by (simp add: encodeCursor_def cursorToks_def fieldVarint_tokens fieldString_tokens fieldBool_tokens fun_eq_iff)

lemma encodeContent_tokens: "encodeContent = (\<lambda>c. tokens (contentToks c))"
  by (auto simp: encodeContent_def contentToks_def fieldString_tokens fieldMapStringString_tokens
      concat_map_tokens fun_eq_iff sorted_entries_def)

lemma int32_of_vtok: "small_nat32 v \<Longrightarrow> first fs n = Some (VInt (u64 v)) \<Longrightarrow> int32_of fs n = Inr v"
  by (simp add: int32_of_def uint_of_def toInt32_def small_nat32_safe)

lemma string_of_stok:
  "ostr_ok s \<Longrightarrow> first fs n = (if s \<noteq> None \<and> s \<noteq> Some [] then Some (VBytes (utf8_encode (the s))) else None)
    \<Longrightarrow> string_of fs n = Inr (opt_str s)"
  by (auto simp: string_of_def opt_str_def ostr_ok_def split: option.splits if_splits)

lemma optional_bool_booltok:
  "first fs n = map_option (\<lambda>b. VInt (if b then 1 else 0)) b \<Longrightarrow> optional_bool fs n = Inr b"
  by (auto simp: optional_bool_def bool_of_def uint_of_def split: option.splits)

lemma bool_of_booltok:
  "first fs n = map_option (\<lambda>b. VInt (if b then 1 else 0)) b \<Longrightarrow> bool_of fs n = Inr (b = Some True)"
  by (auto simp: bool_of_def uint_of_def split: option.splits)

interpretation sz: submessage sizeToks sizeFields id
  "\<lambda>(w, h, f). small_nat32 w \<and> small_nat32 h \<and> small_nat32 f"
proof
  show "list_all token_ok (sizeToks x)" for x
    by (cases x) (simp add: sizeToks_def)
qed (auto simp: sizeToks_def sizeFields_def int32_of_vtok decode_simps)

interpretation ps: submessage posToks posFields id "\<lambda>(x, y). small_nat32 x \<and> small_nat32 y"
proof
  show "list_all token_ok (posToks x)" for x
    by (cases x) (simp add: posToks_def)
qed (auto simp: posToks_def posFields_def int32_of_vtok decode_simps)

interpretation cu: submessage cursorToks cursorFields normCursor cursor_ok
proof
  show "list_all token_ok (cursorToks x)" for x
    by (simp add: cursorToks_def)
  fix c :: cursor
  assume ok: "cursor_ok c"
  have "int32_of (cursorToks c) 1 = Inr (cur_row c)" "int32_of (cursorToks c) 2 = Inr (cur_col c)"
    using ok by (simp_all add: cursorToks_def cursor_ok_def int32_of_vtok decode_simps)
  moreover have "string_of (cursorToks c) 3 = Inr (opt_str (cur_shape c))"
    using ok by (intro string_of_stok) (auto simp: cursorToks_def cursor_ok_def decode_simps)
  moreover have "optional_bool (cursorToks c) 4 = Inr (cur_visible c)"
    by (intro optional_bool_booltok) (simp add: cursorToks_def decode_simps)
  ultimately show "cursorFields (cursorToks c) = Inr (normCursor c)"
    by (simp add: cursorFields_def normCursor_def)
qed


lemma concat_btok_length:
  assumes "x \<in> set xs"
  shows "length (g x) \<le> length (tokens (concat (map (\<lambda>x. btok n (g x)) xs)))"
proof -
  obtain us vs where "xs = us @ x # vs" using assms by (metis split_list)
  then show ?thesis using btok_length [of "g x" n] by simp
qed

lemma string_entries_ok:
  assumes "list_all (\<lambda>(k, v). valid_ustr k \<and> valid_ustr v) es"
    and "length (tokens (concat (map (\<lambda>e. btok n (string_entry e)) es))) < 2 ^ 53"
  shows "list_all string_entry_ok es"
proof -
  have "length (string_entry e) < 2 ^ 53" if "e \<in> set es" for e
    using concat_btok_length [OF that, of string_entry n] assms(2) by (rule le_less_trans)
  with assms(1) show ?thesis by (auto simp: list_all_iff string_entry_ok_def)
qed

lemma collected_string_entries:
  assumes "list_all string_entry_ok es" and "distinct (map fst es)" and "asc ''__proto__'' \<notin> fst ` set es"
  shows "obj_fold parseMapStringString (len_values n (concat (map (\<lambda>e. btok n (string_entry e)) es))) []
    = Inr (filter (\<lambda>e. e \<noteq> ([], [])) es)"
proof -
  have "distinct (map fst (filter (\<lambda>e. e \<noteq> ([], [])) es))"
    using assms(2) by (rule distinct_map_filter)
  then have "foldl (\<lambda>ob (k, v). obj_set k v ob) [] (filter (\<lambda>e. e \<noteq> ([], [])) es)
      = filter (\<lambda>e. e \<noteq> ([], [])) es"
    using foldl_obj_set_append [of "[]" "filter (\<lambda>e. e \<noteq> ([], [])) es"] assms(3) by auto
  then show ?thesis using se.collected [OF assms(1), of n "[]"] by simp
qed

lemma map_of_filter_sorted:
  assumes "distinct (map fst m)"
  shows "map_of (filter P (sorted_entries m)) = map_of (filter P m)"
proof (rule map_of_inject_set [THEN iffD2])
  show "distinct (map fst (filter P (sorted_entries m)))" "distinct (map fst (filter P m))"
    using assms by (simp_all add: distinct_map_filter)
qed simp

interpretation co: submessage contentToks contentFields normContent content_ok
proof
  show "list_all token_ok (contentToks x)" for x
    by (simp add: contentToks_def list_all_concat_map)
  fix c :: content
  assume ok: "content_ok c" and len: "length (tokens (contentToks c)) < 2 ^ 53"
  let ?es = "sorted_entries (opt_list (con_props c))"
  have "string_of (contentToks c) 1 = Inr (opt_str (con_text c))"
    using ok by (intro string_of_stok) (auto simp: contentToks_def content_ok_def decode_simps)
  moreover have "string_of (contentToks c) 3 = Inr (opt_str (con_self c))"
    using ok by (intro string_of_stok) (auto simp: contentToks_def content_ok_def decode_simps)
  moreover have "strings (contentToks c) 2 = Inr (filter (\<lambda>s. s \<noteq> []) (opt_list (con_lines c)))"
    using ok by (simp add: strings_with_number contentToks_def content_ok_def decode_simps
        with_number_concat_same with_number_concat_other mapM_stoks)
  moreover have "list_all string_entry_ok ?es"
    using ok len by (intro string_entries_ok [of _ 4])
      (simp_all add: content_ok_def contentToks_def list_all_iff)
  then have "obj_fold parseMapStringString (len_values 4 (contentToks c)) []
      = Inr (filter (\<lambda>e. e \<noteq> ([], [])) ?es)"
    using ok collected_string_entries [of ?es 4]
    by (simp add: contentToks_def content_ok_def len_values_append len_values_toks len_values_concat
        del: asc_simps)
  ultimately show "contentFields (contentToks c) = Inr (normContent c)"
    using ok by (simp add: contentFields_def normContent_def content_ok_def map_of_filter_sorted)
qed

definition headToks :: "attrs \<Rightarrow> field list" where
  "headToks a =
     stok 1 (box_id a) @ btok 2 (opt_bytes (map_option encodeSize (box_size a))) @
     btok 3 (opt_bytes (map_option encodePos (box_pos a))) @ stok 4 (box_flow a) @
     booltok 5 (box_visible a) @ btok 7 (opt_bytes (map_option encodeCursor (box_cursor a))) @
     btok 8 (opt_bytes (map_option encodeContent (box_content a))) @
     concat (map (\<lambda>kind. stok 9 (Some kind)) (opt_list (box_input a))) @
     booltok 10 (box_focused a)"

definition boxToks :: "attrs \<Rightarrow> box list \<Rightarrow> field list" where
  "boxToks a cs = headToks a @ concat (map (\<lambda>c. btok 11 (encodeBox c)) cs) @ stok 12 (box_style a)"

lemma encodeBox_tokens: "encodeBox (Box ks a cs) = tokens (boxToks a cs)"
  by (simp add: boxToks_def headToks_def fieldString_tokens fieldMsg_opt_tokens fieldBool_tokens
      concat_map_tokens opt_bytes_def)

declare encodeBox.simps [simp del]

lemma boxToks_ok: "list_all token_ok (boxToks a cs)"
  by (simp add: boxToks_def headToks_def list_all_concat_map)

lemma first_boxToks:
  "first (boxToks a cs) (Suc 0) = first (stok 1 (box_id a)) 1"
  "first (boxToks a cs) 2 = first (btok 2 (opt_bytes (map_option encodeSize (box_size a)))) 2"
  "first (boxToks a cs) 3 = first (btok 3 (opt_bytes (map_option encodePos (box_pos a)))) 3"
  "first (boxToks a cs) 4 = first (stok 4 (box_flow a)) 4"
  "first (boxToks a cs) 5 = first (booltok 5 (box_visible a)) 5"
  "first (boxToks a cs) 7 = first (btok 7 (opt_bytes (map_option encodeCursor (box_cursor a)))) 7"
  "first (boxToks a cs) 8 = first (btok 8 (opt_bytes (map_option encodeContent (box_content a)))) 8"
  "first (boxToks a cs) 10 = first (booltok 10 (box_focused a)) 10"
  "first (boxToks a cs) 12 = first (stok 12 (box_style a)) 12"
  by (simp_all add: boxToks_def headToks_def decode_simps split: option.split)

lemma strings_boxToks:
  "list_all valid_ustr (opt_list (box_input a)) \<Longrightarrow>
    strings (boxToks a cs) 9 = Inr (filter (\<lambda>s. s \<noteq> []) (opt_list (box_input a)))"
  by (simp add: strings_with_number boxToks_def headToks_def decode_simps with_number_concat_same
      with_number_concat_other mapM_stoks)

lemma len_values_boxToks:
  "len_values 11 (boxToks a cs) = len_values 11 (concat (map (\<lambda>c. btok 11 (encodeBox c)) cs))"
  by (simp add: boxToks_def headToks_def len_values_append len_values_toks len_values_concat)

lemma boxToks_lengths:
  assumes "length (tokens (boxToks a cs)) < 2 ^ 53"
  shows "c \<in> set cs \<Longrightarrow> length (encodeBox c) < 2 ^ 53"
    and "box_size a = Some s \<Longrightarrow> length (tokens (sizeToks s)) < 2 ^ 53"
    and "box_pos a = Some p \<Longrightarrow> length (tokens (posToks p)) < 2 ^ 53"
    and "box_cursor a = Some u \<Longrightarrow> length (tokens (cursorToks u)) < 2 ^ 53"
    and "box_content a = Some t \<Longrightarrow> length (tokens (contentToks t)) < 2 ^ 53"
proof -
  show "length (encodeBox c) < 2 ^ 53" if "c \<in> set cs"
    using concat_btok_length [OF that, of encodeBox 11] assms by (simp add: boxToks_def)
qed (use assms btok_length [of "tokens (sizeToks s)" 2] btok_length [of "tokens (posToks p)" 3]
    btok_length [of "tokens (cursorToks u)" 7] btok_length [of "tokens (contentToks t)" 8] in
    \<open>simp_all add: boxToks_def headToks_def encodeSize_tokens encodePos_tokens encodeCursor_tokens
      encodeContent_tokens opt_bytes_def\<close>)


lemma btok_first: "first (btok n b) n = (if b = [] then None else Some (VBytes b))"
  by (simp add: decode_simps)

lemma decodeBox_attrs:
  assumes "attrs_ok a" and "length (tokens (boxToks a cs)) < 2 ^ 53"
  shows "decodeBox (tokens (boxToks a cs)) =
    andThen (mapM decodeBox (len_values 11 (concat (map (\<lambda>c. btok 11 (encodeBox c)) cs))))
      (\<lambda>ds. Inr (DBox (normAttrs a) ds))"
proof -
  let ?ts = "boxToks a cs"
  note ok = assms(1) [unfolded attrs_ok_def] and len = boxToks_lengths [OF assms(2)]
  have "parseFields (tokens ?ts) = Inr ?ts"
    using assms(2) boxToks_ok by (rule parseFields_tokens [rotated])
  moreover have "string_of ?ts 1 = Inr (opt_str (box_id a))" "string_of ?ts 4 = Inr (opt_str (box_flow a))"
    "string_of ?ts 12 = Inr (opt_str (box_style a))"
    using ok by (auto intro!: string_of_stok simp: first_boxToks first_stok)
  moreover have "optional_bool ?ts 5 = Inr (box_visible a)"
    by (intro optional_bool_booltok) (simp add: first_boxToks decode_simps)
  moreover have "bool_of ?ts 10 = Inr (box_focused a = Some True)"
    by (intro bool_of_booltok) (simp add: first_boxToks decode_simps)
  moreover have "on_message ?ts 2 sizeFields = Inr (box_size a)"
    by (subst sz.on_message_read [where v = "box_size a"])
      (use ok len(2) in \<open>auto simp: first_boxToks btok_first encodeSize_tokens sizeToks_def vtok_def
        split: option.splits\<close>)
  moreover have "on_message ?ts 3 posFields = Inr (box_pos a)"
    by (subst ps.on_message_read [where v = "box_pos a"])
      (use ok len(3) in \<open>auto simp: first_boxToks btok_first encodePos_tokens posToks_def vtok_def
        split: option.splits\<close>)
  moreover have "on_message ?ts 7 cursorFields = Inr (map_option normCursor (box_cursor a))"
    by (subst cu.on_message_read [where v = "box_cursor a"])
      (use ok len(4) in \<open>auto simp: first_boxToks btok_first encodeCursor_tokens cursorToks_def vtok_def
        split: option.splits\<close>)
  moreover have "on_message ?ts 8 contentFields = Inr (d_content (normAttrs a))"
    by (subst co.on_message_read [where v = "box_content a"])
      (use ok len(5) in \<open>auto simp: first_boxToks btok_first encodeContent_tokens normAttrs_def
        split: option.splits\<close>)
  moreover have "strings ?ts 9 = Inr (filter (\<lambda>s. s \<noteq> []) (opt_list (box_input a)))"
    using ok by (intro strings_boxToks) simp
  ultimately show ?thesis
    by (subst decodeBox.simps) (simp add: len_values_boxToks normAttrs_def)
qed

lemma mapM_len_values:
  "(\<And>c. c \<in> set cs \<Longrightarrow> g c \<noteq> [] \<Longrightarrow> d (g c) = Inr (h c)) \<Longrightarrow>
    mapM d (len_values n (concat (map (\<lambda>c. btok n (g c)) cs))) = Inr (map h (filter (\<lambda>c. g c \<noteq> []) cs))"
  by (induction cs) (simp_all add: len_values_append len_values_toks)

lemma decodeBox_encodeBox:
  "box_ok b \<Longrightarrow> length (encodeBox b) < 2 ^ 53 \<Longrightarrow> decodeBox (encodeBox b) = Inr (norm b)"
proof (induction b rule: norm.induct)
  case (1 ks a cs)
  have len: "length (tokens (boxToks a cs)) < 2 ^ 53" using "1.prems"(2) by (simp add: encodeBox_tokens)
  have "mapM decodeBox (len_values 11 (concat (map (\<lambda>c. btok 11 (encodeBox c)) cs)))
      = Inr (map norm (filter (\<lambda>c. encodeBox c \<noteq> []) cs))"
    using "1.IH" "1.prems"(1) boxToks_lengths(1) [OF len]
    by (intro mapM_len_values) (auto simp: list_all_iff)
  then show ?case
    using decodeBox_attrs [OF _ len] "1.prems"(1) by (simp add: encodeBox_tokens)
qed

interpretation bx: msg_codec encodeBox decodeBox norm box_sendable
  by unfold_locales (simp add: box_sendable_def decodeBox_encodeBox)

section \<open>Properties\<close>

text \<open>
  Negative numbers are outside \<open>box_ok\<close> because the reader loses them: a position from -1024 to -1 is written as a 64-bit varint, which
  \<open>uint\<close> rounds to \<open>2 ^ 64\<close>, and is read as 0.
\<close>

lemma negative_position_lost:
  assumes "- 1024 \<le> x" and "x < 0" and "small_nat32 y"
  shows "posFields (posToks (x, y)) = Inr (0, y)"
proof -
  have "int32_of (posToks (x, y)) 1 = Inr 0"
    using assms(1,2)
    by (simp add: posToks_def int32_of_def uint_of_def decode_simps vtok_def js_Number_small_negative asIntN_def toInt32_def)
  moreover have "int32_of (posToks (x, y)) 2 = Inr y"
    using assms(3) by (simp add: posToks_def int32_of_vtok decode_simps)
  ultimately show ?thesis by (simp add: posFields_def)
qed

text \<open>
  C4: the box tree round trip. For every tree whose strings are Unicode text, whose sizes, positions
  and cursor coordinates are from 0 to 2^31-1, whose content properties have distinct names other than
  \<open>__proto__\<close> (\<open>box_ok\<close>), and whose encoding is shorter than \<open>2 ^ 53\<close> bytes, \<open>decodeBox\<close> reads what
  \<open>encodeBox\<close> writes, at any depth, and returns its normal form \<open>norm\<close>: absent strings are empty,
  empty list elements, properties with empty name and value, empty contents and empty children are
  gone, an absent focused flag is false, everything else is as it was sent. Numbers below 0 are not
  covered: they are written and, from -1024 to -1, read as 0.
\<close>

theorem box_round_trip: "box_sendable b \<Longrightarrow> decodeBox (encodeBox b) = Inr (norm b)"
  by (rule bx.dec_enc)

theorem box_round_trip_witness:
  "decodeBox (encodeBox (Box [''flow'', ''children''] (no_attrs\<lparr>box_flow := Some (asc ''row'')\<rparr>)
      [Box [''pos''] (no_attrs\<lparr>box_pos := Some (3, 300)\<rparr>) []]))
   = Inr (norm (Box [''flow'', ''children''] (no_attrs\<lparr>box_flow := Some (asc ''row'')\<rparr>)
      [Box [''pos''] (no_attrs\<lparr>box_pos := Some (3, 300)\<rparr>) []]))"
  by (rule box_round_trip)
    (simp add: box_sendable_def attrs_ok_def ostr_ok_def opt_list_def small_nat32_def valid_ustr_def
      is_scalar_def no_attrs_def encodeBox.simps encodePos_def wire_eval)

text \<open>
  A full view. The fields of an encoded view are the epoch, the revision and the tree: the
  host reads back the numbers, and the box of field 4 decodes to the normal form of the root.
\<close>

lemma view_round_trip:
  assumes "safe_nat epoch" and "safe_nat rv" and "box_sendable root" and "encodeBox root \<noteq> []"
    and "length (encodeView epoch rv claim allKeys root) < 2 ^ 53"
  shows "\<exists>fs b. parseFields (encodeView epoch rv claim allKeys root) = Inr fs \<and> uint_of fs 1 = Inr epoch \<and>
    uint_of fs 2 = Inr rv \<and> first fs 4 = Some (VBytes b) \<and> decodeBox b = Inr (norm root)"
proof -
  let ?k = "tokens (concat (map (\<lambda>key. stok 1 (Some key)) claim) @ booltok 2 allKeys)"
  let ?ts = "vtok 1 (Some epoch) @ vtok 2 (Some rv) @ btok 3 ?k @ btok 4 (encodeBox root)"
  have enc: "encodeView epoch rv claim allKeys root = tokens ?ts"
    by (simp add: encodeView_def fieldVarint_tokens fieldMsg_tokens fieldString_tokens fieldBool_tokens
        concat_map_tokens)
  have "parseFields (tokens ?ts) = Inr ?ts"
    using assms(5) by (intro parseFields_tokens) (simp_all add: enc)
  moreover have "uint_of ?ts 1 = Inr epoch" "uint_of ?ts 2 = Inr rv" "first ?ts 4 = Some (VBytes (encodeBox root))"
    using assms(1,2,4) by (simp_all add: uint_of_def decode_simps)
  ultimately show ?thesis using assms(3) bx.dec_enc unfolding enc by blast
qed

text \<open>
  A child without attributes and children leaves no trace on the wire, so the children
  after it move up by one on the host; the paths of later patches, which count it, are off.
\<close>

lemma empty_child_lost:
  "encodeBox (Box ks a (xs @ Box ks' no_attrs [] # ys)) = encodeBox (Box ks a (xs @ ys))"
proof -
  have "encodeBox (Box ks' no_attrs []) = []"
    by (simp add: encodeBox_tokens boxToks_def headToks_def no_attrs_def opt_bytes_def opt_list_def btok_def
        stok_def booltok_def vtok_def)
  then have "btok 11 (encodeBox (Box ks' no_attrs [])) = []" by (simp add: btok_def)
  then show ?thesis by (simp add: encodeBox_tokens boxToks_def)
qed

text \<open>
  An empty line of a content is not written: contents that differ only in empty lines have
  the same bytes.
\<close>

lemma empty_line_lost:
  "encodeContent (c\<lparr>con_lines := Some (xs @ [] # ys)\<rparr>) = encodeContent (c\<lparr>con_lines := Some (xs @ ys)\<rparr>)"
  by (simp add: encodeContent_def opt_list_def fieldString_def fieldBytes_def)

text \<open>
  Two losses of the encoder. A child without attributes and children leaves no trace on the
  wire, so the children after it move up by one on the host and the paths of later patches, which
  count it, are off; an empty line of a content is not written, so contents that differ only in
  empty lines have the same bytes.
\<close>

lemma empty_messages_lost:
  "encodeBox (Box ks a (xs @ Box ks' no_attrs [] # ys)) = encodeBox (Box ks a (xs @ ys)) \<and>
   encodeContent (c\<lparr>con_lines := Some (ls @ [] # ms)\<rparr>) = encodeContent (c\<lparr>con_lines := Some (ls @ ms)\<rparr>)"
  using empty_child_lost empty_line_lost by blast

end
