(* ===== verification/ViewDelta.thy ===== *)
theory ViewDelta
  imports BoxTree
begin

text \<open>
  View deltas: \<open>diffView\<close> of \<open>wire.js\<close>, which turns two view trees into patches, the patch
  encoding, and the host that applies them (\<open>clients/tui/runtime/view_delta.go\<close>). The host
  merges the box of a \<open>set\<close> patch with \<open>proto.Merge\<close> of the Go protobuf library, which is a
  parameter here (\<open>mrg\<close>), described by the locale \<open>proto_merge\<close>.
\<close>

section \<open>Patches\<close>

definition OP_SET :: ustr where "OP_SET = asc ''set''"
definition OP_REPLACE :: ustr where "OP_REPLACE = asc ''replace''"
definition OP_INSERT :: ustr where "OP_INSERT = asc ''insert''"
definition OP_REMOVE :: ustr where "OP_REMOVE = asc ''remove''"
definition OP_MOVE :: ustr where "OP_MOVE = asc ''move''"

record patch =
  pt_op :: ustr
  pt_path :: "nat list"
  pt_index :: "nat option"
  pt_from :: "nat option"
  pt_to :: "nat option"
  pt_box :: "box option"

definition encodePatch :: "patch \<Rightarrow> bytes" where
  "encodePatch p =
     fieldString 1 (Some (pt_op p)) @
     concat (map (\<lambda>step. fieldVarint 2 (Some (int step))) (pt_path p)) @
     fieldVarint 3 (map_option int (pt_index p)) @ fieldVarint 4 (map_option int (pt_from p)) @
     fieldVarint 5 (map_option int (pt_to p)) @
     fieldMsg 6 (map_option encodeBox (pt_box p))"

definition encodeViewDelta :: "int \<Rightarrow> int \<Rightarrow> int \<Rightarrow> ustr list option \<Rightarrow> bool option \<Rightarrow> patch list \<Rightarrow> bytes" where
  "encodeViewDelta epoch rv revBase claim allKeys patches =
     fieldVarint 1 (Some epoch) @ fieldVarint 2 (Some rv) @ fieldVarint 3 (Some revBase) @
     (if claim \<noteq> None \<or> allKeys \<noteq> None then
        fieldMsg 4 (Some (concat (map (\<lambda>key. fieldString 1 (Some key)) (opt_list claim)) @ fieldBool 2 allKeys))
      else []) @
     concat (map (\<lambda>p. fieldMsg 5 (Some (encodePatch p))) patches)"

record dpatch =
  dp_op :: ustr
  dp_path :: "int list"
  dp_index :: int
  dp_from :: int
  dp_to :: int
  dp_box :: "dbox option"

definition decodePatch :: "bytes \<Rightarrow> wire_error + dpatch" where
  "decodePatch data =
     andThen (parseFields data) (\<lambda>fs.
     andThen (string_of fs 1) (\<lambda>op.
     andThen (uints fs 2) (\<lambda>path.
     andThen (uint_of fs 3) (\<lambda>i.
     andThen (uint_of fs 4) (\<lambda>from.
     andThen (uint_of fs 5) (\<lambda>to.
     andThen (case first fs 6 of
          None \<Rightarrow> Inr None
        | Some (VInt k) \<Rightarrow> if k = 0 then Inr None else andThen (decodeBox []) (\<lambda>b. Inr (Some b))
        | Some (VBytes b) \<Rightarrow> andThen (decodeBox b) (\<lambda>b. Inr (Some b))) (\<lambda>bx.
       Inr \<lparr>dp_op = op, dp_path = path, dp_index = i, dp_from = from, dp_to = to, dp_box = bx\<rparr>)))))))"

record dkeys =
  dk_claim :: "ustr list"
  dk_all :: bool

record ddelta =
  dd_epoch :: int
  dd_rev :: int
  dd_rev_base :: int
  dd_keys :: "dkeys option"
  dd_patches :: "dpatch list"

fun delta_fields :: "field list \<Rightarrow> ddelta \<Rightarrow> wire_error + ddelta" where
  "delta_fields [] d = Inr d"
| "delta_fields ((f, w, VBytes b) # fs) d =
     (if f = 4 \<and> w = WIRE_LEN then
        andThen (parseFields b) (\<lambda>inner.
        andThen (strings inner 1) (\<lambda>cl.
        andThen (bool_of inner 2) (\<lambda>al. delta_fields fs (d\<lparr>dd_keys := Some \<lparr>dk_claim = cl, dk_all = al\<rparr>\<rparr>))))
      else if f = 5 \<and> w = WIRE_LEN then
        andThen (decodePatch b) (\<lambda>p. delta_fields fs (d\<lparr>dd_patches := dd_patches d @ [p]\<rparr>))
      else delta_fields fs d)"
| "delta_fields ((f, w, VInt n) # fs) d = delta_fields fs d"

definition decodeViewDelta :: "bytes \<Rightarrow> wire_error + ddelta" where
  "decodeViewDelta data =
     andThen (parseFields data) (\<lambda>fs.
     andThen (uint_of fs 1) (\<lambda>e.
     andThen (uint_of fs 2) (\<lambda>r.
     andThen (uint_of fs 3) (\<lambda>b.
       delta_fields fs \<lparr>dd_epoch = e, dd_rev = r, dd_rev_base = b, dd_keys = None, dd_patches = []\<rparr>))))"

section \<open>Diff\<close>

datatype bfield = FSize | FPos | FFlow | FVisible | FCursor | FContent | FInput | FFocused | FStyle

definition BOX_FIELDS :: "bfield list" where
  "BOX_FIELDS = [FSize, FPos, FFlow, FVisible, FCursor, FContent, FInput, FFocused, FStyle]"

text \<open>The value \<open>box[key]\<close> of one of these properties.\<close>

datatype jsval = JUndef | JStr ustr | JBool bool | JNums "int list" | JStrs "ustr list"
  | JCursor cursor | JContent content

definition jopt :: "('a \<Rightarrow> jsval) \<Rightarrow> 'a option \<Rightarrow> jsval" where
  "jopt g x = (case x of None \<Rightarrow> JUndef | Some v \<Rightarrow> g v)"

fun field_value :: "bfield \<Rightarrow> attrs \<Rightarrow> jsval" where
  "field_value FSize a = jopt (\<lambda>(w, h, f). JNums [w, h, f]) (box_size a)"
| "field_value FPos a = jopt (\<lambda>(x, y). JNums [x, y]) (box_pos a)"
| "field_value FFlow a = jopt JStr (box_flow a)"
| "field_value FVisible a = jopt JBool (box_visible a)"
| "field_value FCursor a = jopt JCursor (box_cursor a)"
| "field_value FContent a = jopt JContent (box_content a)"
| "field_value FInput a = jopt JStrs (box_input a)"
| "field_value FFocused a = jopt JBool (box_focused a)"
| "field_value FStyle a = jopt JStr (box_style a)"

text \<open>\<open>{ [key]: nextValue }\<close>: a box with that one property.\<close>

fun single_attr :: "bfield \<Rightarrow> attrs \<Rightarrow> attrs" where
  "single_attr FSize a = no_attrs\<lparr>box_size := box_size a\<rparr>"
| "single_attr FPos a = no_attrs\<lparr>box_pos := box_pos a\<rparr>"
| "single_attr FFlow a = no_attrs\<lparr>box_flow := box_flow a\<rparr>"
| "single_attr FVisible a = no_attrs\<lparr>box_visible := box_visible a\<rparr>"
| "single_attr FCursor a = no_attrs\<lparr>box_cursor := box_cursor a\<rparr>"
| "single_attr FContent a = no_attrs\<lparr>box_content := box_content a\<rparr>"
| "single_attr FInput a = no_attrs\<lparr>box_input := box_input a\<rparr>"
| "single_attr FFocused a = no_attrs\<lparr>box_focused := box_focused a\<rparr>"
| "single_attr FStyle a = no_attrs\<lparr>box_style := box_style a\<rparr>"

fun field_name :: "bfield \<Rightarrow> string" where
  "field_name FSize = ''size''"
| "field_name FPos = ''pos''"
| "field_name FFlow = ''flow''"
| "field_name FVisible = ''visible''"
| "field_name FCursor = ''cursor''"
| "field_name FContent = ''content''"
| "field_name FInput = ''input''"
| "field_name FFocused = ''focused''"
| "field_name FStyle = ''style''"

definition jsonEqual :: "'a \<Rightarrow> 'a \<Rightarrow> bool" where
  "jsonEqual a b \<longleftrightarrow> a = b"

text \<open>
  \<open>===\<close> on these values: primitives by value; two arrays or objects that are not JSON-equal are
  never the same object, and \<open>mergeRepresentable\<close> is called on such values only.
\<close>

fun strictEqual :: "jsval \<Rightarrow> jsval \<Rightarrow> bool" where
  "strictEqual JUndef JUndef = True"
| "strictEqual (JStr s) (JStr t) = (s = t)"
| "strictEqual (JBool b) (JBool c) = (b = c)"
| "strictEqual _ _ = False"

fun truthy :: "jsval \<Rightarrow> bool" where
  "truthy JUndef = False"
| "truthy (JStr s) = (s \<noteq> [])"
| "truthy (JBool b) = b"
| "truthy _ = True"

definition nonempty :: "ustr option \<Rightarrow> bool" where
  "nonempty s \<longleftrightarrow> opt_str s \<noteq> []"

text \<open>\<open>key in obj\<close> also finds the properties every object inherits.\<close>

definition inherited_keys :: "ustr list" where
  "inherited_keys = map asc [''constructor'', ''__defineGetter__'', ''__defineSetter__'', ''hasOwnProperty'',
     ''__lookupGetter__'', ''__lookupSetter__'', ''isPrototypeOf'', ''propertyIsEnumerable'', ''toString'',
     ''valueOf'', ''__proto__'', ''toLocaleString'']"

definition key_in :: "ustr \<Rightarrow> (ustr \<times> ustr) list \<Rightarrow> bool" where
  "key_in k kvs \<longleftrightarrow> k \<in> fst ` set kvs \<or> k \<in> set inherited_keys"

definition content_representable :: "content \<Rightarrow> content \<Rightarrow> bool" where
  "content_representable b n \<longleftrightarrow>
     (nonempty (con_text b) \<longrightarrow> nonempty (con_text n)) \<and>
     (nonempty (con_self b) \<longrightarrow> nonempty (con_self n)) \<and>
     (opt_list (con_lines b) \<noteq> [] \<longrightarrow> con_lines b = con_lines n) \<and>
     list_all (\<lambda>k. key_in k (opt_list (con_props n))) (map fst (opt_list (con_props b)))"

fun mergeRepresentable :: "jsval \<Rightarrow> jsval \<Rightarrow> bool" where
  "mergeRepresentable (JStr s) n = (strictEqual (JStr s) n \<or> n \<noteq> JStr [])"
| "mergeRepresentable (JBool b) n = (strictEqual (JBool b) n \<or> truthy n)"
| "mergeRepresentable (JNums xs) (JNums ys) =
     (length xs = length ys \<and> list_all (\<lambda>(item, n). item = 0 \<or> n \<noteq> 0) (zip xs ys))"
| "mergeRepresentable (JStrs xs) (JStrs ys) = (length xs = length ys)"
| "mergeRepresentable (JNums xs) n = False"
| "mergeRepresentable (JStrs xs) n = False"
| "mergeRepresentable (JCursor b) (JCursor n) = True"
| "mergeRepresentable (JContent b) (JContent n) = content_representable b n"
| "mergeRepresentable (JCursor b) n = False"
| "mergeRepresentable (JContent b) n = False"
| "mergeRepresentable JUndef n = True"

fun commonPrefix :: "box list \<Rightarrow> box list \<Rightarrow> nat" where
  "commonPrefix (x # xs) (y # ys) = (if jsonEqual x y then Suc (commonPrefix xs ys) else 0)"
| "commonPrefix _ _ = 0"

fun suffix_loop :: "nat \<Rightarrow> box list \<Rightarrow> box list \<Rightarrow> nat" where
  "suffix_loop (Suc limit) (x # xs) (y # ys) = (if jsonEqual x y then Suc (suffix_loop limit xs ys) else 0)"
| "suffix_loop _ _ _ = 0"

definition commonSuffix :: "box list \<Rightarrow> box list \<Rightarrow> nat \<Rightarrow> nat" where
  "commonSuffix a b start = suffix_loop (min (length a) (length b) - start) (rev a) (rev b)"

definition set_patch :: "nat list \<Rightarrow> bfield \<Rightarrow> attrs \<Rightarrow> patch" where
  "set_patch path f a = \<lparr>pt_op = OP_SET, pt_path = path, pt_index = None, pt_from = None, pt_to = None,
     pt_box = Some (Box [field_name f] (single_attr f a) [])\<rparr>"

definition replace_patch :: "nat list \<Rightarrow> box \<Rightarrow> patch" where
  "replace_patch path b = \<lparr>pt_op = OP_REPLACE, pt_path = path, pt_index = None, pt_from = None,
     pt_to = None, pt_box = Some b\<rparr>"

definition remove_patch :: "nat list \<Rightarrow> patch" where
  "remove_patch path = \<lparr>pt_op = OP_REMOVE, pt_path = path, pt_index = None, pt_from = None,
     pt_to = None, pt_box = None\<rparr>"

definition insert_patch :: "nat list \<Rightarrow> nat \<Rightarrow> box \<Rightarrow> patch" where
  "insert_patch path i b = \<lparr>pt_op = OP_INSERT, pt_path = path, pt_index = Some i, pt_from = None,
     pt_to = None, pt_box = Some b\<rparr>"

definition changed_fields :: "attrs \<Rightarrow> attrs \<Rightarrow> bfield list" where
  "changed_fields a a' = filter (\<lambda>f. \<not> jsonEqual (field_value f a) (field_value f a')) BOX_FIELDS"

definition diff_lists :: "box list \<Rightarrow> box list \<Rightarrow> nat list \<Rightarrow> patch list" where
  "diff_lists bs ns path =
     (let prefix = commonPrefix bs ns; suffix = commonSuffix bs ns prefix
      in map (\<lambda>i. remove_patch (path @ [prefix])) [prefix..<length bs - suffix] @
         map (\<lambda>i. insert_patch path i (ns ! i)) [prefix..<length ns - suffix])"

text \<open>
  What the loop over the children makes of the result for one child: a child that cannot be
  merged is replaced, one that did not change adds nothing.
\<close>

definition child_patches :: "(patch list \<times> bool) option \<Rightarrow> nat list \<Rightarrow> box \<Rightarrow> patch list \<times> bool" where
  "child_patches r path n =
     (case r of
        None \<Rightarrow> ([replace_patch path n], True)
      | Some (childPatches, childChanged) \<Rightarrow> if childChanged then (childPatches, True) else ([], False))"

definition join_patches :: "patch list \<times> bool \<Rightarrow> patch list \<times> bool \<Rightarrow> patch list \<times> bool" where
  "join_patches r s = (fst r @ fst s, snd r \<or> snd s)"

text \<open>
  \<open>diffNode\<close> returns \<open>null\<close> (\<open>None\<close>) or pushes patches and returns whether it changed anything;
  \<open>diff_children\<close> is its loop over the children of two lists of the same length.
\<close>

fun diffNode :: "box \<Rightarrow> box \<Rightarrow> nat list \<Rightarrow> (patch list \<times> bool) option"
  and diff_children :: "box list \<Rightarrow> box list \<Rightarrow> nat list \<Rightarrow> nat \<Rightarrow> patch list \<times> bool" where
  "diffNode (Box bk ba bs) (Box nk na ns) path =
     (if \<not> list_all (\<lambda>f. mergeRepresentable (field_value f ba) (field_value f na)) (changed_fields ba na)
      then None
      else Some (join_patches
        (map (\<lambda>f. set_patch path f na) (changed_fields ba na), changed_fields ba na \<noteq> [])
        (if length bs = length ns then diff_children bs ns path 0
         else (diff_lists bs ns path, diff_lists bs ns path \<noteq> []))))"
| "diff_children (b # bs) (n # ns) path i =
     join_patches (child_patches (diffNode b n (path @ [i])) (path @ [i]) n)
       (diff_children bs ns path (Suc i))"
| "diff_children [] ns path i = ([], False)"
| "diff_children (b # bs) [] path i = ([], False)"

definition diffView :: "box \<Rightarrow> box \<Rightarrow> patch list option" where
  "diffView base nextRoot =
     (case diffNode base nextRoot [] of
        None \<Rightarrow> None
      | Some (patches, changed) \<Rightarrow> if \<not> changed then None else Some patches)"

end
