(* ===== verification/HostPatches.thy ===== *)
theory HostPatches
  imports ViewDelta
begin

text \<open>
  The host's side of a view delta (\<open>clients/tui/runtime/view_delta.go\<close>): the patches applied to
  the cached tree, and the theorem that the patches of \<open>diffView\<close> turn the tree of the base view
  into the tree of the next view. \<open>proto.Merge\<close> of the Go protobuf library is the parameter
  \<open>mrg\<close>; the locale \<open>proto_merge\<close> states its documented behaviour on the fields of a box.
\<close>

section \<open>Applying patches\<close>

datatype reason = BaseMismatch | PathInvalid | MaxNodes

text \<open>\<open>mergeBox\<close>: the children stay, a non-empty input replaces the old one, the rest is merged.\<close>

fun mergeBox :: "(dattrs \<Rightarrow> dattrs \<Rightarrow> dattrs) \<Rightarrow> dbox \<Rightarrow> dbox \<Rightarrow> dbox" where
  "mergeBox mrg (DBox target cs) (DBox b bs) =
     DBox ((mrg (target\<lparr>d_input := []\<rparr>) b)\<lparr>d_input := (if d_input b \<noteq> [] then d_input b else d_input target)\<rparr>) cs"

definition out_of_range :: "int \<Rightarrow> 'a list \<Rightarrow> bool" where
  "out_of_range i xs \<longleftrightarrow> i < 0 \<or> int (length xs) \<le> i"

lemma out_of_range_int [simp]: "out_of_range (int i) xs \<longleftrightarrow> length xs \<le> i"
  by (simp add: out_of_range_def)

definition remove_index :: "nat \<Rightarrow> 'a list \<Rightarrow> 'a list" where
  "remove_index i xs = take i xs @ drop (Suc i) xs"

definition insert_index :: "nat \<Rightarrow> 'a \<Rightarrow> 'a list \<Rightarrow> 'a list" where
  "insert_index i x xs = take i xs @ x # drop i xs"

fun updateAt :: "dbox \<Rightarrow> int list \<Rightarrow> (dbox \<Rightarrow> dbox) \<Rightarrow> reason + dbox" where
  "updateAt node [] fn = Inr (fn node)"
| "updateAt (DBox a cs) (idx # path) fn =
     (if out_of_range idx cs then Inl PathInvalid
      else andThen (updateAt (cs ! nat idx) path fn) (\<lambda>child. Inr (DBox a (cs[nat idx := child]))))"

fun replaceAt :: "dbox \<Rightarrow> int list \<Rightarrow> dbox \<Rightarrow> reason + dbox" where
  "replaceAt node [] b = Inr b"
| "replaceAt (DBox a cs) (idx # path) b =
     (if out_of_range idx cs then Inl PathInvalid
      else andThen (replaceAt (cs ! nat idx) path b) (\<lambda>child. Inr (DBox a (cs[nat idx := child]))))"

fun insertAt :: "dbox \<Rightarrow> int list \<Rightarrow> int \<Rightarrow> dbox \<Rightarrow> reason + dbox" where
  "insertAt (DBox a cs) [] idx b =
     (if idx < 0 \<or> int (length cs) < idx then Inl PathInvalid
      else Inr (DBox a (insert_index (nat idx) b cs)))"
| "insertAt (DBox a cs) (seg # path) idx b =
     (if out_of_range seg cs then Inl PathInvalid
      else andThen (insertAt (cs ! nat seg) path idx b) (\<lambda>child. Inr (DBox a (cs[nat seg := child]))))"

fun removeAt :: "dbox \<Rightarrow> int list \<Rightarrow> reason + dbox" where
  "removeAt node [] = Inl PathInvalid"
| "removeAt (DBox a cs) (idx # path) =
     (if out_of_range idx cs then Inl PathInvalid
      else if path = [] then Inr (DBox a (remove_index (nat idx) cs))
      else andThen (removeAt (cs ! nat idx) path) (\<lambda>child. Inr (DBox a (cs[nat idx := child]))))"

fun moveAt :: "dbox \<Rightarrow> int list \<Rightarrow> int \<Rightarrow> int \<Rightarrow> reason + dbox" where
  "moveAt (DBox a cs) [] from to =
     (if out_of_range from cs \<or> out_of_range to cs then Inl PathInvalid
      else if from = to then Inr (DBox a cs)
      else Inr (DBox a (insert_index (nat to) (cs ! nat from) (remove_index (nat from) cs))))"
| "moveAt (DBox a cs) (idx # path) from to =
     (if out_of_range idx cs then Inl PathInvalid
      else andThen (moveAt (cs ! nat idx) path from to) (\<lambda>child. Inr (DBox a (cs[nat idx := child]))))"

definition with_box :: "dpatch \<Rightarrow> (dbox \<Rightarrow> reason + dbox) \<Rightarrow> reason + dbox" where
  "with_box p k = (case dp_box p of None \<Rightarrow> Inl PathInvalid | Some b \<Rightarrow> k b)"

definition applyPatch :: "(dattrs \<Rightarrow> dattrs \<Rightarrow> dattrs) \<Rightarrow> dbox \<Rightarrow> dpatch \<Rightarrow> reason + dbox" where
  "applyPatch mrg root p =
     (if dp_op p = OP_SET then with_box p (\<lambda>b. updateAt root (dp_path p) (\<lambda>target. mergeBox mrg target b))
      else if dp_op p = OP_REPLACE then with_box p (replaceAt root (dp_path p))
      else if dp_op p = OP_INSERT then with_box p (insertAt root (dp_path p) (dp_index p))
      else if dp_op p = OP_REMOVE then removeAt root (dp_path p)
      else if dp_op p = OP_MOVE then moveAt root (dp_path p) (dp_from p) (dp_to p)
      else Inl PathInvalid)"

fun applyPatches :: "(dattrs \<Rightarrow> dattrs \<Rightarrow> dattrs) \<Rightarrow> dbox \<Rightarrow> dpatch list \<Rightarrow> reason + dbox" where
  "applyPatches mrg root [] = Inr root"
| "applyPatches mrg root (p # ps) = andThen (applyPatch mrg root p) (\<lambda>next. applyPatches mrg next ps)"

lemma applyPatches_append:
  "applyPatches mrg root (ps @ qs) = andThen (applyPatches mrg root ps) (\<lambda>next. applyPatches mrg next qs)"
proof (induction ps arbitrary: root)
  case (Cons p ps)
  then show ?case by (cases "applyPatch mrg root p") simp_all
qed simp

section \<open>Merging\<close>

definition merge_str :: "ustr \<Rightarrow> ustr \<Rightarrow> ustr" where
  "merge_str a b = (if b = [] then a else b)"

definition merge_int :: "int \<Rightarrow> int \<Rightarrow> int" where
  "merge_int a b = (if b = 0 then a else b)"

definition merge_opt :: "('a \<Rightarrow> 'a \<Rightarrow> 'a) \<Rightarrow> 'a option \<Rightarrow> 'a option \<Rightarrow> 'a option" where
  "merge_opt g a b = (case b of None \<Rightarrow> a | Some y \<Rightarrow> (case a of None \<Rightarrow> Some y | Some x \<Rightarrow> Some (g x y)))"

definition merge_size :: "int \<times> int \<times> int \<Rightarrow> int \<times> int \<times> int \<Rightarrow> int \<times> int \<times> int" where
  "merge_size a b = (case (a, b) of ((w, h, f), (w', h', f')) \<Rightarrow> (merge_int w w', merge_int h h', merge_int f f'))"

definition merge_pos :: "int \<times> int \<Rightarrow> int \<times> int \<Rightarrow> int \<times> int" where
  "merge_pos a b = (case (a, b) of ((x, y), (x', y')) \<Rightarrow> (merge_int x x', merge_int y y'))"

definition merge_cursor :: "dcursor \<Rightarrow> dcursor \<Rightarrow> dcursor" where
  "merge_cursor a b =
     \<lparr>dc_row = merge_int (dc_row a) (dc_row b), dc_col = merge_int (dc_col a) (dc_col b),
      dc_shape = merge_str (dc_shape a) (dc_shape b),
      dc_visible = merge_opt (\<lambda>x y. y) (dc_visible a) (dc_visible b)\<rparr>"

definition merge_content :: "dcontent \<Rightarrow> dcontent \<Rightarrow> dcontent" where
  "merge_content a b =
     \<lparr>dt_text = merge_str (dt_text a) (dt_text b), dt_lines = dt_lines a @ dt_lines b,
      dt_self = merge_str (dt_self a) (dt_self b), dt_props = dt_props a ++ dt_props b\<rparr>"

text \<open>
  \<open>proto.Merge(dst, src)\<close>: populated scalars of \<open>src\<close> overwrite, messages are merged
  recursively, repeated fields are appended, map entries are added and replaced.
\<close>

locale proto_merge =
  fixes mrg :: "dattrs \<Rightarrow> dattrs \<Rightarrow> dattrs"
  assumes merge_id: "d_id (mrg a b) = merge_str (d_id a) (d_id b)"
    and merge_flow: "d_flow (mrg a b) = merge_str (d_flow a) (d_flow b)"
    and merge_style: "d_style (mrg a b) = merge_str (d_style a) (d_style b)"
    and merge_focused: "d_focused (mrg a b) = (d_focused a \<or> d_focused b)"
    and merge_visible: "d_visible (mrg a b) = merge_opt (\<lambda>x y. y) (d_visible a) (d_visible b)"
    and merge_d_size: "d_size (mrg a b) = merge_opt merge_size (d_size a) (d_size b)"
    and merge_d_pos: "d_pos (mrg a b) = merge_opt merge_pos (d_pos a) (d_pos b)"
    and merge_d_cursor: "d_cursor (mrg a b) = merge_opt merge_cursor (d_cursor a) (d_cursor b)"
    and merge_d_content: "d_content (mrg a b) = merge_opt merge_content (d_content a) (d_content b)"
begin

lemmas merge_laws = merge_id merge_flow merge_style merge_focused merge_visible merge_d_size
  merge_d_pos merge_d_cursor merge_d_content

end

definition proto3_merge :: "dattrs \<Rightarrow> dattrs \<Rightarrow> dattrs" where
  "proto3_merge a b =
     \<lparr>d_id = merge_str (d_id a) (d_id b), d_flow = merge_str (d_flow a) (d_flow b),
      d_visible = merge_opt (\<lambda>x y. y) (d_visible a) (d_visible b),
      d_focused = (d_focused a \<or> d_focused b), d_style = merge_str (d_style a) (d_style b),
      d_input = d_input a @ d_input b, d_size = merge_opt merge_size (d_size a) (d_size b),
      d_pos = merge_opt merge_pos (d_pos a) (d_pos b),
      d_cursor = merge_opt merge_cursor (d_cursor a) (d_cursor b),
      d_content = merge_opt merge_content (d_content a) (d_content b)\<rparr>"

interpretation pm: proto_merge proto3_merge
  by unfold_locales (simp_all add: proto3_merge_def)

section \<open>Which changes a set patch carries\<close>

text \<open>The box of a patch as the host decodes it: an empty one is dropped by \<open>fieldMsg\<close>.\<close>

definition sent_box :: "box \<Rightarrow> dbox option" where
  "sent_box b = (if encodeBox b = [] then None else Some (norm b))"

definition sent :: "patch \<Rightarrow> dpatch" where
  "sent p =
     (let num = (\<lambda>v. case v of None \<Rightarrow> 0 | Some n \<Rightarrow> int n) in
      \<lparr>dp_op = pt_op p, dp_path = map int (pt_path p), dp_index = num (pt_index p),
       dp_from = num (pt_from p), dp_to = num (pt_to p), dp_box = Option.bind (pt_box p) sent_box\<rparr>)"

definition no_empty :: "ustr list option \<Rightarrow> bool" where
  "no_empty xs \<longleftrightarrow> filter (\<lambda>s. s \<noteq> []) (opt_list xs) \<noteq> []"

definition cursor_kept :: "cursor \<Rightarrow> cursor \<Rightarrow> bool" where
  "cursor_kept b n \<longleftrightarrow> (cur_row b = 0 \<or> cur_row n \<noteq> 0) \<and> (cur_col b = 0 \<or> cur_col n \<noteq> 0) \<and>
     (nonempty (cur_shape b) \<longrightarrow> nonempty (cur_shape n)) \<and>
     (cur_visible b \<noteq> None \<longrightarrow> cur_visible n \<noteq> None)"

definition content_kept :: "content \<Rightarrow> content \<Rightarrow> bool" where
  "content_kept b n \<longleftrightarrow> \<not> no_empty (con_lines b) \<and>
     fst ` set (opt_list (con_props b)) \<subseteq> fst ` set (opt_list (con_props n)) \<and>
     ([], []) \<notin> set (opt_list (con_props n))"

text \<open>
  What \<open>mergeRepresentable\<close> does not check and the host's merge needs, for one changed
  property of a node.
\<close>

fun set_safe :: "bfield \<Rightarrow> attrs \<Rightarrow> attrs \<Rightarrow> bool" where
  "set_safe FFlow a a' = nonempty (box_flow a')"
| "set_safe FStyle a a' = nonempty (box_style a')"
| "set_safe FInput a a' = no_empty (box_input a')"
| "set_safe FCursor a a' =
     (case (box_cursor a, box_cursor a') of (Some b, Some n) \<Rightarrow> cursor_kept b n | _ \<Rightarrow> True)"
| "set_safe FContent a a' =
     (case box_content a' of None \<Rightarrow> True
      | Some n \<Rightarrow> encodeContent n \<noteq> [] \<and> (case box_content a of None \<Rightarrow> True | Some b \<Rightarrow> content_kept b n))"
| "set_safe f a a' = True"

definition node_safe :: "attrs \<Rightarrow> attrs \<Rightarrow> bool" where
  "node_safe a a' \<longleftrightarrow> opt_str (box_id a) = opt_str (box_id a') \<and> list_all (\<lambda>f. set_safe f a a') (changed_fields a a')"

fun delta_safe :: "box \<Rightarrow> box \<Rightarrow> bool"
  and children_safe :: "box list \<Rightarrow> box list \<Rightarrow> bool" where
  "delta_safe (Box bk ba bs) (Box nk na ns) \<longleftrightarrow>
     node_safe ba na \<and> (length bs = length ns \<longrightarrow> children_safe bs ns)"
| "children_safe (b # bs) (n # ns) \<longleftrightarrow>
     (diffNode b n [] = None \<or> delta_safe b n) \<and> children_safe bs ns"
| "children_safe [] ns = True"
| "children_safe (b # bs) [] = True"

text \<open>No descendant is an empty box, so that the child indices of both sides agree.\<close>

fun solid :: "box \<Rightarrow> bool" where
  "solid (Box ks a cs) \<longleftrightarrow> list_all (\<lambda>c. encodeBox c \<noteq> [] \<and> solid c) cs"

lemma norm_solid: "solid (Box ks a cs) \<Longrightarrow> norm (Box ks a cs) = DBox (normAttrs a) (map norm cs)"
  by (simp add: list_all_iff cong: filter_cong)

section \<open>One set patch\<close>

text \<open>\<open>x\<close> with one property taken from \<open>y\<close>.\<close>

fun dassign :: "dattrs \<Rightarrow> dattrs \<Rightarrow> bfield \<Rightarrow> dattrs" where
  "dassign y x FSize = x\<lparr>d_size := d_size y\<rparr>"
| "dassign y x FPos = x\<lparr>d_pos := d_pos y\<rparr>"
| "dassign y x FFlow = x\<lparr>d_flow := d_flow y\<rparr>"
| "dassign y x FVisible = x\<lparr>d_visible := d_visible y\<rparr>"
| "dassign y x FCursor = x\<lparr>d_cursor := d_cursor y\<rparr>"
| "dassign y x FContent = x\<lparr>d_content := d_content y\<rparr>"
| "dassign y x FInput = x\<lparr>d_input := d_input y\<rparr>"
| "dassign y x FFocused = x\<lparr>d_focused := d_focused y\<rparr>"
| "dassign y x FStyle = x\<lparr>d_style := d_style y\<rparr>"

lemma dassign_id: "d_id (dassign y x f) = d_id x"
  by (cases f) simp_all

lemma foldl_dassign:
  "d_id (foldl (dassign y) x fs) = d_id x"
  "d_size (foldl (dassign y) x fs) = (if FSize \<in> set fs then d_size y else d_size x)"
  "d_pos (foldl (dassign y) x fs) = (if FPos \<in> set fs then d_pos y else d_pos x)"
  "d_flow (foldl (dassign y) x fs) = (if FFlow \<in> set fs then d_flow y else d_flow x)"
  "d_visible (foldl (dassign y) x fs) = (if FVisible \<in> set fs then d_visible y else d_visible x)"
  "d_cursor (foldl (dassign y) x fs) = (if FCursor \<in> set fs then d_cursor y else d_cursor x)"
  "d_content (foldl (dassign y) x fs) = (if FContent \<in> set fs then d_content y else d_content x)"
  "d_input (foldl (dassign y) x fs) = (if FInput \<in> set fs then d_input y else d_input x)"
  "d_focused (foldl (dassign y) x fs) = (if FFocused \<in> set fs then d_focused y else d_focused x)"
  "d_style (foldl (dassign y) x fs) = (if FStyle \<in> set fs then d_style y else d_style x)"
proof (induction fs arbitrary: x)
  case (Cons f fs)
  {
    case 1 then show ?case using Cons.IH by (cases f) simp_all
  next
    case 2 then show ?case using Cons.IH by (cases f) simp_all
  next
    case 3 then show ?case using Cons.IH by (cases f) simp_all
  next
    case 4 then show ?case using Cons.IH by (cases f) simp_all
  next
    case 5 then show ?case using Cons.IH by (cases f) simp_all
  next
    case 6 then show ?case using Cons.IH by (cases f) simp_all
  next
    case 7 then show ?case using Cons.IH by (cases f) simp_all
  next
    case 8 then show ?case using Cons.IH by (cases f) simp_all
  next
    case 9 then show ?case using Cons.IH by (cases f) simp_all
  next
    case 10 then show ?case using Cons.IH by (cases f) simp_all
  }
qed simp_all

text \<open>Two host nodes agree on one property.\<close>

fun dagree :: "bfield \<Rightarrow> dattrs \<Rightarrow> dattrs \<Rightarrow> bool" where
  "dagree FSize x y \<longleftrightarrow> d_size x = d_size y"
| "dagree FPos x y \<longleftrightarrow> d_pos x = d_pos y"
| "dagree FFlow x y \<longleftrightarrow> d_flow x = d_flow y"
| "dagree FVisible x y \<longleftrightarrow> d_visible x = d_visible y"
| "dagree FCursor x y \<longleftrightarrow> d_cursor x = d_cursor y"
| "dagree FContent x y \<longleftrightarrow> d_content x = d_content y"
| "dagree FInput x y \<longleftrightarrow> d_input x = d_input y"
| "dagree FFocused x y \<longleftrightarrow> d_focused x = d_focused y"
| "dagree FStyle x y \<longleftrightarrow> d_style x = d_style y"

lemma dagree_trans: "dagree f x y \<Longrightarrow> dagree f y z \<Longrightarrow> dagree f x z"
  by (cases f) simp_all

lemma dattrs_eqI:
  assumes "d_id x = d_id y" and b: "\<And>f. dagree f x y"
  shows "x = (y :: dattrs)"
  using assms(1) b [of FSize] b [of FPos] b [of FFlow] b [of FVisible] b [of FCursor] b [of FContent]
    b [of FInput] b [of FFocused] b [of FStyle]
  by (intro dattrs.equality) simp_all

lemma dagree_foldl: "f \<notin> set fs \<Longrightarrow> dagree f (foldl (dassign y) x fs) x"
  by (cases f) (simp_all add: foldl_dassign)

lemma dagree_foldl_in: "f \<in> set fs \<Longrightarrow> dagree f (foldl (dassign y) x fs) y"
  by (cases f) (simp_all add: foldl_dassign)

lemma jopt_eq:
  "jopt g x = jopt g y \<Longrightarrow> (\<And>u v. g u = g v \<Longrightarrow> u = v) \<Longrightarrow> (\<And>u. g u \<noteq> JUndef) \<Longrightarrow> x = y"
  by (cases x; cases y) (simp_all add: jopt_def, metis+)

lemma field_value_eq:
  "field_value FSize a = field_value FSize b \<Longrightarrow> box_size a = box_size b"
  "field_value FPos a = field_value FPos b \<Longrightarrow> box_pos a = box_pos b"
  "field_value FFlow a = field_value FFlow b \<Longrightarrow> box_flow a = box_flow b"
  "field_value FVisible a = field_value FVisible b \<Longrightarrow> box_visible a = box_visible b"
  "field_value FCursor a = field_value FCursor b \<Longrightarrow> box_cursor a = box_cursor b"
  "field_value FContent a = field_value FContent b \<Longrightarrow> box_content a = box_content b"
  "field_value FInput a = field_value FInput b \<Longrightarrow> box_input a = box_input b"
  "field_value FFocused a = field_value FFocused b \<Longrightarrow> box_focused a = box_focused b"
  "field_value FStyle a = field_value FStyle b \<Longrightarrow> box_style a = box_style b"
  by (auto elim!: jopt_eq split: prod.splits)

lemma changed_fields_iff: "f \<in> set (changed_fields a a') \<longleftrightarrow> field_value f a \<noteq> field_value f a'"
  by (cases f) (simp_all add: changed_fields_def BOX_FIELDS_def jsonEqual_def)

lemma dagree_unchanged: "f \<notin> set (changed_fields a a') \<Longrightarrow> dagree f (normAttrs a) (normAttrs a')"
  unfolding changed_fields_iff not_not
  by (cases f) (auto dest: field_value_eq simp del: field_value.simps simp: normAttrs_def)

lemma fields_reached:
  assumes "opt_str (box_id a) = opt_str (box_id a')"
  shows "foldl (dassign (normAttrs a')) (normAttrs a) (changed_fields a a') = normAttrs a'"
proof (rule dattrs_eqI)
  show "d_id (foldl (dassign (normAttrs a')) (normAttrs a) (changed_fields a a')) = d_id (normAttrs a')"
    using assms by (simp add: foldl_dassign normAttrs_def)
next
  fix f
  show "dagree f (foldl (dassign (normAttrs a')) (normAttrs a) (changed_fields a a')) (normAttrs a')"
    using dagree_foldl_in dagree_foldl dagree_unchanged dagree_trans by blast
qed

lemma merge_None [simp]: "merge_opt g a None = a" "merge_str s [] = s"
  by (simp_all add: merge_opt_def merge_str_def)

lemma merged_size:
  "mergeRepresentable (jopt (\<lambda>(w, h, f). JNums [w, h, f]) s) (jopt (\<lambda>(w, h, f). JNums [w, h, f]) s') \<Longrightarrow>
    merge_opt merge_size s s' = s'"
  by (cases s; cases s') (auto simp: jopt_def merge_opt_def merge_size_def merge_int_def)

lemma merged_pos:
  "mergeRepresentable (jopt (\<lambda>(x, y). JNums [x, y]) s) (jopt (\<lambda>(x, y). JNums [x, y]) s') \<Longrightarrow>
    merge_opt merge_pos s s' = s'"
  by (cases s; cases s') (auto simp: jopt_def merge_opt_def merge_pos_def merge_int_def)

lemma merged_str: "nonempty s' \<Longrightarrow> merge_str s (opt_str s') = opt_str s'"
  by (simp add: merge_str_def nonempty_def)

lemma merged_visible:
  "mergeRepresentable (jopt JBool v) (jopt JBool v') \<Longrightarrow> v \<noteq> v' \<Longrightarrow> merge_opt (\<lambda>x y. y) v v' = v'"
  by (cases v; cases v') (auto simp: jopt_def merge_opt_def)

lemma merged_focused:
  "mergeRepresentable (jopt JBool v) (jopt JBool v') \<Longrightarrow> v \<noteq> v' \<Longrightarrow>
    (v = Some True \<or> v' = Some True) = (v' = Some True)"
  by (cases v; cases v') (auto simp: jopt_def)

lemma merged_cursor:
  assumes "mergeRepresentable (jopt JCursor c) (jopt JCursor c')"
    and "case (c, c') of (Some b, Some n) \<Rightarrow> cursor_kept b n | _ \<Rightarrow> True"
  shows "merge_opt merge_cursor (map_option normCursor c) (map_option normCursor c') = map_option normCursor c'"
proof (cases c; cases c')
  fix b n
  assume c: "c = Some b" "c' = Some n"
  then have "cursor_kept b n" using assms(2) by simp
  then have "merge_cursor (normCursor b) (normCursor n) = normCursor n"
    by (auto simp: merge_cursor_def normCursor_def cursor_kept_def merge_int_def merge_str_def nonempty_def
        merge_opt_def split: option.splits)
  with c show ?thesis by (simp add: merge_opt_def)
qed (use assms in \<open>auto simp: jopt_def merge_opt_def\<close>)

lemma merged_props:
  assumes "fst ` set ps \<subseteq> fst ` set qs"
  shows "map_of (filter P ps) ++ map_of qs = map_of qs"
proof
  fix k
  show "(map_of (filter P ps) ++ map_of qs) k = map_of qs k"
  proof (cases "map_of qs k")
    case None
    then have "k \<notin> fst ` set ps" using assms by (auto simp: map_of_eq_None_iff)
    then have "map_of (filter P ps) k = None" by (auto simp: map_of_eq_None_iff)
    with None show ?thesis by (simp add: map_add_def)
  qed (simp add: map_add_def)
qed

lemma merged_content_values:
  assumes "content_representable b n" and "content_kept b n"
  shows "merge_content (normContent b) (normContent n) = normContent n"
proof -
  have all: "filter (\<lambda>e. e \<noteq> ([], [])) (opt_list (con_props n)) = opt_list (con_props n)"
    using assms(2) by (auto simp: content_kept_def filter_id_conv)
  have "dt_props (normContent b) ++ dt_props (normContent n) = dt_props (normContent n)"
    using assms(2) unfolding normContent_def all by (simp add: content_kept_def merged_props)
  moreover have "merge_str (opt_str (con_text b)) (opt_str (con_text n)) = opt_str (con_text n)"
    "merge_str (opt_str (con_self b)) (opt_str (con_self n)) = opt_str (con_self n)"
    using assms(1) by (auto simp: content_representable_def merge_str_def nonempty_def)
  moreover have "dt_lines (normContent b) = []"
    using assms(2) by (simp add: content_kept_def no_empty_def normContent_def)
  ultimately show ?thesis
    by (intro dcontent.equality) (simp_all add: merge_content_def, simp_all add: normContent_def)
qed

definition host_content :: "content option \<Rightarrow> dcontent option" where
  "host_content c = (case c of None \<Rightarrow> None | Some c \<Rightarrow> if encodeContent c = [] then None else Some (normContent c))"

lemma merged_content:
  assumes "mergeRepresentable (jopt JContent c) (jopt JContent c')"
    and "case c' of None \<Rightarrow> True
      | Some n \<Rightarrow> encodeContent n \<noteq> [] \<and> (case c of None \<Rightarrow> True | Some b \<Rightarrow> content_kept b n)"
    and "c \<noteq> c'"
  shows "merge_opt merge_content (host_content c) (host_content c') = host_content c'"
  using assms by (auto simp: host_content_def jopt_def merge_opt_def merged_content_values split: option.splits)

lemma normAttrs_none:
  "normAttrs no_attrs = \<lparr>d_id = [], d_flow = [], d_visible = None, d_focused = False, d_style = [],
     d_input = [], d_size = None, d_pos = None, d_cursor = None, d_content = None\<rparr>"
  by (simp add: normAttrs_def no_attrs_def opt_str_def opt_list_def)

lemma normAttrs_single:
  "normAttrs (single_attr f a) = dassign (normAttrs a) (normAttrs no_attrs) f"
  by (cases f) (simp_all add: normAttrs_def no_attrs_def opt_str_def opt_list_def)

lemma normAttrs_fields:
  "d_size (normAttrs a) = box_size a" "d_pos (normAttrs a) = box_pos a"
  "d_flow (normAttrs a) = opt_str (box_flow a)" "d_style (normAttrs a) = opt_str (box_style a)"
  "d_visible (normAttrs a) = box_visible a" "d_focused (normAttrs a) = (box_focused a = Some True)"
  "d_cursor (normAttrs a) = map_option normCursor (box_cursor a)"
  "d_content (normAttrs a) = host_content (box_content a)"
  "d_input (normAttrs a) = filter (\<lambda>s. s \<noteq> []) (opt_list (box_input a))"
  by (simp_all add: normAttrs_def host_content_def)

context proto_merge
begin

lemma merge_assigns:
  assumes repr: "mergeRepresentable (field_value f a) (field_value f a')" and safe: "set_safe f a a'"
    and changed: "f \<in> set (changed_fields a a')" and same: "dagree f x (normAttrs a)"
  shows "mergeBox mrg (DBox x cs) (norm (Box ks (single_attr f a') [])) = DBox (dassign (normAttrs a') x f) cs"
proof -
  let ?b = "dassign (normAttrs a') (normAttrs no_attrs) f"
  let ?m = "(mrg (x\<lparr>d_input := []\<rparr>) ?b)\<lparr>d_input := if d_input ?b \<noteq> [] then d_input ?b else d_input x\<rparr>"
  note ne = changed [unfolded changed_fields_iff]
  have "?m = dassign (normAttrs a') x f"
  proof (cases f)
    case FSize
    then show ?thesis using repr same
      by (intro dattrs.equality) (simp_all add: merge_laws normAttrs_none normAttrs_fields merged_size)
  next
    case FPos
    then show ?thesis using repr same
      by (intro dattrs.equality) (simp_all add: merge_laws normAttrs_none normAttrs_fields merged_pos)
  next
    case FFlow
    then show ?thesis using safe
      by (intro dattrs.equality) (simp_all add: merge_laws normAttrs_none normAttrs_fields merged_str)
  next
    case FVisible
    then have "box_visible a \<noteq> box_visible a'" using ne by auto
    then show ?thesis using repr same FVisible
      by (intro dattrs.equality) (simp_all add: merge_laws normAttrs_none normAttrs_fields merged_visible)
  next
    case FCursor
    then show ?thesis using repr same safe
      by (intro dattrs.equality) (simp_all add: merge_laws normAttrs_none normAttrs_fields merged_cursor)
  next
    case FContent
    then have "box_content a \<noteq> box_content a'" using ne by auto
    then show ?thesis using repr same safe FContent
      by (intro dattrs.equality) (simp_all add: merge_laws normAttrs_none normAttrs_fields merged_content)
  next
    case FInput
    then show ?thesis using safe
      by (intro dattrs.equality) (simp_all add: merge_laws normAttrs_none normAttrs_fields no_empty_def)
  next
    case FFocused
    then have "box_focused a \<noteq> box_focused a'" using ne by auto
    then show ?thesis using repr same FFocused merged_focused [of "box_focused a" "box_focused a'"]
      by (intro dattrs.equality) (simp_all add: merge_laws normAttrs_none normAttrs_fields)
  next
    case FStyle
    then show ?thesis using safe
      by (intro dattrs.equality) (simp_all add: merge_laws normAttrs_none normAttrs_fields merged_str)
  qed
  then show ?thesis by (simp add: normAttrs_single)
qed

end

section \<open>Patches below a node\<close>

definition under :: "nat list \<Rightarrow> patch \<Rightarrow> patch" where
  "under q p = p\<lparr>pt_path := q @ pt_path p\<rparr>"

lemma under_patches [simp]:
  "under q (set_patch path f a) = set_patch (q @ path) f a"
  "under q (replace_patch path b) = replace_patch (q @ path) b"
  "under q (remove_patch path) = remove_patch (q @ path)"
  "under q (insert_patch path i b) = insert_patch (q @ path) i b"
  by (simp_all add: under_def set_patch_def replace_patch_def remove_patch_def insert_patch_def)

lemma diff_lists_under: "diff_lists bs ns (q @ path) = map (under q) (diff_lists bs ns path)"
  by (simp add: diff_lists_def Let_def)

lemma diffNode_under:
  "diffNode b n (q @ path) = map_option (map_prod (map (under q)) id) (diffNode b n path)"
  and diff_children_under:
  "diff_children bs ns (q @ path) i = map_prod (map (under q)) id (diff_children bs ns path i)"
proof (induction b n path and bs ns path i rule: diffNode_diff_children.induct)
  case (2 b bs n ns path i)
  then show ?case
    by (cases "diffNode b n (path @ [i])") (auto simp: join_patches_def child_patches_def split: if_splits)
qed (auto simp: join_patches_def diff_lists_under)

text \<open>The host rejects the removal of the root, so these patches stay inside the tree.\<close>

definition inner :: "patch \<Rightarrow> bool" where
  "inner p \<longleftrightarrow> (pt_op p = OP_REMOVE \<longrightarrow> pt_path p \<noteq> [])"

lemmas op_defs = OP_SET_def OP_REPLACE_def OP_INSERT_def OP_REMOVE_def OP_MOVE_def

lemma inner_patches [simp]:
  "inner (set_patch path f a)" "inner (replace_patch path b)" "inner (insert_patch path i b)"
  "inner (remove_patch (path @ [j]))" "inner (remove_patch [j])"
  by (simp_all add: inner_def set_patch_def replace_patch_def remove_patch_def insert_patch_def op_defs)

lemma inner_under: "inner p \<Longrightarrow> inner (under q p)"
  by (simp add: inner_def under_def)

lemma inner_diff_lists: "list_all inner (diff_lists bs ns path)"
  by (auto simp: diff_lists_def Let_def list_all_iff)

lemma inner_diffNode:
  "diffNode b n path = Some r \<Longrightarrow> list_all inner (fst r)"
  and inner_diff_children: "list_all inner (fst (diff_children bs ns path i))"
proof (induction b n path and bs ns path i arbitrary: r rule: diffNode_diff_children.induct)
  case (1 bk ba bs nk na ns path)
  then show ?case
    using inner_diff_lists by (auto simp: join_patches_def list_all_iff split: if_splits)
next
  case (2 b bs n ns path i)
  then show ?case
    by (cases "diffNode b n (path @ [i])") (auto simp: join_patches_def child_patches_def)
qed simp_all

lemma applyPatch_child:
  assumes "i < length cs" and "inner p"
  shows "applyPatch mrg (DBox a cs) (sent (under [i] p)) =
    andThen (applyPatch mrg (cs ! i) (sent p)) (\<lambda>c. Inr (DBox a (cs[i := c])))"
  using assms by (auto simp: applyPatch_def sent_def under_def inner_def with_box_def Let_def split: option.split)

lemma applyPatches_child:
  assumes "i < length cs" and "list_all inner ps"
  shows "applyPatches mrg (DBox a cs) (map (\<lambda>p. sent (under [i] p)) ps) =
    andThen (applyPatches mrg (cs ! i) (map sent ps)) (\<lambda>c. Inr (DBox a (cs[i := c])))"
  using assms
proof (induction ps arbitrary: cs)
  case (Cons p ps)
  then show ?case
    by (cases "applyPatch mrg (cs ! i) (sent p)") (simp_all add: applyPatch_child)
qed simp

section \<open>Child lists of different lengths\<close>

lemma commonPrefix_le: "commonPrefix bs ns \<le> length bs" "commonPrefix bs ns \<le> length ns"
  by (induction bs ns rule: commonPrefix.induct) auto

lemma commonPrefix_take: "take (commonPrefix bs ns) bs = take (commonPrefix bs ns) ns"
  by (induction bs ns rule: commonPrefix.induct) (simp_all add: jsonEqual_def)

lemma suffix_loop_le: "suffix_loop k xs ys \<le> k" "suffix_loop k xs ys \<le> length xs" "suffix_loop k xs ys \<le> length ys"
  by (induction k xs ys rule: suffix_loop.induct) auto

lemma suffix_loop_take: "take (suffix_loop k xs ys) xs = take (suffix_loop k xs ys) ys"
  by (induction k xs ys rule: suffix_loop.induct) (simp_all add: jsonEqual_def)

lemma commonSuffix_drop:
  "drop (length bs - commonSuffix bs ns p) bs = drop (length ns - commonSuffix bs ns p) ns"
  using suffix_loop_take [of "min (length bs) (length ns) - p" "rev bs" "rev ns"]
  by (simp add: commonSuffix_def take_rev)

text \<open>The two lists around the children that differ.\<close>

lemma split_middle:
  assumes "p \<le> length xs" "s \<le> length xs - p"
  shows "xs = take p xs @ take (length xs - s - p) (drop p xs) @ drop (length xs - s) xs"
proof -
  have "drop (length xs - s) xs = drop (length xs - s - p) (drop p xs)" using assms by simp
  then show ?thesis by (simp only: append_take_drop_id)
qed

lemma common_bounds:
  "commonSuffix bs ns (commonPrefix bs ns) \<le> length bs - commonPrefix bs ns"
  "commonSuffix bs ns (commonPrefix bs ns) \<le> length ns - commonPrefix bs ns"
  using suffix_loop_le(1) [of "min (length bs) (length ns) - commonPrefix bs ns" "rev bs" "rev ns"]
  by (auto simp: commonSuffix_def)

lemma common_parts:
  obtains pre mid mid' suf where "bs = pre @ mid @ suf" "ns = pre @ mid' @ suf"
    "length pre = commonPrefix bs ns"
    "length mid = length bs - commonSuffix bs ns (commonPrefix bs ns) - commonPrefix bs ns"
    "length mid' = length ns - commonSuffix bs ns (commonPrefix bs ns) - commonPrefix bs ns"
proof
  let ?p = "commonPrefix bs ns"
  let ?s = "commonSuffix bs ns ?p"
  show "bs = take ?p bs @ take (length bs - ?s - ?p) (drop ?p bs) @ drop (length bs - ?s) bs"
    by (rule split_middle [OF commonPrefix_le(1) common_bounds(1)])
  show "ns = take ?p bs @ take (length ns - ?s - ?p) (drop ?p ns) @ drop (length bs - ?s) bs"
    unfolding commonPrefix_take [of bs ns] commonSuffix_drop [of bs ns ?p]
    by (rule split_middle [OF commonPrefix_le(2) common_bounds(2)])
  show "length (take ?p bs) = ?p" using commonPrefix_le(1) [of bs ns] by simp
  show "length (take (length bs - ?s - ?p) (drop ?p bs)) = length bs - ?s - ?p"
    "length (take (length ns - ?s - ?p) (drop ?p ns)) = length ns - ?s - ?p"
    by simp_all
qed

lemma apply_removes:
  "applyPatches mrg (DBox a (xs @ ys @ zs)) (replicate (length ys) (sent (remove_patch [length xs])))
    = Inr (DBox a (xs @ zs))"
  by (induction ys)
    (simp_all add: applyPatch_def sent_def remove_patch_def op_defs remove_index_def Let_def)

lemma apply_inserts:
  "list_all (\<lambda>n. encodeBox n \<noteq> []) ys \<Longrightarrow>
    applyPatches mrg (DBox a (xs @ zs)) (map2 (\<lambda>i y. sent (insert_patch [] i y)) [length xs..<length xs + length ys] ys)
    = Inr (DBox a (xs @ map norm ys @ zs))"
proof (induction ys arbitrary: xs)
  case (Cons y ys)
  have "[length xs..<length xs + length (y # ys)] = length xs # [Suc (length xs)..<Suc (length xs) + length ys]"
    by (simp add: upt_rec)
  moreover have "applyPatch mrg (DBox a (xs @ zs)) (sent (insert_patch [] (length xs) y))
      = Inr (DBox a ((xs @ [norm y]) @ zs))"
    using Cons.prems
    by (simp add: applyPatch_def sent_def insert_patch_def op_defs with_box_def sent_box_def insert_index_def Let_def)
  ultimately show ?case using Cons.IH [of "xs @ [norm y]"] Cons.prems by simp
qed simp

lemma apply_diff_lists:
  assumes "list_all (\<lambda>n. encodeBox n \<noteq> []) ns"
  shows "applyPatches mrg (DBox a (map norm bs)) (map sent (diff_lists bs ns [])) = Inr (DBox a (map norm ns))"
proof -
  let ?p = "commonPrefix bs ns"
  let ?s = "commonSuffix bs ns ?p"
  obtain pre mid mid' suf where parts: "bs = pre @ mid @ suf" "ns = pre @ mid' @ suf"
    "length pre = ?p" "length mid = length bs - ?s - ?p" "length mid' = length ns - ?s - ?p"
    by (rule common_parts)
  have removes: "map (\<lambda>i. remove_patch ([] @ [?p])) [?p..<length bs - ?s] = replicate (length mid) (remove_patch [?p])"
    using parts(4) by (simp add: map_replicate_const)
  have "map (\<lambda>i. (i, ns ! i)) [?p..<length ns - ?s] = zip [?p..<?p + length mid'] mid'"
  proof (rule nth_equalityI)
    show "length (map (\<lambda>i. (i, ns ! i)) [?p..<length ns - ?s]) = length (zip [?p..<?p + length mid'] mid')"
      using parts(5) by simp
    fix k
    assume "k < length (map (\<lambda>i. (i, ns ! i)) [?p..<length ns - ?s])"
    then have k: "k < length mid'" using parts(5) by simp
    have "ns ! (?p + k) = mid' ! k" unfolding parts(3) [symmetric] using k parts(2) by (simp add: nth_append)
    then show "map (\<lambda>i. (i, ns ! i)) [?p..<length ns - ?s] ! k = zip [?p..<?p + length mid'] mid' ! k"
      using k parts(5) by simp
  qed
  then have inserts: "map (\<lambda>i. sent (insert_patch [] i (ns ! i))) [?p..<length ns - ?s]
      = map2 (\<lambda>i y. sent (insert_patch [] i y)) [?p..<?p + length mid'] mid'"
    by (simp add: comp_def flip: map_map [of "\<lambda>(i, y). sent (insert_patch [] i y)" "\<lambda>i. (i, ns ! i)", simplified comp_def split_conv])
  have "list_all (\<lambda>n. encodeBox n \<noteq> []) mid'" using assms parts(2) by (metis list_all_append)
  then have "applyPatches mrg (DBox a (map norm pre @ map norm suf))
      (map2 (\<lambda>i y. sent (insert_patch [] i y)) [?p..<?p + length mid'] mid') = Inr (DBox a (map norm ns))"
    using apply_inserts [of mid' mrg a "map norm pre" "map norm suf"] parts(2,3) by simp
  moreover have "applyPatches mrg (DBox a (map norm bs)) (replicate (length mid) (sent (remove_patch [?p])))
      = Inr (DBox a (map norm pre @ map norm suf))"
    using apply_removes [of mrg a "map norm pre" "map norm mid" "map norm suf"] parts(1,3) by simp
  ultimately show ?thesis
    unfolding diff_lists_def Let_def removes
    by (simp add: applyPatches_append comp_def inserts)
qed

section \<open>The diff reaches the next view\<close>

lemma set_patch_sent:
  assumes "encodeBox (Box ks (single_attr f a) []) \<noteq> []"
  shows "applyPatch mrg (DBox x cs) (sent (set_patch [] f a)) =
    Inr (mergeBox mrg (DBox x cs) (norm (Box [field_name f] (single_attr f a) [])))"
  using assms
  by (simp add: applyPatch_def sent_def set_patch_def with_box_def sent_box_def Let_def encodeBox_tokens)

lemma single_toks:
  "boxToks (single_attr FSize a) [] = btok 2 (opt_bytes (map_option encodeSize (box_size a)))"
  "boxToks (single_attr FPos a) [] = btok 3 (opt_bytes (map_option encodePos (box_pos a)))"
  "boxToks (single_attr FFlow a) [] = stok 4 (box_flow a)"
  "boxToks (single_attr FVisible a) [] = booltok 5 (box_visible a)"
  "boxToks (single_attr FCursor a) [] = btok 7 (opt_bytes (map_option encodeCursor (box_cursor a)))"
  "boxToks (single_attr FContent a) [] = btok 8 (opt_bytes (map_option encodeContent (box_content a)))"
  "boxToks (single_attr FInput a) [] = concat (map (\<lambda>kind. stok 9 (Some kind)) (opt_list (box_input a)))"
  "boxToks (single_attr FFocused a) [] = booltok 10 (box_focused a)"
  "boxToks (single_attr FStyle a) [] = stok 12 (box_style a)"
  by (simp_all add: boxToks_def headToks_def no_attrs_def opt_bytes_def opt_list_def btok_def stok_def
      booltok_def vtok_def)

declare single_attr.simps [simp del]

lemma stok_Nil: "stok n s = [] \<longleftrightarrow> \<not> nonempty s"
  by (auto simp: stok_def btok_def nonempty_def opt_str_def split: option.split)

lemma stoks_Nil: "concat (map (\<lambda>s. stok n (Some s)) (opt_list xs)) = [] \<longleftrightarrow> \<not> no_empty xs"
  by (auto simp: no_empty_def stok_Nil nonempty_def opt_str_def filter_empty_conv)

text \<open>A change that \<open>mergeRepresentable\<close> lets through ends in a present value.\<close>

lemma representable_some:
  "mergeRepresentable (jopt g v) (jopt g v') \<Longrightarrow> jopt g v \<noteq> jopt g v' \<Longrightarrow> (\<And>s x. g x \<noteq> JStr s) \<Longrightarrow>
    v' \<noteq> None"
  by (cases v'; cases v; cases "g (the v)") (auto simp: jopt_def)

lemma single_attr_encoded:
  assumes "set_safe f a a'" and "mergeRepresentable (field_value f a) (field_value f a')"
    and "f \<in> set (changed_fields a a')"
  shows "encodeBox (Box ks (single_attr f a') []) \<noteq> []"
proof -
  note ne = assms(3) [unfolded changed_fields_iff]
  have "boxToks (single_attr f a') [] \<noteq> []"
  proof (cases f)
    case FSize
    then have "box_size a' \<noteq> None"
      using assms(2) ne by (auto dest!: representable_some split: prod.splits)
    then show ?thesis using FSize
      by (auto simp: single_toks btok_def opt_bytes_def encodeSize_tokens sizeToks_def vtok_def)
  next
    case FPos
    then have "box_pos a' \<noteq> None"
      using assms(2) ne by (auto dest!: representable_some split: prod.splits)
    then show ?thesis using FPos
      by (auto simp: single_toks btok_def opt_bytes_def encodePos_tokens posToks_def vtok_def)
  next
    case FCursor
    then have "box_cursor a' \<noteq> None" using assms(2) ne by (auto dest!: representable_some)
    then show ?thesis using FCursor
      by (auto simp: single_toks btok_def opt_bytes_def encodeCursor_tokens cursorToks_def vtok_def)
  next
    case FContent
    then have "box_content a' \<noteq> None" using assms(2) ne by (auto dest!: representable_some)
    then show ?thesis using FContent assms(1) by (auto simp: single_toks btok_def opt_bytes_def)
  next
    case FVisible
    then have "box_visible a' \<noteq> None" using assms(2) ne by (auto dest!: representable_some)
    then show ?thesis using FVisible by (auto simp: single_toks booltok_def vtok_def)
  next
    case FFocused
    then have "box_focused a' \<noteq> None" using assms(2) ne by (auto dest!: representable_some)
    then show ?thesis using FFocused by (auto simp: single_toks booltok_def vtok_def)
  qed (use assms(1) stoks_Nil [of 9 "box_input a'"] in \<open>auto simp: single_toks stok_Nil\<close>)
  then show ?thesis by (simp add: encodeBox_tokens)
qed

lemma diffNode_changed:
  "diffNode b n path = Some r \<Longrightarrow> snd r = (fst r \<noteq> [])"
  and diff_children_changed: "snd (diff_children bs ns path i) = (fst (diff_children bs ns path i) \<noteq> [])"
proof (induction b n path and bs ns path i arbitrary: r rule: diffNode_diff_children.induct)
  case (2 b bs n ns path i)
  then show ?case
    by (cases "diffNode b n (path @ [i])") (auto simp: join_patches_def child_patches_def)
qed (auto simp: join_patches_def split: if_splits)

context proto_merge
begin

lemma apply_sets:
  assumes "list_all (\<lambda>f. mergeRepresentable (field_value f a) (field_value f a')) (changed_fields a a')"
    and "node_safe a a'"
  shows "applyPatches mrg (DBox (normAttrs a) cs) (map (\<lambda>f. sent (set_patch [] f a')) (changed_fields a a'))
    = Inr (DBox (normAttrs a') cs)"
proof -
  have step: "applyPatches mrg (DBox (foldl (dassign (normAttrs a')) (normAttrs a) us) cs)
      (map (\<lambda>f. sent (set_patch [] f a')) vs)
    = Inr (DBox (foldl (dassign (normAttrs a')) (normAttrs a) (us @ vs)) cs)"
    if "changed_fields a a' = us @ vs" for us vs
    using that
  proof (induction vs arbitrary: us)
    case (Cons f vs)
    have "distinct (changed_fields a a')"
      by (simp add: changed_fields_def BOX_FIELDS_def)
    with Cons.prems have "f \<notin> set us" by auto
    then have "dagree f (foldl (dassign (normAttrs a')) (normAttrs a) us) (normAttrs a)" by (rule dagree_foldl)
    moreover have "f \<in> set (changed_fields a a')" "set_safe f a a'"
      "mergeRepresentable (field_value f a) (field_value f a')"
      using Cons.prems assms by (auto simp: node_safe_def list_all_iff)
    ultimately have "applyPatch mrg (DBox (foldl (dassign (normAttrs a')) (normAttrs a) us) cs) (sent (set_patch [] f a'))
        = Inr (DBox (foldl (dassign (normAttrs a')) (normAttrs a) (us @ [f])) cs)"
      using set_patch_sent [OF single_attr_encoded] merge_assigns by simp
    with Cons.IH [of "us @ [f]"] Cons.prems show ?case by simp
  qed simp
  show ?thesis using step [of "[]"] assms(2) by (simp add: fields_reached node_safe_def)
qed


lemma apply_diffNode:
  "diffNode b n [] = Some r \<Longrightarrow> delta_safe b n \<Longrightarrow> solid b \<Longrightarrow> solid n \<Longrightarrow>
    applyPatches mrg (norm b) (map sent (fst r)) = Inr (norm n)"
  and apply_diff_children:
  "length bs = length ns \<Longrightarrow> children_safe bs ns \<Longrightarrow> list_all (\<lambda>c. encodeBox c \<noteq> [] \<and> solid c) bs \<Longrightarrow>
    list_all (\<lambda>c. encodeBox c \<noteq> [] \<and> solid c) ns \<Longrightarrow>
    applyPatches mrg (DBox a (xs @ map norm bs)) (map sent (fst (diff_children bs ns [] (length xs))))
      = Inr (DBox a (xs @ map norm ns))"
proof (induction b n and bs ns arbitrary: r and a xs rule: delta_safe_children_safe.induct)
  case (1 bk ba bs nk na ns)
  let ?kids = "if length bs = length ns then fst (diff_children bs ns [] 0) else diff_lists bs ns []"
  have r: "list_all (\<lambda>f. mergeRepresentable (field_value f ba) (field_value f na)) (changed_fields ba na)"
    "fst r = map (\<lambda>f. set_patch [] f na) (changed_fields ba na) @ ?kids"
    using "1.prems"(1) by (auto simp: join_patches_def split: if_splits)
  have "list_all (\<lambda>n. encodeBox n \<noteq> []) ns" using "1.prems"(4) by (auto simp: list_all_iff)
  then have "applyPatches mrg (DBox (normAttrs na) (map norm bs)) (map sent ?kids)
      = Inr (DBox (normAttrs na) (map norm ns))"
    using "1.IH" [of "normAttrs na" "[]"] "1.prems"(2-) by (simp add: apply_diff_lists)
  then show ?case
    using "1.prems"(2-) r apply_sets [OF r(1), of "map norm bs"]
    by (simp add: norm_solid applyPatches_append comp_def del: norm.simps)
next
  case (2 b bs n ns)
  let ?c = "child_patches (diffNode b n [length xs]) [length xs] n"
  have at: "(xs @ norm b # map norm bs) ! length xs = norm b"
    "(xs @ norm b # map norm bs)[length xs := c] = xs @ c # map norm bs" for c by simp_all
  have below: "diffNode b n [length xs] = map_option (map_prod (map (under [length xs])) id) (diffNode b n [])"
    using diffNode_under [of b n "[length xs]" "[]"] by simp
  have "applyPatches mrg (DBox a (xs @ norm b # map norm bs)) (map sent (fst ?c))
      = Inr (DBox a (xs @ norm n # map norm bs))"
  proof (cases "diffNode b n []")
    case None
    then show ?thesis
      using below "2.prems"(4)
      by (simp add: child_patches_def applyPatch_def sent_def replace_patch_def with_box_def sent_box_def
          op_defs Let_def)
  next
    case (Some r)
    then have applied: "applyPatches mrg (norm b) (map sent (fst r)) = Inr (norm n)"
      using "2.IH"(1) [of r] "2.prems" by simp
    obtain ps ch where ps: "r = (ps, ch)" by force
    have "ch = (ps \<noteq> [])" using diffNode_changed [OF Some] ps by simp
    then have "fst ?c = map (under [length xs]) ps" using below Some ps by (simp add: child_patches_def)
    then show ?thesis
      using applyPatches_child [of "length xs" "xs @ norm b # map norm bs" ps mrg a]
        inner_diffNode [OF Some] applied ps at by (simp add: comp_def)
  qed
  moreover have "applyPatches mrg (DBox a (xs @ norm n # map norm bs))
      (map sent (fst (diff_children bs ns [] (Suc (length xs))))) = Inr (DBox a (xs @ norm n # map norm ns))"
    using "2.IH"(2) [of a "xs @ [norm n]"] "2.prems" by simp
  ultimately show ?case by (simp add: join_patches_def applyPatches_append)
qed simp_all

lemma apply_diffView:
  assumes "diffView b n = Some ps" "delta_safe b n" "solid b" "solid n"
  shows "applyPatches mrg (norm b) (map sent ps) = Inr (norm n)"
  using apply_diffNode [OF _ assms(2-)] assms(1) by (auto simp: diffView_def split: option.splits if_splits)

end

end
