(* ===== verification/DeltaWire.thy ===== *)
theory DeltaWire
  imports HostPatches
begin

text \<open>
  View deltas on the wire: what the host decodes from the bytes of a patch and of a delta, and
  with it the correctness of the whole path from \<open>diffView\<close> over the wire to the host's tree.
  The last section states the cases in which the path loses a change.
\<close>

section \<open>Patches round trip\<close>

definition step_ok :: "nat \<Rightarrow> bool" where
  "step_ok n \<longleftrightarrow> n < 2 ^ 32"

definition patch_ok :: "patch \<Rightarrow> bool" where
  "patch_ok p \<longleftrightarrow> pt_op p \<noteq> [] \<and> valid_ustr (pt_op p) \<and> list_all step_ok (pt_path p) \<and> pred_option step_ok (pt_index p) \<and>
     pred_option step_ok (pt_from p) \<and> pred_option step_ok (pt_to p) \<and> pred_option box_ok (pt_box p)"

definition patchToks :: "patch \<Rightarrow> field list" where
  "patchToks p = stok 1 (Some (pt_op p)) @ concat (map (\<lambda>step. vtok 2 (Some (int step))) (pt_path p)) @
     vtok 3 (map_option int (pt_index p)) @ vtok 4 (map_option int (pt_from p)) @
     vtok 5 (map_option int (pt_to p)) @ btok 6 (opt_bytes (map_option encodeBox (pt_box p)))"

lemma encodePatch_tokens: "encodePatch p = tokens (patchToks p)"
  by (simp add: encodePatch_def patchToks_def fieldString_tokens fieldVarint_tokens fieldMsg_opt_tokens
      concat_map_tokens)

lemma mapM_steps:
  "list_all step_ok ns \<Longrightarrow>
    mapM (\<lambda>(number, wire, value). value_number value) (concat (map (\<lambda>n. vtok f (Some (int n))) ns))
      = Inr (map int ns)"
  by (induction ns) (simp_all add: vtok_def step_ok_def)

lemma uint_of_step:
  "pred_option step_ok v \<Longrightarrow> first fs n = map_option (\<lambda>x. VInt (u64 x)) (map_option int v) \<Longrightarrow>
    uint_of fs n = Inr (case v of None \<Rightarrow> 0 | Some k \<Rightarrow> int k)"
  by (cases v) (simp_all add: uint_of_def step_ok_def)

lemma decodePatch_encodePatch:
  assumes "patch_ok p" and "length (encodePatch p) < 2 ^ 53"
  shows "decodePatch (encodePatch p) = Inr (sent p)"
proof -
  let ?ts = "patchToks p"
  note ok = assms(1) [unfolded patch_ok_def]
  have len: "length (tokens ?ts) < 2 ^ 53" using assms(2) by (simp add: encodePatch_tokens)
  then have "parseFields (tokens ?ts) = Inr ?ts"
    by (intro parseFields_tokens) (simp_all add: patchToks_def list_all_concat_map)
  moreover have "string_of ?ts 1 = Inr (pt_op p)"
    using ok by (subst string_of_stok [of "Some (pt_op p)"])
      (auto simp: patchToks_def decode_simps ostr_ok_def opt_str_def)
  moreover have "uints ?ts 2 = Inr (map int (pt_path p))"
    using ok by (simp add: uints_with_number patchToks_def decode_simps with_number_concat_same mapM_steps)
  moreover have "uint_of ?ts 3 = Inr (case pt_index p of None \<Rightarrow> 0 | Some k \<Rightarrow> int k)"
    "uint_of ?ts 4 = Inr (case pt_from p of None \<Rightarrow> 0 | Some k \<Rightarrow> int k)"
    "uint_of ?ts 5 = Inr (case pt_to p of None \<Rightarrow> 0 | Some k \<Rightarrow> int k)"
    using ok by (simp_all add: uint_of_step patchToks_def decode_simps option.map_comp comp_def split: option.split)
  moreover have "first ?ts 6 = (case Option.bind (pt_box p) sent_box of
      None \<Rightarrow> None | Some b \<Rightarrow> Some (VBytes (encodeBox (the (pt_box p)))))"
    by (auto simp: patchToks_def decode_simps opt_bytes_def sent_box_def split: option.split)
  moreover have "decodeBox (encodeBox b) = Inr (norm b)" if "pt_box p = Some b" for b
  proof -
    have "length (encodeBox b) < 2 ^ 53"
      using len that btok_length [of "encodeBox b" 6] by (simp add: patchToks_def opt_bytes_def)
    then show ?thesis using ok that by (simp add: decodeBox_encodeBox)
  qed
  ultimately show ?thesis
    by (auto simp: encodePatch_tokens decodePatch_def sent_def Let_def sent_box_def
        split: option.splits if_splits bind_splits)
qed

lemma encodePatch_nonempty: "patch_ok p \<Longrightarrow> encodePatch p \<noteq> []"
  by (auto simp: encodePatch_tokens patchToks_def patch_ok_def stok_def btok_def)

section \<open>Deltas round trip\<close>

definition keysToks :: "ustr list option \<Rightarrow> bool option \<Rightarrow> field list" where
  "keysToks claim allKeys = concat (map (\<lambda>key. stok 1 (Some key)) (opt_list claim)) @ booltok 2 allKeys"

definition headerToks :: "int \<Rightarrow> int \<Rightarrow> int \<Rightarrow> field list" where
  "headerToks e r rb = vtok 1 (Some e) @ vtok 2 (Some r) @ vtok 3 (Some rb)"

definition deltaToks :: "int \<Rightarrow> int \<Rightarrow> int \<Rightarrow> ustr list option \<Rightarrow> bool option \<Rightarrow> patch list \<Rightarrow> field list" where
  "deltaToks e r rb claim allKeys ps = headerToks e r rb @ btok 4 (tokens (keysToks claim allKeys)) @
     concat (map (\<lambda>p. btok 5 (encodePatch p)) ps)"

lemma encodeViewDelta_tokens:
  "encodeViewDelta e r rb claim allKeys ps = tokens (deltaToks e r rb claim allKeys ps)"
proof -
  have "keysToks None None = []" by (simp add: keysToks_def opt_list_def booltok_def vtok_def)
  then show ?thesis
    by (auto simp: encodeViewDelta_def deltaToks_def headerToks_def fieldVarint_tokens fieldMsg_tokens
        fieldString_tokens fieldBool_tokens concat_map_tokens keysToks_def btok_def)
qed

text \<open>The keys the host takes from a delta: none when there is nothing to say.\<close>

definition sent_keys :: "ustr list option \<Rightarrow> bool option \<Rightarrow> dkeys option" where
  "sent_keys claim allKeys =
     (if filter (\<lambda>s. s \<noteq> []) (opt_list claim) = [] \<and> allKeys = None then None
      else Some \<lparr>dk_claim = filter (\<lambda>s. s \<noteq> []) (opt_list claim), dk_all = (allKeys = Some True)\<rparr>)"

lemma keysToks_Nil:
  "keysToks claim allKeys = [] \<longleftrightarrow> filter (\<lambda>s. s \<noteq> []) (opt_list claim) = [] \<and> allKeys = None"
  by (auto simp: keysToks_def stok_def btok_def booltok_def vtok_def filter_empty_conv split: option.splits)

lemma delta_fields_patches:
  "list_all (\<lambda>p. decodePatch (encodePatch p) = Inr (sent p) \<and> encodePatch p \<noteq> []) ps \<Longrightarrow>
    delta_fields (concat (map (\<lambda>p. btok 5 (encodePatch p)) ps)) d = Inr (d\<lparr>dd_patches := dd_patches d @ map sent ps\<rparr>)"
  by (induction ps arbitrary: d) (simp_all add: btok_def)

lemma delta_fields_keys:
  assumes "list_all valid_ustr (opt_list claim)" and "length (tokens (keysToks claim allKeys)) < 2 ^ 53"
    and "dd_keys d = None"
  shows "delta_fields (btok 4 (tokens (keysToks claim allKeys)) @ fs) d
    = delta_fields fs (d\<lparr>dd_keys := sent_keys claim allKeys\<rparr>)"
proof -
  let ?ts = "keysToks claim allKeys"
  have "parseFields (tokens ?ts) = Inr ?ts"
    using assms(2) by (intro parseFields_tokens) (simp_all add: keysToks_def list_all_concat_map)
  moreover have "strings ?ts 1 = Inr (filter (\<lambda>s. s \<noteq> []) (opt_list claim))"
    using assms(1) by (simp add: strings_with_number keysToks_def decode_simps with_number_concat_same mapM_stoks)
  moreover have "bool_of ?ts 2 = Inr (allKeys = Some True)"
    by (intro bool_of_booltok) (simp add: keysToks_def decode_simps)
  moreover have "d\<lparr>dd_keys := None\<rparr> = d" using assms(3) by simp
  ultimately show ?thesis
    using keysToks_Nil [of claim allKeys] by (auto simp: btok_def sent_keys_def)
qed

lemma delta_fields_header: "delta_fields (headerToks e r rb @ fs) d = delta_fields fs d"
  by (simp add: headerToks_def vtok_def)

lemma decodeViewDelta_encodeViewDelta:
  assumes "safe_nat e" "safe_nat r" "safe_nat rb" and "list_all valid_ustr (opt_list claim)"
    and ps: "list_all patch_ok ps" and len: "length (encodeViewDelta e r rb claim allKeys ps) < 2 ^ 53"
  shows "decodeViewDelta (encodeViewDelta e r rb claim allKeys ps)
    = Inr \<lparr>dd_epoch = e, dd_rev = r, dd_rev_base = rb, dd_keys = sent_keys claim allKeys, dd_patches = map sent ps\<rparr>"
proof -
  let ?ts = "deltaToks e r rb claim allKeys ps"
  have len': "length (tokens ?ts) < 2 ^ 53" using len by (simp add: encodeViewDelta_tokens)
  then have "parseFields (tokens ?ts) = Inr ?ts"
    by (intro parseFields_tokens) (simp_all add: deltaToks_def headerToks_def list_all_concat_map)
  moreover have "uint_of ?ts 1 = Inr e" "uint_of ?ts 2 = Inr r" "uint_of ?ts 3 = Inr rb"
    using assms(1-3) by (simp_all add: uint_of_def deltaToks_def headerToks_def decode_simps)
  moreover have "length (encodePatch p) < 2 ^ 53" if "p \<in> set ps" for p
    using concat_btok_length [OF that, of encodePatch 5] len' by (simp add: deltaToks_def)
  then have "list_all (\<lambda>p. decodePatch (encodePatch p) = Inr (sent p) \<and> encodePatch p \<noteq> []) ps"
    using ps by (simp add: list_all_iff decodePatch_encodePatch encodePatch_nonempty)
  moreover have "length (tokens (keysToks claim allKeys)) < 2 ^ 53"
    using len' btok_length [of "tokens (keysToks claim allKeys)" 4] by (simp add: deltaToks_def)
  ultimately show ?thesis
    using assms(4)
    by (simp add: encodeViewDelta_tokens decodeViewDelta_def, subst deltaToks_def)
      (simp add: delta_fields_header delta_fields_keys delta_fields_patches)
qed

section \<open>The patches of a diff can be sent\<close>

text \<open>
  A tree without empty descendants whose encoding is shorter than 4 GiB: its child indices are the
  host's and fit in the 32 bits of a path step.
\<close>

definition fits :: "box \<Rightarrow> bool" where
  "fits b \<longleftrightarrow> solid b \<and> length (encodeBox b) < 2 ^ 32"

lemma concat_btok_count:
  "list_all (\<lambda>x. g x \<noteq> []) xs \<Longrightarrow> length xs \<le> length (tokens (concat (map (\<lambda>x. btok n (g x)) xs)))"
proof (induction xs)
  case (Cons x xs)
  then have "tokens (btok n (g x)) \<noteq> []" by (simp add: btok_def)
  then have "1 \<le> length (tokens (btok n (g x)))" by (simp add: Suc_leI)
  with Cons show ?case by simp
qed simp

lemma fits_children:
  assumes "fits (Box ks a cs)"
  shows "length cs < 2 ^ 32" and "list_all fits cs"
proof -
  let ?kids = "concat (map (\<lambda>c. btok 11 (encodeBox c)) cs)"
  have kids: "length (tokens ?kids) < 2 ^ 32"
    using assms by (simp add: fits_def encodeBox_tokens boxToks_def)
  have solid: "list_all (\<lambda>c. encodeBox c \<noteq> [] \<and> solid c) cs" using assms by (simp add: fits_def)
  then have "length cs \<le> length (tokens ?kids)" by (intro concat_btok_count) (simp add: list_all_iff)
  with kids show "length cs < 2 ^ 32" by simp
  have "length (encodeBox c) < 2 ^ 32" if "c \<in> set cs" for c
    using concat_btok_length [OF that, of encodeBox 11] kids by (rule le_less_trans)
  with solid show "list_all fits cs" by (simp add: list_all_iff fits_def)
qed

lemma single_attr_ok: "attrs_ok a \<Longrightarrow> attrs_ok (single_attr f a)"
  by (cases f)
    (simp_all add: attrs_ok_def single_attr.simps no_attrs_def ostr_ok_def opt_list_def)

lemma ops_ok:
  "valid_ustr OP_SET" "valid_ustr OP_REPLACE" "valid_ustr OP_INSERT" "valid_ustr OP_REMOVE"
  "OP_SET \<noteq> []" "OP_REPLACE \<noteq> []" "OP_INSERT \<noteq> []" "OP_REMOVE \<noteq> []"
  by (simp_all add: op_defs valid_ustr_def is_scalar_def)

lemma patches_ok:
  "list_all step_ok path \<Longrightarrow> attrs_ok a \<Longrightarrow> patch_ok (set_patch path f a)"
  "list_all step_ok path \<Longrightarrow> box_ok b \<Longrightarrow> patch_ok (replace_patch path b)"
  "list_all step_ok path \<Longrightarrow> patch_ok (remove_patch path)"
  "list_all step_ok path \<Longrightarrow> step_ok i \<Longrightarrow> box_ok b \<Longrightarrow> patch_ok (insert_patch path i b)"
  by (simp_all add: patch_ok_def set_patch_def replace_patch_def remove_patch_def insert_patch_def ops_ok
      single_attr_ok)

lemma diff_lists_ok:
  assumes "list_all step_ok path" and "list_all box_ok ns" and "length bs < 2 ^ 32" and "length ns < 2 ^ 32"
  shows "list_all patch_ok (diff_lists bs ns path)"
proof -
  have "box_ok (ns ! i)" if "i < length ns" for i using assms(2) that by (simp add: list_all_length)
  moreover have "step_ok (commonPrefix bs ns)"
    using commonPrefix_le(1) [of bs ns] assms(3) by (simp add: step_ok_def)
  moreover have "step_ok i" if "i < length ns" for i using that assms(4) by (simp add: step_ok_def)
  ultimately show ?thesis
    using assms(1) by (auto simp: diff_lists_def Let_def list_all_iff intro!: patches_ok)
qed

lemma diffNode_ok:
  "diffNode b n path = Some r \<Longrightarrow> list_all step_ok path \<Longrightarrow> fits b \<Longrightarrow> fits n \<Longrightarrow> box_ok n \<Longrightarrow>
    list_all patch_ok (fst r)"
  and diff_children_ok:
  "list_all step_ok path \<Longrightarrow> list_all fits bs \<Longrightarrow> list_all fits ns \<Longrightarrow> list_all box_ok ns \<Longrightarrow>
    i + length bs < 2 ^ 32 \<Longrightarrow> list_all patch_ok (fst (diff_children bs ns path i))"
proof (induction b n path and bs ns path i arbitrary: r rule: diffNode_diff_children.induct)
  case (1 bk ba bs nk na ns path)
  have kids: "list_all patch_ok (fst (if length bs = length ns then diff_children bs ns path 0
      else (diff_lists bs ns path, diff_lists bs ns path \<noteq> [])))"
    using "1.IH" "1.prems" fits_children [OF "1.prems"(3)] fits_children [OF "1.prems"(4)]
    by (auto simp: diff_lists_ok split: if_splits)
  have "list_all patch_ok (map (\<lambda>f. set_patch path f na) (changed_fields ba na))"
    using "1.prems" by (simp add: list_all_iff patches_ok)
  with kids "1.prems"(1) show ?case by (auto simp: join_patches_def split: if_splits)
next
  case (2 b bs n ns path i)
  have "step_ok i" using "2.prems"(5) by (simp add: step_ok_def)
  then have "list_all step_ok (path @ [i])" using "2.prems"(1) by simp
  then have "list_all patch_ok (fst (child_patches (diffNode b n (path @ [i])) (path @ [i]) n))"
    using "2.IH"(1) "2.prems" by (auto simp: child_patches_def patches_ok split: option.split)
  moreover have "list_all patch_ok (fst (diff_children bs ns path (Suc i)))"
    using "2.IH"(2) "2.prems" by simp
  ultimately show ?case by (simp add: join_patches_def)
qed simp_all

lemma diffView_ok:
  "diffView b n = Some ps \<Longrightarrow> fits b \<Longrightarrow> fits n \<Longrightarrow> box_ok n \<Longrightarrow> list_all patch_ok ps"
  using diffNode_ok [of b n "[]"] by (auto simp: diffView_def split: option.splits if_splits)

section \<open>The host reaches the next view\<close>

text \<open>
  C2: the path of a view delta. Suppose that \<open>diffView\<close> returns patches for two view trees; that at
  every node it patches in place the id is unchanged and each changed property changes in a way that
  a proto3 merge expresses (\<open>delta_safe\<close>, which \<open>mergeRepresentable\<close> does not ensure); that no
  descendant in either tree is an empty box, which \<open>encodeBox\<close> would drop (\<open>solid\<close>); that the next
  tree holds Unicode strings, numbers from 0 to 2^31-1 and no property \<open>__proto__\<close> (\<open>box_ok\<close>); and
  that the trees and the delta are below the size bounds. Then the host decodes the bytes of the
  delta, reading back the epoch and both revisions, and its patches turn the tree it holds for the
  base view into the tree it would hold for the full next view, whatever implementation of the
  protobuf merge it uses.
\<close>

theorem view_delta_reaches_view:
  assumes "proto_merge mrg" and "diffView base nextRoot = Some ps" and "delta_safe base nextRoot"
    and "solid base" and "solid nextRoot" and "box_ok nextRoot"
    and "length (encodeBox base) < 2 ^ 32" and "length (encodeBox nextRoot) < 2 ^ 32"
    and "safe_nat epoch" and "safe_nat rv" and "safe_nat revBase" and "list_all valid_ustr (opt_list claim)"
    and "length (encodeViewDelta epoch rv revBase claim allKeys ps) < 2 ^ 53"
  shows "\<exists>d. decodeViewDelta (encodeViewDelta epoch rv revBase claim allKeys ps) = Inr d \<and>
    dd_epoch d = epoch \<and> dd_rev d = rv \<and> dd_rev_base d = revBase \<and>
    applyPatches mrg (norm base) (dd_patches d) = Inr (norm nextRoot)"
proof -
  have "fits base" "fits nextRoot" using assms(4,5,7,8) by (simp_all add: fits_def)
  then show ?thesis
    using decodeViewDelta_encodeViewDelta [OF assms(9-12) diffView_ok [OF assms(2)] assms(13)]
      proto_merge.apply_diffView [OF assms(1-5)] assms(6)
    by simp
qed

definition leaf :: "string \<Rightarrow> box" where
  "leaf s = Box [''content''] (no_attrs\<lparr>box_content :=
     Some \<lparr>con_keys = [''text''], con_text = Some (asc s), con_lines = None, con_self = None, con_props = None\<rparr>\<rparr>) []"

definition before_edit :: box where
  "before_edit = Box [''children''] no_attrs [leaf ''a'', leaf ''b'']"

definition after_edit :: box where
  "after_edit = Box [''children''] no_attrs [leaf ''a'', leaf ''c'']"

lemmas edit_eval = before_edit_def after_edit_def leaf_def no_attrs_def

lemma edit_patch_bytes:
  "encodePatch (set_patch [1] FContent (attrs (leaf ''c''))) =
     map byte_of [10, 3, 115, 101, 116, 16, 1, 50, 5, 66, 3, 10, 1, 99]"
  by (simp add: encodePatch_def set_patch_def op_defs single_attr.simps edit_eval encodeBox.simps
      encodeContent_def opt_list_def wire_eval)

lemma leaf_bytes:
  "encodeBox (leaf ''a'') = map byte_of [66, 3, 10, 1, 97]"
  "encodeBox (leaf ''b'') = map byte_of [66, 3, 10, 1, 98]"
  "encodeBox (leaf ''c'') = map byte_of [66, 3, 10, 1, 99]"
  by (simp_all add: edit_eval encodeBox.simps encodeContent_def opt_list_def wire_eval)

lemma edit_bytes:
  "encodeBox before_edit = map byte_of [90, 5, 66, 3, 10, 1, 97, 90, 5, 66, 3, 10, 1, 98]"
  "encodeBox after_edit = map byte_of [90, 5, 66, 3, 10, 1, 97, 90, 5, 66, 3, 10, 1, 99]"
  unfolding before_edit_def after_edit_def
  by (simp_all add: encodeBox.simps [of _ no_attrs] leaf_bytes, simp_all add: no_attrs_def opt_list_def wire_eval)

lemma edit_facts:
  "diffView before_edit after_edit = Some [set_patch [1] FContent (attrs (leaf ''c''))]"
  "delta_safe before_edit after_edit" "fits before_edit" "fits after_edit" "box_ok after_edit"
  "length (encodeViewDelta 1 2 1 None None [set_patch [1] FContent (attrs (leaf ''c''))]) < 2 ^ 53"
proof -
  show "diffView before_edit after_edit = Some [set_patch [1] FContent (attrs (leaf ''c''))]"
    by (simp add: edit_eval diffView_def changed_fields_def BOX_FIELDS_def jsonEqual_def jopt_def
        content_representable_def nonempty_def opt_str_def opt_list_def join_patches_def child_patches_def)
  show "delta_safe before_edit after_edit"
    by (simp add: edit_eval node_safe_def changed_fields_def BOX_FIELDS_def jsonEqual_def jopt_def
        content_kept_def no_empty_def opt_list_def opt_str_def encodeContent_def wire_eval)
  show "fits before_edit" "fits after_edit"
    unfolding fits_def edit_bytes
    by (simp_all add: before_edit_def after_edit_def leaf_bytes, simp_all add: leaf_def)
  show "box_ok after_edit"
    by (simp add: edit_eval attrs_ok_def ostr_ok_def opt_list_def content_ok_def valid_ustr_def is_scalar_def)
  show "length (encodeViewDelta 1 2 1 None None [set_patch [1] FContent (attrs (leaf ''c''))]) < 2 ^ 53"
    by (simp add: encodeViewDelta_def edit_patch_bytes [unfolded One_nat_def] wire_eval)
qed

theorem view_delta_reaches_view_witness:
  "diffView before_edit after_edit = Some [set_patch [1] FContent (attrs (leaf ''c''))] \<and>
   (\<exists>d. decodeViewDelta (encodeViewDelta 1 2 1 None None [set_patch [1] FContent (attrs (leaf ''c''))]) = Inr d \<and>
     dd_epoch d = 1 \<and> dd_rev d = 2 \<and> dd_rev_base d = 1 \<and>
     applyPatches proto3_merge (norm before_edit) (dd_patches d) = Inr (norm after_edit))"
  using view_delta_reaches_view [OF pm.proto_merge_axioms edit_facts(1,2), of 1 2 1 None None] edit_facts
  by (simp add: safe_nat_def opt_list_def fits_def)

section \<open>Changes a delta loses\<close>

text \<open>
  Changes of one node that \<open>diffView\<close> turns into a single \<open>set\<close> patch, the children of the node being
  the same before and after, and what the host makes of them.
\<close>

lemma changed_fields_same [simp]: "changed_fields a a = []"
  by (simp add: changed_fields_def jsonEqual_def)

lemma diffNode_same: "diffNode b b path = Some ([], False)"
proof (induction b arbitrary: path)
  case (Box ks a cs)
  have "diff_children cs cs path i = ([], False)" for i
    using Box.IH by (induction cs arbitrary: i) (simp_all add: join_patches_def child_patches_def)
  then show ?case by (simp add: join_patches_def)
qed

lemma diff_children_same [simp]: "diff_children cs cs path i = ([], False)"
  by (induction cs arbitrary: i) (simp_all add: diffNode_same join_patches_def child_patches_def)

lemma diffView_one_field:
  "changed_fields a a' = [f] \<Longrightarrow> mergeRepresentable (field_value f a) (field_value f a') \<Longrightarrow>
    diffView (Box ks a cs) (Box ks' a' cs) = Some [set_patch [] f a']"
  by (simp add: diffView_def join_patches_def)

lemma set_patch_applied:
  "encodeBox (Box [field_name f] (single_attr f a') []) \<noteq> [] \<Longrightarrow>
    applyPatches mrg (norm (Box ks a cs)) (map sent [set_patch [] f a']) =
      Inr (mergeBox mrg (norm (Box ks a cs)) (norm (Box [field_name f] (single_attr f a') [])))"
  by (simp add: set_patch_sent)

lemma changed_cursor:
  "box_cursor a = Some x \<Longrightarrow> x \<noteq> y \<Longrightarrow> changed_fields a (a\<lparr>box_cursor := Some y\<rparr>) = [FCursor]"
  by (simp add: changed_fields_def BOX_FIELDS_def jsonEqual_def jopt_def)

lemma changed_content:
  "box_content a = Some x \<Longrightarrow> x \<noteq> y \<Longrightarrow> changed_fields a (a\<lparr>box_content := Some y\<rparr>) = [FContent]"
  by (simp add: changed_fields_def BOX_FIELDS_def jsonEqual_def jopt_def)

lemma changed_flow_and_id:
  "box_flow a \<noteq> Some g \<Longrightarrow> changed_fields a (a\<lparr>box_id := Some j, box_flow := Some g\<rparr>) = [FFlow]"
  by (auto simp: changed_fields_def BOX_FIELDS_def jsonEqual_def jopt_def split: option.split)

lemma changed_style:
  "box_style a \<noteq> None \<Longrightarrow> changed_fields a (a\<lparr>box_style := None\<rparr>) = [FStyle]"
  by (auto simp: changed_fields_def BOX_FIELDS_def jsonEqual_def jopt_def split: option.split)

context proto_merge
begin

text \<open>
  \<open>mergeRepresentable\<close> does not compare the coordinates of a cursor: a cursor that moves to column 0
  is sent, and the merge keeps the old column.
\<close>

lemma cursor_column_kept:
  assumes "box_cursor a = Some x" and "cur_col x \<noteq> 0" and "cur_col y = 0"
  shows "\<exists>ps b. diffView (Box ks a cs) (Box ks' (a\<lparr>box_cursor := Some y\<rparr>) cs) = Some ps \<and> list_all (\<lambda>p. pt_op p = OP_SET) ps \<and>
    applyPatches mrg (norm (Box ks a cs)) (map sent ps) = Inr b \<and> map_option dc_col (d_cursor (dattrs b)) = Some (cur_col x)"
proof -
  let ?a = "a\<lparr>box_cursor := Some y\<rparr>"
  have "x \<noteq> y" using assms(2,3) by auto
  then have "diffView (Box ks a cs) (Box ks' ?a cs) = Some [set_patch [] FCursor ?a]"
    using assms(1) changed_cursor by (intro diffView_one_field) (simp_all add: jopt_def)
  moreover have "encodeBox (Box [field_name FCursor] (single_attr FCursor ?a) []) \<noteq> []"
    by (simp add: encodeBox_tokens single_toks btok_def opt_bytes_def encodeCursor_tokens cursorToks_def vtok_def)
  note set_patch_applied [OF this, of mrg ks a cs]
  ultimately show ?thesis
    using assms
    by (simp add: set_patch_def merge_laws single_attr.simps normAttrs_def normCursor_def no_attrs_def merge_opt_def
        merge_cursor_def merge_int_def del: field_name.simps)
qed

text \<open>
  A content whose text changes while its lines stay: the lines pass \<open>mergeRepresentable\<close>, are sent
  again, and the merge of a repeated field appends them.
\<close>

lemma content_lines_doubled:
  assumes "box_content a = Some x" and "con_text x \<noteq> Some t" and "t \<noteq> []"
  shows "\<exists>ps b d. diffView (Box ks a cs) (Box ks' (a\<lparr>box_content := Some (x\<lparr>con_text := Some t\<rparr>)\<rparr>) cs) = Some ps \<and>
    list_all (\<lambda>p. pt_op p = OP_SET) ps \<and> applyPatches mrg (norm (Box ks a cs)) (map sent ps) = Inr b \<and>
    d_content (dattrs b) = Some d \<and> dt_text d = t \<and> dt_lines d = dt_lines (normContent x) @ dt_lines (normContent x)"
proof -
  let ?y = "x\<lparr>con_text := Some t\<rparr>"
  let ?a = "a\<lparr>box_content := Some ?y\<rparr>"
  have "x \<noteq> ?y" using assms(2) by (metis content.select_convs(2) content.surjective content.update_convs(2))
  moreover have "content_representable x ?y"
    using assms(3) by (auto simp: content_representable_def nonempty_def opt_str_def key_in_def list_all_iff)
  ultimately have diff: "diffView (Box ks a cs) (Box ks' ?a cs) = Some [set_patch [] FContent ?a]"
    using assms(1) changed_content by (intro diffView_one_field) (simp_all add: jopt_def)
  have ne: "encodeContent ?y \<noteq> []" using assms(3) by (simp add: encodeContent_tokens contentToks_def stok_def btok_def)
  then have "encodeBox (Box [field_name FContent] (single_attr FContent ?a) []) \<noteq> []"
    by (simp add: encodeBox_tokens single_toks btok_def opt_bytes_def)
  note app = set_patch_applied [OF this, of mrg ks a cs]
  have empty: "dt_lines (normContent x) = []" if "encodeContent x = []"
    using that stoks_Nil [of 2 "con_lines x"] by (simp add: encodeContent_tokens contentToks_def normContent_def no_empty_def)
  show ?thesis
    using diff app assms ne empty
    by (auto simp add: set_patch_def merge_laws single_attr.simps normAttrs_def no_attrs_def merge_opt_def opt_str_def
        merge_content_def merge_str_def normContent_def simp del: field_name.simps)
qed

text \<open>
  \<open>diffView\<close> does not look at the \<open>id\<close> of a box: when another property changes with it, the delta is
  sent without the new id and the host keeps the old one.
\<close>

lemma old_id_kept:
  assumes "box_flow a \<noteq> Some g" and "g \<noteq> []"
  shows "\<exists>ps b. diffView (Box ks a cs) (Box ks' (a\<lparr>box_id := Some j, box_flow := Some g\<rparr>) cs) = Some ps \<and>
    list_all (\<lambda>p. pt_op p = OP_SET) ps \<and> applyPatches mrg (norm (Box ks a cs)) (map sent ps) = Inr b \<and>
    d_flow (dattrs b) = g \<and> d_id (dattrs b) = opt_str (box_id a)"
proof -
  let ?a = "a\<lparr>box_id := Some j, box_flow := Some g\<rparr>"
  have "mergeRepresentable (field_value FFlow a) (field_value FFlow ?a)"
    using assms(2) by (cases "box_flow a") (simp_all add: jopt_def)
  then have "diffView (Box ks a cs) (Box ks' ?a cs) = Some [set_patch [] FFlow ?a]"
    using changed_flow_and_id [OF assms(1)] by (intro diffView_one_field)
  moreover have "encodeBox (Box [field_name FFlow] (single_attr FFlow ?a) []) \<noteq> []"
    using assms(2) by (simp add: encodeBox_tokens single_toks stok_Nil nonempty_def opt_str_def)
  note set_patch_applied [OF this, of mrg ks a cs]
  ultimately show ?thesis
    using assms(2)
    by (simp add: set_patch_def merge_laws single_attr.simps normAttrs_def no_attrs_def opt_str_def merge_str_def del: field_name.simps)
qed

end

text \<open>
  A string property that is removed (\<open>style\<close> set in the base, \<open>undefined\<close> in the next view) passes
  \<open>mergeRepresentable\<close>; its \<open>set\<close> patch has an empty box, which the encoder drops, and the host finds
  no box to set.
\<close>

lemma removed_style_invalid:
  assumes "box_style a \<noteq> None"
  shows "\<exists>ps. diffView (Box ks a cs) (Box ks' (a\<lparr>box_style := None\<rparr>) cs) = Some ps \<and>
    list_all (\<lambda>p. pt_op p = OP_SET) ps \<and> applyPatches mrg (norm (Box ks a cs)) (map sent ps) = Inl PathInvalid"
proof -
  let ?a = "a\<lparr>box_style := None\<rparr>"
  have "diffView (Box ks a cs) (Box ks' ?a cs) = Some [set_patch [] FStyle ?a]"
    using assms changed_style [OF assms] by (intro diffView_one_field) (auto simp: jopt_def)
  moreover have "encodeBox (Box [field_name FStyle] (single_attr FStyle ?a) []) = []"
    by (simp add: encodeBox_tokens single_toks stok_def)
  ultimately show ?thesis
    by (simp add: applyPatch_def sent_def set_patch_def with_box_def sent_box_def Let_def del: field_name.simps)
qed

end
