(* ===== verification/FrameReader.thy ===== *)
theory FrameReader
  imports WireCodec "HOL-Library.Sublist"
begin

text \<open>
  Binary frames of \<open>wire.js\<close> (\<open>frame\<close>) and the asynchronous reader \<open>FrameReader\<close>: the receive
  buffer, the queue of pending \<open>next()\<close> promises, the loop \<open>pump\<close> that settles them and
  \<open>tryRead\<close>, which cuts one frame off the buffer. A settled promise is an entry of the
  \<open>settled\<close> log. The main result says that frames come out once each and in order, however
  the stream cuts the bytes into chunks and whenever \<open>next()\<close> is called.
\<close>

definition MAX_MESSAGE_BYTES :: nat where
  "MAX_MESSAGE_BYTES = push_bit 20 1"

lemma MAX_MESSAGE_BYTES_eq [simp]: "MAX_MESSAGE_BYTES = 1048576"
  by (simp add: MAX_MESSAGE_BYTES_def push_bit_eq_mult)

section \<open>Frames\<close>

definition u32be :: "nat \<Rightarrow> bytes" where
  "u32be n = [byte_of (n div 2 ^ 24), byte_of (n div 2 ^ 16), byte_of (n div 2 ^ 8), byte_of n]"

definition read_u32be :: "bytes \<Rightarrow> nat" where
  "read_u32be b = ((byte_at b 0 * 256 + byte_at b 1) * 256 + byte_at b 2) * 256 + byte_at b 3"

text \<open>\<open>writeUInt32BE\<close> throws on a length that needs more than 32 bits: \<open>None\<close>.\<close>

definition frame :: "nat \<Rightarrow> bytes \<Rightarrow> bytes option" where
  "frame frameType payload =
     (let body = byte_of frameType # payload
      in if length body < 2 ^ 32 then Some (u32be (length body) @ body) else None)"

section \<open>The reader\<close>

datatype reader_error = StreamError | ZeroLengthFrame | FrameTooLong | TruncatedFrame

datatype outcome = Resolved "(nat \<times> bytes) option" | Rejected reader_error

record reader =
  buffer :: bytes
  waiters :: "nat list"
  ended :: bool
  failure :: "reader_error option"
  settled :: "(nat \<times> outcome) list"

definition new_reader :: reader where
  "new_reader = \<lparr>buffer = [], waiters = [], ended = False, failure = None, settled = []\<rparr>"

datatype read_result = Throws reader_error | Undefined | Value "(nat \<times> bytes) option"

definition tryRead :: "reader \<Rightarrow> read_result \<times> reader" where
  "tryRead r =
     (case failure r of
        Some e \<Rightarrow> (Throws e, r)
      | None \<Rightarrow>
          if length (buffer r) < 4 then (if ended r then Value None else Undefined, r)
          else
            let len = read_u32be (buffer r) in
            if len = 0 then (Throws ZeroLengthFrame, r)
            else if MAX_MESSAGE_BYTES < len then (Throws FrameTooLong, r)
            else if length (buffer r) < 4 + len then
              (if ended r then (Throws TruncatedFrame, r) else (Undefined, r))
            else
              let body = take len (drop 4 (buffer r))
              in (Value (Some (byte_at body 0, drop 1 body)),
                  r\<lparr>buffer := drop (4 + len) (buffer r)\<rparr>))"

text \<open>
  The loop of \<open>pump\<close>, by recursion on the queue of waiters: a thrown error rejects the first
  waiter and goes on, \<open>undefined\<close> stops, a value resolves the first waiter.
\<close>

fun pump_loop :: "nat list \<Rightarrow> reader \<Rightarrow> reader" where
  "pump_loop [] r = r\<lparr>waiters := []\<rparr>"
| "pump_loop (w # ws) r =
     (case tryRead r of
        (Throws e, r') \<Rightarrow> pump_loop ws (r'\<lparr>settled := settled r' @ [(w, Rejected e)]\<rparr>)
      | (Undefined, r') \<Rightarrow> r'\<lparr>waiters := w # ws\<rparr>
      | (Value v, r') \<Rightarrow> pump_loop ws (r'\<lparr>settled := settled r' @ [(w, Resolved v)]\<rparr>))"

definition pump :: "reader \<Rightarrow> reader" where
  "pump r = pump_loop (waiters r) r"

datatype reader_event = Data bytes | End | Failure reader_error | Next nat

fun on_event :: "reader \<Rightarrow> reader_event \<Rightarrow> reader" where
  "on_event r (Data chunk) = pump (r\<lparr>buffer := buffer r @ chunk\<rparr>)"
| "on_event r End = pump (r\<lparr>ended := True\<rparr>)"
| "on_event r (Failure e) = pump (r\<lparr>failure := Some e\<rparr>)"
| "on_event r (Next w) = pump (r\<lparr>waiters := waiters r @ [w]\<rparr>)"


section \<open>Cutting frames off a buffer\<close>

text \<open>
  The contract between the two ends of a framed stream: \<open>enc\<close> writes a frame, \<open>cut\<close> takes one
  off the front of a buffer. On a buffer that is a prefix of a stream of frames, \<open>cut\<close> returns
  the stream's first frame as soon as all of it has arrived, and nothing before.
\<close>

locale framing =
  fixes enc :: "'f \<Rightarrow> bytes"
    and cut :: "bytes \<Rightarrow> ('f \<times> bytes) option"
    and ok :: "'f \<Rightarrow> bool"
  assumes cut_full: "ok f \<Longrightarrow> cut (enc f @ rest) = Some (f, rest)"
    and cut_short: "ok f \<Longrightarrow> strict_prefix b (enc f) \<Longrightarrow> cut b = None"
    and cut_empty: "cut [] = None"
begin

abbreviation stream :: "'f list \<Rightarrow> bytes" where
  "stream fs \<equiv> concat (map enc fs)"

lemma cut_stream:
  assumes "list_all ok fs" and "prefix b (stream fs)"
  shows "cut b =
    (case fs of [] \<Rightarrow> None
     | f # fs' \<Rightarrow> if prefix (enc f) b then Some (f, drop (length (enc f)) b) else None)"
proof (cases fs)
  case Nil
  with assms show ?thesis by (simp add: cut_empty)
next
  case (Cons f fs')
  show ?thesis
  proof (cases "prefix (enc f) b")
    case True
    then obtain rest where "b = enc f @ rest" by (auto simp: prefix_def)
    with Cons assms(1) True show ?thesis by (simp add: cut_full)
  next
    case False
    from assms(2) Cons have "prefix b (enc f @ stream fs')" by simp
    with False have "strict_prefix b (enc f)"
      by (metis prefix_append prefix_def prefix_order.dual_order.strict_iff_order prefix_order.eq_iff)
    with Cons assms(1) False show ?thesis using cut_short [of f b] by simp
  qed
qed

lemma stream_rest:
  assumes "prefix b (stream (f # fs))" and "prefix (enc f) b"
  shows "prefix (drop (length (enc f)) b) (stream fs)"
  using assms by (auto simp: prefix_def)

end

definition ok_frame :: "nat \<times> bytes \<Rightarrow> bool" where
  "ok_frame f \<longleftrightarrow> fst f < 256 \<and> Suc (length (snd f)) \<le> MAX_MESSAGE_BYTES"

definition frame_bytes :: "nat \<times> bytes \<Rightarrow> bytes" where
  "frame_bytes f = u32be (Suc (length (snd f))) @ byte_of (fst f) # snd f"

lemma frame_eq: "ok_frame (t, p) \<Longrightarrow> frame t p = Some (frame_bytes (t, p))"
  by (simp add: frame_def frame_bytes_def ok_frame_def Let_def)

lemma length_frame_bytes [simp]: "length (frame_bytes f) = 5 + length (snd f)"
  by (simp add: frame_bytes_def u32be_def)

lemma read_u32be_u32be:
  assumes "n < 2 ^ 32"
  shows "read_u32be (u32be n @ rest) = n"
proof -
  have "n div 2 ^ 24 < 256" using assms by (simp add: less_mult_imp_div_less)
  moreover have "n div 2 ^ 16 = n div 2 ^ 24 * 256 + n div 2 ^ 16 mod 256"
    using div_mult_mod_eq [of "n div 2 ^ 16" 256] by (simp add: div_mult2_eq [symmetric])
  moreover have "n div 2 ^ 8 = n div 2 ^ 16 * 256 + n div 2 ^ 8 mod 256"
    using div_mult_mod_eq [of "n div 2 ^ 8" 256] by (simp add: div_mult2_eq [symmetric])
  moreover have "n = n div 2 ^ 8 * 256 + n mod 256"
    using div_mult_mod_eq [of n 256] by simp
  ultimately show ?thesis
    by (simp add: read_u32be_def u32be_def byte_at_def)
qed

lemma read_u32be_cong:
  assumes "4 \<le> length b" and "prefix b b'"
  shows "read_u32be b = read_u32be b'"
  using assms by (auto simp: prefix_def read_u32be_def byte_at_def nth_append)

lemma read_frame_length:
  assumes "ok_frame f" and "4 \<le> length b" and "prefix b (frame_bytes f @ rest) \<or> prefix (frame_bytes f) b"
  shows "read_u32be b = Suc (length (snd f))"
proof -
  have "read_u32be (frame_bytes f @ rest') = Suc (length (snd f))" for rest'
    using assms(1) read_u32be_u32be [of "Suc (length (snd f))" "byte_of (fst f) # snd f @ rest'"]
    by (simp add: frame_bytes_def ok_frame_def)
  with assms read_u32be_cong show ?thesis
    by (metis prefix_def)
qed

lemma tryRead_full:
  assumes "ok_frame f" and "failure r = None" and "buffer r = frame_bytes f @ rest"
  shows "tryRead r = (Value (Some f), r\<lparr>buffer := rest\<rparr>)"
proof -
  have len: "read_u32be (buffer r) = Suc (length (snd f))"
    using read_frame_length [OF assms(1), of "buffer r" rest] assms(3) by simp
  have body: "take (Suc (length (snd f))) (drop 4 (buffer r)) = byte_of (fst f) # snd f"
    using assms(3) by (simp add: frame_bytes_def u32be_def)
  have "4 + Suc (length (snd f)) = length (frame_bytes f)" by simp
  then have "drop (4 + Suc (length (snd f))) (buffer r) = rest"
    using assms(3) by (simp del: length_frame_bytes)
  then show ?thesis
    using assms len body by (simp add: tryRead_def Let_def ok_frame_def byte_at_def)
qed

lemma tryRead_short:
  assumes "ok_frame f" and "failure r = None" and "\<not> ended r" and "strict_prefix (buffer r) (frame_bytes f)"
  shows "tryRead r = (Undefined, r)"
proof (cases "length (buffer r) < 4")
  case True
  with assms show ?thesis by (simp add: tryRead_def)
next
  case False
  have "read_u32be (buffer r) = Suc (length (snd f))"
    using read_frame_length [OF assms(1), of "buffer r" "[]"] prefix_order.less_imp_le [OF assms(4)] False
    by simp
  moreover have "length (buffer r) < length (frame_bytes f)"
    using assms(4) by (rule prefix_length_less)
  ultimately show ?thesis
    using assms False by (simp add: tryRead_def Let_def ok_frame_def)
qed

definition reader_cut :: "bytes \<Rightarrow> ((nat \<times> bytes) \<times> bytes) option" where
  "reader_cut b =
     (case tryRead (new_reader\<lparr>buffer := b\<rparr>) of
        (Value (Some f), r) \<Rightarrow> Some (f, buffer r)
      | _ \<Rightarrow> None)"

interpretation fr: framing frame_bytes reader_cut ok_frame
proof
  show "reader_cut (frame_bytes f @ rest) = Some (f, rest)" if "ok_frame f" for f rest
    using tryRead_full [OF that, of "new_reader\<lparr>buffer := frame_bytes f @ rest\<rparr>" rest]
    by (simp add: reader_cut_def new_reader_def)
  show "reader_cut b = None" if "ok_frame f" "strict_prefix b (frame_bytes f)" for f b
    using tryRead_short [OF that(1), of "new_reader\<lparr>buffer := b\<rparr>"] that(2)
    by (simp add: reader_cut_def new_reader_def)
  show "reader_cut [] = None"
    by (simp add: reader_cut_def new_reader_def tryRead_def)
qed

text \<open>On a healthy reader \<open>tryRead\<close> is \<open>cut\<close>: it never throws on a prefix of a stream of frames.\<close>

lemma tryRead_stream:
  assumes "list_all ok_frame fs" and "failure r = None" and "\<not> ended r"
    and "prefix (buffer r) (fr.stream fs)"
  shows "tryRead r =
    (case reader_cut (buffer r) of
       None \<Rightarrow> (Undefined, r)
     | Some (f, rest) \<Rightarrow> (Value (Some f), r\<lparr>buffer := rest\<rparr>))"
proof (cases fs)
  case Nil
  with assms show ?thesis by (simp add: fr.cut_empty tryRead_def)
next
  case (Cons f fs')
  show ?thesis
  proof (cases "prefix (frame_bytes f) (buffer r)")
    case True
    then obtain rest where b: "buffer r = frame_bytes f @ rest" by (auto simp: prefix_def)
    have "ok_frame f" using assms(1) Cons by simp
    with b show ?thesis using tryRead_full [OF _ assms(2) b] by (simp add: fr.cut_full)
  next
    case False
    from assms(4) Cons have "prefix (buffer r) (frame_bytes f @ fr.stream fs')" by simp
    with False have "strict_prefix (buffer r) (frame_bytes f)"
      by (metis prefix_append prefix_def prefix_order.dual_order.strict_iff_order prefix_order.eq_iff)
    moreover have "ok_frame f" using assms(1) Cons by simp
    ultimately show ?thesis
      using tryRead_short [OF _ assms(2,3)] by (simp add: fr.cut_short)
  qed
qed


section \<open>Delivery\<close>

definition deliveries :: "nat list \<Rightarrow> (nat \<times> bytes) list \<Rightarrow> (nat \<times> outcome) list" where
  "deliveries ws fs = map (\<lambda>(w, f). (w, Resolved (Some f))) (zip ws fs)"

text \<open>
  The state after \<open>k\<close> deliveries of the frames \<open>fs\<close> to the callers \<open>ws\<close>, when \<open>recv\<close> has
  arrived from the stream.
\<close>

definition tracks :: "(nat \<times> bytes) list \<Rightarrow> nat list \<Rightarrow> bytes \<Rightarrow> nat \<Rightarrow> reader \<Rightarrow> bool" where
  "tracks fs ws recv k r \<longleftrightarrow>
     failure r = None \<and> \<not> ended r \<and> k \<le> length ws \<and> k \<le> length fs \<and>
     settled r = deliveries (take k ws) (take k fs) \<and>
     recv = fr.stream (take k fs) @ buffer r \<and> prefix (buffer r) (fr.stream (drop k fs))"

definition waits :: "(nat \<times> bytes) list \<Rightarrow> nat list \<Rightarrow> nat \<Rightarrow> reader \<Rightarrow> bool" where
  "waits fs ws k r \<longleftrightarrow> waiters r = drop k ws \<and> (waiters r \<noteq> [] \<longrightarrow> reader_cut (buffer r) = None)"

lemma deliveries_snoc:
  "k < length ws \<Longrightarrow> k < length fs \<Longrightarrow>
    deliveries (take (Suc k) ws) (take (Suc k) fs)
      = deliveries (take k ws) (take k fs) @ [(ws ! k, Resolved (Some (fs ! k)))]"
  by (simp add: deliveries_def take_Suc_conv_app_nth)

lemma tracks_frame:
  assumes "list_all ok_frame fs" and "tracks fs ws recv k r" and "k < length ws"
    and "reader_cut (buffer r) = Some (f, rest)"
  shows "k < length fs"
    and "tracks fs ws recv (Suc k)
      (r\<lparr>buffer := rest, settled := settled r @ [(ws ! k, Resolved (Some f))]\<rparr>)"
proof -
  note t = assms(2) [unfolded tracks_def]
  have ok: "list_all ok_frame (drop k fs)"
    using assms(1) by (auto simp: list_all_iff dest: in_set_dropD)
  have c: "reader_cut (buffer r) =
    (case drop k fs of [] \<Rightarrow> None
     | f # fs' \<Rightarrow> if prefix (frame_bytes f) (buffer r)
         then Some (f, drop (length (frame_bytes f)) (buffer r)) else None)"
    using fr.cut_stream [OF ok] t by blast
  with assms(4) obtain fs' where d: "drop k fs = f # fs'"
    and p: "prefix (frame_bytes f) (buffer r)" and r: "rest = drop (length (frame_bytes f)) (buffer r)"
    by (auto split: list.splits if_splits)
  show k: "k < length fs" using d by (metis drop_all list.distinct(1) not_le)
  have f: "fs ! k = f" "drop (Suc k) fs = fs'" using d k
    by (simp_all add: Cons_nth_drop_Suc [symmetric])
  have b: "buffer r = frame_bytes f @ rest" using p r by (auto simp: prefix_def)
  have pre: "prefix rest (fr.stream (drop (Suc k) fs))"
    using fr.stream_rest [of "buffer r" f fs'] t d p r f by simp
  have "recv = fr.stream (take (Suc k) fs) @ rest"
    using t b k f by (simp add: take_Suc_conv_app_nth)
  then show "tracks fs ws recv (Suc k)
      (r\<lparr>buffer := rest, settled := settled r @ [(ws ! k, Resolved (Some f))]\<rparr>)"
    using t k assms(3) f pre by (simp add: tracks_def deliveries_snoc)
qed

lemma pump_loop_tracks:
  assumes "list_all ok_frame fs" and "tracks fs ws recv k r"
  shows "\<exists>k'. tracks fs ws recv k' (pump_loop (drop k ws) r) \<and> waits fs ws k' (pump_loop (drop k ws) r)"
  using assms(2)
proof (induction "drop k ws" arbitrary: k r)
  case Nil
  then show ?case by (intro exI [of _ k]) (auto simp: tracks_def waits_def)
next
  case (Cons w us)
  have k: "k < length ws" and w: "ws ! k = w" and us: "drop (Suc k) ws = us"
    using Cons(2) by (metis drop_all list.distinct(1) not_le,
        metis nth_via_drop, metis drop_Suc list.sel(3) tl_drop)
  have "tryRead r = (case reader_cut (buffer r) of None \<Rightarrow> (Undefined, r)
     | Some (f, rest) \<Rightarrow> (Value (Some f), r\<lparr>buffer := rest\<rparr>))"
    using Cons.prems assms(1) by (intro tryRead_stream [of "drop k fs"])
      (auto simp: tracks_def list_all_iff dest: in_set_dropD)
  note tr = this
  show ?case
  proof (cases "reader_cut (buffer r)")
    case None
    have "tracks fs ws recv k (r\<lparr>waiters := drop k ws\<rparr>)"
      using Cons.prems by (simp add: tracks_def)
    then show ?thesis
      using None tr Cons(2) [symmetric] by (auto simp: waits_def intro!: exI [of _ k])
  next
    case (Some fr)
    obtain f rest where fr: "fr = (f, rest)" by (cases fr)
    let ?r = "r\<lparr>buffer := rest, settled := settled r @ [(ws ! k, Resolved (Some f))]\<rparr>"
    have "tracks fs ws recv (Suc k) ?r"
      using tracks_frame(2) [OF assms(1) Cons.prems k] Some fr by simp
    from Cons(1) [OF us [symmetric] this] us show ?thesis
      using tr Some fr w Cons(2) [symmetric] by simp
  qed
qed

fun chunks :: "reader_event list \<Rightarrow> bytes" where
  "chunks [] = []"
| "chunks (Data c # es) = c @ chunks es"
| "chunks (_ # es) = chunks es"

fun nexts :: "reader_event list \<Rightarrow> nat list" where
  "nexts [] = []"
| "nexts (Next w # es) = w # nexts es"
| "nexts (_ # es) = nexts es"

fun data_or_next :: "reader_event \<Rightarrow> bool" where
  "data_or_next (Data c) = True"
| "data_or_next (Next w) = True"
| "data_or_next _ = False"

lemma chunks_nexts_snoc [simp]:
  "chunks (es @ [Data c]) = chunks es @ c" "nexts (es @ [Data c]) = nexts es"
  "chunks (es @ [Next w]) = chunks es" "nexts (es @ [Next w]) = nexts es @ [w]"
  by (induction es rule: chunks.induct; simp)+

lemma tracks_run:
  assumes "list_all ok_frame fs"
  shows "list_all data_or_next es \<Longrightarrow> prefix (chunks es) (fr.stream fs) \<Longrightarrow>
    \<exists>k. tracks fs (nexts es) (chunks es) k (foldl on_event new_reader es) \<and>
        waits fs (nexts es) k (foldl on_event new_reader es)"
proof (induction es rule: rev_induct)
  case Nil
  show ?case
    by (intro exI [of _ 0]) (simp add: tracks_def waits_def new_reader_def deliveries_def)
next
  case (snoc e es)
  let ?r = "foldl on_event new_reader es"
  from snoc.prems(1) have e: "data_or_next e" and es: "list_all data_or_next es" by simp_all
  then consider (data) c where "e = Data c" | (nxt) w where "e = Next w" by (cases e) auto
  then show ?case
  proof cases
    case data
    from snoc.prems(2) data have "prefix (chunks es @ c) (fr.stream fs)" by simp
    moreover from this have "prefix (chunks es) (fr.stream fs)" by (rule append_prefixD)
    ultimately obtain k where t: "tracks fs (nexts es) (chunks es) k ?r" and w: "waits fs (nexts es) k ?r"
      and p: "prefix (chunks es @ c) (fr.stream fs)"
      using snoc.IH es by blast
    have "fr.stream fs = fr.stream (take k fs) @ fr.stream (drop k fs)"
      by (metis append_take_drop_id concat_append map_append)
    with p t have "prefix (buffer ?r @ c) (fr.stream (drop k fs))"
      by (simp add: tracks_def)
    with t have "tracks fs (nexts es) (chunks es @ c) k (?r\<lparr>buffer := buffer ?r @ c\<rparr>)"
      by (simp add: tracks_def)
    from pump_loop_tracks [OF assms this] show ?thesis
      using data w by (simp add: pump_def waits_def)
  next
    case nxt
    from snoc.prems(2) nxt have "prefix (chunks es) (fr.stream fs)" by simp
    with snoc.IH es obtain k where t: "tracks fs (nexts es) (chunks es) k ?r" and w: "waits fs (nexts es) k ?r"
      by blast
    from t nxt have "tracks fs (nexts es @ [w]) (chunks es) k (?r\<lparr>waiters := waiters ?r @ [w]\<rparr>)" for w
      by (simp add: tracks_def)
    from pump_loop_tracks [OF assms this] show ?thesis
      using nxt w t by (simp add: pump_def waits_def tracks_def)
  qed
qed

lemma stream_Nil: "list_all ok_frame fs \<Longrightarrow> fr.stream fs = [] \<longleftrightarrow> fs = []"
  by (cases fs) (simp_all add: frame_bytes_def)

text \<open>
  C3: frames come out of the reader once each and in order. If the chunks that arrive are, put
  together, the bytes of a sequence of frames, then the promises of \<open>next()\<close> are resolved with
  exactly these frames, the k-th call with the k-th frame, wherever the stream cuts the chunks and
  whenever \<open>next()\<close> is called; a call beyond the last frame stays pending.
\<close>

theorem reader_in_order:
  assumes "list_all ok_frame fs" and "list_all data_or_next es"
    and "chunks es = concat (map frame_bytes fs)"
  shows "settled (foldl on_event new_reader es)
    = map (\<lambda>(w, f). (w, Resolved (Some f))) (zip (nexts es) fs)"
proof -
  let ?r = "foldl on_event new_reader es"
  from tracks_run [OF assms(1,2)] assms(3) obtain k
    where t: "tracks fs (nexts es) (chunks es) k ?r" and w: "waits fs (nexts es) k ?r"
    by auto
  have "fr.stream fs = fr.stream (take k fs) @ fr.stream (drop k fs)"
    by (metis append_take_drop_id concat_append map_append)
  with t assms(3) have b: "buffer ?r = fr.stream (drop k fs)"
    by (simp add: tracks_def)
  have "k = length (nexts es) \<or> k = length fs"
  proof (rule ccontr)
    assume n: "\<not> ?thesis"
    with t have "waiters ?r \<noteq> []" and k: "k < length fs" using w by (auto simp: waits_def tracks_def)
    then have "reader_cut (fr.stream (drop k fs)) = None" using w b by (simp add: waits_def)
    moreover have "drop k fs = fs ! k # drop (Suc k) fs" using k by (simp add: Cons_nth_drop_Suc)
    moreover have "ok_frame (fs ! k)" using assms(1) k by (simp add: list_all_length)
    ultimately show False by (simp add: fr.cut_full)
  qed
  with t have "length (zip (nexts es) fs) \<le> k" by (auto simp: tracks_def)
  with t show ?thesis
    by (simp add: tracks_def deliveries_def take_zip [symmetric])
qed

theorem reader_in_order_witness:
  "settled (foldl on_event new_reader
      [Next 1, Data (map byte_of [0, 0, 0]), Data (map byte_of [2, 2, 7, 0, 0, 0, 1]), Next 2, Data (map byte_of [5])])
   = [(1, Resolved (Some (2, [byte_of 7]))), (2, Resolved (Some (5, [])))]"
proof -
  let ?fs = "[(2, [byte_of 7]), (5, [])]"
  let ?es = "[Next 1, Data (map byte_of [0, 0, 0]), Data (map byte_of [2, 2, 7, 0, 0, 0, 1]), Next 2, Data (map byte_of [5])]"
  have "list_all ok_frame ?fs" "list_all data_or_next ?es" by (simp_all add: ok_frame_def)
  moreover have "chunks ?es = concat (map frame_bytes ?fs)"
    by (simp add: frame_bytes_def u32be_def flip: numeral_2_eq_2)
  ultimately show ?thesis using reader_in_order [of ?fs ?es] by (simp del: foldl_Cons)
qed

end
