(* ===== verification/ProtocolClient.thy ===== *)
theory ProtocolClient
  imports DeltaWire FrameReader
begin

text \<open>
  The protocol client of a layout program (\<open>clients/tui/sdk/ts/src/core.js\<close>, class \<open>Client\<close>): the
  state it keeps between frames and every operation on it. A handler of the program may call
  \<open>emit\<close>, \<open>commit\<close> and \<open>commitDelta\<close> again; since the client updates its state before it calls the
  program, such a call is a further step of the machine. The Boolean argument \<open>wr\<close> of an
  operation says whether \<open>streamOut.write\<close> returns or throws.
\<close>

section \<open>Frame types\<close>

definition HELLO :: nat where "HELLO = 1"
definition VIEW :: nat where "VIEW = 2"
definition EVENT :: nat where "EVENT = 3"
definition RESULT :: nat where "RESULT = 4"
definition RESPONSE :: nat where "RESPONSE = 5"
definition STREAM :: nat where "STREAM = 6"
definition VIEW_DELTA :: nat where "VIEW_DELTA = 7"

lemmas frame_types = HELLO_def VIEW_def EVENT_def RESULT_def RESPONSE_def STREAM_def VIEW_DELTA_def

definition VIEW_DELTA_FEATURE :: ustr where
  "VIEW_DELTA_FEATURE = asc ''view_delta''"

section \<open>State\<close>

datatype client_error = BeforeRun | BeforeHello | NilRoot | NilStream | IllegalFrame nat | Malformed wire_error | FrameSize | WriteFailed

text \<open>The calls into the program; a callback of \<open>emit\<close> is identified by its request.\<close>

datatype 'cb upcall = OnHello hello | OnEvent event | Callback int 'cb response | OnResponse response | OnStream stream_in

record 'cb client =
  c_hello :: "hello option"
  c_epoch :: int
  c_rev :: int
  c_requestId :: int
  c_pending :: "int \<rightharpoonup> 'cb"
  c_features :: "(ustr \<times> bool) list"
  c_base :: "box option"
  c_baseRev :: int
  c_running :: bool
  c_out :: "(nat \<times> bytes) list"
  c_calls :: "'cb upcall list"

definition new_client :: "'cb client" where
  "new_client = \<lparr>c_hello = None, c_epoch = 0, c_rev = 0, c_requestId = 0, c_pending = Map.empty,
     c_features = [], c_base = None, c_baseRev = 0, c_running = True, c_out = [], c_calls = []\<rparr>"

section \<open>Operations of the program\<close>

text \<open>\<open>streamOut.write(wire.frame(type, payload))\<close>.\<close>

definition write_frame :: "bool \<Rightarrow> nat \<Rightarrow> bytes \<Rightarrow> 'cb client \<Rightarrow> client_error + 'cb client" where
  "write_frame wr t payload c =
     (case frame t payload of
        None \<Rightarrow> Inl FrameSize
      | Some data \<Rightarrow> if wr then Inr (c\<lparr>c_out := c_out c @ [(t, payload)]\<rparr>) else Inl WriteFailed)"

definition emit :: "ustr \<Rightarrow> params \<Rightarrow> 'cb option \<Rightarrow> bool \<Rightarrow> 'cb client \<Rightarrow> (client_error + int) \<times> 'cb client" where
  "emit method p onResponse wr c =
     (if c_hello c = None then (Inl BeforeHello, c)
      else
        let rid = c_requestId c + 1;
            c1 = c\<lparr>c_requestId := rid,
                   c_pending := (case onResponse of None \<Rightarrow> c_pending c | Some k \<Rightarrow> (c_pending c)(rid \<mapsto> k))\<rparr>
        in case write_frame wr RESULT (encodeResult rid (c_epoch c) method p) c1 of
             Inl e \<Rightarrow> (Inl e, c1\<lparr>c_pending := (c_pending c1)(rid := None)\<rparr>)
           | Inr c2 \<Rightarrow> (Inr rid, c2))"

definition commit :: "box option \<Rightarrow> ustr list option \<Rightarrow> bool option \<Rightarrow> bool \<Rightarrow> 'cb client \<Rightarrow> (client_error + int) \<times> 'cb client" where
  "commit root claim allKeys wr c =
     (if c_hello c = None then (Inl BeforeHello, c)
      else case root of
        None \<Rightarrow> (Inl NilRoot, c)
      | Some r \<Rightarrow>
          let c1 = c\<lparr>c_rev := c_rev c + 1\<rparr>;
              payload = encodeView (c_epoch c1) (c_rev c1) (opt_list claim) (Some (allKeys = Some True)) r
          in case write_frame wr VIEW payload c1 of
               Inl e \<Rightarrow> (Inl e, c1)
             | Inr c2 \<Rightarrow> (Inr (c_rev c2), c2\<lparr>c_base := Some r, c_baseRev := c_rev c2\<rparr>))"

definition supports :: "ustr \<Rightarrow> 'cb client \<Rightarrow> bool" where
  "supports feature c \<longleftrightarrow>
     (case map_of (c_features c) feature of Some b \<Rightarrow> b | None \<Rightarrow> feature \<in> set inherited_keys)"

definition hasBase :: "'cb client \<Rightarrow> bool" where
  "hasBase c \<longleftrightarrow> c_base c \<noteq> None"

definition dropBase :: "'cb client \<Rightarrow> 'cb client" where
  "dropBase c = c\<lparr>c_base := None, c_baseRev := 0\<rparr>"

text \<open>
  The first argument of \<open>commitDelta\<close> in the source is a hint that is replaced by the client's own
  base whenever it differs from it, so the base of the diff is \<open>c_base\<close> in every case.
\<close>

definition delta_payload :: "'cb client \<Rightarrow> box \<Rightarrow> ustr list option \<Rightarrow> bool option \<Rightarrow> bytes option" where
  "delta_payload c r claim allKeys =
     (if \<not> supports VIEW_DELTA_FEATURE c then None
      else case c_base c of
        None \<Rightarrow> None
      | Some base \<Rightarrow> map_option (encodeViewDelta (c_epoch c) (c_rev c + 1) (c_rev c) claim allKeys) (diffView base r))"

text \<open>The frame \<open>commitDelta\<close> sends: whether it is a delta, its type and its payload.\<close>

definition chosen_frame :: "'cb client \<Rightarrow> box \<Rightarrow> ustr list option \<Rightarrow> bool option \<Rightarrow> bool \<times> nat \<times> bytes" where
  "chosen_frame c r claim allKeys =
     (let viewPayload = encodeView (c_epoch c) (c_rev c + 1) (opt_list claim) (Some (allKeys = Some True)) r
      in case delta_payload c r claim allKeys of
           None \<Rightarrow> (False, VIEW, viewPayload)
         | Some d \<Rightarrow> if length d < length viewPayload then (True, VIEW_DELTA, d) else (False, VIEW, viewPayload))"

definition commitDelta :: "box option \<Rightarrow> ustr list option \<Rightarrow> bool option \<Rightarrow> bool \<Rightarrow> 'cb client \<Rightarrow> (client_error + bool) \<times> 'cb client" where
  "commitDelta nextRoot claim allKeys wr c =
     (if c_hello c = None then (Inl BeforeHello, c)
      else case nextRoot of
        None \<Rightarrow> (Inl NilRoot, c)
      | Some r \<Rightarrow>
          (case chosen_frame c r claim allKeys of (useDelta, t, payload) \<Rightarrow>
             let rv = c_rev c + 1; c1 = c\<lparr>c_rev := rv\<rparr>
             in case write_frame wr t payload c1 of
                  Inl e \<Rightarrow> (Inl e, c1)
                | Inr c2 \<Rightarrow> (Inr useDelta, c2\<lparr>c_base := Some r, c_baseRev := rv\<rparr>)))"

lemma commitDelta_delta:
  assumes "fst (commitDelta (Some r) cl al wr c) = Inr True"
  shows "\<exists>d. c_out (snd (commitDelta (Some r) cl al wr c)) = c_out c @ [(VIEW_DELTA, d)]"
proof -
  obtain u t payload where ch: "chosen_frame c r cl al = (u, t, payload)" by (cases "chosen_frame c r cl al")
  have "\<exists>c2. write_frame wr t payload (c\<lparr>c_rev := c_rev c + 1\<rparr>) = Inr c2 \<and> u"
    using assms ch by (auto simp: commitDelta_def Let_def split: if_splits sum.splits)
  moreover have "u \<Longrightarrow> t = VIEW_DELTA"
    using ch by (auto simp: chosen_frame_def Let_def split: option.splits if_splits)
  moreover have "c_hello c \<noteq> None" using assms by (auto simp: commitDelta_def split: if_splits)
  ultimately show ?thesis
    using ch by (auto simp: commitDelta_def Let_def write_frame_def split: option.splits if_splits)
qed

definition sendStream :: "stream_frame option \<Rightarrow> bool \<Rightarrow> 'cb client \<Rightarrow> (client_error + unit) \<times> 'cb client" where
  "sendStream sf wr c =
     (case sf of
        None \<Rightarrow> (Inl NilStream, c)
      | Some s \<Rightarrow> (case write_frame wr STREAM (encodeStream s) c of Inl e \<Rightarrow> (Inl e, c) | Inr c' \<Rightarrow> (Inr (), c')))"

section \<open>Frames from the host\<close>

definition dispatchHello :: "hello \<Rightarrow> 'cb client \<Rightarrow> 'cb client" where
  "dispatchHello h c =
     (let c1 = c\<lparr>c_hello := Some h, c_epoch := hello_epoch h, c_features := features h, c_rev := 0,
                 c_pending := Map.empty\<rparr>;
          c2 = dropBase c1
      in c2\<lparr>c_calls := c_calls c2 @ [OnHello h]\<rparr>)"

definition dispatchResponse :: "response \<Rightarrow> 'cb client \<Rightarrow> 'cb client" where
  "dispatchResponse r c =
     (let callback = (if rsp_epoch r = c_epoch c then c_pending c (rsp_request_id r) else None);
          c1 = c\<lparr>c_pending := (c_pending c)(rsp_request_id r := None)\<rparr>
      in c1\<lparr>c_calls := c_calls c1 @ (case callback of None \<Rightarrow> [] | Some k \<Rightarrow> [Callback (rsp_request_id r) k r]) @
             [OnResponse r]\<rparr>)"

definition is_rejection :: "event \<Rightarrow> bool" where
  "is_rejection e = (case e of ViewRejectedEvent ep rv why \<Rightarrow> True | _ \<Rightarrow> False)"

definition dispatchEvent :: "event \<Rightarrow> 'cb client \<Rightarrow> 'cb client" where
  "dispatchEvent e c =
     (let c1 = (if is_rejection e then dropBase c else c) in c1\<lparr>c_calls := c_calls c1 @ [OnEvent e]\<rparr>)"

text \<open>
  One turn of the loop of \<open>run\<close> on the next frame (\<open>None\<close> at the end of the stream). An error ends
  the loop: \<open>Inl\<close> is the exception the promise of \<open>run\<close> is rejected with.
\<close>

definition decoded :: "wire_error + 'a \<Rightarrow> ('a \<Rightarrow> 'cb client) \<Rightarrow> client_error + 'cb client" where
  "decoded r k = (case r of Inl e \<Rightarrow> Inl (Malformed e) | Inr a \<Rightarrow> Inr (k a))"

definition on_frame :: "nat \<Rightarrow> bytes \<Rightarrow> 'cb client \<Rightarrow> client_error + 'cb client" where
  "on_frame t payload c =
     (if t = HELLO then decoded (decodeHello payload) (\<lambda>h. dispatchHello h c)
      else if t = EVENT then decoded (decodeEvent payload) (\<lambda>e. dispatchEvent e c)
      else if t = RESPONSE then decoded (decodeResponse payload) (\<lambda>r. dispatchResponse r c)
      else if t = STREAM then decoded (decodeStream payload) (\<lambda>s. c\<lparr>c_calls := c_calls c @ [OnStream s]\<rparr>)
      else Inl (IllegalFrame t))"

definition run_turn :: "(nat \<times> bytes) option \<Rightarrow> 'cb client \<Rightarrow> 'cb client" where
  "run_turn f c =
     (if \<not> c_running c then c
      else case f of
        None \<Rightarrow> c\<lparr>c_running := False\<rparr>
      | Some (t, payload) \<Rightarrow>
          (case on_frame t payload c of Inl e \<Rightarrow> c\<lparr>c_running := False\<rparr> | Inr c' \<Rightarrow> c'))"

section \<open>The program's side\<close>

text \<open>
  Class \<open>App\<close>: its operations are those of the client \<open>run\<close> was called on; before that they throw
  (\<open>supports\<close> is false and \<open>dropBase\<close> does nothing). \<open>onEvent\<close> passes an event to the handler of
  its kind.
\<close>

definition app_call ::
  "('cb client \<Rightarrow> (client_error + 'a) \<times> 'cb client) \<Rightarrow> 'cb client option \<Rightarrow> (client_error + 'a) \<times> 'cb client option" where
  "app_call f cl = (case cl of None \<Rightarrow> (Inl BeforeRun, None) | Some c \<Rightarrow> map_prod id Some (f c))"

definition app_supports :: "ustr \<Rightarrow> 'cb client option \<Rightarrow> bool" where
  "app_supports feature cl = (case cl of None \<Rightarrow> False | Some c \<Rightarrow> supports feature c)"

definition app_dropBase :: "'cb client option \<Rightarrow> 'cb client option" where
  "app_dropBase cl = map_option dropBase cl"

fun handler_name :: "event \<Rightarrow> string option" where
  "handler_name (KeyEvent i k c) = Some ''onKey''"
| "handler_name (PasteEvent i t) = Some ''onPaste''"
| "handler_name (MouseEvent a b x y n) = Some ''onMouse''"
| "handler_name (WheelEvent d x y n) = Some ''onWheel''"
| "handler_name (ResizeEvent c r) = Some ''onResize''"
| "handler_name (SourcesEvent items) = Some ''onSources''"
| "handler_name (NoticeEvent l m) = Some ''onNotice''"
| "handler_name (ComponentEvent s n v) = Some ''onComponent''"
| "handler_name (ViewRejectedEvent e r w) = Some ''onViewRejected''"
| "handler_name UnknownEvent = None"

datatype 'cb client_op =
    Frame "(nat \<times> bytes) option"
  | Emit ustr params "'cb option" bool
  | Commit "box option" "ustr list option" "bool option" bool
  | CommitDelta "box option" "ustr list option" "bool option" bool
  | DropBase
  | SendStream "stream_frame option" bool

fun client_step :: "'cb client \<Rightarrow> 'cb client_op \<Rightarrow> 'cb client" where
  "client_step c (Frame f) = run_turn f c"
| "client_step c (Emit m p k wr) = snd (emit m p k wr c)"
| "client_step c (Commit r cl al wr) = snd (commit r cl al wr c)"
| "client_step c (CommitDelta r cl al wr) = snd (commitDelta r cl al wr c)"
| "client_step c DropBase = dropBase c"
| "client_step c (SendStream s wr) = snd (sendStream s wr c)"

section \<open>Invariant\<close>

fun fired_by :: "'cb upcall \<Rightarrow> int list" where
  "fired_by (Callback rid k r) = [rid]"
| "fired_by u = []"

definition fired :: "'cb client \<Rightarrow> int list" where
  "fired c = concat (map fired_by (c_calls c))"

text \<open>
  What the frames written say about the view: \<open>sent_view out e rv b\<close> when they show the tree \<open>b\<close> as
  revision \<open>rv\<close> of epoch \<open>e\<close>. The last view frame is the full tree, or it is the delta to it from the
  tree that the frames before it show; frames of other types say nothing about the view.
\<close>

inductive sent_view :: "(nat \<times> bytes) list \<Rightarrow> int \<Rightarrow> int \<Rightarrow> box \<Rightarrow> bool" where
  full: "sent_view (out @ [(VIEW, encodeView e rv cl al b)]) e rv b"
| delta: "sent_view out e rv0 b0 \<Longrightarrow> rv0 < rv \<Longrightarrow> diffView b0 b = Some ps \<Longrightarrow>
    sent_view (out @ [(VIEW_DELTA, encodeViewDelta e rv (rv - 1) cl al ps)]) e rv b"
| other: "sent_view out e rv b \<Longrightarrow> t \<noteq> VIEW \<Longrightarrow> t \<noteq> VIEW_DELTA \<Longrightarrow> sent_view (out @ [(t, payload)]) e rv b"

definition base_sent :: "'cb client \<Rightarrow> bool" where
  "base_sent c = (case c_base c of None \<Rightarrow> c_baseRev c = 0
     | Some b \<Rightarrow> 1 \<le> c_baseRev c \<and> c_baseRev c \<le> c_rev c \<and> sent_view (c_out c) (c_epoch c) (c_baseRev c) b)"

definition base_inv :: "'cb client \<Rightarrow> bool" where
  "base_inv c \<longleftrightarrow> 0 \<le> c_rev c \<and> base_sent c \<and> (c_hello c = None \<longrightarrow> c_rev c = 0 \<and> c_base c = None)"

definition request_inv :: "'cb client \<Rightarrow> bool" where
  "request_inv c \<longleftrightarrow> 0 \<le> c_requestId c \<and> (\<forall>rid k. c_pending c rid = Some k \<longrightarrow> 1 \<le> rid \<and> rid \<le> c_requestId c) \<and>
     distinct (fired c) \<and> (\<forall>rid\<in>set (fired c). rid \<le> c_requestId c \<and> c_pending c rid = None)"

definition client_inv :: "'cb client \<Rightarrow> bool" where
  "client_inv c \<longleftrightarrow> base_inv c \<and> request_inv c"

lemma write_frame_cases:
  "write_frame wr t payload c = Inr c' \<Longrightarrow> c' = c\<lparr>c_out := c_out c @ [(t, payload)]\<rparr>"
  by (auto simp: write_frame_def split: option.splits if_splits)

lemma base_inv_kept:
  assumes "base_inv c" and "c_hello c' = c_hello c" and "c_epoch c' = c_epoch c" and "c_base c' = c_base c"
    and "c_baseRev c' = c_baseRev c" and "c_rev c \<le> c_rev c'" and "c_hello c = None \<longrightarrow> c_rev c' = c_rev c"
    and "c_out c' = c_out c \<or> (\<exists>t payload. c_out c' = c_out c @ [(t, payload)] \<and> t \<noteq> VIEW \<and> t \<noteq> VIEW_DELTA)"
  shows "base_inv c'"
  using assms by (auto simp: base_inv_def base_sent_def intro: sent_view.other split: option.splits)

lemma base_inv_dropped:
  "base_inv c \<Longrightarrow> c_base c' = None \<Longrightarrow> c_baseRev c' = 0 \<Longrightarrow> 0 \<le> c_rev c' \<Longrightarrow> (c_hello c' = None \<Longrightarrow> c_rev c' = 0) \<Longrightarrow> base_inv c'"
  by (auto simp: base_inv_def base_sent_def)

lemma base_inv_frame:
  assumes "base_inv c"
  shows "base_inv (run_turn f c)"
proof -
  have "base_inv c'" if "on_frame t payload c = Inr c'" for t payload c'
  proof -
    have "base_inv (dispatchHello h c)" for h
      by (rule base_inv_dropped [OF assms]) (simp_all add: dispatchHello_def dropBase_def Let_def)
    moreover have "base_inv ((dropBase c)\<lparr>c_calls := k\<rparr>)" for k
      by (rule base_inv_dropped [OF assms]) (use assms in \<open>simp_all add: dropBase_def base_inv_def\<close>)
    moreover have "base_inv (c\<lparr>c_calls := k\<rparr>)" "base_inv (c\<lparr>c_pending := p, c_calls := k\<rparr>)" for k p
      by (rule base_inv_kept [OF assms]; simp)+
    ultimately show ?thesis using that
      by (auto simp: on_frame_def decoded_def dispatchEvent_def dispatchResponse_def dropBase_def Let_def
          split: sum.splits if_splits)
  qed
  moreover have "base_inv (c\<lparr>c_running := False\<rparr>)" by (rule base_inv_kept [OF assms]) simp_all
  ultimately show ?thesis using assms by (auto simp: run_turn_def split: option.splits sum.splits)
qed

text \<open>A frame that \<open>commitDelta\<close> chooses shows the next tree.\<close>

lemma chosen_frame_sent:
  assumes "base_inv c" and "chosen_frame c r cl al = (u, t, payload)"
  shows "sent_view (c_out c @ [(t, payload)]) (c_epoch c) (c_rev c + 1) r"
proof (cases u)
  case False
  then have "t = VIEW \<and> payload = encodeView (c_epoch c) (c_rev c + 1) (opt_list cl) (Some (al = Some True)) r"
    using assms(2) by (auto simp: chosen_frame_def Let_def split: option.splits if_splits)
  then show ?thesis by (auto intro: sent_view.full)
next
  case True
  then obtain b ps where "c_base c = Some b" "diffView b r = Some ps" "t = VIEW_DELTA"
    "payload = encodeViewDelta (c_epoch c) (c_rev c + 1) (c_rev c) cl al ps"
    using assms(2) by (auto simp: chosen_frame_def delta_payload_def Let_def split: option.splits if_splits)
  then show ?thesis
    using assms(1) sent_view.delta [of "c_out c" "c_epoch c" "c_baseRev c" b "c_rev c + 1" r ps cl al]
    by (simp add: base_inv_def base_sent_def)
qed

lemma base_inv_sent:
  assumes "base_inv c" and "c_hello c \<noteq> None" and "sent_view (c_out c @ [(t, payload)]) (c_epoch c) (c_rev c + 1) r"
  shows "base_inv (c\<lparr>c_rev := c_rev c + 1, c_out := c_out c @ [(t, payload)], c_base := Some r, c_baseRev := c_rev c + 1\<rparr>)"
  using assms by (simp add: base_inv_def base_sent_def)

lemma base_inv_commit:
  assumes "base_inv c"
  shows "base_inv (snd (commit root cl al wr c))" and "base_inv (snd (commitDelta root cl al wr c))"
proof -
  have failed: "base_inv (c\<lparr>c_rev := c_rev c + 1\<rparr>)" if "c_hello c \<noteq> None"
    using that by (intro base_inv_kept [OF assms]) simp_all
  show "base_inv (snd (commit root cl al wr c))"
    using assms failed base_inv_sent [OF assms _ sent_view.full]
    by (auto simp: commit_def Let_def dest!: write_frame_cases split: sum.splits option.splits)
  show "base_inv (snd (commitDelta root cl al wr c))"
    using assms failed base_inv_sent [OF assms _ chosen_frame_sent [OF assms]]
    by (auto simp: commitDelta_def Let_def dest!: write_frame_cases split: sum.splits option.splits prod.splits)
qed

lemma base_inv_step:
  assumes "base_inv c"
  shows "base_inv (client_step c ev)"
proof (cases ev)
  case (Emit m p k wr)
  have "c_hello c \<noteq> None \<longrightarrow> base_inv (snd (emit m p k wr c))"
    by (intro impI base_inv_kept [OF assms])
      (auto simp: emit_def Let_def frame_types dest!: write_frame_cases split: sum.splits option.splits)
  then show ?thesis unfolding Emit using assms by (auto simp: emit_def)
next
  case (SendStream sf wr)
  show ?thesis
    unfolding SendStream client_step.simps
    by (rule base_inv_kept [OF assms])
      (auto simp: sendStream_def frame_types dest!: write_frame_cases split: sum.splits option.splits)
next
  case DropBase
  show ?thesis unfolding DropBase by (rule base_inv_dropped [OF assms]) (use assms in \<open>simp_all add: dropBase_def base_inv_def\<close>)
qed (simp_all add: assms base_inv_frame base_inv_commit)

text \<open>Every operation but \<open>emit\<close> and \<open>dispatchResponse\<close> keeps or clears the pending requests.\<close>

lemma request_inv_cong:
  "request_inv c \<Longrightarrow> c_requestId c' = c_requestId c \<Longrightarrow> c_pending c' = c_pending c \<or> c_pending c' = Map.empty \<Longrightarrow>
    fired c' = fired c \<Longrightarrow> request_inv c'"
  by (auto simp: request_inv_def)

lemma request_inv_fresh:
  assumes "request_inv c" and "c_requestId c' = c_requestId c + 1" and "fired c' = fired c"
    and "c_pending c' = (c_pending c)(c_requestId c + 1 := v)"
  shows "request_inv c'"
proof -
  have p: "1 \<le> rid \<and> rid \<le> c_requestId c + 1" if "c_pending c rid = Some k" for rid k
    using that assms(1) unfolding request_inv_def by fastforce
  have f: "rid \<le> c_requestId c + 1 \<and> rid \<noteq> c_requestId c + 1 \<and> c_pending c rid = None" if "rid \<in> set (fired c)" for rid
    using that assms(1) unfolding request_inv_def by fastforce
  show ?thesis
    unfolding request_inv_def assms(2-4)
  proof (intro conjI allI impI ballI)
    show "0 \<le> c_requestId c + 1" "distinct (fired c)" using assms(1) by (simp_all add: request_inv_def)
  qed (use assms(1) in \<open>auto simp: request_inv_def dest!: p f split: if_splits\<close>)
qed

lemma request_inv_unused: "request_inv c \<Longrightarrow> (c_pending c)(c_requestId c + 1 := None) = c_pending c"
  by (cases "c_pending c (c_requestId c + 1)") (auto simp: request_inv_def fun_upd_idem)

lemma request_inv_emit:
  assumes "request_inv c"
  shows "request_inv (snd (emit m p k wr c))"
proof (cases "c_hello c")
  case (Some h)
  have "\<exists>v. c_pending (snd (emit m p k wr c)) = (c_pending c)(c_requestId c + 1 := v)"
    using request_inv_unused [OF assms] Some unfolding emit_def Let_def
    by (auto dest!: write_frame_cases split: sum.splits option.splits) metis+
  moreover have "c_requestId (snd (emit m p k wr c)) = c_requestId c + 1"
    "fired (snd (emit m p k wr c)) = fired c"
    using Some unfolding emit_def Let_def fired_def
    by (auto dest!: write_frame_cases split: sum.splits option.splits)
  ultimately show ?thesis using request_inv_fresh [OF assms] by blast
qed (simp add: emit_def assms)

lemma request_inv_response: "request_inv c \<Longrightarrow> request_inv (dispatchResponse r c)"
  by (auto simp: dispatchResponse_def request_inv_def fired_def Let_def split: option.splits)

lemma request_inv_step: "request_inv c \<Longrightarrow> request_inv (client_step c ev)"
proof (cases ev)
  case (Frame f)
  assume i: "request_inv c"
  have "request_inv c'" if "on_frame t payload c = Inr c'" for t payload c'
    using that i request_inv_response [OF i]
    by (auto simp: on_frame_def decoded_def dispatchHello_def dispatchEvent_def dropBase_def fired_def Let_def
        intro: request_inv_cong [OF i] split: sum.splits if_splits)
  then show ?thesis
    unfolding Frame
    by (auto simp: run_turn_def fired_def i intro: request_inv_cong [OF i] split: option.splits sum.splits)
next
  case (Emit m p k wr)
  assume "request_inv c"
  then show ?thesis unfolding Emit by (simp add: request_inv_emit)
next
  case (Commit r cl al wr)
  assume i: "request_inv c"
  show ?thesis
    unfolding Commit
    by (rule request_inv_cong [OF i])
      (auto simp: commit_def fired_def Let_def dest!: write_frame_cases split: sum.splits option.splits)
next
  case (CommitDelta r cl al wr)
  assume i: "request_inv c"
  show ?thesis
    unfolding CommitDelta
    by (rule request_inv_cong [OF i])
      (auto simp: commitDelta_def fired_def Let_def dest!: write_frame_cases split: sum.splits option.splits prod.splits)
next
  case DropBase
  assume i: "request_inv c"
  show ?thesis unfolding DropBase by (rule request_inv_cong [OF i]) (simp_all add: dropBase_def fired_def)
next
  case (SendStream sf wr)
  assume i: "request_inv c"
  show ?thesis
    unfolding SendStream
    by (rule request_inv_cong [OF i])
      (auto simp: sendStream_def fired_def dest!: write_frame_cases split: sum.splits option.splits)
qed

interpretation cl: machine new_client client_step client_inv
proof
  show "client_inv new_client"
    by (simp add: client_inv_def base_inv_def base_sent_def request_inv_def new_client_def fired_def)
  show "client_inv c \<Longrightarrow> client_inv (client_step c ev)" for c :: "'a client" and ev
    using base_inv_step [of c ev] request_inv_step [of c ev] by (simp add: client_inv_def)
qed

section \<open>Properties\<close>

text \<open>
  C20: the state of the client after any sequence of operations and frames, failed writes
  included. A base tree comes with the revision it was sent as: the frames written show it, in the
  current epoch and as revision \<open>baseRev\<close>, that is, the last view frame among them carries that
  revision and is the full tree or the delta to it from the tree that the frames before it show in
  the same way. That revision is between 1 and the current one; without a base tree it is 0, and
  before HELLO there is neither a base tree nor a revision. A pending request has an id that was
  given out and whose callback has not run; callbacks ran only for ids given out.
\<close>

theorem client_invariant:
  "let c = foldl client_step new_client ops in
   (case c_base c of
      None \<Rightarrow> c_baseRev c = 0 \<and> 0 \<le> c_rev c
    | Some b \<Rightarrow> sent_view (c_out c) (c_epoch c) (c_baseRev c) b \<and> 1 \<le> c_baseRev c \<and> c_baseRev c \<le> c_rev c) \<and>
   (case c_hello c of None \<Rightarrow> c_rev c = 0 \<and> c_base c = None | Some h \<Rightarrow> True) \<and>
   dom (c_pending c) \<subseteq> {1..c_requestId c} - set (fired c) \<and> set (fired c) \<subseteq> {..c_requestId c}"
  using cl.inv_run [of ops]
  by (fastforce simp: client_inv_def base_inv_def base_sent_def request_inv_def Let_def split: option.splits)

text \<open>
  C19: a response callback runs at most once per request, over the whole connection: no request id
  occurs twice among the callbacks, however responses are repeated, reordered or cut by a new
  HELLO.
\<close>

theorem callbacks_once: "distinct (fired (foldl client_step new_client ops))"
  using cl.inv_run [of ops] by (simp add: client_inv_def request_inv_def)

text \<open>
  A response of another epoch never reaches a callback; it is passed to \<open>onResponse\<close> and its
  request is forgotten.
\<close>

lemma stale_response_ignored:
  assumes "rsp_epoch r \<noteq> c_epoch c"
  shows "dispatchResponse r c = c\<lparr>c_pending := (c_pending c)(rsp_request_id r := None),
    c_calls := c_calls c @ [OnResponse r]\<rparr>"
  using assms by (simp add: dispatchResponse_def Let_def)

text \<open>
  \<open>emit\<close> gives out a new request id and registers its callback; when the write throws, the
  callback is taken back, so that the pending requests are as before.
\<close>

lemma emit_registers:
  assumes "request_inv c" and "c_hello c \<noteq> None"
  shows "case emit m p (Some k) wr c of
      (Inr rid, c') \<Rightarrow> rid = c_requestId c + 1 \<and> c_pending c rid = None \<and> c_pending c' = (c_pending c)(rid \<mapsto> k) \<and>
        c_out c' = c_out c @ [(RESULT, encodeResult rid (c_epoch c) m p)]
    | (Inl e, c') \<Rightarrow> c_pending c' = c_pending c \<and> c_out c' = c_out c"
proof -
  have "c_pending c (c_requestId c + 1) = None"
    using assms(1) by (cases "c_pending c (c_requestId c + 1)") (auto simp: request_inv_def)
  then show ?thesis
    using assms(2) request_inv_unused [OF assms(1)]
    by (auto simp: emit_def Let_def write_frame_def split: option.splits)
qed

definition plain_hello :: hello where
  "plain_hello = \<lparr>schema = 1, view_id = [], hello_epoch = 1, hello_cols = 80, hello_rows = 24, components = [],
     events = [], methods = [], features = [(VIEW_DELTA_FEATURE, True)], hello_limits = None\<rparr>"

end
