(* ===== verification/HostSession.thy ===== *)
theory HostSession
  imports ProtocolClient
begin

text \<open>
  The host's view session (\<open>clients/tui/runtime/session.go\<close> and \<open>view_delta.go\<close>) together with the
  client: which frames the host accepts, which it drops and which it rejects, the theorem that a
  client and a host that start an epoch together agree on the view after every commit of a sequence
  whose changes the deltas can express, and what happens with changes they cannot. The
  host's protobuf decoding is a parameter, described by the locale \<open>host_decoder\<close>; the decoders of
  \<open>wire.js\<close> satisfy it.
\<close>

section \<open>The host\<close>

record host =
  ho_epoch :: int
  ho_rev :: int
  ho_view :: "dbox option option"
  ho_max :: nat
  ho_rejects :: "(int \<times> int \<times> reason) list"

definition rejectViewLocked :: "int \<Rightarrow> reason \<Rightarrow> host \<Rightarrow> host" where
  "rejectViewLocked rv why h =
     (if (ho_epoch h, rv) \<in> set (map (\<lambda>(e, r, w). (e, r)) (ho_rejects h)) then h
      else h\<lparr>ho_rejects := ho_rejects h @ [(ho_epoch h, rv, why)]\<rparr>)"

fun count_boxes :: "dbox \<Rightarrow> nat" where
  "count_boxes (DBox a cs) = Suc (sum_list (map count_boxes cs))"

definition countBoxes :: "dbox option \<Rightarrow> nat" where
  "countBoxes b = (case b of None \<Rightarrow> 0 | Some d \<Rightarrow> count_boxes d)"

definition HandleView :: "int \<times> int \<times> dbox option \<Rightarrow> host \<Rightarrow> host" where
  "HandleView v h =
     (case v of (e, rv, root) \<Rightarrow>
        if e \<noteq> ho_epoch h then h
        else if rv \<le> ho_rev h then h
        else if 0 < ho_max h \<and> ho_max h < countBoxes root then rejectViewLocked rv MaxNodes h
        else h\<lparr>ho_rev := rv, ho_view := Some root\<rparr>)"

definition patchesCanGrow :: "dpatch list \<Rightarrow> bool" where
  "patchesCanGrow ps \<longleftrightarrow> list_ex (\<lambda>p. dp_op p = OP_INSERT \<or> dp_op p = OP_REPLACE) ps"

text \<open>A cached view without a root: every patch of it fails with an invalid path.\<close>

definition applyToRoot :: "(dattrs \<Rightarrow> dattrs \<Rightarrow> dattrs) \<Rightarrow> dbox option \<Rightarrow> dpatch list \<Rightarrow> reason + dbox option" where
  "applyToRoot mrg root ps =
     (case root of
        None \<Rightarrow> if ps = [] then Inr None else Inl PathInvalid
      | Some b \<Rightarrow> andThen (applyPatches mrg b ps) (\<lambda>b'. Inr (Some b')))"

definition HandleViewDelta :: "(dattrs \<Rightarrow> dattrs \<Rightarrow> dattrs) \<Rightarrow> ddelta \<Rightarrow> host \<Rightarrow> host" where
  "HandleViewDelta mrg d h =
     (if dd_epoch d \<noteq> ho_epoch h then h
      else if dd_rev d \<le> ho_rev h then h
      else case ho_view h of
        None \<Rightarrow> rejectViewLocked (dd_rev d) BaseMismatch h
      | Some cached \<Rightarrow>
          if dd_rev_base d \<noteq> ho_rev h then rejectViewLocked (dd_rev d) BaseMismatch h
          else case applyToRoot mrg cached (dd_patches d) of
            Inl why \<Rightarrow> rejectViewLocked (dd_rev d) why h
          | Inr root \<Rightarrow>
              if 0 < ho_max h \<and> patchesCanGrow (dd_patches d) \<and> ho_max h < countBoxes root
              then rejectViewLocked (dd_rev d) MaxNodes h
              else h\<lparr>ho_rev := dd_rev d, ho_view := Some root\<rparr>)"

section \<open>Decoding on the host\<close>

locale host_decoder =
  fixes dv :: "bytes \<Rightarrow> (int \<times> int \<times> dbox option) option"
    and dd :: "bytes \<Rightarrow> ddelta option"
  assumes dv_view: "safe_nat e \<Longrightarrow> safe_nat rv \<Longrightarrow> box_ok root \<Longrightarrow> length (encodeView e rv claim allKeys root) < 2 ^ 53 \<Longrightarrow>
      dv (encodeView e rv claim allKeys root) = Some (e, rv, sent_box root)"
    and dd_delta: "safe_nat e \<Longrightarrow> safe_nat rv \<Longrightarrow> safe_nat rb \<Longrightarrow> list_all valid_ustr (opt_list cl) \<Longrightarrow> list_all patch_ok ps \<Longrightarrow>
      length (encodeViewDelta e rv rb cl al ps) < 2 ^ 53 \<Longrightarrow>
      dd (encodeViewDelta e rv rb cl al ps) =
        Some \<lparr>dd_epoch = e, dd_rev = rv, dd_rev_base = rb, dd_keys = sent_keys cl al, dd_patches = map sent ps\<rparr>"

definition succeeded :: "'e + 'a \<Rightarrow> 'a option" where
  "succeeded r = (case r of Inl e \<Rightarrow> None | Inr a \<Rightarrow> Some a)"

definition view_of_bytes :: "bytes \<Rightarrow> wire_error + int \<times> int \<times> dbox option" where
  "view_of_bytes data =
     andThen (parseFields data) (\<lambda>fs.
     andThen (uint_of fs 1) (\<lambda>e.
     andThen (uint_of fs 2) (\<lambda>rv.
     andThen (case first fs 4 of
          Some (VBytes b) \<Rightarrow> andThen (decodeBox b) (\<lambda>root. Inr (Some root))
        | _ \<Rightarrow> Inr None) (\<lambda>root. Inr (e, rv, root)))))"

lemma view_of_bytes_encodeView:
  assumes "safe_nat e" and "safe_nat rv" and "box_ok root"
    and len: "length (encodeView e rv claim allKeys root) < 2 ^ 53"
  shows "view_of_bytes (encodeView e rv claim allKeys root) = Inr (e, rv, sent_box root)"
proof -
  let ?k = "tokens (concat (map (\<lambda>key. stok 1 (Some key)) claim) @ booltok 2 allKeys)"
  let ?ts = "vtok 1 (Some e) @ vtok 2 (Some rv) @ btok 3 ?k @ btok 4 (encodeBox root)"
  have enc: "encodeView e rv claim allKeys root = tokens ?ts"
    by (simp add: encodeView_def fieldVarint_tokens fieldMsg_tokens fieldString_tokens fieldBool_tokens
        concat_map_tokens)
  have "parseFields (tokens ?ts) = Inr ?ts"
    using len by (intro parseFields_tokens) (simp_all add: enc)
  moreover have "uint_of ?ts 1 = Inr e" "uint_of ?ts 2 = Inr rv"
    using assms(1,2) by (simp_all add: uint_of_def decode_simps)
  moreover have "length (encodeBox root) < 2 ^ 53"
    using btok_length [of "encodeBox root" 4] len unfolding enc by simp
  then have "decodeBox (encodeBox root) = Inr (norm root)" using assms(3) by (simp add: decodeBox_encodeBox)
  ultimately show ?thesis
    unfolding enc view_of_bytes_def by (simp add: decode_simps sent_box_def)
qed

interpretation js: host_decoder "\<lambda>b. succeeded (view_of_bytes b)" "\<lambda>b. succeeded (decodeViewDelta b)"
  by unfold_locales
    (simp_all add: succeeded_def view_of_bytes_encodeView decodeViewDelta_encodeViewDelta)

definition host_frame ::
  "(bytes \<Rightarrow> (int \<times> int \<times> dbox option) option) \<Rightarrow> (bytes \<Rightarrow> ddelta option) \<Rightarrow> (dattrs \<Rightarrow> dattrs \<Rightarrow> dattrs) \<Rightarrow>
    host \<Rightarrow> nat \<times> bytes \<Rightarrow> host" where
  "host_frame dv dd mrg h f =
     (case f of (t, payload) \<Rightarrow>
        if t = VIEW then (case dv payload of None \<Rightarrow> h | Some v \<Rightarrow> HandleView v h)
        else if t = VIEW_DELTA then (case dd payload of None \<Rightarrow> h | Some d \<Rightarrow> HandleViewDelta mrg d h)
        else h)"

section \<open>Client and host agree\<close>

type_synonym commit_args = "box \<times> ustr list option \<times> bool option"

definition view_bytes :: "int \<Rightarrow> int \<Rightarrow> commit_args \<Rightarrow> bytes" where
  "view_bytes e rv v = (case v of (r, cl, al) \<Rightarrow> encodeView e rv (opt_list cl) (Some (al = Some True)) r)"

text \<open>
  A view that the wire carries as revision \<open>rv\<close> without loss: its strings are Unicode, its numbers are
  from 0 to 2^31-1 and it has no property \<open>__proto__\<close> (\<open>box_ok\<close>), neither it nor a box in it is empty,
  its message is below the limit of a frame, its number of boxes within the host's limit, and the
  revision is a safe integer. The client checks the size of the frame only.
\<close>

definition committable :: "nat \<Rightarrow> int \<Rightarrow> int \<Rightarrow> commit_args \<Rightarrow> bool" where
  "committable lim e rv v \<longleftrightarrow> (case v of (r, cl, al) \<Rightarrow>
     box_ok r \<and> solid r \<and> encodeBox r \<noteq> [] \<and> list_all valid_ustr (opt_list cl) \<and> safe_nat rv \<and>
     length (view_bytes e rv v) < MAX_MESSAGE_BYTES \<and> (lim = 0 \<or> count_boxes (norm r) \<le> lim))"

definition synced :: "host \<Rightarrow> 'cb client \<Rightarrow> bool" where
  "synced h c \<longleftrightarrow> c_hello c \<noteq> None \<and> safe_nat (c_epoch c) \<and> safe_nat (c_rev c) \<and>
     ho_epoch h = c_epoch c \<and> ho_rev h = c_rev c \<and>
     (case c_base c of None \<Rightarrow> True | Some b \<Rightarrow> fits b \<and> ho_view h = Some (Some (norm b)))"

lemma synced_view:
  "synced h c \<Longrightarrow> c_base c = Some b \<Longrightarrow> ho_view h = Some (Some (norm b)) \<and> ho_rev h = c_rev c"
  by (simp add: synced_def)

lemma committable_fits:
  assumes "committable lim e rv (r, cl, al)"
  shows "fits r"
proof -
  have "length (encodeBox r) \<le> length (view_bytes e rv (r, cl, al))"
    using btok_length [of "encodeBox r" 4] by (simp add: view_bytes_def encodeView_def fieldMsg_tokens)
  then show ?thesis using assms by (simp add: committable_def fits_def)
qed

lemma commitDelta_sends:
  assumes "c_hello c \<noteq> None" and "chosen_frame c r cl al = (u, t, payload)" and "length payload < MAX_MESSAGE_BYTES"
  shows "snd (commitDelta (Some r) cl al True c) = c\<lparr>c_rev := c_rev c + 1, c_out := c_out c @ [(t, payload)],
    c_base := Some r, c_baseRev := c_rev c + 1\<rparr>"
proof -
  obtain data where "frame t payload = Some data" using assms(3) by (auto simp: frame_def Let_def)
  then show ?thesis using assms(1,2) by (auto simp add: commitDelta_def write_frame_def Let_def)
qed

lemma commitDelta_frame:
  assumes "c_hello c \<noteq> None" and "length (view_bytes (c_epoch c) (c_rev c + 1) (r, cl, al)) < MAX_MESSAGE_BYTES"
  obtains (full) "snd (commitDelta (Some r) cl al True c) = c\<lparr>c_rev := c_rev c + 1,
        c_out := c_out c @ [(VIEW, view_bytes (c_epoch c) (c_rev c + 1) (r, cl, al))], c_base := Some r, c_baseRev := c_rev c + 1\<rparr>"
    | (delta) b ps where "c_base c = Some b" "diffView b r = Some ps"
      "length (encodeViewDelta (c_epoch c) (c_rev c + 1) (c_rev c) cl al ps) < length (view_bytes (c_epoch c) (c_rev c + 1) (r, cl, al))"
      "snd (commitDelta (Some r) cl al True c) = c\<lparr>c_rev := c_rev c + 1,
        c_out := c_out c @ [(VIEW_DELTA, encodeViewDelta (c_epoch c) (c_rev c + 1) (c_rev c) cl al ps)],
        c_base := Some r, c_baseRev := c_rev c + 1\<rparr>"
proof (cases "\<exists>d. delta_payload c r cl al = Some d \<and> length d < length (view_bytes (c_epoch c) (c_rev c + 1) (r, cl, al))")
  case True
  then obtain d where d: "delta_payload c r cl al = Some d"
    "length d < length (view_bytes (c_epoch c) (c_rev c + 1) (r, cl, al))" by blast
  then obtain b ps where b: "c_base c = Some b" "diffView b r = Some ps"
    "d = encodeViewDelta (c_epoch c) (c_rev c + 1) (c_rev c) cl al ps"
    by (auto simp: delta_payload_def split: if_splits option.splits)
  have "chosen_frame c r cl al = (True, VIEW_DELTA, d)"
    using d by (simp add: chosen_frame_def view_bytes_def Let_def)
  then show ?thesis
    using delta b d(2) commitDelta_sends [OF assms(1)] assms(2) by fastforce
next
  case False
  then have "chosen_frame c r cl al = (False, VIEW, view_bytes (c_epoch c) (c_rev c + 1) (r, cl, al))"
    by (auto simp: chosen_frame_def view_bytes_def Let_def split: option.split)
  then show ?thesis using full commitDelta_sends [OF assms(1) _ assms(2)] by blast
qed

lemma commitDelta_base:
  assumes "c_hello c \<noteq> None" and "length (view_bytes (c_epoch c) (c_rev c + 1) (r, cl, al)) < MAX_MESSAGE_BYTES"
  shows "c_base (snd (commitDelta (Some r) cl al True c)) = Some r"
  by (rule commitDelta_frame [OF assms]) simp_all

lemma commitDelta_needs_base: "fst (commitDelta (Some r) cl al wr c) = Inr True \<Longrightarrow> c_base c \<noteq> None"
  by (auto simp: commitDelta_def chosen_frame_def delta_payload_def Let_def split: if_splits sum.splits option.splits)

text \<open>What the host sees of an operation: the frames written since.\<close>

definition new_frames :: "'cb client \<Rightarrow> 'cb client \<Rightarrow> (nat \<times> bytes) list" where
  "new_frames c c' = drop (length (c_out c)) (c_out c')"

locale view_host = host_decoder dv dd + proto_merge mrg
  for dv :: "bytes \<Rightarrow> (int \<times> int \<times> dbox option) option" and dd :: "bytes \<Rightarrow> ddelta option"
    and mrg :: "dattrs \<Rightarrow> dattrs \<Rightarrow> dattrs"
begin

lemma synced_commitDelta:
  fixes c :: "'cb client"
  assumes syn: "synced h c" and ok: "committable (ho_max h) (c_epoch c) (c_rev c + 1) (r, cl, al)"
    and safe: "case c_base c of None \<Rightarrow> True | Some b \<Rightarrow> diffView b r = None \<or> delta_safe b r"
  defines "c' \<equiv> snd (commitDelta (Some r) cl al True c)"
  defines "h' \<equiv> foldl (host_frame dv dd mrg) h (new_frames c c')"
  shows "synced h' c'" and "c_base c' = Some r" and "c_epoch c' = c_epoch c" and "c_rev c' = c_rev c + 1"
    and "ho_rejects h' = ho_rejects h" and "ho_max h' = ho_max h"
proof -
  note s = syn [unfolded synced_def] and k = ok [unfolded committable_def prod.case]
  have len: "length (view_bytes (c_epoch c) (c_rev c + 1) (r, cl, al)) < 2 ^ 53" using k by simp
  have fits: "fits r" using ok by (rule committable_fits)
  have goal: "synced h' c' \<and> c_base c' = Some r \<and> c_epoch c' = c_epoch c \<and> c_rev c' = c_rev c + 1 \<and>
      ho_rejects h' = ho_rejects h \<and> ho_max h' = ho_max h"
  proof (rule commitDelta_frame [of c r cl al])
    show "c_hello c \<noteq> None" using s by simp
    show "length (view_bytes (c_epoch c) (c_rev c + 1) (r, cl, al)) < MAX_MESSAGE_BYTES" using k by simp
  next
    assume c': "snd (commitDelta (Some r) cl al True c) = c\<lparr>c_rev := c_rev c + 1,
        c_out := c_out c @ [(VIEW, view_bytes (c_epoch c) (c_rev c + 1) (r, cl, al))], c_base := Some r, c_baseRev := c_rev c + 1\<rparr>"
    have "dv (view_bytes (c_epoch c) (c_rev c + 1) (r, cl, al)) = Some (c_epoch c, c_rev c + 1, Some (norm r))"
      using dv_view [of "c_epoch c" "c_rev c + 1" r "opt_list cl" "Some (al = Some True)"] s k len
      by (simp add: view_bytes_def sent_box_def)
    then have "h' = h\<lparr>ho_rev := c_rev c + 1, ho_view := Some (Some (norm r))\<rparr>"
      using s k unfolding h'_def c'_def c' new_frames_def
      by (auto simp: host_frame_def HandleView_def countBoxes_def)
    then show ?thesis using s k fits unfolding c'_def c' by (simp add: synced_def)
  next
    fix b ps
    assume b: "c_base c = Some b" "diffView b r = Some ps"
      and small: "length (encodeViewDelta (c_epoch c) (c_rev c + 1) (c_rev c) cl al ps) < length (view_bytes (c_epoch c) (c_rev c + 1) (r, cl, al))"
      and c': "snd (commitDelta (Some r) cl al True c) = c\<lparr>c_rev := c_rev c + 1,
        c_out := c_out c @ [(VIEW_DELTA, encodeViewDelta (c_epoch c) (c_rev c + 1) (c_rev c) cl al ps)],
        c_base := Some r, c_baseRev := c_rev c + 1\<rparr>"
    have base: "fits b" "ho_view h = Some (Some (norm b))" "delta_safe b r" using s b safe by simp_all
    have "dd (encodeViewDelta (c_epoch c) (c_rev c + 1) (c_rev c) cl al ps) = Some \<lparr>dd_epoch = c_epoch c,
        dd_rev = c_rev c + 1, dd_rev_base = c_rev c, dd_keys = sent_keys cl al, dd_patches = map sent ps\<rparr>"
      using s k small len diffView_ok [OF b(2) base(1) fits] by (intro dd_delta) simp_all
    moreover have "applyPatches mrg (norm b) (map sent ps) = Inr (norm r)"
      using apply_diffView [OF b(2) base(3)] base(1) fits by (simp add: fits_def)
    ultimately have "h' = h\<lparr>ho_rev := c_rev c + 1, ho_view := Some (Some (norm r))\<rparr>"
      using s k base(2) unfolding h'_def c'_def c' new_frames_def
      by (auto simp: host_frame_def HandleViewDelta_def applyToRoot_def countBoxes_def frame_types)
    then show ?thesis using s k fits unfolding c'_def c' by (simp add: synced_def)
  qed
  then show "synced h' c'" "c_base c' = Some r" "c_epoch c' = c_epoch c" "c_rev c' = c_rev c + 1"
    "ho_rejects h' = ho_rejects h" "ho_max h' = ho_max h" by simp_all
qed

end

definition commit_step ::
  "(bytes \<Rightarrow> (int \<times> int \<times> dbox option) option) \<Rightarrow> (bytes \<Rightarrow> ddelta option) \<Rightarrow> (dattrs \<Rightarrow> dattrs \<Rightarrow> dattrs) \<Rightarrow>
    'cb client \<times> host \<Rightarrow> commit_args \<Rightarrow> 'cb client \<times> host" where
  "commit_step dv dd mrg s v =
     (case (s, v) of ((c, h), (r, cl, al)) \<Rightarrow>
        let c' = snd (commitDelta (Some r) cl al True c)
        in (c', foldl (host_frame dv dd mrg) h (new_frames c c')))"

text \<open>
  Views that can be committed one after the other, starting from a base: each is \<open>committable\<close>, and
  where \<open>diffView\<close> finds patches from the view before, the change is one that a proto3 merge expresses
  (\<open>delta_safe\<close>). \<open>commitDelta\<close> does not check the latter.
\<close>

fun commits_ok :: "nat \<Rightarrow> int \<Rightarrow> int \<Rightarrow> box option \<Rightarrow> commit_args list \<Rightarrow> bool" where
  "commits_ok lim e rv base [] = True"
| "commits_ok lim e rv base (v # vs) \<longleftrightarrow>
     committable lim e (rv + 1) v \<and>
     (case base of None \<Rightarrow> True | Some b \<Rightarrow> diffView b (fst v) = None \<or> delta_safe b (fst v)) \<and>
     commits_ok lim e (rv + 1) (Some (fst v)) vs"

context view_host
begin

lemma synced_commits:
  "synced h c \<Longrightarrow> commits_ok (ho_max h) (c_epoch c) (c_rev c) (c_base c) vs \<Longrightarrow>
    (case foldl (commit_step dv dd mrg) (c, h) vs of (c', h') \<Rightarrow>
      synced h' c' \<and> ho_rejects h' = ho_rejects h \<and> c_rev c' = c_rev c + int (length vs) \<and>
      c_base c' = (if vs = [] then c_base c else Some (fst (last vs))))"
proof (induction vs arbitrary: c h)
  case (Cons v vs)
  obtain r cl al where v: "v = (r, cl, al)" by (cases v)
  let ?c = "snd (commitDelta (Some r) cl al True c)"
  let ?h = "foldl (host_frame dv dd mrg) h (new_frames c ?c)"
  have ok: "committable (ho_max h) (c_epoch c) (c_rev c + 1) (r, cl, al)"
    "case c_base c of None \<Rightarrow> True | Some b \<Rightarrow> diffView b r = None \<or> delta_safe b r"
    using Cons.prems(2) unfolding v commits_ok.simps fst_conv by blast+
  note step = synced_commitDelta [OF Cons.prems(1) ok]
  have "commits_ok (ho_max ?h) (c_epoch ?c) (c_rev ?c) (c_base ?c) vs"
    using Cons.prems(2) v step by simp
  from Cons.IH [OF step(1) this] show ?case
    using v step by (auto simp: commit_step_def Let_def split: prod.splits)
qed simp

text \<open>A full view is accepted whatever the host holds, as long as it is not ahead of the client.\<close>

lemma full_view_resyncs:
  fixes c :: "'cb client"
  assumes "c_hello c \<noteq> None" and "c_base c = None" and "safe_nat (c_epoch c)" and "ho_epoch h = c_epoch c"
    and "ho_rev h \<le> c_rev c" and ok: "committable (ho_max h) (c_epoch c) (c_rev c + 1) (r, cl, al)"
  defines "c' \<equiv> snd (commitDelta (Some r) cl al True c)"
  shows "synced (foldl (host_frame dv dd mrg) h (new_frames c c')) c'"
proof -
  note k = ok [unfolded committable_def prod.case]
  have c': "c' = c\<lparr>c_rev := c_rev c + 1,
      c_out := c_out c @ [(VIEW, view_bytes (c_epoch c) (c_rev c + 1) (r, cl, al))], c_base := Some r, c_baseRev := c_rev c + 1\<rparr>"
  proof -
    have "chosen_frame c r cl al = (False, VIEW, view_bytes (c_epoch c) (c_rev c + 1) (r, cl, al))"
      using assms(2) by (simp add: chosen_frame_def delta_payload_def view_bytes_def Let_def)
    from commitDelta_sends [OF assms(1) this] show ?thesis unfolding c'_def using k by simp
  qed
  have "dv (view_bytes (c_epoch c) (c_rev c + 1) (r, cl, al)) = Some (c_epoch c, c_rev c + 1, Some (norm r))"
    using dv_view [of "c_epoch c" "c_rev c + 1" r "opt_list cl" "Some (al = Some True)"] assms(3) k
    by (simp add: view_bytes_def sent_box_def)
  then have "foldl (host_frame dv dd mrg) h (new_frames c c') = h\<lparr>ho_rev := c_rev c + 1, ho_view := Some (Some (norm r))\<rparr>"
    using assms(4,5) k unfolding c' new_frames_def by (auto simp: host_frame_def HandleView_def countBoxes_def)
  then show ?thesis
    using assms(1,3,4) k committable_fits [OF ok] unfolding c' by (simp add: synced_def)
qed

text \<open>A delta that names a revision the host does not hold is rejected.\<close>

lemma delta_after_failed_write:
  fixes c :: "'cb client" and r1 :: box and cl1 :: "ustr list option" and al1 :: "bool option"
  assumes syn: "synced h c"
    and ok: "committable (ho_max h) (c_epoch c) (c_rev c + 2) (r, cl, al)"
    and fresh: "\<And>why. (ho_epoch h, c_rev c + 2, why) \<notin> set (ho_rejects h)"
  defines "c1 \<equiv> snd (commit (Some r1) cl1 al1 False c)"
  defines "c2 \<equiv> snd (commitDelta (Some r) cl al True c1)"
  assumes delta: "fst (commitDelta (Some r) cl al True c1) = Inr True"
  shows "foldl (host_frame dv dd mrg) h (new_frames c1 c2)
    = h\<lparr>ho_rejects := ho_rejects h @ [(ho_epoch h, c_rev c + 2, BaseMismatch)]\<rparr>"
proof -
  note s = syn [unfolded synced_def] and k = ok [unfolded committable_def prod.case]
  have c1: "c1 = c\<lparr>c_rev := c_rev c + 1\<rparr>"
    using s by (auto simp: c1_def commit_def Let_def write_frame_def split: option.splits)
  have two: "c_rev c1 + 1 = c_rev c + 2" by (simp add: c1)
  have len: "length (view_bytes (c_epoch c1) (c_rev c1 + 1) (r, cl, al)) < MAX_MESSAGE_BYTES"
    and hello: "c_hello c1 \<noteq> None"
    using k s unfolding two by (simp_all add: c1)
  show ?thesis
  proof (rule commitDelta_frame [OF hello len])
    assume "snd (commitDelta (Some r) cl al True c1) = c1\<lparr>c_rev := c_rev c1 + 1,
        c_out := c_out c1 @ [(VIEW, view_bytes (c_epoch c1) (c_rev c1 + 1) (r, cl, al))], c_base := Some r, c_baseRev := c_rev c1 + 1\<rparr>"
    with commitDelta_delta [OF delta] show ?thesis by (auto simp: frame_types)
  next
    fix b' ps
    assume b: "c_base c1 = Some b'" "diffView b' r = Some ps"
      and small: "length (encodeViewDelta (c_epoch c1) (c_rev c1 + 1) (c_rev c1) cl al ps) < length (view_bytes (c_epoch c1) (c_rev c1 + 1) (r, cl, al))"
      and c2: "snd (commitDelta (Some r) cl al True c1) = c1\<lparr>c_rev := c_rev c1 + 1,
        c_out := c_out c1 @ [(VIEW_DELTA, encodeViewDelta (c_epoch c1) (c_rev c1 + 1) (c_rev c1) cl al ps)],
        c_base := Some r, c_baseRev := c_rev c1 + 1\<rparr>"
    have "fits b'" using s b(1) by (simp add: c1)
    then have ps: "list_all patch_ok ps" using diffView_ok [OF b(2)] committable_fits [OF ok] k by simp
    have "safe_nat (c_rev c1)" "safe_nat (c_rev c1 + 1)" "safe_nat (c_epoch c1)"
      using s k by (auto simp: c1 safe_nat_def add.commute)
    moreover have "length (encodeViewDelta (c_epoch c1) (c_rev c1 + 1) (c_rev c1) cl al ps) < 2 ^ 53"
      using small k unfolding two by (simp add: c1)
    ultimately have "dd (encodeViewDelta (c_epoch c1) (c_rev c1 + 1) (c_rev c1) cl al ps) = Some \<lparr>dd_epoch = c_epoch c1,
        dd_rev = c_rev c1 + 1, dd_rev_base = c_rev c1, dd_keys = sent_keys cl al, dd_patches = map sent ps\<rparr>"
      using k ps by (intro dd_delta) simp_all
    moreover have "ho_view h = Some (Some (norm b'))" using s b(1) by (simp add: c1)
    ultimately show ?thesis
      using s fresh unfolding c2_def c2 new_frames_def
      by (auto simp: host_frame_def HandleViewDelta_def rejectViewLocked_def frame_types c1 add.commute)
  qed
qed

text \<open>A delta that is sent is applied to the tree of the base, and its result becomes the host's view.\<close>

lemma delta_handled:
  fixes c :: "'cb client"
  assumes syn: "synced h c" and ok: "committable (ho_max h) (c_epoch c) (c_rev c + 1) (r, cl, al)"
    and delta: "fst (commitDelta (Some r) cl al True c) = Inr True"
    and b: "c_base c = Some b" and ps: "diffView b r = Some ps" "list_all (\<lambda>p. pt_op p = OP_SET) ps"
  shows "snd (commit_step dv dd mrg (c, h) (r, cl, al)) =
    (case applyPatches mrg (norm b) (map sent ps) of
       Inl why \<Rightarrow> rejectViewLocked (c_rev c + 1) why h
     | Inr root \<Rightarrow> h\<lparr>ho_rev := c_rev c + 1, ho_view := Some (Some root)\<rparr>)"
proof -
  note s = syn [unfolded synced_def] and k = ok [unfolded committable_def prod.case]
  have len: "length (view_bytes (c_epoch c) (c_rev c + 1) (r, cl, al)) < MAX_MESSAGE_BYTES" and hello: "c_hello c \<noteq> None"
    using k s by simp_all
  show ?thesis
  proof (rule commitDelta_frame [OF hello len])
    assume "snd (commitDelta (Some r) cl al True c) = c\<lparr>c_rev := c_rev c + 1,
        c_out := c_out c @ [(VIEW, view_bytes (c_epoch c) (c_rev c + 1) (r, cl, al))], c_base := Some r, c_baseRev := c_rev c + 1\<rparr>"
    with commitDelta_delta [OF delta] show ?thesis by (auto simp: frame_types)
  next
    fix b' ps'
    assume b': "c_base c = Some b'" "diffView b' r = Some ps'"
      and small: "length (encodeViewDelta (c_epoch c) (c_rev c + 1) (c_rev c) cl al ps') < length (view_bytes (c_epoch c) (c_rev c + 1) (r, cl, al))"
      and c': "snd (commitDelta (Some r) cl al True c) = c\<lparr>c_rev := c_rev c + 1,
        c_out := c_out c @ [(VIEW_DELTA, encodeViewDelta (c_epoch c) (c_rev c + 1) (c_rev c) cl al ps')],
        c_base := Some r, c_baseRev := c_rev c + 1\<rparr>"
    have eq: "b' = b" "ps' = ps" using b' b ps(1) by simp_all
    have base: "fits b" "ho_view h = Some (Some (norm b))" using s b by simp_all
    have "dd (encodeViewDelta (c_epoch c) (c_rev c + 1) (c_rev c) cl al ps) = Some \<lparr>dd_epoch = c_epoch c,
        dd_rev = c_rev c + 1, dd_rev_base = c_rev c, dd_keys = sent_keys cl al, dd_patches = map sent ps\<rparr>"
      using s k small [unfolded eq] diffView_ok [OF ps(1) base(1) committable_fits [OF ok]] by (intro dd_delta) simp_all
    moreover have "\<not> patchesCanGrow (map sent ps)"
      using ps(2) by (auto simp: patchesCanGrow_def list_all_iff list_ex_iff sent_def Let_def op_defs)
    ultimately show ?thesis
      using s base(2) unfolding commit_step_def Let_def prod.case c' new_frames_def eq
      by (auto simp: host_frame_def HandleViewDelta_def applyToRoot_def frame_types split: sum.splits)
  qed
qed

end

interpretation vh: view_host "\<lambda>b. succeeded (view_of_bytes b)" "\<lambda>b. succeeded (decodeViewDelta b)" proto3_merge ..

section \<open>Properties\<close>

text \<open>
  C1: client and host stay in step over commits within what the wire and the deltas can express.
  Take any sequence of views committed after HELLO such that each holds Unicode strings, numbers from
  0 to 2^31-1 and no property \<open>__proto__\<close>, contains no empty box, stays below the frame limit and the
  host's limit on boxes, and differs from the one before by a change that a proto3 merge expresses
  where \<open>diffView\<close> returns patches (\<open>delta_safe\<close>: ids unchanged at patched nodes, nothing cleared, no
  content with lines sent again); \<open>commitDelta\<close> itself checks none of this but the frame limit. Then
  the host ends with the tree of the last view, at the client's revision, and rejects nothing,
  whichever of the commits go out as deltas and whichever protobuf decoder and merge the host uses.
\<close>

theorem commits_reach_host:
  assumes "view_host dv dd mrg" and "ho_epoch h = hello_epoch hl" and "ho_rev h = 0" and "safe_nat (hello_epoch hl)"
    and "commits_ok (ho_max h) (hello_epoch hl) 0 None vs" and "vs \<noteq> []"
  shows "case foldl (commit_step dv dd mrg) (dispatchHello hl c, h) vs of (c', h') \<Rightarrow>
    ho_view h' = Some (Some (norm (fst (last vs)))) \<and> ho_rev h' = int (length vs) \<and> c_rev c' = int (length vs) \<and>
    ho_rejects h' = ho_rejects h"
proof -
  have start: "synced h (dispatchHello hl c)"
    using assms(2-4) by (simp add: synced_def dispatchHello_def dropBase_def Let_def safe_nat_def)
  have "commits_ok (ho_max h) (c_epoch (dispatchHello hl c)) (c_rev (dispatchHello hl c)) (c_base (dispatchHello hl c)) vs"
    using assms(5) by (simp add: dispatchHello_def dropBase_def Let_def)
  note sync = view_host.synced_commits [OF assms(1) start this]
  obtain c' h' where end_state: "foldl (commit_step dv dd mrg) (dispatchHello hl c, h) vs = (c', h')" by fastforce
  have "c_rev (dispatchHello hl c) = 0" by (simp add: dispatchHello_def dropBase_def Let_def)
  with sync assms(6) show ?thesis unfolding end_state prod.case by (auto dest: synced_view)
qed

definition idle_host :: host where
  "idle_host = \<lparr>ho_epoch = 1, ho_rev = 0, ho_view = None, ho_max = 100, ho_rejects = []\<rparr>"

lemma edit_commits: "commits_ok 100 1 0 None [(before_edit, None, None), (after_edit, None, None)]"
proof -
  have "box_ok before_edit"
    by (simp add: edit_eval attrs_ok_def ostr_ok_def opt_list_def content_ok_def valid_ustr_def is_scalar_def)
  moreover have "solid before_edit" "solid after_edit" using edit_facts(3,4) by (simp_all add: fits_def)
  moreover have "encodeBox before_edit \<noteq> []" "encodeBox after_edit \<noteq> []"
    by (simp_all add: edit_bytes)
  moreover have "count_boxes (norm before_edit) \<le> 100" "count_boxes (norm after_edit) \<le> 100"
    unfolding before_edit_def after_edit_def by (simp_all add: leaf_bytes, simp_all add: leaf_def)
  moreover have "length (view_bytes 1 1 (before_edit, None, None)) < MAX_MESSAGE_BYTES"
    "length (view_bytes 1 2 (after_edit, None, None)) < MAX_MESSAGE_BYTES"
    by (simp_all add: view_bytes_def encodeView_def edit_bytes opt_list_def wire_eval)
  ultimately show ?thesis
    using edit_facts(2,5) by (simp add: committable_def opt_list_def safe_nat_def)
qed

theorem commits_reach_host_witness:
  "case foldl (commit_step (\<lambda>b. succeeded (view_of_bytes b)) (\<lambda>b. succeeded (decodeViewDelta b)) proto3_merge)
      (dispatchHello plain_hello (new_client :: unit client), idle_host) [(before_edit, None, None), (after_edit, None, None)]
   of (c', h') \<Rightarrow> ho_view h' = Some (Some (norm after_edit)) \<and> ho_rev h' = 2 \<and> c_rev c' = 2 \<and> ho_rejects h' = []"
  using commits_reach_host [OF vh.view_host_axioms, of idle_host plain_hello
      "[(before_edit, None, None), (after_edit, None, None)]" "new_client :: unit client"] edit_commits
  by (simp add: idle_host_def plain_hello_def safe_nat_def del: commits_ok.simps)

text \<open>
  C7: recovery from a rejected view. When the host has rejected a revision, its \<open>view_rejected\<close>
  event makes the client drop its base; the next \<open>commitDelta\<close> then sends a full view, which the
  host takes although it missed revisions, and both are in step again.
\<close>

theorem rejection_recovers:
  assumes "view_host dv dd mrg" and "is_rejection e" and "c_hello c \<noteq> None" and "safe_nat (c_epoch c)"
    and "ho_epoch h = c_epoch c" and "ho_rev h \<le> c_rev c"
    and "committable (ho_max h) (c_epoch c) (c_rev c + 1) (r, cl, al)"
  shows "case commit_step dv dd mrg (dispatchEvent e c, h) (r, cl, al) of (c', h') \<Rightarrow>
    synced h' c' \<and> ho_view h' = Some (Some (norm r))"
proof -
  let ?c = "dispatchEvent e c"
  let ?c' = "snd (commitDelta (Some r) cl al True ?c)"
  have d: "c_hello ?c = c_hello c" "c_base ?c = None" "c_epoch ?c = c_epoch c" "c_rev ?c = c_rev c"
    using assms(2) by (simp_all add: dispatchEvent_def dropBase_def Let_def)
  have "synced (foldl (host_frame dv dd mrg) h (new_frames ?c ?c')) ?c'"
    using assms(3-7) d by (intro view_host.full_view_resyncs [OF assms(1)]) simp_all
  moreover have "c_base ?c' = Some r"
    using assms(3,7) d by (intro commitDelta_base) (simp_all add: committable_def)
  ultimately show ?thesis by (simp add: commit_step_def Let_def synced_def)
qed

theorem rejection_recovers_witness:
  "case commit_step (\<lambda>b. succeeded (view_of_bytes b)) (\<lambda>b. succeeded (decodeViewDelta b)) proto3_merge
      (dispatchEvent (ViewRejectedEvent 1 1 []) (dispatchHello plain_hello (new_client :: unit client)), idle_host)
      (before_edit, None, None) of (c', h') \<Rightarrow> synced h' c' \<and> ho_view h' = Some (Some (norm before_edit))"
  using edit_commits
  by (intro rejection_recovers [OF vh.view_host_axioms])
    (simp_all add: is_rejection_def dispatchHello_def dropBase_def plain_hello_def idle_host_def safe_nat_def
      new_client_def Let_def)

text \<open>
  C36: changes that \<open>mergeRepresentable\<close> and \<open>BOX_FIELDS\<close> let through and a proto3 merge does not
  express. Client and host are in step, the program commits a view that the wire carries without
  loss and whose root has the same children as before, and \<open>commitDelta\<close> reports that it went out as a
  delta, its cost guard passed. If only the cursor of the root changed, and it moved to column 0, the
  host keeps the old column. If only the text of its content changed, to a non-empty one, the host
  holds every line of the content twice. If its id and its flow changed, the host takes the flow and
  keeps the old id. In these cases the host counts the revision as shown. If only its style was
  removed, the host rejects the delta as \<open>path_invalid\<close>.
\<close>

theorem deltas_not_representable:
  assumes "view_host dv dd mrg" and "synced h c" and "c_base c = Some (Box ks a cs)"
    and "committable (ho_max h) (c_epoch c) (c_rev c + 1) (Box ks' a' cs, cl, al)"
    and "fst (commitDelta (Some (Box ks' a' cs)) cl al True c) = Inr True"
    and "h' = snd (commit_step dv dd mrg (c, h) (Box ks' a' cs, cl, al))"
  shows
    "(\<forall>x y. box_cursor a = Some x \<and> cur_col x \<noteq> 0 \<and> cur_col y = 0 \<and> a' = a\<lparr>box_cursor := Some y\<rparr> \<longrightarrow>
       (\<exists>b. h' = h\<lparr>ho_rev := c_rev c + 1, ho_view := Some (Some b)\<rparr> \<and> map_option dc_col (d_cursor (dattrs b)) = Some (cur_col x))) \<and>
     (\<forall>x t. box_content a = Some x \<and> con_text x \<noteq> Some t \<and> t \<noteq> [] \<and> a' = a\<lparr>box_content := Some (x\<lparr>con_text := Some t\<rparr>)\<rparr> \<longrightarrow>
       (\<exists>b d. h' = h\<lparr>ho_rev := c_rev c + 1, ho_view := Some (Some b)\<rparr> \<and> d_content (dattrs b) = Some d \<and> dt_text d = t \<and>
         dt_lines d = dt_lines (normContent x) @ dt_lines (normContent x))) \<and>
     (\<forall>j g. box_flow a \<noteq> Some g \<and> g \<noteq> [] \<and> a' = a\<lparr>box_id := Some j, box_flow := Some g\<rparr> \<longrightarrow>
       (\<exists>b. h' = h\<lparr>ho_rev := c_rev c + 1, ho_view := Some (Some b)\<rparr> \<and> d_flow (dattrs b) = g \<and> d_id (dattrs b) = opt_str (box_id a))) \<and>
     (box_style a \<noteq> None \<and> a' = a\<lparr>box_style := None\<rparr> \<longrightarrow> h' = rejectViewLocked (c_rev c + 1) PathInvalid h)"
proof -
  have pm: "proto_merge mrg" using assms(1) by (simp add: view_host_def)
  note handled = view_host.delta_handled [OF assms(1,2,4,5,3), folded assms(6)]
  show ?thesis
  proof (intro conjI allI impI; elim conjE)
    fix x y
    assume "box_cursor a = Some x" "cur_col x \<noteq> 0" "cur_col y = 0" "a' = a\<lparr>box_cursor := Some y\<rparr>"
    with proto_merge.cursor_column_kept [OF pm, of a x y ks cs ks'] handled
    show "\<exists>b. h' = h\<lparr>ho_rev := c_rev c + 1, ho_view := Some (Some b)\<rparr> \<and> map_option dc_col (d_cursor (dattrs b)) = Some (cur_col x)"
      by fastforce
  next
    fix x t
    assume "box_content a = Some x" "con_text x \<noteq> Some t" "t \<noteq> []" "a' = a\<lparr>box_content := Some (x\<lparr>con_text := Some t\<rparr>)\<rparr>"
    with proto_merge.content_lines_doubled [OF pm, of a x t ks cs ks'] handled
    show "\<exists>b d. h' = h\<lparr>ho_rev := c_rev c + 1, ho_view := Some (Some b)\<rparr> \<and> d_content (dattrs b) = Some d \<and> dt_text d = t \<and>
        dt_lines d = dt_lines (normContent x) @ dt_lines (normContent x)"
      by fastforce
  next
    fix j g
    assume "box_flow a \<noteq> Some g" "g \<noteq> []" "a' = a\<lparr>box_id := Some j, box_flow := Some g\<rparr>"
    with proto_merge.old_id_kept [OF pm, of a g ks cs ks' j] handled
    show "\<exists>b. h' = h\<lparr>ho_rev := c_rev c + 1, ho_view := Some (Some b)\<rparr> \<and> d_flow (dattrs b) = g \<and> d_id (dattrs b) = opt_str (box_id a)"
      by fastforce
  next
    assume "box_style a \<noteq> None" "a' = a\<lparr>box_style := None\<rparr>"
    with removed_style_invalid [of a ks cs ks' mrg] handled show "h' = rejectViewLocked (c_rev c + 1) PathInvalid h" by fastforce
  qed
qed

definition lossy_attrs :: attrs where
  "lossy_attrs = no_attrs\<lparr>box_id := Some [97], box_flow := Some [97], box_style := Some [97],
     box_cursor := Some \<lparr>cur_keys = [''row'', ''col''], cur_row = 3, cur_col = 7, cur_shape = None, cur_visible = None\<rparr>,
     box_content := Some \<lparr>con_keys = [''text'', ''lines''], con_text = Some [97], con_lines = Some [[99]], con_self = None, con_props = None\<rparr>\<rparr>"

definition lossy_cursor :: cursor where
  "lossy_cursor = \<lparr>cur_keys = [''row'', ''col''], cur_row = 3, cur_col = 0, cur_shape = None, cur_visible = None\<rparr>"

definition lossy_content :: content where
  "lossy_content = \<lparr>con_keys = [''text'', ''lines''], con_text = Some [97], con_lines = Some [[99]], con_self = None, con_props = None\<rparr>"

definition lossy_changes :: "(bfield \<times> attrs) list" where
  "lossy_changes = [(FCursor, lossy_attrs\<lparr>box_cursor := Some lossy_cursor\<rparr>),
     (FContent, lossy_attrs\<lparr>box_content := Some (lossy_content\<lparr>con_text := Some [98]\<rparr>)\<rparr>),
     (FFlow, lossy_attrs\<lparr>box_id := Some [98], box_flow := Some [98]\<rparr>), (FStyle, lossy_attrs\<lparr>box_style := None\<rparr>)]"

definition lossy_client :: "unit client" where
  "lossy_client = (dispatchHello plain_hello new_client)\<lparr>c_rev := 1, c_base := Some (Box [] lossy_attrs []), c_baseRev := 1\<rparr>"

definition lossy_host :: host where
  "lossy_host = idle_host\<lparr>ho_rev := 1, ho_view := Some (Some (norm (Box [] lossy_attrs [])))\<rparr>"

lemmas lossy_eval = lossy_attrs_def lossy_cursor_def lossy_content_def no_attrs_def

lemma lossy_synced: "synced lossy_host lossy_client"
proof -
  have "length (encodeBox (Box [] lossy_attrs [])) < 2 ^ 32"
    by (simp add: lossy_eval encodeBox.simps encodeCursor_def encodeContent_def opt_list_def wire_eval)
  then show ?thesis
    by (simp add: synced_def lossy_host_def lossy_client_def idle_host_def dispatchHello_def dropBase_def plain_hello_def
        safe_nat_def fits_def Let_def)
qed

lemma lossy_boxes:
  "length (encodeBox (Box [] (lossy_attrs\<lparr>box_cursor := Some lossy_cursor\<rparr>) [])) = 23"
  "length (encodeBox (Box [] (lossy_attrs\<lparr>box_content := Some (lossy_content\<lparr>con_text := Some [98]\<rparr>)\<rparr>) [])) = 23"
  "length (encodeBox (Box [] (lossy_attrs\<lparr>box_id := Some [98], box_flow := Some [98]\<rparr>) [])) = 23"
  "length (encodeBox (Box [] (lossy_attrs\<lparr>box_style := None\<rparr>) [])) = 20"
  by (simp_all add: lossy_eval encodeBox.simps encodeCursor_def encodeContent_def opt_list_def wire_eval)

lemma lossy_fields:
  "length (encodeBox (Box [''cursor''] (single_attr FCursor (lossy_attrs\<lparr>box_cursor := Some lossy_cursor\<rparr>)) [])) = 6"
  "length (encodeBox (Box [''content''] (single_attr FContent (lossy_attrs\<lparr>box_content := Some (lossy_content\<lparr>con_text := Some [98]\<rparr>)\<rparr>)) [])) = 8"
  "length (encodeBox (Box [''flow''] (single_attr FFlow (lossy_attrs\<lparr>box_id := Some [98], box_flow := Some [98]\<rparr>)) [])) = 3"
  "length (encodeBox (Box [''style''] (single_attr FStyle (lossy_attrs\<lparr>box_style := None\<rparr>)) [])) = 0"
  by (simp_all add: single_attr.simps lossy_eval encodeBox.simps encodeCursor_def encodeContent_def opt_list_def wire_eval)

lemma short_uvarint: "0 \<le> n \<Longrightarrow> n < 128 \<Longrightarrow> length (uvarint n) = 1"
  by (simp add: uvarint_def u64_def uvarint_loop_unfold)

lemma short_fieldMsg:
  assumes "f < 16" and "length m < 128"
  shows "length (fieldMsg f (Some m)) = (if m = [] then 0 else length m + 2)"
proof -
  have "push_bit 3 f OR WIRE_LEN = f * 8 + 2"
    using or_push_bit [of 2 3 f] by (simp add: push_bit_eq_mult or.commute)
  with assms show ?thesis by (simp add: fieldMsg_def fieldBytes_def short_uvarint)
qed

lemma lossy_delta:
  assumes "length (encodeBox (Box [field_name f] (single_attr f a') [])) \<le> 8"
  shows "length (encodeViewDelta 1 2 1 None None [set_patch [] f a']) \<le> 23"
proof -
  have "length (fieldString 1 (Some OP_SET)) = 5" by (simp add: op_defs wire_eval)
  then have "length (encodePatch (set_patch [] f a')) \<le> 15"
    using assms by (simp add: encodePatch_def set_patch_def short_fieldMsg fieldVarint_def)
  then show ?thesis by (simp add: encodeViewDelta_def short_fieldMsg fieldVarint_def short_uvarint push_bit_eq_mult)
qed

lemma lossy_view:
  assumes "20 \<le> length (encodeBox b)" and "length (encodeBox b) < 100"
  shows "length (view_bytes 1 2 (b, None, None)) = length (encodeBox b) + 10"
proof -
  have "length (fieldBool 2 (Some False)) = 2" by (simp add: wire_eval)
  then show ?thesis using assms
    by (auto simp add: view_bytes_def encodeView_def short_fieldMsg fieldVarint_def short_uvarint push_bit_eq_mult opt_list_def)
qed

lemma lossy_sent:
  assumes "length (encodeBox (Box [field_name f] (single_attr f a') [])) \<le> 8"
    and "20 \<le> length (encodeBox (Box [] a' []))" and "length (encodeBox (Box [] a' [])) < 100"
    and "changed_fields lossy_attrs a' = [f]" and "mergeRepresentable (field_value f lossy_attrs) (field_value f a')" and "attrs_ok a'"
  shows "committable (ho_max lossy_host) (c_epoch lossy_client) (c_rev lossy_client + 1) (Box [] a' [], None, None)"
    and "fst (commitDelta (Some (Box [] a' [])) None None True lossy_client) = Inr True"
proof -
  note v = lossy_view [OF assms(2,3)] and d = lossy_delta [OF assms(1)]
  have ne: "encodeBox (Box [] a' []) \<noteq> []" using assms(2) by auto
  show "committable (ho_max lossy_host) (c_epoch lossy_client) (c_rev lossy_client + 1) (Box [] a' [], None, None)"
    using v assms(3,6) ne
    by (simp add: committable_def lossy_host_def lossy_client_def idle_host_def dispatchHello_def dropBase_def plain_hello_def
        safe_nat_def opt_list_def Let_def)
  have "delta_payload lossy_client (Box [] a' []) None None = Some (encodeViewDelta 1 2 1 None None [set_patch [] f a'])"
    using diffView_one_field [OF assms(4,5)]
    by (simp add: delta_payload_def supports_def lossy_client_def dispatchHello_def dropBase_def plain_hello_def Let_def)
  then show "fst (commitDelta (Some (Box [] a' [])) None None True lossy_client) = Inr True"
    using v d assms(2,3)
    by (auto simp: commitDelta_def chosen_frame_def write_frame_def frame_def Let_def view_bytes_def lossy_client_def
        dispatchHello_def dropBase_def plain_hello_def)
qed

lemma lossy_changed:
  "list_all (\<lambda>(f, a'). changed_fields lossy_attrs a' = [f] \<and> mergeRepresentable (field_value f lossy_attrs) (field_value f a') \<and>
     attrs_ok a') lossy_changes"
  by (simp add: lossy_changes_def lossy_eval changed_fields_def BOX_FIELDS_def jsonEqual_def jopt_def content_representable_def
      nonempty_def opt_str_def opt_list_def attrs_ok_def ostr_ok_def cursor_ok_def content_ok_def small_nat32_def valid_ustr_def is_scalar_def)

lemma lossy_committed:
  assumes "(f, a') \<in> set lossy_changes"
  shows "committable (ho_max lossy_host) (c_epoch lossy_client) (c_rev lossy_client + 1) (Box [] a' [], None, None)"
    and "fst (commitDelta (Some (Box [] a' [])) None None True lossy_client) = Inr True"
proof -
  have "length (encodeBox (Box [field_name f] (single_attr f a') [])) \<le> 8 \<and>
      20 \<le> length (encodeBox (Box [] a' [])) \<and> length (encodeBox (Box [] a' [])) < 100"
    using assms unfolding lossy_changes_def set_simps insert_iff empty_iff prod.inject
    by (elim disjE conjE FalseE; hypsubst) (simp_all only: field_name.simps lossy_boxes lossy_fields, simp_all)
  moreover have "changed_fields lossy_attrs a' = [f]" "mergeRepresentable (field_value f lossy_attrs) (field_value f a')" "attrs_ok a'"
    using lossy_changed assms by (auto simp: list_all_iff)
  ultimately show "committable (ho_max lossy_host) (c_epoch lossy_client) (c_rev lossy_client + 1) (Box [] a' [], None, None)"
    and "fst (commitDelta (Some (Box [] a' [])) None None True lossy_client) = Inr True"
    using lossy_sent by blast+
qed

definition lossy_result :: "attrs \<Rightarrow> host" where
  "lossy_result a' = snd (commit_step (\<lambda>b. succeeded (view_of_bytes b)) (\<lambda>b. succeeded (decodeViewDelta b)) proto3_merge
     (lossy_client, lossy_host) (Box [] a' [], None, None))"

theorem deltas_not_representable_witness:
  "(\<exists>b. ho_view (lossy_result (lossy_attrs\<lparr>box_cursor := Some lossy_cursor\<rparr>)) = Some (Some b) \<and>
      map_option dc_col (d_cursor (dattrs b)) = Some 7) \<and>
   (\<exists>b d. ho_view (lossy_result (lossy_attrs\<lparr>box_content := Some (lossy_content\<lparr>con_text := Some [98]\<rparr>)\<rparr>)) = Some (Some b) \<and>
      d_content (dattrs b) = Some d \<and> dt_lines d = [[99], [99]]) \<and>
   (\<exists>b. ho_view (lossy_result (lossy_attrs\<lparr>box_id := Some [98], box_flow := Some [98]\<rparr>)) = Some (Some b) \<and>
      d_flow (dattrs b) = [98] \<and> d_id (dattrs b) = [97]) \<and>
   ho_rejects (lossy_result (lossy_attrs\<lparr>box_style := None\<rparr>)) = [(1, 2, PathInvalid)]"
proof -
  have base: "c_base lossy_client = Some (Box [] lossy_attrs [])" "c_rev lossy_client = 1" by (simp_all add: lossy_client_def)
  have host: "ho_rejects lossy_host = []" "ho_epoch lossy_host = 1" by (simp_all add: lossy_host_def idle_host_def)
  have a: "box_cursor lossy_attrs = Some (lossy_cursor\<lparr>cur_col := 7\<rparr>)" "box_content lossy_attrs = Some lossy_content"
    "box_flow lossy_attrs = Some [97]" "box_id lossy_attrs = Some [97]" "box_style lossy_attrs = Some [97]"
    by (simp_all add: lossy_eval)
  note lost = deltas_not_representable [OF vh.view_host_axioms lossy_synced base(1) lossy_committed lossy_result_def]
  have 1: "(FCursor, lossy_attrs\<lparr>box_cursor := Some lossy_cursor\<rparr>) \<in> set lossy_changes"
    "(FContent, lossy_attrs\<lparr>box_content := Some (lossy_content\<lparr>con_text := Some [98]\<rparr>)\<rparr>) \<in> set lossy_changes"
    "(FFlow, lossy_attrs\<lparr>box_id := Some [98], box_flow := Some [98]\<rparr>) \<in> set lossy_changes"
    "(FStyle, lossy_attrs\<lparr>box_style := None\<rparr>) \<in> set lossy_changes"
    by (simp_all add: lossy_changes_def)
  have c: "cur_col lossy_cursor = 0" "con_text lossy_content = Some [97]" "dt_lines (normContent lossy_content) = [[99]]"
    by (simp_all add: lossy_eval normContent_def opt_list_def)
  show ?thesis
  proof (intro conjI)
    show "\<exists>b. ho_view (lossy_result (lossy_attrs\<lparr>box_cursor := Some lossy_cursor\<rparr>)) = Some (Some b) \<and>
        map_option dc_col (d_cursor (dattrs b)) = Some 7"
      using conjunct1 [OF lost [OF 1(1) 1(1)], rule_format, of "lossy_cursor\<lparr>cur_col := 7\<rparr>" lossy_cursor] a(1) c(1) by auto
    show "\<exists>b d. ho_view (lossy_result (lossy_attrs\<lparr>box_content := Some (lossy_content\<lparr>con_text := Some [98]\<rparr>)\<rparr>)) = Some (Some b) \<and>
        d_content (dattrs b) = Some d \<and> dt_lines d = [[99], [99]]"
      using conjunct1 [OF conjunct2 [OF lost [OF 1(2) 1(2)]], rule_format, of lossy_content "[98]"] a(2) c(2,3) by auto
    show "\<exists>b. ho_view (lossy_result (lossy_attrs\<lparr>box_id := Some [98], box_flow := Some [98]\<rparr>)) = Some (Some b) \<and>
        d_flow (dattrs b) = [98] \<and> d_id (dattrs b) = [97]"
      using conjunct1 [OF conjunct2 [OF conjunct2 [OF lost [OF 1(3) 1(3)]]], rule_format, of "[98]" "[98]"] a(3,4)
      by (auto simp: opt_str_def)
    show "ho_rejects (lossy_result (lossy_attrs\<lparr>box_style := None\<rparr>)) = [(1, 2, PathInvalid)]"
      using conjunct2 [OF conjunct2 [OF conjunct2 [OF lost [OF 1(4) 1(4)]]]] a(5) host base(2) by (simp add: rejectViewLocked_def)
  qed
qed

text \<open>
  C38: a commit whose write throws still counts as a revision. After it the client's base is still the
  tree the host holds, with its revision, but \<open>rev\<close> is one ahead, and the next delta names that lost
  revision as its base (\<open>commitDelta\<close> takes \<open>rev\<close>, not \<open>baseRev\<close>). So if the next commit goes out as a
  delta, the host rejects it with \<open>base_mismatch\<close> and its view and revision stay as they were, while
  the client has the new tree as its base.
\<close>

theorem failed_write_breaks_next_delta:
  assumes "view_host dv dd mrg" and "synced h c"
    and "committable (ho_max h) (c_epoch c) (c_rev c + 2) (r, cl, al)"
    and "\<And>why. (ho_epoch h, c_rev c + 2, why) \<notin> set (ho_rejects h)"
    and "c1 = snd (commit (Some r1) cl1 al1 False c)" and "fst (commitDelta (Some r) cl al True c1) = Inr True"
    and "c2 = snd (commitDelta (Some r) cl al True c1)"
  shows "(\<exists>b. c_base c1 = Some b \<and> ho_view h = Some (Some (norm b))) \<and> c_baseRev c1 = c_baseRev c \<and>
    c_rev c1 = ho_rev h + 1 \<and> c_out c1 = c_out c \<and>
    foldl (host_frame dv dd mrg) h (new_frames c1 c2) = h\<lparr>ho_rejects := ho_rejects h @ [(ho_epoch h, c_rev c + 2, BaseMismatch)]\<rparr> \<and>
    c_base c2 = Some r"
proof -
  note s = assms(2) [unfolded synced_def]
  have c1: "c1 = c\<lparr>c_rev := c_rev c + 1\<rparr>"
    using s unfolding assms(5) by (auto simp: commit_def Let_def write_frame_def split: option.splits)
  have "c_base c1 \<noteq> None"
    using assms(6) commitDelta_needs_base by blast
  then obtain b where "c_base c = Some b" by (auto simp: c1)
  moreover have "c_base c2 = Some r" unfolding assms(7)
    using assms(3) s by (intro commitDelta_base) (auto simp: c1 committable_def add.commute)
  moreover have "foldl (host_frame dv dd mrg) h (new_frames c1 c2) = h\<lparr>ho_rejects := ho_rejects h @ [(ho_epoch h, c_rev c + 2, BaseMismatch)]\<rparr>"
    using view_host.delta_after_failed_write [OF assms(1-4) assms(6) [unfolded assms(5)]] unfolding assms(7,5) .
  ultimately show ?thesis using s by (simp add: c1)
qed

definition editing_client :: "unit client" where
  "editing_client = (dispatchHello plain_hello new_client)\<lparr>c_rev := 1, c_base := Some before_edit, c_baseRev := 1\<rparr>"

definition editing_host :: host where
  "editing_host = idle_host\<lparr>ho_rev := 1, ho_view := Some (Some (norm before_edit))\<rparr>"

lemma editing_synced: "synced editing_host editing_client"
  using edit_facts(3)
  by (simp add: synced_def editing_host_def editing_client_def idle_host_def dispatchHello_def dropBase_def
      plain_hello_def safe_nat_def Let_def)

lemma after_edit_view: "length (view_bytes 1 3 (after_edit, None, None)) = 24"
  by (simp add: view_bytes_def encodeView_def edit_bytes opt_list_def wire_eval)

lemma editing_failed: "snd (commit (Some after_edit) None None False editing_client) = editing_client\<lparr>c_rev := 2\<rparr>"
  by (simp add: commit_def editing_client_def dispatchHello_def dropBase_def write_frame_def Let_def split: option.split)

lemma editing_delta:
  "fst (commitDelta (Some after_edit) None None True (editing_client\<lparr>c_rev := 2\<rparr>)) = Inr True"
proof -
  let ?d = "encodeViewDelta 1 3 2 None None [set_patch [1] FContent (attrs (leaf ''c''))]"
  have d: "length ?d = 22"
    by (simp add: encodeViewDelta_def edit_patch_bytes [unfolded One_nat_def] wire_eval)
  have "delta_payload (editing_client\<lparr>c_rev := 2\<rparr>) after_edit None None = Some ?d"
    using edit_facts(1)
    by (simp add: delta_payload_def supports_def editing_client_def dispatchHello_def dropBase_def plain_hello_def Let_def)
  then show ?thesis
    using d after_edit_view
    by (simp add: commitDelta_def chosen_frame_def write_frame_def frame_def Let_def view_bytes_def editing_client_def
        dispatchHello_def dropBase_def plain_hello_def)
qed

theorem failed_write_breaks_next_delta_witness:
  "ho_view editing_host = Some (Some (norm before_edit)) \<and> c_base (editing_client\<lparr>c_rev := 2\<rparr>) = Some before_edit \<and>
   foldl (host_frame (\<lambda>b. succeeded (view_of_bytes b)) (\<lambda>b. succeeded (decodeViewDelta b)) proto3_merge) editing_host
      (new_frames (editing_client\<lparr>c_rev := 2\<rparr>) (snd (commitDelta (Some after_edit) None None True (editing_client\<lparr>c_rev := 2\<rparr>))))
    = editing_host\<lparr>ho_rejects := [(1, 3, BaseMismatch)]\<rparr>"
proof -
  have "committable (ho_max editing_host) (c_epoch editing_client) (c_rev editing_client + 2) (after_edit, None, None)"
    using edit_commits after_edit_view
    by (simp add: committable_def editing_host_def editing_client_def idle_host_def dispatchHello_def dropBase_def
        plain_hello_def safe_nat_def Let_def)
  from failed_write_breaks_next_delta [OF vh.view_host_axioms editing_synced this _ editing_failed [symmetric] editing_delta refl]
  show ?thesis
    by (simp add: editing_host_def idle_host_def editing_client_def dispatchHello_def dropBase_def Let_def)
qed

end
