(* ===== verification/Builder.thy ===== *)
theory Builder
  imports BoxTree "HOL-Library.Sublist"
begin

text \<open>
  The view builder and the text metrics of \<open>clients/tui/sdk/ts/src/builder.js\<close>. A \<open>Node\<close> is the box
  it collects: each chained method is a function on boxes that assigns one property, and keeps
  the order in which the properties were first assigned. \<open>build\<close> copies the box, so that a node
  used as a child is not changed by later calls on it; values are immutable here anyway.
\<close>

section \<open>Nodes\<close>

definition add_key :: "string \<Rightarrow> string list \<Rightarrow> string list" where
  "add_key k ks = (if k \<in> set ks then ks else ks @ [k])"

fun assign :: "string \<Rightarrow> (attrs \<Rightarrow> attrs) \<Rightarrow> box \<Rightarrow> box" where
  "assign k f (Box ks a cs) = Box (add_key k ks) (f a) cs"

definition empty_node :: box where
  "empty_node = Box [] no_attrs []"

definition n_flow :: "ustr \<Rightarrow> box \<Rightarrow> box" where
  "n_flow v = assign ''flow'' (\<lambda>a. a\<lparr>box_flow := Some v\<rparr>)"

definition new_Node :: "ustr option \<Rightarrow> box" where
  "new_Node flow = (case flow of None \<Rightarrow> empty_node | Some v \<Rightarrow> if v = [] then empty_node else n_flow v empty_node)"

definition n_id :: "ustr \<Rightarrow> box \<Rightarrow> box" where
  "n_id v = assign ''id'' (\<lambda>a. a\<lparr>box_id := Some v\<rparr>)"

definition n_size :: "int \<Rightarrow> int \<Rightarrow> int \<Rightarrow> box \<Rightarrow> box" where
  "n_size w h f = assign ''size'' (\<lambda>a. a\<lparr>box_size := Some (w, h, f)\<rparr>)"

definition current_size :: "attrs \<Rightarrow> int \<times> int \<times> int" where
  "current_size a = (case box_size a of None \<Rightarrow> (0, 0, 0) | Some s \<Rightarrow> s)"

definition n_width :: "int \<Rightarrow> box \<Rightarrow> box" where
  "n_width v = assign ''size'' (\<lambda>a. a\<lparr>box_size := (case current_size a of (w, h, f) \<Rightarrow> Some (v, h, f))\<rparr>)"

definition n_height :: "int \<Rightarrow> box \<Rightarrow> box" where
  "n_height v = assign ''size'' (\<lambda>a. a\<lparr>box_size := (case current_size a of (w, h, f) \<Rightarrow> Some (w, v, f))\<rparr>)"

definition n_flex :: "int \<Rightarrow> box \<Rightarrow> box" where
  "n_flex v = assign ''size'' (\<lambda>a. a\<lparr>box_size := (case current_size a of (w, h, f) \<Rightarrow> Some (w, h, v))\<rparr>)"

definition n_pos :: "int \<Rightarrow> int \<Rightarrow> box \<Rightarrow> box" where
  "n_pos x y = assign ''pos'' (\<lambda>a. a\<lparr>box_pos := Some (x, y)\<rparr>)"

definition n_style :: "ustr \<Rightarrow> box \<Rightarrow> box" where
  "n_style v = assign ''style'' (\<lambda>a. a\<lparr>box_style := Some v\<rparr>)"

definition n_focused :: "bool \<Rightarrow> box \<Rightarrow> box" where
  "n_focused v = assign ''focused'' (\<lambda>a. a\<lparr>box_focused := Some v\<rparr>)"

definition n_input :: "ustr list \<Rightarrow> box \<Rightarrow> box" where
  "n_input kinds = assign ''input'' (\<lambda>a. a\<lparr>box_input := Some (opt_list (box_input a) @ filter (\<lambda>k. k \<noteq> []) kinds)\<rparr>)"

definition n_cursor :: "int \<Rightarrow> int \<Rightarrow> ustr \<Rightarrow> bool option \<Rightarrow> box \<Rightarrow> box" where
  "n_cursor r c shape vis = assign ''cursor'' (\<lambda>a. a\<lparr>box_cursor := Some
     \<lparr>cur_keys = [''row'', ''col'', ''shape''] @ (if vis = None then [] else [''visible'']),
      cur_row = r, cur_col = c, cur_shape = Some shape, cur_visible = vis\<rparr>\<rparr>)"

definition no_content :: content where
  "no_content = \<lparr>con_keys = [], con_text = None, con_lines = None, con_self = None, con_props = None\<rparr>"

definition n_content :: "ustr \<Rightarrow> box \<Rightarrow> box" where
  "n_content v = assign ''content'' (\<lambda>a. a\<lparr>box_content := Some (no_content\<lparr>con_keys := [''text''], con_text := Some v\<rparr>)\<rparr>)"

definition n_lines :: "ustr list \<Rightarrow> box \<Rightarrow> box" where
  "n_lines vs = assign ''content'' (\<lambda>a. a\<lparr>box_content := Some (no_content\<lparr>con_keys := [''lines''], con_lines := Some vs\<rparr>)\<rparr>)"

definition n_selfRef :: "ustr \<Rightarrow> box \<Rightarrow> box" where
  "n_selfRef v = assign ''content'' (\<lambda>a. a\<lparr>box_content := Some (no_content\<lparr>con_keys := [''self''], con_self := Some v\<rparr>)\<rparr>)"

definition n_props :: "(ustr \<times> ustr) list \<Rightarrow> box \<Rightarrow> box" where
  "n_props values = assign ''content'' (\<lambda>a.
     let c = (case box_content a of None \<Rightarrow> no_content | Some c \<Rightarrow> c)
     in a\<lparr>box_content := Some (c\<lparr>con_keys := add_key ''props'' (con_keys c),
          con_props := Some (foldl (\<lambda>ob (k, v). obj_set k v ob) (opt_list (con_props c)) values)\<rparr>)\<rparr>)"

definition n_visible :: "bool \<Rightarrow> box \<Rightarrow> box" where
  "n_visible v = assign ''visible'' (\<lambda>a. a\<lparr>box_visible := Some v\<rparr>)"

fun n_child :: "box list \<Rightarrow> box \<Rightarrow> box" where
  "n_child nodes (Box ks a cs) = Box (add_key ''children'' ks) a (cs @ nodes)"

definition col_node :: "box list \<Rightarrow> box" where
  "col_node cs = n_child cs (new_Node (Some (asc ''col'')))"

definition row_node :: "box list \<Rightarrow> box" where
  "row_node cs = n_child cs (new_Node (Some (asc ''row'')))"

definition stack_node :: "box list \<Rightarrow> box" where
  "stack_node cs = n_child cs (new_Node (Some (asc ''stack'')))"

definition text_node :: "ustr \<Rightarrow> box" where
  "text_node v = n_content v (new_Node None)"

definition terminal_node :: "ustr \<Rightarrow> box" where
  "terminal_node source = n_selfRef source (new_Node None)"

definition divider_node :: "bool \<Rightarrow> int \<Rightarrow> box" where
  "divider_node vertical len =
     (let node = n_input [asc ''mouse''] (new_Node None)
      in if vertical then n_height len (n_width 1 node) else n_height 1 (n_width len node))"

section \<open>Text metrics\<close>

definition isWide :: "nat \<Rightarrow> bool" where
  "isWide code \<longleftrightarrow>
     0x1100 \<le> code \<and> code \<le> 0x115f \<or> 0x2e80 \<le> code \<and> code \<le> 0xa4cf \<or>
     0xac00 \<le> code \<and> code \<le> 0xd7a3 \<or> 0xf900 \<le> code \<and> code \<le> 0xfaff \<or>
     0xfe30 \<le> code \<and> code \<le> 0xfe6f \<or> 0xff00 \<le> code \<and> code \<le> 0xff60 \<or>
     0xffe0 \<le> code \<and> code \<le> 0xffe6 \<or> 0x1f300 \<le> code \<and> code \<le> 0x1faff \<or>
     0x20000 \<le> code \<and> code \<le> 0x3fffd"

definition cellWidth :: "nat \<Rightarrow> int" where
  "cellWidth ch = (if isWide ch then 2 else 1)"

definition displayWidth :: "ustr \<Rightarrow> int" where
  "displayWidth value = foldl (\<lambda>total ch. total + cellWidth ch) 0 value"

fun truncate_loop :: "ustr \<Rightarrow> int \<Rightarrow> int \<Rightarrow> ustr" where
  "truncate_loop [] used maxWidth = []"
| "truncate_loop (ch # value) used maxWidth =
     (if maxWidth < used + cellWidth ch then [] else ch # truncate_loop value (used + cellWidth ch) maxWidth)"

definition truncate :: "ustr \<Rightarrow> int \<Rightarrow> ustr" where
  "truncate value maxWidth = (if maxWidth \<le> 0 then [] else truncate_loop value 0 maxWidth)"

text \<open>\<open>' '.repeat(n)\<close>, which throws on a negative count.\<close>

definition spaces :: "int \<Rightarrow> ustr option" where
  "spaces n = (if n < 0 then None else Some (replicate (nat n) 32))"

definition centerPad :: "ustr \<Rightarrow> int \<Rightarrow> ustr option" where
  "centerPad value cells =
     (let v = truncate value cells; pad = cells - displayWidth v; left = pad div 2
      in case (spaces left, spaces (pad - left)) of
           (Some l, Some r) \<Rightarrow> Some (l @ v @ r)
         | _ \<Rightarrow> None)"

definition clamp :: "int \<Rightarrow> int \<Rightarrow> int \<Rightarrow> int" where
  "clamp value low high = max low (min high value)"

section \<open>Lemmas\<close>

subsection \<open>Reading a built node\<close>

text \<open>The text a node shows itself, and the text of a row of such nodes.\<close>

definition own_text :: "box \<Rightarrow> ustr" where
  "own_text b = (case box_content (attrs b) of None \<Rightarrow> []
     | Some c \<Rightarrow> (case con_text c of None \<Rightarrow> [] | Some t \<Rightarrow> t))"

definition row_text :: "box \<Rightarrow> ustr" where
  "row_text b = concat (map own_text (children b))"

lemma attrs_assign [simp]: "attrs (assign k f b) = f (attrs b)"
  and children_assign [simp]: "children (assign k f b) = children b"
  by (cases b; simp)+

lemma attrs_n_child [simp]: "attrs (n_child bs b) = attrs b"
  and children_n_child [simp]: "children (n_child bs b) = children b @ bs"
  by (cases b; simp)+

lemmas node_defs = n_id_def n_size_def n_width_def n_height_def n_flex_def n_pos_def n_flow_def n_style_def
  n_focused_def n_input_def n_cursor_def n_content_def n_lines_def n_selfRef_def n_props_def n_visible_def
  new_Node_def empty_node_def no_attrs_def no_content_def text_node_def

lemma children_nodes [simp]:
  "children (n_id i b) = children b" "children (n_size w h f b) = children b" "children (n_width w b) = children b"
  "children (n_height h b) = children b" "children (n_flex f b) = children b" "children (n_pos x y b) = children b"
  "children (n_flow v b) = children b" "children (n_style v b) = children b" "children (n_focused q b) = children b"
  "children (n_input ks b) = children b" "children (n_cursor r c s vis b) = children b"
  "children (n_content t b) = children b" "children (n_visible q b) = children b"
  "children (new_Node fl) = []" "children (row_node bs) = bs" "children (col_node bs) = bs" "children (stack_node bs) = bs"
  by (simp_all add: node_defs row_node_def col_node_def stack_node_def split: option.split)

lemma own_text_nodes [simp]:
  "own_text (text_node t) = t" "own_text (n_style v b) = own_text b" "own_text (n_height h b) = own_text b"
  "own_text (n_width w b) = own_text b" "own_text (n_id i b) = own_text b" "own_text (n_flex f b) = own_text b"
  "own_text (n_input ks b) = own_text b"
  by (simp_all add: own_text_def node_defs)

lemma own_text_n_child [simp]: "own_text (n_child bs b) = own_text b"
  by (simp add: own_text_def)

lemma own_text_row_node [simp]: "own_text (row_node bs) = []"
  by (simp add: own_text_def row_node_def node_defs)

lemma cursor_nodes [simp]:
  "box_cursor (attrs (n_id i b)) = box_cursor (attrs b)" "box_cursor (attrs (n_width w b)) = box_cursor (attrs b)"
  "box_cursor (attrs (n_height h b)) = box_cursor (attrs b)" "box_cursor (attrs (n_focused q b)) = box_cursor (attrs b)"
  "box_cursor (attrs (n_input ks b)) = box_cursor (attrs b)" "box_cursor (attrs (n_style v b)) = box_cursor (attrs b)"
  "box_cursor (attrs (new_Node fl)) = None" "box_cursor (attrs (row_node bs)) = None" "box_cursor (attrs (col_node bs)) = None"
  by (simp_all add: node_defs row_node_def col_node_def split: option.split)

subsection \<open>Widths\<close>

lemma cellWidth_pos [simp]: "0 < cellWidth c" "cellWidth c \<noteq> 0" "1 \<le> cellWidth c"
  and cellWidth_le [simp]: "cellWidth c \<le> 2" and cellWidth_space [simp]: "cellWidth 32 = 1"
  by (simp_all add: cellWidth_def isWide_def)

lemma displayWidth_acc: "foldl (\<lambda>total ch. total + cellWidth ch) acc s = acc + displayWidth s"
proof (induction s arbitrary: acc)
  case (Cons c s)
  have "displayWidth (c # s) = foldl (\<lambda>total ch. total + cellWidth ch) (cellWidth c) s"
    by (simp add: displayWidth_def)
  then show ?case using Cons.IH [of "cellWidth c"] Cons.IH [of "acc + cellWidth c"] by simp
qed (simp add: displayWidth_def)

lemma displayWidth_simps [simp]:
  "displayWidth [] = 0" "displayWidth (c # s) = cellWidth c + displayWidth s"
proof -
  show "displayWidth (c # s) = cellWidth c + displayWidth s"
    using displayWidth_acc [of "cellWidth c" s] by (simp add: displayWidth_def)
qed (simp add: displayWidth_def)

lemma displayWidth_append [simp]: "displayWidth (s @ t) = displayWidth s + displayWidth t"
  by (induction s) simp_all

lemma displayWidth_nonneg [simp]: "0 \<le> displayWidth s"
proof (induction s)
  case (Cons c s)
  then show ?case using cellWidth_pos(1) [of c] unfolding displayWidth_simps by linarith
qed simp

lemma displayWidth_replicate_space [simp]: "displayWidth (replicate n 32) = int n"
  by (induction n) simp_all

lemma displayWidth_bounds: "int (length s) \<le> displayWidth s" "displayWidth s \<le> 2 * int (length s)"
proof (induction s)
  case (Cons c s)
  { case 1 then show ?case using Cons.IH cellWidth_pos(3) [of c] unfolding displayWidth_simps length_Cons of_nat_Suc by linarith
  next case 2 then show ?case using Cons.IH(2) add_mono [OF cellWidth_le Cons.IH(2), of c] by simp }
qed simp_all

lemma displayWidth_eq_0 [simp]: "displayWidth s = 0 \<longleftrightarrow> s = []"
  using displayWidth_bounds(1) [of s] by auto

lemma truncate_loop_prefix: "prefix (truncate_loop s used w) s"
  by (induction s used w rule: truncate_loop.induct) simp_all

lemma truncate_loop_width: "used \<le> w \<Longrightarrow> used + displayWidth (truncate_loop s used w) \<le> w"
  by (induction s used w rule: truncate_loop.induct) auto

text \<open>Nothing more would have fitted: the next character is too wide.\<close>

lemma truncate_loop_maximal:
  "prefix t s \<Longrightarrow> used + displayWidth t \<le> w \<Longrightarrow> length t \<le> length (truncate_loop s used w)"
proof (induction s used w arbitrary: t rule: truncate_loop.induct)
  case (2 c s used w)
  show ?case
  proof (cases t)
    case (Cons d u)
    with "2.prems" have d: "d = c" "prefix u s" by simp_all
    have "\<not> w < used + cellWidth c"
      using "2.prems"(2) displayWidth_nonneg [of u] unfolding Cons d(1) displayWidth_simps by linarith
    then show ?thesis using "2.IH" [OF _ d(2)] "2.prems"(2) Cons d by simp
  qed simp
qed simp

lemma truncate_prefix: "prefix (truncate s w) s"
  by (simp add: truncate_def truncate_loop_prefix)

lemma truncate_width: "0 \<le> w \<Longrightarrow> displayWidth (truncate s w) \<le> w"
  using truncate_loop_width [of 0 w s] by (simp add: truncate_def)

lemma truncate_maximal:
  assumes "prefix t s" and "displayWidth t \<le> w"
  shows "length t \<le> length (truncate s w)"
proof (cases "w \<le> 0")
  case True
  then have "displayWidth t = 0" using assms(2) displayWidth_nonneg [of t] by linarith
  then show ?thesis by simp
next
  case False
  then show ?thesis using truncate_loop_maximal [of t s 0 w] assms by (simp add: truncate_def)
qed

lemma truncate_all:
  assumes "displayWidth s \<le> w"
  shows "truncate s w = s"
proof -
  obtain zs where zs: "s = truncate s w @ zs" using truncate_prefix [of s w] by (auto simp: prefix_def)
  have "length s \<le> length (truncate s w)" using truncate_maximal [of s s w] assms by simp
  moreover have "length s = length (truncate s w) + length zs" using zs by (metis length_append)
  ultimately have "zs = []" by simp
  then show ?thesis using zs by simp
qed

lemma truncate_idem: "truncate (truncate s w) w = truncate s w"
proof (cases "0 \<le> w")
  case True
  then show ?thesis by (intro truncate_all truncate_width)
next
  case False
  then show ?thesis by (simp add: truncate_def)
qed

section \<open>Properties\<close>

text \<open>
  \<open>truncate\<close> returns the longest prefix of the text that fits: it is a prefix, its display
  width is at most the limit (0 for a negative one), and every prefix that fits is no longer.
\<close>

lemma truncate_longest_fitting_prefix:
  "prefix (truncate s w) s \<and> displayWidth (truncate s w) \<le> max 0 w \<and>
   list_all (\<lambda>t. w < displayWidth t \<or> length t \<le> length (truncate s w)) (prefixes s)"
proof (intro conjI)
  show "displayWidth (truncate s w) \<le> max 0 w"
    using truncate_width [of w s] by (cases "0 \<le> w") (simp_all add: truncate_def)
  show "list_all (\<lambda>t. w < displayWidth t \<or> length t \<le> length (truncate s w)) (prefixes s)"
    using truncate_maximal [of _ s w] by (auto simp: list_all_iff not_less [symmetric])
qed (rule truncate_prefix)

text \<open>
  \<open>centerPad\<close> fills exactly the requested cells, also when the text is cut in front of a wide
  character, with the spare cells split evenly and the odd one on the right; a negative width
  makes it throw.
\<close>

lemma centerPad_exact:
  "(case centerPad s n of
      None \<Rightarrow> n < 0
    | Some r \<Rightarrow> displayWidth r = n \<and>
        (\<exists>l m. r = replicate l 32 @ truncate s n @ replicate m 32 \<and> (m = l \<or> m = Suc l)))"
proof (cases "n < 0")
  case True
  then show ?thesis by (simp add: centerPad_def Let_def truncate_def spaces_def)
next
  case False
  define pad where "pad = n - displayWidth (truncate s n)"
  have pad: "0 \<le> pad" using truncate_width [of n s] False by (simp add: pad_def)
  let ?l = "nat (pad div 2)" and ?m = "nat (pad - pad div 2)"
  have half: "0 \<le> pad div 2" "0 \<le> pad - pad div 2" using pad by (simp_all add: div_le_dividend)
  have r: "centerPad s n = Some (replicate ?l 32 @ truncate s n @ replicate ?m 32)"
    using half unfolding centerPad_def Let_def spaces_def pad_def [symmetric] by simp
  have "?m = ?l \<or> ?m = Suc ?l"
  proof -
    have "pad = 2 * (pad div 2) + pad mod 2" by simp
    moreover have "pad mod 2 = 0 \<or> pad mod 2 = 1" by auto
    ultimately show ?thesis using half by (auto simp: nat_eq_iff)
  qed
  moreover have "displayWidth (replicate ?l 32 @ truncate s n @ replicate ?m 32) = n"
    using half by (simp add: pad_def)
  ultimately show ?thesis unfolding r by auto
qed

end
