(* ===== verification/TextEditor.thy ===== *)
theory TextEditor
  imports Builder
begin

text \<open>
  The text editors of \<open>clients/tui/sdk/ts/src/widgets/input.js\<close>. This theory has what \<open>TextInput\<close> and
  \<open>TextArea\<close> share: the state, the edits at the cursor, the cursor movements and the metrics of
  runs of runes. The two classes repeat these methods word for word; here each is one definition
  on the common part of their state, which both records extend.

  A value is a list of code points. The Unicode classes \<open>\p{L}\<close> and \<open>\p{Nd}\<close> of the regular
  expression engine are the parameter \<open>letter\<close>; the control characters \<open>\p{Cc}\<close> are spelled out.
\<close>

section \<open>State\<close>

record editor =
  ed_id :: ustr
  ed_value :: ustr
  ed_cursor :: int
  ed_placeholder :: ustr
  ed_mask :: ustr
  ed_maxLen :: int
  ed_width :: int
  ed_focused :: bool
  ed_style :: ustr
  ed_placeholderStyle :: ustr
  ed_cursorStyle :: ustr
  ed_cursorShape :: ustr
  ed_input :: "ustr list"

record key_event =
  ke_key :: ustr
  ke_char :: ustr

definition NL :: nat where "NL = 10"
definition CR :: nat where "CR = 13"

text \<open>The options object of the two constructors; an absent option is \<open>None\<close>.\<close>

record options =
  op_id :: "ustr option"
  op_value :: "ustr option"
  op_cursor :: "int option"
  op_placeholder :: "ustr option"
  op_mask :: "ustr option"
  op_maxLen :: "int option"
  op_width :: "int option"
  op_focused :: "bool option"
  op_style :: "ustr option"
  op_placeholderStyle :: "ustr option"
  op_cursorStyle :: "ustr option"
  op_cursorShape :: "ustr option"
  op_input :: "ustr list option"
  op_offset :: "int option"
  op_height :: "int option"
  op_rowOffset :: "int option"
  op_colOffset :: "int option"

definition or_else :: "'b \<Rightarrow> 'b option \<Rightarrow> 'b" where
  "or_else d x = (case x of None \<Rightarrow> d | Some v \<Rightarrow> v)"

definition toRunes :: "ustr option \<Rightarrow> ustr" where
  "toRunes value = or_else [] value"

definition editor_of :: "options \<Rightarrow> editor" where
  "editor_of opts = \<lparr>ed_id = or_else [] (op_id opts), ed_value = toRunes (op_value opts),
     ed_cursor = or_else 0 (op_cursor opts), ed_placeholder = or_else [] (op_placeholder opts),
     ed_mask = or_else [] (op_mask opts), ed_maxLen = or_else 0 (op_maxLen opts),
     ed_width = or_else 0 (op_width opts), ed_focused = or_else False (op_focused opts),
     ed_style = or_else [] (op_style opts), ed_placeholderStyle = or_else [] (op_placeholderStyle opts),
     ed_cursorStyle = or_else [] (op_cursorStyle opts), ed_cursorShape = or_else [] (op_cursorShape opts),
     ed_input = or_else [] (op_input opts)\<rparr>"

section \<open>Helpers\<close>

fun firstNonEmpty :: "ustr list \<Rightarrow> ustr" where
  "firstNonEmpty [] = []"
| "firstNonEmpty (v # vs) = (if v \<noteq> [] then v else firstNonEmpty vs)"

definition padTo :: "ustr \<Rightarrow> int \<Rightarrow> ustr" where
  "padTo value width =
     (let out = Builder.truncate value width; pad = width - displayWidth out
      in if 0 < pad then out @ replicate (nat pad) 32 else out)"

definition clampCursor :: "int \<Rightarrow> int \<Rightarrow> int" where
  "clampCursor cursor len = (if cursor < 0 then 0 else if len < cursor then len else cursor)"

definition vlen :: "'a editor_scheme \<Rightarrow> int" where
  "vlen e = int (length (ed_value e))"

definition clamped :: "'a editor_scheme \<Rightarrow> 'a editor_scheme" where
  "clamped e = e\<lparr>ed_cursor := clampCursor (ed_cursor e) (vlen e)\<rparr>"

definition insertRunesAt :: "ustr \<Rightarrow> 'a editor_scheme \<Rightarrow> 'a editor_scheme" where
  "insertRunesAt runes e =
     (let e = clamped e; i = nat (ed_cursor e)
      in e\<lparr>ed_value := take i (ed_value e) @ runes @ drop i (ed_value e),
           ed_cursor := ed_cursor e + int (length runes)\<rparr>)"

definition insertRuneAt :: "nat \<Rightarrow> 'a editor_scheme \<Rightarrow> 'a editor_scheme" where
  "insertRuneAt r e =
     (let e = clamped e; i = nat (ed_cursor e)
      in e\<lparr>ed_value := take i (ed_value e) @ r # drop i (ed_value e), ed_cursor := ed_cursor e + 1\<rparr>)"

definition filterRunes :: "ustr \<Rightarrow> bool \<Rightarrow> ustr" where
  "filterRunes runes newlines = filter (\<lambda>r. \<not> (r = NL \<and> \<not> newlines) \<and> r \<noteq> CR) runes"

definition isWordRune :: "(nat \<Rightarrow> bool) \<Rightarrow> nat \<Rightarrow> bool" where
  "isWordRune letter ch \<longleftrightarrow> ch = 95 \<or> letter ch"

fun skip_left :: "(nat \<Rightarrow> bool) \<Rightarrow> ustr \<Rightarrow> nat \<Rightarrow> nat" where
  "skip_left P value 0 = 0"
| "skip_left P value (Suc i) = (if P (value ! i) then skip_left P value i else Suc i)"

function skip_right :: "(nat \<Rightarrow> bool) \<Rightarrow> ustr \<Rightarrow> nat \<Rightarrow> nat" where
  "skip_right P value i = (if i < length value \<and> P (value ! i) then skip_right P value (Suc i) else i)"
  by pat_completeness auto
termination
  by (relation "measure (\<lambda>(P, value, i). length value - i)") auto

declare skip_right.simps [simp del]

definition wordLeftIndex :: "(nat \<Rightarrow> bool) \<Rightarrow> ustr \<Rightarrow> int \<Rightarrow> int" where
  "wordLeftIndex letter value cursor =
     (let i = nat (clampCursor cursor (int (length value)));
          j = skip_left (\<lambda>c. \<not> isWordRune letter c) value i
      in int (skip_left (isWordRune letter) value j))"

definition wordRightIndex :: "(nat \<Rightarrow> bool) \<Rightarrow> ustr \<Rightarrow> int \<Rightarrow> int" where
  "wordRightIndex letter value cursor =
     (let i = nat (clampCursor cursor (int (length value)));
          j = skip_right (isWordRune letter) value i
      in int (skip_right (\<lambda>c. \<not> isWordRune letter c) value j))"

definition isControl :: "nat \<Rightarrow> bool" where
  "isControl c \<longleftrightarrow> c < 32 \<or> 127 \<le> c \<and> c < 160"

definition printableRune :: "key_event \<Rightarrow> nat option" where
  "printableRune ev =
     (let value = (if ke_char ev \<noteq> [] then ke_char ev else ke_key ev)
      in case value of [r] \<Rightarrow> if isControl r then None else Some r | _ \<Rightarrow> None)"

section \<open>Edits and movements\<close>

text \<open>Each returns whether it changed something, and the new state.\<close>

definition ed_insertRune :: "(nat \<Rightarrow> bool) \<Rightarrow> nat \<Rightarrow> 'a editor_scheme \<Rightarrow> bool \<times> 'a editor_scheme" where
  "ed_insertRune refused r e =
     (if refused r then (False, e)
      else if 0 < ed_maxLen e \<and> ed_maxLen e \<le> vlen e then (False, e)
      else (True, insertRuneAt r e))"

definition ed_insertRunes :: "ustr \<Rightarrow> 'a editor_scheme \<Rightarrow> bool \<times> 'a editor_scheme" where
  "ed_insertRunes runes e =
     (if runes = [] then (False, e)
      else if 0 < ed_maxLen e then
        let room = ed_maxLen e - vlen e
        in if room \<le> 0 then (False, e)
           else (True, insertRunesAt (if room < int (length runes) then take (nat room) runes else runes) e)
      else (True, insertRunesAt runes e))"

definition ed_setRunes :: "ustr \<Rightarrow> 'a editor_scheme \<Rightarrow> 'a editor_scheme" where
  "ed_setRunes runes e =
     (let v = (if 0 < ed_maxLen e \<and> ed_maxLen e < int (length runes) then take (nat (ed_maxLen e)) runes else runes)
      in e\<lparr>ed_value := v, ed_cursor := int (length v)\<rparr>)"

definition ed_backspace :: "'a editor_scheme \<Rightarrow> bool \<times> 'a editor_scheme" where
  "ed_backspace e =
     (let e = clamped e; i = nat (ed_cursor e)
      in if ed_cursor e = 0 then (False, e)
         else (True, e\<lparr>ed_value := take (i - 1) (ed_value e) @ drop i (ed_value e), ed_cursor := ed_cursor e - 1\<rparr>))"

definition ed_delete :: "'a editor_scheme \<Rightarrow> bool \<times> 'a editor_scheme" where
  "ed_delete e =
     (let e = clamped e; i = nat (ed_cursor e)
      in if vlen e \<le> ed_cursor e then (False, e)
         else (True, e\<lparr>ed_value := take i (ed_value e) @ drop (Suc i) (ed_value e)\<rparr>))"

definition ed_deleteWordLeft :: "(nat \<Rightarrow> bool) \<Rightarrow> 'a editor_scheme \<Rightarrow> bool \<times> 'a editor_scheme" where
  "ed_deleteWordLeft letter e =
     (let e = clamped e; start = wordLeftIndex letter (ed_value e) (ed_cursor e)
      in if start = ed_cursor e then (False, e)
         else (True, e\<lparr>ed_value := take (nat start) (ed_value e) @ drop (nat (ed_cursor e)) (ed_value e),
                       ed_cursor := start\<rparr>))"

definition ed_deleteToEnd :: "'a editor_scheme \<Rightarrow> bool \<times> 'a editor_scheme" where
  "ed_deleteToEnd e =
     (let e = clamped e
      in if vlen e \<le> ed_cursor e then (False, e)
         else (True, e\<lparr>ed_value := take (nat (ed_cursor e)) (ed_value e)\<rparr>))"

definition ed_left :: "'a editor_scheme \<Rightarrow> bool \<times> 'a editor_scheme" where
  "ed_left e =
     (let e = clamped e
      in if ed_cursor e = 0 then (False, e) else (True, e\<lparr>ed_cursor := ed_cursor e - 1\<rparr>))"

definition ed_right :: "'a editor_scheme \<Rightarrow> bool \<times> 'a editor_scheme" where
  "ed_right e =
     (let e = clamped e
      in if vlen e \<le> ed_cursor e then (False, e) else (True, e\<lparr>ed_cursor := ed_cursor e + 1\<rparr>))"

definition ed_wordLeft :: "(nat \<Rightarrow> bool) \<Rightarrow> 'a editor_scheme \<Rightarrow> bool \<times> 'a editor_scheme" where
  "ed_wordLeft letter e =
     (let e = clamped e; n = wordLeftIndex letter (ed_value e) (ed_cursor e)
      in if n = ed_cursor e then (False, e) else (True, e\<lparr>ed_cursor := n\<rparr>))"

definition ed_wordRight :: "(nat \<Rightarrow> bool) \<Rightarrow> 'a editor_scheme \<Rightarrow> bool \<times> 'a editor_scheme" where
  "ed_wordRight letter e =
     (let e = clamped e; n = wordRightIndex letter (ed_value e) (ed_cursor e)
      in if n = ed_cursor e then (False, e) else (True, e\<lparr>ed_cursor := n\<rparr>))"

section \<open>Runes on the screen\<close>

text \<open>
  What is drawn for a value: its runes as one-character strings, or the mask string once per
  rune. The width of a drawn rune is that of its first code point.
\<close>

definition runes_of :: "ustr \<Rightarrow> ustr list" where
  "runes_of v = map (\<lambda>c. [c]) v"

definition runeWidth :: "ustr \<Rightarrow> int" where
  "runeWidth r = cellWidth (hd r)"

definition cellWidthOf :: "ustr list \<Rightarrow> int" where
  "cellWidthOf runes = foldl (\<lambda>w r. w + runeWidth r) 0 runes"

definition cursorCellWidth :: "ustr list \<Rightarrow> int \<Rightarrow> int" where
  "cursorCellWidth runes cursor =
     (if 0 \<le> cursor \<and> cursor < int (length runes) \<and> 0 < runeWidth (runes ! nat cursor)
      then runeWidth (runes ! nat cursor) else 1)"

fun truncate_cells :: "ustr list \<Rightarrow> int \<Rightarrow> int \<Rightarrow> ustr list" where
  "truncate_cells [] cells width = []"
| "truncate_cells (r # runes) cells width =
     (if 0 < runeWidth r \<and> width < cells + runeWidth r then []
      else r # truncate_cells runes (cells + runeWidth r) width)"

definition truncateRunesToCells :: "ustr list \<Rightarrow> int \<Rightarrow> ustr list" where
  "truncateRunesToCells runes width = (if width \<le> 0 then [] else truncate_cells runes 0 width)"

definition DEFAULT_CURSOR_STYLE :: ustr where "DEFAULT_CURSOR_STYLE = asc ''reverse''"
definition DEFAULT_CURSOR_SHAPE :: ustr where "DEFAULT_CURSOR_SHAPE = asc ''bar''"

definition cursorShape :: "ustr \<Rightarrow> ustr" where
  "cursorShape shape = (if shape \<noteq> [] then shape else DEFAULT_CURSOR_SHAPE)"

definition ed_inputs :: "'a editor_scheme \<Rightarrow> ustr list" where
  "ed_inputs e = (if ed_input e \<noteq> [] then ed_input e else [asc ''key'', asc ''paste''])"

text \<open>\<open>runes.slice(from, to)\<close> for positions inside the array.\<close>

definition js_slice :: "'b list \<Rightarrow> int \<Rightarrow> int \<Rightarrow> 'b list" where
  "js_slice xs i j = take (nat j - nat i) (drop (nat i) xs)"

text \<open>The loop both editors use to scroll the cursor cell into a window of \<open>width\<close> cells.\<close>

function scroll_to :: "ustr list \<Rightarrow> int \<Rightarrow> int \<Rightarrow> int \<Rightarrow> int" where
  "scroll_to runes width cursor offset =
     (if offset < cursor \<and> width < cellWidthOf (js_slice runes offset cursor) + cursorCellWidth runes cursor
      then scroll_to runes width cursor (offset + 1) else offset)"
  by pat_completeness auto
termination
  by (relation "measure (\<lambda>(runes, width, cursor, offset). nat (cursor - offset))") auto

declare scroll_to.simps [simp del]

text \<open>
  The three spans of a line with the cursor: the text before it, the rune under it (a space
  behind the end) and the text after it, cut to what remains of the width.
\<close>

definition cursor_spans :: "int \<Rightarrow> ustr list \<Rightarrow> int \<Rightarrow> ustr \<times> ustr \<times> ustr" where
  "cursor_spans width visible rel =
     (let pre = concat (take (nat rel) visible);
          post = drop (nat rel) visible;
          cursorText = (case post of [] \<Rightarrow> [32] | r # rs \<Rightarrow> r);
          postText = concat (drop 1 post);
          postText = (if 0 < width then Builder.truncate postText (width - displayWidth pre - displayWidth cursorText) else postText)
      in (pre, cursorText, postText))"

definition styled_text :: "ustr \<Rightarrow> ustr \<Rightarrow> box" where
  "styled_text value style = n_height 1 (n_style style (text_node value))"

text \<open>The children drawn for these spans, padded to the width.\<close>

definition span_boxes :: "'a editor_scheme \<Rightarrow> ustr \<times> ustr \<times> ustr \<Rightarrow> box list" where
  "span_boxes e spans =
     (case spans of (pre, cursorText, postText) \<Rightarrow>
        (if pre \<noteq> [] then [styled_text pre (ed_style e)] else []) @
        [styled_text cursorText (firstNonEmpty [ed_cursorStyle e, DEFAULT_CURSOR_STYLE])] @
        (if postText \<noteq> [] then [styled_text postText (ed_style e)] else []))"

definition pad_boxes :: "int \<Rightarrow> int \<Rightarrow> box list" where
  "pad_boxes width used =
     (if width \<le> 0 \<or> width \<le> used then [] else [text_node (replicate (nat (width - used)) 32)])"

section \<open>What an editor receives\<close>

text \<open>A key, a paste, or a value set by the program; and the options of an editor without a value.\<close>

datatype ed_event = Key "key_event option" | PasteText ustr | SetText ustr

definition blank :: "options \<Rightarrow> options" where
  "blank opts = opts\<lparr>op_value := None, op_cursor := None\<rparr>"

section \<open>The abstract editor\<close>

text \<open>
  An editor is the text before and the text after its cursor. Each edit is a function on this
  pair; \<open>around\<close> reads the pair off the state of an editor.
\<close>

type_synonym halves = "ustr \<times> ustr"

datatype edit =
  Type nat | Left | Right | Home | End | Backspace | Delete | WordLeft | WordRight | KillWord | KillEnd | KillEndHome
  | Paste ustr | Replace ustr

definition around :: "'a editor_scheme \<Rightarrow> halves" where
  "around e = (take (nat (ed_cursor (clamped e))) (ed_value e), drop (nat (ed_cursor (clamped e))) (ed_value e))"

definition drop_word_end :: "(nat \<Rightarrow> bool) \<Rightarrow> ustr \<Rightarrow> ustr" where
  "drop_word_end letter b = rev (dropWhile (isWordRune letter) (dropWhile (\<lambda>c. \<not> isWordRune letter c) (rev b)))"

definition drop_word :: "(nat \<Rightarrow> bool) \<Rightarrow> ustr \<Rightarrow> ustr" where
  "drop_word letter a = dropWhile (\<lambda>c. \<not> isWordRune letter c) (dropWhile (isWordRune letter) a)"

fun apply_edit :: "(nat \<Rightarrow> bool) \<Rightarrow> int \<Rightarrow> edit \<Rightarrow> halves \<Rightarrow> halves" where
  "apply_edit letter maxLen (Type r) (b, a) =
     (if 0 < maxLen \<and> maxLen \<le> int (length b + length a) then (b, a) else (b @ [r], a))"
| "apply_edit letter maxLen Left (b, a) = (if b = [] then (b, a) else (butlast b, last b # a))"
| "apply_edit letter maxLen Right (b, a) = (case a of [] \<Rightarrow> (b, a) | c # cs \<Rightarrow> (b @ [c], cs))"
| "apply_edit letter maxLen Home (b, a) = ([], b @ a)"
| "apply_edit letter maxLen End (b, a) = (b @ a, [])"
| "apply_edit letter maxLen Backspace (b, a) = (butlast b, a)"
| "apply_edit letter maxLen Delete (b, a) = (b, tl a)"
| "apply_edit letter maxLen WordLeft (b, a) =
     (let k = drop_word_end letter b in (k, drop (length k) b @ a))"
| "apply_edit letter maxLen WordRight (b, a) =
     (let k = drop_word letter a in (b @ take (length a - length k) a, k))"
| "apply_edit letter maxLen KillWord (b, a) = (drop_word_end letter b, a)"
| "apply_edit letter maxLen KillEnd (b, a) = (b, [])"
| "apply_edit letter maxLen KillEndHome (b, a) = ([], b)"
| "apply_edit letter maxLen (Paste rs) (b, a) =
     (b @ (if 0 < maxLen then take (nat (maxLen - int (length b + length a))) rs else rs), a)"
| "apply_edit letter maxLen (Replace rs) (b, a) = ((if 0 < maxLen then take (nat maxLen) rs else rs), [])"

section \<open>Lemmas\<close>

lemma clampCursor_bounds [simp]: "0 \<le> n \<Longrightarrow> 0 \<le> clampCursor c n" "0 \<le> n \<Longrightarrow> clampCursor c n \<le> n"
  by (simp_all add: clampCursor_def)

lemma clampCursor_id [simp]: "0 \<le> c \<Longrightarrow> c \<le> n \<Longrightarrow> clampCursor c n = c"
  by (simp add: clampCursor_def)

text \<open>The state with the cursor clamped has a natural number as its cursor.\<close>

lemma clamped_cases:
  obtains i where "ed_cursor (clamped e) = int i" and "i \<le> length (ed_value e)"
proof -
  have "0 \<le> ed_cursor (clamped e)" "ed_cursor (clamped e) \<le> int (length (ed_value e))"
    by (simp_all add: clamped_def vlen_def)
  then show ?thesis using that [of "nat (ed_cursor (clamped e))"] by simp
qed

lemma clamped_simps [simp]:
  "ed_value (clamped e) = ed_value e" "ed_maxLen (clamped e) = ed_maxLen e" "vlen (clamped e) = vlen e"
  "clamped (clamped e) = clamped e"
  by (simp_all add: clamped_def vlen_def)

text \<open>An editor whose cursor was set to \<open>j\<close> inside its value.\<close>

lemma around_at:
  assumes "ed_cursor e = int j" and "j \<le> length (ed_value e)"
  shows "around e = (take j (ed_value e), drop j (ed_value e))"
  using assms by (simp add: around_def clamped_def vlen_def)

lemma around_clamped [simp]: "around (clamped e) = around e"
  by (simp add: around_def)

lemma skip_left_le: "skip_left P v i \<le> i"
  by (induction i) (auto intro: le_SucI)

lemma take_skip_left: "i \<le> length v \<Longrightarrow> take (skip_left P v i) v = rev (dropWhile P (rev (take i v)))"
  by (induction i) (auto simp: take_Suc_conv_app_nth)

lemma skip_right_bounds: "i \<le> length v \<Longrightarrow> i \<le> skip_right P v i \<and> skip_right P v i \<le> length v"
proof (induction P v i rule: skip_right.induct)
  case (1 P v i)
  show ?case
  proof (cases "i < length v \<and> P (v ! i)")
    case True
    then show ?thesis using "1.IH" by (subst (1 2) skip_right.simps) simp
  next
    case False
    then show ?thesis using "1.prems" by (subst (1 2) skip_right.simps) auto
  qed
qed

lemma drop_skip_right: "i \<le> length v \<Longrightarrow> drop (skip_right P v i) v = dropWhile P (drop i v)"
proof (induction P v i rule: skip_right.induct)
  case (1 P v i)
  show ?case
  proof (cases "i < length v \<and> P (v ! i)")
    case True
    then show ?thesis using "1.IH" by (subst skip_right.simps) (simp add: Cons_nth_drop_Suc [symmetric])
  next
    case False
    then show ?thesis using "1.prems"
      by (subst skip_right.simps) (cases "i < length v", auto simp: Cons_nth_drop_Suc [symmetric])
  qed
qed

lemma wordLeftIndex_take:
  assumes "i \<le> length v"
  obtains j where "wordLeftIndex letter v (int i) = int j" and "j \<le> i"
    and "take j v = drop_word_end letter (take i v)"
proof -
  define k where "k = skip_left (\<lambda>c. \<not> isWordRune letter c) v i"
  have k: "k \<le> i" unfolding k_def by (rule skip_left_le)
  have "take (skip_left (isWordRune letter) v k) v = drop_word_end letter (take i v)"
    using k assms take_skip_left [OF assms] by (simp add: take_skip_left drop_word_end_def k_def)
  moreover have "skip_left (isWordRune letter) v k \<le> i" using skip_left_le k by (rule le_trans)
  ultimately show ?thesis using assms that by (simp add: wordLeftIndex_def k_def)
qed

lemma wordRightIndex_drop:
  assumes "i \<le> length v"
  obtains j where "wordRightIndex letter v (int i) = int j" and "i \<le> j" and "j \<le> length v"
    and "drop j v = drop_word letter (drop i v)"
proof -
  define k where "k = skip_right (isWordRune letter) v i"
  have k: "i \<le> k" "k \<le> length v" using skip_right_bounds [OF assms] by (simp_all add: k_def)
  let ?j = "skip_right (\<lambda>c. \<not> isWordRune letter c) v k"
  have "drop ?j v = drop_word letter (drop i v)"
    using drop_skip_right [OF k(2)] drop_skip_right [OF assms] by (simp add: drop_word_def k_def)
  moreover have "k \<le> ?j" "?j \<le> length v" using skip_right_bounds [OF k(2)] by simp_all
  ultimately show ?thesis using assms k(1) that [of ?j] by (simp add: wordRightIndex_def k_def)
qed

subsection \<open>Every edit implements its abstract counterpart\<close>

lemma nat_one_plus [simp]: "nat (1 + int n) = Suc n"
  by simp

lemma halves_cases:
  obtains b a where "ed_value e = b @ a" and "ed_cursor (clamped e) = int (length b)" and "around e = (b, a)"
proof -
  obtain i where "ed_cursor (clamped e) = int i" "i \<le> length (ed_value e)" by (rule clamped_cases)
  then show ?thesis using that [of "take i (ed_value e)" "drop i (ed_value e)"] by (simp add: around_def)
qed

lemma around_split: "ed_value e = b @ a \<Longrightarrow> ed_cursor e = int (length b) \<Longrightarrow> around e = (b, a)"
  by (simp add: around_at)

lemma vlen_halves: "around e = (b, a) \<Longrightarrow> vlen e = int (length b + length a)"
  by (auto simp: around_def vlen_def)

named_theorems edit_refines \<open>the edits on the two halves of the text\<close>

lemma around_insertRunesAt [edit_refines]:
  "around (insertRunesAt rs e) = (fst (around e) @ rs, snd (around e))"
proof (cases rule: halves_cases [of e])
  case (1 b a)
  then show ?thesis by (intro around_split [THEN trans]) (auto simp: insertRunesAt_def Let_def)
qed

lemma insertRuneAt_runes: "insertRuneAt r e = insertRunesAt [r] e"
  by (simp add: insertRuneAt_def insertRunesAt_def)

lemma around_ed_insertRune [edit_refines]:
  "\<not> refused r \<Longrightarrow> around (snd (ed_insertRune refused r e)) = apply_edit letter (ed_maxLen e) (Type r) (around e)"
  by (cases rule: halves_cases [of e])
    (simp add: ed_insertRune_def insertRuneAt_runes around_insertRunesAt vlen_halves)

lemma around_ed_left [edit_refines]: "around (snd (ed_left e)) = apply_edit letter m Left (around e)"
proof (cases rule: halves_cases [of e])
  case (1 b a)
  show ?thesis
  proof (cases b rule: rev_cases)
    case Nil
    then show ?thesis using 1 by (simp add: ed_left_def)
  next
    case (snoc bs c)
    then have "around ((clamped e)\<lparr>ed_cursor := int (length bs)\<rparr>) = (bs, c # a)"
      using 1 by (intro around_split) simp_all
    then show ?thesis using 1 snoc by (simp add: ed_left_def Let_def)
  qed
qed

lemma around_ed_right [edit_refines]: "around (snd (ed_right e)) = apply_edit letter m Right (around e)"
proof (cases rule: halves_cases [of e])
  case (1 b a)
  show ?thesis
  proof (cases a)
    case Nil
    then show ?thesis using 1 by (simp add: ed_right_def vlen_def)
  next
    case (Cons c cs)
    then have "around ((clamped e)\<lparr>ed_cursor := int (length (b @ [c]))\<rparr>) = (b @ [c], cs)"
      using 1 by (intro around_split) simp_all
    then show ?thesis using 1 Cons by (simp add: ed_right_def Let_def vlen_def add.commute)
  qed
qed

lemma around_ed_backspace [edit_refines]: "around (snd (ed_backspace e)) = apply_edit letter m Backspace (around e)"
proof (cases rule: halves_cases [of e])
  case (1 b a)
  show ?thesis
  proof (cases b rule: rev_cases)
    case Nil
    then show ?thesis using 1 by (simp add: ed_backspace_def)
  next
    case (snoc bs c)
    then have "around ((clamped e)\<lparr>ed_value := bs @ a, ed_cursor := int (length bs)\<rparr>) = (bs, a)"
      by (intro around_split) simp_all
    then show ?thesis using 1 snoc by (simp add: ed_backspace_def Let_def)
  qed
qed

lemma around_ed_delete [edit_refines]: "around (snd (ed_delete e)) = apply_edit letter m Delete (around e)"
proof (cases rule: halves_cases [of e])
  case (1 b a)
  have "around ((clamped e)\<lparr>ed_value := b @ tl a\<rparr>) = (b, tl a)" if "a \<noteq> []"
    using 1 by (intro around_split) simp_all
  then show ?thesis using 1 by (auto simp: ed_delete_def Let_def vlen_def drop_Suc)
qed

lemma around_ed_deleteToEnd [edit_refines]: "around (snd (ed_deleteToEnd e)) = apply_edit letter m KillEnd (around e)"
proof (cases rule: halves_cases [of e])
  case (1 b a)
  have "around ((clamped e)\<lparr>ed_value := b\<rparr>) = (b, [])"
    using 1 by (intro around_split) simp_all
  then show ?thesis using 1 by (auto simp: ed_deleteToEnd_def Let_def vlen_def)
qed

lemma around_cursor:
  assumes "j \<le> length (ed_value e)"
  shows "around (e\<lparr>ed_cursor := int j\<rparr>) = (take j (ed_value e), drop j (ed_value e))"
  using assms by (intro around_split) simp_all

lemma around_ed_wordLeft [edit_refines]: "around (snd (ed_wordLeft letter e)) = apply_edit letter m WordLeft (around e)"
proof (cases rule: halves_cases [of e])
  case (1 b a)
  obtain j where j: "wordLeftIndex letter (b @ a) (int (length b)) = int j" "j \<le> length b"
      "take j (b @ a) = drop_word_end letter (take (length b) (b @ a))"
    by (rule wordLeftIndex_take [of "length b" "b @ a"]) simp
  have k: "drop_word_end letter b = take j b" using j by simp
  have "around ((clamped e)\<lparr>ed_cursor := int j\<rparr>) = (take j b, drop j b @ a)"
    using 1 j by (subst around_cursor) simp_all
  then show ?thesis using 1 j k by (auto simp: ed_wordLeft_def Let_def)
qed

lemma around_ed_deleteWordLeft [edit_refines]:
  "around (snd (ed_deleteWordLeft letter e)) = apply_edit letter m KillWord (around e)"
proof (cases rule: halves_cases [of e])
  case (1 b a)
  obtain j where j: "wordLeftIndex letter (b @ a) (int (length b)) = int j" "j \<le> length b"
      "take j (b @ a) = drop_word_end letter (take (length b) (b @ a))"
    by (rule wordLeftIndex_take [of "length b" "b @ a"]) simp
  have k: "drop_word_end letter b = take j b" using j by simp
  have "around ((clamped e)\<lparr>ed_value := take j b @ a, ed_cursor := int j\<rparr>) = (take j b, a)"
    using j(2) by (intro around_split) simp_all
  then show ?thesis using 1 j k by (auto simp: ed_deleteWordLeft_def Let_def)
qed

lemma around_ed_wordRight [edit_refines]: "around (snd (ed_wordRight letter e)) = apply_edit letter m WordRight (around e)"
proof (cases rule: halves_cases [of e])
  case (1 b a)
  obtain j where j: "wordRightIndex letter (b @ a) (int (length b)) = int j" "length b \<le> j" "j \<le> length (b @ a)"
      "drop j (b @ a) = drop_word letter (drop (length b) (b @ a))"
    by (rule wordRightIndex_drop [of "length b" "b @ a"]) simp
  have k: "drop_word letter a = drop (j - length b) a" using j by simp
  have "around ((clamped e)\<lparr>ed_cursor := int j\<rparr>) = (b @ take (j - length b) a, drop (j - length b) a)"
    using 1 j by (subst around_cursor) simp_all
  then show ?thesis using 1 j k by (auto simp: ed_wordRight_def Let_def)
qed

lemma around_ed_insertRunes [edit_refines]:
  "around (snd (ed_insertRunes rs e)) = apply_edit letter (ed_maxLen e) (Paste rs) (around e)"
  by (cases rule: halves_cases [of e])
    (simp add: ed_insertRunes_def Let_def around_insertRunesAt vlen_halves)

lemma around_ed_setRunes [edit_refines]:
  "around (ed_setRunes rs e) = apply_edit letter (ed_maxLen e) (Replace rs) (around e)"
  by (cases rule: halves_cases [of e]; subst around_split [of _ "ed_value (ed_setRunes rs e)" "[]"])
    (simp_all add: ed_setRunes_def Let_def)

lemma around_home: "around (e\<lparr>ed_cursor := 0\<rparr>) = apply_edit letter m Home (around e)"
  by (cases rule: halves_cases [of e]; subst around_split [of _ "[]" "ed_value e"]) simp_all

lemma around_end: "around (e\<lparr>ed_cursor := vlen e\<rparr>) = apply_edit letter m End (around e)"
  by (cases rule: halves_cases [of e]; subst around_split [of _ "ed_value e" "[]"]) (simp_all add: vlen_def)

lemma ed_maxLen_kept [simp]:
  "ed_maxLen (snd (ed_insertRune refused r e)) = ed_maxLen e" "ed_maxLen (snd (ed_insertRunes rs e)) = ed_maxLen e"
  "ed_maxLen (ed_setRunes rs e) = ed_maxLen e" "ed_maxLen (snd (ed_left e)) = ed_maxLen e"
  "ed_maxLen (snd (ed_right e)) = ed_maxLen e" "ed_maxLen (snd (ed_wordLeft letter e)) = ed_maxLen e"
  "ed_maxLen (snd (ed_wordRight letter e)) = ed_maxLen e" "ed_maxLen (snd (ed_backspace e)) = ed_maxLen e"
  "ed_maxLen (snd (ed_delete e)) = ed_maxLen e" "ed_maxLen (snd (ed_deleteWordLeft letter e)) = ed_maxLen e"
  "ed_maxLen (snd (ed_deleteToEnd e)) = ed_maxLen e"
  by (simp_all add: ed_insertRune_def ed_insertRunes_def ed_setRunes_def ed_left_def ed_right_def ed_wordLeft_def
      ed_wordRight_def ed_backspace_def ed_delete_def ed_deleteWordLeft_def ed_deleteToEnd_def insertRuneAt_runes
      insertRunesAt_def Let_def)

subsection \<open>The state invariant\<close>

text \<open>The cursor is inside the text, the limit is kept, and every rune satisfies \<open>P\<close>.\<close>

definition ed_ok :: "(nat \<Rightarrow> bool) \<Rightarrow> 'a editor_scheme \<Rightarrow> bool" where
  "ed_ok P e \<longleftrightarrow> 0 \<le> ed_cursor e \<and> ed_cursor e \<le> vlen e \<and>
     (0 < ed_maxLen e \<longrightarrow> vlen e \<le> ed_maxLen e) \<and> list_all P (ed_value e)"

lemma clamped_ok [simp]: "ed_ok P e \<Longrightarrow> clamped e = e"
  by (simp add: ed_ok_def clamped_def)

lemma list_all_take [simp]: "list_all P xs \<Longrightarrow> list_all P (take n xs)"
  and list_all_drop [simp]: "list_all P xs \<Longrightarrow> list_all P (drop n xs)"
  by (auto simp: list_all_iff dest: in_set_takeD in_set_dropD)

lemma ed_ok_cursor: "ed_ok P e \<Longrightarrow> 0 \<le> c \<Longrightarrow> c \<le> vlen e \<Longrightarrow> ed_ok P (e\<lparr>ed_cursor := c\<rparr>)"
  by (simp add: ed_ok_def vlen_def)

lemma ed_ok_shrink:
  "ed_ok P e \<Longrightarrow> i \<le> j \<Longrightarrow> j \<le> length (ed_value e) \<Longrightarrow>
   ed_ok P (e\<lparr>ed_value := take i (ed_value e) @ drop j (ed_value e), ed_cursor := int i\<rparr>)"
  by (auto simp: ed_ok_def vlen_def)

lemma ed_ok_insertRunesAt:
  assumes "ed_ok P e" and "list_all P rs" and "0 < ed_maxLen e \<longrightarrow> vlen e + int (length rs) \<le> ed_maxLen e"
  shows "ed_ok P (insertRunesAt rs e)"
  using assms by (auto simp: insertRunesAt_def Let_def ed_ok_def vlen_def clamped_def min_def)

named_theorems ed_keeps \<open>the edits keep the invariant\<close>

lemma ed_ok_insertRune [ed_keeps]:
  "ed_ok P e \<Longrightarrow> P r \<or> refused r \<Longrightarrow> ed_ok P (snd (ed_insertRune refused r e))"
  by (auto simp: ed_insertRune_def insertRuneAt_runes intro!: ed_ok_insertRunesAt)

lemma ed_ok_insertRunes [ed_keeps]:
  "ed_ok P e \<Longrightarrow> list_all P rs \<Longrightarrow> ed_ok P (snd (ed_insertRunes rs e))"
  by (auto simp: ed_insertRunes_def Let_def intro!: ed_ok_insertRunesAt)

lemma ed_ok_setRunes [ed_keeps]: "list_all P rs \<Longrightarrow> ed_ok P (ed_setRunes rs e)"
  by (auto simp: ed_setRunes_def Let_def ed_ok_def vlen_def)

lemma ed_ok_left [ed_keeps]: "ed_ok P e \<Longrightarrow> ed_ok P (snd (ed_left e))"
  by (auto simp: ed_left_def Let_def ed_ok_def vlen_def)

lemma ed_ok_right [ed_keeps]: "ed_ok P e \<Longrightarrow> ed_ok P (snd (ed_right e))"
  by (auto simp: ed_right_def Let_def ed_ok_def vlen_def)

lemma ed_ok_nat: "ed_ok P e \<Longrightarrow> \<exists>i. ed_cursor e = int i \<and> i \<le> length (ed_value e)"
  by (rule exI [of _ "nat (ed_cursor e)"]) (auto simp: ed_ok_def vlen_def)

lemma ed_ok_backspace [ed_keeps]: "ed_ok P e \<Longrightarrow> ed_ok P (snd (ed_backspace e))"
  using ed_ok_nat [of P e] ed_ok_shrink [of P e "nat (ed_cursor e) - 1" "nat (ed_cursor e)"]
  by (auto simp: ed_backspace_def Let_def int_ops)

lemma ed_ok_delete [ed_keeps]: "ed_ok P e \<Longrightarrow> ed_ok P (snd (ed_delete e))"
  by (auto simp: ed_delete_def Let_def ed_ok_def vlen_def)

lemma ed_ok_deleteToEnd [ed_keeps]: "ed_ok P e \<Longrightarrow> ed_ok P (snd (ed_deleteToEnd e))"
  by (auto simp: ed_deleteToEnd_def Let_def ed_ok_def vlen_def)

lemma ed_ok_wordLeft_index:
  assumes "ed_ok P e"
  obtains j where "wordLeftIndex letter (ed_value e) (ed_cursor e) = int j" "j \<le> nat (ed_cursor e)"
    "nat (ed_cursor e) \<le> length (ed_value e)" "0 \<le> ed_cursor e"
proof -
  obtain i where i: "ed_cursor e = int i" "i \<le> length (ed_value e)" using ed_ok_nat [OF assms] by blast
  obtain j where "wordLeftIndex letter (ed_value e) (int i) = int j" "j \<le> i"
    by (rule wordLeftIndex_take [OF i(2)])
  then show ?thesis using i that [of j] by simp
qed

lemma ed_ok_wordLeft [ed_keeps]: "ed_ok P e \<Longrightarrow> ed_ok P (snd (ed_wordLeft letter e))"
  by (rule ed_ok_wordLeft_index [of P e letter])
    (auto simp: ed_wordLeft_def Let_def vlen_def intro!: ed_ok_cursor)

lemma ed_ok_deleteWordLeft [ed_keeps]: "ed_ok P e \<Longrightarrow> ed_ok P (snd (ed_deleteWordLeft letter e))"
  by (rule ed_ok_wordLeft_index [of P e letter])
    (auto simp: ed_deleteWordLeft_def Let_def intro!: ed_ok_shrink)

lemma ed_ok_wordRight [ed_keeps]:
  assumes "ed_ok P e"
  shows "ed_ok P (snd (ed_wordRight letter e))"
proof -
  obtain i where i: "ed_cursor e = int i" "i \<le> length (ed_value e)" using ed_ok_nat [OF assms] by blast
  obtain j where "wordRightIndex letter (ed_value e) (int i) = int j" "j \<le> length (ed_value e)"
    by (rule wordRightIndex_drop [OF i(2)])
  then show ?thesis using assms i by (auto simp: ed_wordRight_def Let_def vlen_def intro!: ed_ok_cursor)
qed

lemma printableRune_line: "printableRune ev = Some r \<Longrightarrow> r \<noteq> NL \<and> r \<noteq> CR"
  by (auto simp: printableRune_def isControl_def NL_def CR_def Let_def split: list.splits if_splits)

lemma list_all_filterRunes: "list_all (\<lambda>r. r \<noteq> CR \<and> (newlines \<or> r \<noteq> NL)) (filterRunes rs newlines)"
  by (auto simp: filterRunes_def list_all_iff)

subsection \<open>Widths\<close>

lemma runeWidth_single [simp]: "runeWidth [c] = cellWidth c"
  by (simp add: runeWidth_def)

lemma runeWidth_pos [simp]: "0 < runeWidth r" and runeWidth_le [simp]: "runeWidth r \<le> 2"
  by (simp_all add: runeWidth_def)

lemma cellWidthOf_acc: "foldl (\<lambda>w r. w + runeWidth r) n rs = n + sum_list (map runeWidth rs)"
  by (induction rs arbitrary: n) simp_all

lemma cellWidthOf_sum: "cellWidthOf rs = sum_list (map runeWidth rs)"
  by (simp add: cellWidthOf_def cellWidthOf_acc)

definition single :: "ustr list \<Rightarrow> bool" where
  "single rs \<longleftrightarrow> list_all (\<lambda>r. length r = 1) rs"

lemma single_simps [simp]:
  "single []" "single (r # rs) \<longleftrightarrow> length r = 1 \<and> single rs" "single (rs @ qs) \<longleftrightarrow> single rs \<and> single qs"
  "single rs \<Longrightarrow> single (take n rs)" "single rs \<Longrightarrow> single (drop n rs)" "single (runes_of v)"
  by (simp_all add: single_def runes_of_def list_all_iff)
    (auto dest: in_set_takeD in_set_dropD)

lemma cellWidthOf_single: "single rs \<Longrightarrow> cellWidthOf rs = displayWidth (concat rs)"
  by (induction rs) (auto simp: cellWidthOf_sum runeWidth_def length_Suc_conv)

lemma displayWidth_padTo: "0 \<le> w \<Longrightarrow> displayWidth (padTo s w) = w"
  using truncate_width [of w s] by (simp add: padTo_def Let_def)

lemma cursorCellWidth_bounds: "1 \<le> cursorCellWidth rs c" "cursorCellWidth rs c \<le> 2"
  using runeWidth_pos [of "rs ! nat c"] by (auto simp: cursorCellWidth_def simp del: runeWidth_pos)

text \<open>The loop ends with the cursor cell inside the window.\<close>

lemma scroll_to_spec:
  assumes "o' \<le> c"
  shows "o' \<le> scroll_to rs w c o' \<and> scroll_to rs w c o' \<le> c \<and>
    (2 \<le> w \<longrightarrow> cellWidthOf (js_slice rs (scroll_to rs w c o') c) + cursorCellWidth rs c \<le> w)"
  using assms
proof (induction rs w c o' rule: scroll_to.induct)
  case (1 rs w c k)
  show ?case
  proof (cases "k < c \<and> w < cellWidthOf (js_slice rs k c) + cursorCellWidth rs c")
    case True
    then have "scroll_to rs w c k = scroll_to rs w c (k + 1)" by (simp add: scroll_to.simps [of rs w c k])
    then show ?thesis using "1.IH" True by simp
  next
    case False
    then have k: "scroll_to rs w c k = k" by (subst scroll_to.simps) auto
    have "cellWidthOf (js_slice rs k c) + cursorCellWidth rs c \<le> w" if "2 \<le> w"
    proof (cases "k < c")
      case True
      then show ?thesis using False by simp
    next
      case False
      then have "js_slice rs k c = []" using "1.prems" by (simp add: js_slice_def)
      then show ?thesis using cursorCellWidth_bounds(2) [of rs c] that by (simp add: cellWidthOf_def)
    qed
    then show ?thesis using "1.prems" by (simp add: k)
  qed
qed

lemma truncate_cells_runes: "truncate_cells (runes_of v) cells w = runes_of (truncate_loop v cells w)"
  by (induction v cells w rule: truncate_loop.induct) (simp_all add: runes_of_def)

lemma truncateRunesToCells_runes: "truncateRunesToCells (runes_of v) w = runes_of (Builder.truncate v w)"
  by (simp add: truncateRunesToCells_def Builder.truncate_def truncate_cells_runes) (simp add: runes_of_def)

lemma concat_runes_of [simp]: "concat (runes_of v) = v" "length (runes_of v) = length v"
  "take n (runes_of v) = runes_of (take n v)" "drop n (runes_of v) = runes_of (drop n v)"
  by (simp_all add: runes_of_def take_map drop_map)

lemma nth_runes_of [simp]: "i < length v \<Longrightarrow> runes_of v ! i = [v ! i]"
  by (simp add: runes_of_def)

lemma cellWidthOf_runes_of [simp]: "cellWidthOf (runes_of v) = displayWidth v"
  by (simp add: cellWidthOf_single)

lemma cellWidthOf_nonneg [simp]: "0 \<le> cellWidthOf rs"
  unfolding cellWidthOf_sum by (rule sum_list_nonneg) (auto intro: less_imp_le)

subsection \<open>The drawn spans\<close>

lemma own_text_styled [simp]: "own_text (styled_text v st) = v"
  by (simp add: styled_text_def)

lemma texts_span_boxes: "concat (map own_text (span_boxes e (pre, c, post))) = pre @ c @ post"
  by (simp add: span_boxes_def)

lemma texts_pad_boxes: "0 < w \<Longrightarrow> concat (map own_text (pad_boxes w used)) = replicate (nat (w - used)) 32"
  by (simp add: pad_boxes_def)

lemma cursor_spans_width:
  assumes w: "0 < w" and "single visible" and rel: "0 \<le> rel" "rel \<le> int (length visible)"
    and fit: "displayWidth (concat (take (nat rel) visible)) + cursorCellWidth visible rel \<le> w"
    and spans: "cursor_spans w visible rel = (pre, c, post)"
  shows "pre = concat (take (nat rel) visible)" and "displayWidth c = cursorCellWidth visible rel"
    and "displayWidth pre + displayWidth c + displayWidth post \<le> w"
proof -
  show pre: "pre = concat (take (nat rel) visible)" using spans by (simp add: cursor_spans_def Let_def)
  have c_eq: "c = (case drop (nat rel) visible of [] \<Rightarrow> [32] | r # rs \<Rightarrow> r)"
    using spans by (simp add: cursor_spans_def Let_def)
  show c: "displayWidth c = cursorCellWidth visible rel"
  proof (cases "rel < int (length visible)")
    case True
    then have d: "drop (nat rel) visible = visible ! nat rel # drop (Suc (nat rel)) visible"
      using rel by (simp add: Cons_nth_drop_Suc)
    have "length (visible ! nat rel) = 1"
      using assms(2) True rel by (simp add: single_def list_all_length)
    then have "displayWidth (visible ! nat rel) = runeWidth (visible ! nat rel)"
      by (auto simp: length_Suc_conv runeWidth_def)
    then show ?thesis using True rel by (simp add: c_eq d cursorCellWidth_def)
  next
    case False
    then show ?thesis using rel by (simp add: c_eq cursorCellWidth_def)
  qed
  have "post = Builder.truncate (concat (drop 1 (drop (nat rel) visible))) (w - displayWidth pre - displayWidth c)"
    using spans w unfolding cursor_spans_def Let_def by auto
  moreover have "0 \<le> w - displayWidth pre - displayWidth c" using fit unfolding pre c by linarith
  ultimately have "displayWidth post \<le> w - displayWidth pre - displayWidth c" by (simp add: truncate_width)
  then show "displayWidth pre + displayWidth c + displayWidth post \<le> w" by simp
qed

lemma cursorCellWidth_drop:
  "0 \<le> s \<Longrightarrow> s \<le> c \<Longrightarrow> c \<le> int (length rs) \<Longrightarrow> cursorCellWidth (drop (nat s) rs) (c - s) = cursorCellWidth rs c"
  by (auto simp: cursorCellWidth_def nat_diff_distrib)

end
