(* ===== verification/TextArea.thy ===== *)
theory TextArea
  imports TextEditor
begin

text \<open>
  The multi-line editor: class \<open>TextArea\<close> of \<open>clients/tui/sdk/ts/src/widgets/input.js\<close>. Lines are the
  pieces of the value between line feeds; \<open>rowCol\<close> and \<open>lineBounds\<close> compute positions in them with
  their own loops, which are shown here to agree with the split text.
\<close>

section \<open>Definitions\<close>

record text_area = editor +
  ta_height :: int
  ta_rowOffset :: int
  ta_colOffset :: int

definition new_TextArea :: "options \<Rightarrow> text_area" where
  "new_TextArea opts = editor.extend (editor_of opts)
     (text_area.fields (or_else 0 (op_height opts)) (or_else 0 (op_rowOffset opts)) (or_else 0 (op_colOffset opts)))"

text \<open>\<open>s.split('\n')\<close>: never empty.\<close>

fun split_nl :: "ustr \<Rightarrow> ustr list" where
  "split_nl [] = [[]]"
| "split_nl (c # s) = (if c = NL then [] # split_nl s else (c # hd (split_nl s)) # tl (split_nl s))"

text \<open>\<open>s.replace(/\r\n/g, '\n')\<close>.\<close>

fun crlf :: "ustr \<Rightarrow> ustr" where
  "crlf [] = []"
| "crlf [c] = [c]"
| "crlf (c # d # s) = (if c = CR \<and> d = NL then NL # crlf s else c # crlf (d # s))"

definition ta_text :: "text_area \<Rightarrow> ustr" where
  "ta_text e = ed_value e"

definition ta_lines :: "text_area \<Rightarrow> ustr list" where
  "ta_lines e = split_nl (ta_text e)"

definition ta_line :: "int \<Rightarrow> text_area \<Rightarrow> ustr" where
  "ta_line r e = (if r < 0 \<or> int (length (ta_lines e)) \<le> r then [] else ta_lines e ! nat r)"

definition rowCol_loop :: "ustr \<Rightarrow> nat \<Rightarrow> int \<times> int" where
  "rowCol_loop v n = foldl (\<lambda>(r, start) i. if v ! i = NL then (r + 1, int i + 1) else (r, start)) (0, 0) [0..<n]"

definition rowCol :: "text_area \<Rightarrow> int \<times> int" where
  "rowCol e =
     (let cursor = clampCursor (ed_cursor e) (vlen e)
      in case rowCol_loop (ed_value e) (nat cursor) of (r, start) \<Rightarrow> (r, cursor - start))"

definition ta_setValue :: "ustr \<Rightarrow> text_area \<Rightarrow> text_area" where
  "ta_setValue s e = ed_setRunes (filterRunes (crlf s) True) e"

definition ta_insertRune :: "nat \<Rightarrow> text_area \<Rightarrow> bool \<times> text_area" where
  "ta_insertRune r e = ed_insertRune (\<lambda>r. r = CR) r e"

definition ta_insertString :: "ustr \<Rightarrow> text_area \<Rightarrow> bool \<times> text_area" where
  "ta_insertString s e = ed_insertRunes (filterRunes (crlf s) True) e"

definition ta_backspace :: "text_area \<Rightarrow> bool \<times> text_area" where "ta_backspace = ed_backspace"
definition ta_delete :: "text_area \<Rightarrow> bool \<times> text_area" where "ta_delete = ed_delete"
definition ta_deleteWordLeft :: "(nat \<Rightarrow> bool) \<Rightarrow> text_area \<Rightarrow> bool \<times> text_area" where "ta_deleteWordLeft = ed_deleteWordLeft"
definition ta_left :: "text_area \<Rightarrow> bool \<times> text_area" where "ta_left = ed_left"
definition ta_right :: "text_area \<Rightarrow> bool \<times> text_area" where "ta_right = ed_right"
definition ta_wordLeft :: "(nat \<Rightarrow> bool) \<Rightarrow> text_area \<Rightarrow> bool \<times> text_area" where "ta_wordLeft = ed_wordLeft"
definition ta_wordRight :: "(nat \<Rightarrow> bool) \<Rightarrow> text_area \<Rightarrow> bool \<times> text_area" where "ta_wordRight = ed_wordRight"

text \<open>\<open>bounds[bounds.length - 1][1] = i\<close>\<close>

definition set_end :: "(int \<times> int) list \<Rightarrow> nat \<Rightarrow> (int \<times> int) list" where
  "set_end bounds i = butlast bounds @ [(fst (last bounds), int i)]"

definition bounds_loop :: "ustr \<Rightarrow> nat \<Rightarrow> (int \<times> int) list" where
  "bounds_loop v n =
     foldl (\<lambda>bounds i. if v ! i = NL then set_end bounds i @ [(int i + 1, int i + 1)] else bounds) [(0, 0)] [0..<n]"

definition lineBounds :: "text_area \<Rightarrow> (int \<times> int) list" where
  "lineBounds e = set_end (bounds_loop (ed_value e) (length (ed_value e))) (length (ed_value e))"

definition ta_up :: "text_area \<Rightarrow> bool \<times> text_area" where
  "ta_up e =
     (case rowCol e of (r, col) \<Rightarrow>
        if r = 0 then (False, e)
        else case lineBounds e ! nat (r - 1) of (start, end') \<Rightarrow>
               (True, e\<lparr>ed_cursor := clampCursor (start + col) end'\<rparr>))"

definition ta_down :: "text_area \<Rightarrow> bool \<times> text_area" where
  "ta_down e =
     (case rowCol e of (r, col) \<Rightarrow>
        if int (length (lineBounds e)) - 1 \<le> r then (False, e)
        else case lineBounds e ! nat (r + 1) of (start, end') \<Rightarrow>
               (True, e\<lparr>ed_cursor := clampCursor (start + col) end'\<rparr>))"

definition ta_home :: "text_area \<Rightarrow> bool \<times> text_area" where
  "ta_home e = (let start = fst (lineBounds e ! nat (fst (rowCol e))) in (ed_cursor e \<noteq> start, e\<lparr>ed_cursor := start\<rparr>))"

definition ta_end :: "text_area \<Rightarrow> bool \<times> text_area" where
  "ta_end e = (let end' = snd (lineBounds e ! nat (fst (rowCol e))) in (ed_cursor e \<noteq> end', e\<lparr>ed_cursor := end'\<rparr>))"

definition pageHeight :: "text_area \<Rightarrow> int" where
  "pageHeight e = (if 1 < ta_height e then ta_height e else 1)"

fun page_loop :: "(text_area \<Rightarrow> bool \<times> text_area) \<Rightarrow> nat \<Rightarrow> bool \<Rightarrow> text_area \<Rightarrow> bool \<times> text_area" where
  "page_loop move 0 moved e = (moved, e)"
| "page_loop move (Suc n) moved e =
     (case move e of (ok, e') \<Rightarrow> if \<not> ok then (moved, e') else page_loop move n True e')"

definition ta_pageUp :: "text_area \<Rightarrow> bool \<times> text_area" where
  "ta_pageUp e = page_loop ta_up (nat (pageHeight e)) False e"

definition ta_pageDown :: "text_area \<Rightarrow> bool \<times> text_area" where
  "ta_pageDown e = page_loop ta_down (nat (pageHeight e)) False e"

definition ta_handleKey :: "(nat \<Rightarrow> bool) \<Rightarrow> key_event option \<Rightarrow> text_area \<Rightarrow> bool \<times> text_area" where
  "ta_handleKey letter event e =
     (case event of None \<Rightarrow> (False, e) | Some ev \<Rightarrow>
        let k = ke_key ev in
        if k = asc ''left'' then (True, snd (ta_left e))
        else if k = asc ''right'' then (True, snd (ta_right e))
        else if k = asc ''up'' then (True, snd (ta_up e))
        else if k = asc ''down'' then (True, snd (ta_down e))
        else if k = asc ''home'' \<or> k = asc ''ctrl-a'' then (True, snd (ta_home e))
        else if k = asc ''end'' \<or> k = asc ''ctrl-e'' then (True, snd (ta_end e))
        else if k = asc ''page-up'' then (True, snd (ta_pageUp e))
        else if k = asc ''page-down'' then (True, snd (ta_pageDown e))
        else if k = asc ''backspace'' then (True, snd (ta_backspace e))
        else if k = asc ''delete'' then (True, snd (ta_delete e))
        else if k = asc ''ctrl-left'' \<or> k = asc ''alt-left'' \<or> k = asc ''ctrl-b'' then (True, snd (ta_wordLeft letter e))
        else if k = asc ''ctrl-right'' \<or> k = asc ''alt-right'' \<or> k = asc ''ctrl-f'' then (True, snd (ta_wordRight letter e))
        else if k = asc ''ctrl-w'' \<or> k = asc ''alt-backspace'' then (True, snd (ta_deleteWordLeft letter e))
        else if k = asc ''enter'' \<or> k = asc ''ctrl-j'' \<or> k = asc ''ctrl-m'' then (True, snd (ta_insertRune NL e))
        else (case printableRune ev of
                Some r \<Rightarrow> (True, snd (ta_insertRune r e))
              | None \<Rightarrow> (False, e)))"

definition ta_displayRunes :: "text_area \<Rightarrow> ustr list" where
  "ta_displayRunes e =
     (if ed_mask e = [] then runes_of (ed_value e) else map (\<lambda>r. if r = NL then [r] else ed_mask e) (ed_value e))"

definition visibleHeight :: "int \<Rightarrow> text_area \<Rightarrow> int" where
  "visibleHeight n e =
     (let height = (if ta_height e \<le> 0 then n else ta_height e)
      in if height < 0 then 0 else if n < height then n else height)"

definition visibleRowOffset :: "int \<Rightarrow> text_area \<Rightarrow> int" where
  "visibleRowOffset n e =
     (let height = visibleHeight n e; cursorRow = fst (rowCol e)
      in if height \<le> 0 then 0
         else let offset = (if cursorRow < ta_rowOffset e then cursorRow else ta_rowOffset e);
                  offset = (if offset + height \<le> cursorRow then cursorRow - height + 1 else offset);
                  offset = (if n - height < offset then n - height else offset)
              in if offset < 0 then 0 else offset)"

definition lineRunes :: "ustr list \<Rightarrow> int \<Rightarrow> ustr list" where
  "lineRunes ls r = (if r < 0 \<or> int (length ls) \<le> r then [] else runes_of (ls ! nat r))"

definition colWindow :: "ustr list \<Rightarrow> int \<Rightarrow> int \<Rightarrow> text_area \<Rightarrow> int \<times> int" where
  "colWindow ls cursorRow cursorCol e =
     (let line = lineRunes ls cursorRow; n = int (length line)
      in if ed_width e \<le> 0 then (0, cellWidthOf (js_slice line 0 (clampCursor cursorCol n)))
         else let offset = (if ta_colOffset e < 0 then 0 else ta_colOffset e);
                  offset = (if cursorCol < offset then cursorCol else offset);
                  offset = (if n < offset then n else offset);
                  offset = scroll_to line (ed_width e) cursorCol offset;
                  offset = (if cursorCol < offset then cursorCol else offset)
              in (offset, cellWidthOf (js_slice line offset (clampCursor cursorCol n))))"

definition lineBox :: "ustr list \<Rightarrow> bool \<Rightarrow> int \<Rightarrow> int \<Rightarrow> text_area \<Rightarrow> box" where
  "lineBox line cursorLine cursorCol offset e =
     (let node = n_height 1 (row_node []);
          node = (if 0 < ed_width e then n_width (ed_width e) node else node);
          start = clampCursor offset (int (length line));
          visible = drop (nat start) line;
          visible = (if 0 < ed_width e then truncateRunesToCells visible (ed_width e) else visible)
      in if \<not> cursorLine \<or> \<not> ed_focused e then
           let value = (if 0 < ed_width e then padTo (concat visible) (ed_width e) else concat visible)
           in if value \<noteq> [] then n_child [styled_text value (ed_style e)] node else node
         else
           let rel = clampCursor (cursorCol - start) (int (length visible));
               spans = cursor_spans (ed_width e) visible rel;
               used = (case spans of (pre, cursorText, postText) \<Rightarrow>
                 displayWidth pre + displayWidth cursorText + displayWidth postText);
               padding = (if used < ed_width e then [text_node (replicate (nat (ed_width e - used)) 32)] else [])
           in n_child (span_boxes e spans @ padding) node)"

definition ta_build :: "text_area \<Rightarrow> box" where
  "ta_build e =
     (let col = new_Node (Some (asc ''col''));
          col = (if ed_id e \<noteq> [] then n_id (ed_id e) col else col);
          col = n_input (ed_inputs e) (n_focused (ed_focused e) col);
          col = (if 0 < ed_width e then n_width (ed_width e) col else col);
          col = (if 0 < ta_height e then n_height (ta_height e) col else col)
      in if ed_value e = [] \<and> ed_placeholder e \<noteq> [] then
           let value = (if 0 < ed_width e then padTo (ed_placeholder e) (ed_width e) else ed_placeholder e);
               col = n_child [styled_text value (ed_placeholderStyle e)] col
           in if ed_focused e then n_cursor 0 0 (cursorShape (ed_cursorShape e)) None col else col
         else
           let ls = split_nl (concat (ta_displayRunes e)); n = int (length ls)
           in case rowCol e of (cursorRow, cursorCol) \<Rightarrow>
              let offset = visibleRowOffset n e
              in case colWindow ls cursorRow cursorCol e of (colOffset, cursorDisplayCol) \<Rightarrow>
                 let height = visibleHeight (n - offset) e;
                     rows = map (\<lambda>i. lineBox (runes_of (ls ! nat (offset + int i))) (offset + int i = cursorRow)
                       cursorCol colOffset e) [0..<nat height];
                     col = (if rows = [] then col else n_child rows col)
                 in if ed_focused e then
                      n_cursor (if cursorRow - offset < 0 then 0 else cursorRow - offset) cursorDisplayCol
                        (cursorShape (ed_cursorShape e)) None col
                    else col)"

section \<open>Lines and positions\<close>

lemma split_nl_ne [simp]: "split_nl s \<noteq> []"
  by (cases s) simp_all

lemma split_nl_append:
  "split_nl (s @ t) = butlast (split_nl s) @ (last (split_nl s) @ hd (split_nl t)) # tl (split_nl t)"
proof (induction s)
  case (Cons c s)
  obtain l ls where l: "split_nl s = l # ls" by (cases "split_nl s") simp_all
  show ?case using Cons.IH by (cases ls) (auto simp: l)
qed simp

lemma split_nl_snoc:
  "split_nl (s @ [c]) = (if c = NL then split_nl s @ [[]] else butlast (split_nl s) @ [last (split_nl s) @ [c]])"
  by (simp add: split_nl_append)

lemma length_split_nl: "length (split_nl s) = Suc (count_list s NL)"
  by (induction s) simp_all

text \<open>The length of the text up to and including the line feeds of these lines.\<close>

definition span_of :: "ustr list \<Rightarrow> nat" where
  "span_of ls = sum_list (map (\<lambda>l. Suc (length l)) ls)"

lemma span_of_simps [simp]:
  "span_of [] = 0" "span_of (l # ls) = Suc (length l + span_of ls)" "span_of (ks @ ls) = span_of ks + span_of ls"
  by (simp_all add: span_of_def)

lemma span_of_split_nl: "span_of (split_nl s) = Suc (length s)"
proof (induction s)
  case (Cons c s)
  then show ?case by (cases "split_nl s") auto
qed simp

lemma split_nl_prefix:
  assumes "n \<le> length v" and "S = split_nl (take n v)"
  shows "take (length S - 1) (split_nl v) = butlast S" "length S - 1 < length (split_nl v)"
    "take (length (last S)) (split_nl v ! (length S - 1)) = last S" "n = span_of (butlast S) + length (last S)"
proof -
  have v: "split_nl v = butlast S @ (last S @ hd (split_nl (drop n v))) # tl (split_nl (drop n v))"
    using split_nl_append [of "take n v" "drop n v"] assms(2) by simp
  show "take (length S - 1) (split_nl v) = butlast S" "length S - 1 < length (split_nl v)"
    "take (length (last S)) (split_nl v ! (length S - 1)) = last S"
    by (simp_all add: v nth_append)
  have "S = butlast S @ [last S]" using assms(2) by simp
  then have "span_of S = span_of (butlast S) + Suc (length (last S))" by (metis add_0_right span_of_simps add_Suc_right)
  then show "n = span_of (butlast S) + length (last S)" using assms span_of_split_nl [of "take n v"] by simp
qed

lemma split_nl_position:
  "r < length (split_nl v) \<Longrightarrow> k \<le> length (split_nl v ! r) \<Longrightarrow>
   span_of (take r (split_nl v)) + k \<le> length v \<and>
   split_nl (take (span_of (take r (split_nl v)) + k) v) = take r (split_nl v) @ [take k (split_nl v ! r)]"
proof (induction v arbitrary: r k)
  case (Cons c v)
  obtain l ls where l: "split_nl v = l # ls" by (cases "split_nl v") simp_all
  show ?case
  proof (cases r)
    case 0
    show ?thesis
    proof (cases "c = NL \<or> k = 0")
      case True
      then show ?thesis using Cons.prems 0 by auto
    next
      case False
      then obtain k' where k: "k = Suc k'" by (cases k) auto
      show ?thesis using Cons.IH [of 0 k'] Cons.prems 0 False by (simp add: k l)
    qed
  next
    case (Suc q)
    show ?thesis
    proof (cases "c = NL")
      case True
      then show ?thesis using Cons.IH [of q k] Cons.prems Suc by simp
    next
      case False
      then show ?thesis using Cons.IH [of r k] Cons.prems Suc by (simp add: l)
    qed
  qed
qed simp

lemma rowCol_loop_split:
  "n \<le> length v \<Longrightarrow> rowCol_loop v n =
     (int (length (split_nl (take n v))) - 1, int n - int (length (last (split_nl (take n v)))))"
proof (induction n)
  case 0
  then show ?case by (simp add: rowCol_loop_def)
next
  case (Suc n)
  have "rowCol_loop v (Suc n) = (case rowCol_loop v n of (r, start) \<Rightarrow> if v ! n = NL then (r + 1, int n + 1) else (r, start))"
    by (simp add: rowCol_loop_def split: prod.split)
  then show ?case using Suc by (simp add: take_Suc_conv_app_nth split_nl_snoc)
qed

text \<open>The bounds of consecutive lines from position \<open>k\<close>.\<close>

fun bounds_from :: "nat \<Rightarrow> ustr list \<Rightarrow> (int \<times> int) list" where
  "bounds_from k [] = []"
| "bounds_from k (l # ls) = (int k, int (k + length l)) # bounds_from (k + Suc (length l)) ls"

lemma bounds_from_append [simp]: "bounds_from k (xs @ ys) = bounds_from k xs @ bounds_from (k + span_of xs) ys"
  by (induction k xs rule: bounds_from.induct) (simp_all add: add.assoc)

lemma length_bounds_from [simp]: "length (bounds_from k ls) = length ls"
  by (induction k ls rule: bounds_from.induct) simp_all

lemma nth_bounds_from:
  "i < length ls \<Longrightarrow> bounds_from k ls ! i = (int (k + span_of (take i ls)), int (k + span_of (take i ls) + length (ls ! i)))"
proof (induction k ls arbitrary: i rule: bounds_from.induct)
  case (2 k l ls)
  then show ?case by (cases i) simp_all
qed simp

lemma set_end_set_end [simp]: "set_end (set_end bs i) j = set_end bs j"
  by (simp add: set_end_def)

lemma set_end_snoc [simp]: "set_end (bs @ [(a, b)]) i = bs @ [(a, int i)]"
  by (simp add: set_end_def)

lemma bounds_loop_split: "n \<le> length v \<Longrightarrow> set_end (bounds_loop v n) n = bounds_from 0 (split_nl (take n v))"
proof (induction n)
  case 0
  then show ?case by (simp add: bounds_loop_def set_end_def)
next
  case (Suc n)
  let ?S = "split_nl (take n v)"
  have IH: "set_end (bounds_loop v n) n = bounds_from 0 ?S" using Suc by simp
  have loop: "bounds_loop v (Suc n) = (if v ! n = NL then set_end (bounds_loop v n) n @ [(int n + 1, int n + 1)] else bounds_loop v n)"
    by (simp add: bounds_loop_def)
  have S: "bounds_from 0 ?S = bounds_from 0 (butlast ?S) @ bounds_from (span_of (butlast ?S)) [last ?S]"
    by (metis append_butlast_last_id bounds_from_append add_0 split_nl_ne)
  have n: "n = span_of (butlast ?S) + length (last ?S)" using split_nl_prefix(4) [OF _ refl, of n v] Suc.prems by simp
  show ?case
  proof (cases "v ! n = NL")
    case True
    then show ?thesis using Suc.prems IH
      by (simp add: loop take_Suc_conv_app_nth split_nl_snoc span_of_split_nl min_absorb2)
  next
    case False
    then have "set_end (bounds_loop v (Suc n)) (Suc n) = set_end (bounds_from 0 ?S) (Suc n)"
      using IH set_end_set_end [of "bounds_loop v n" n "Suc n"] by (simp add: loop)
    also have "\<dots> = bounds_from 0 (butlast ?S) @ [(int (span_of (butlast ?S)), int (Suc n))]" by (simp add: S)
    finally show ?thesis using False Suc.prems n
      by (simp add: take_Suc_conv_app_nth split_nl_snoc)
  qed
qed

lemma lineBounds_split: "lineBounds e = bounds_from 0 (ta_lines e)"
  using bounds_loop_split [of "length (ed_value e)" "ed_value e"] by (simp add: lineBounds_def ta_lines_def ta_text_def)

text \<open>Where the cursor is, and where it is after it has been put on column \<open>k\<close> of line \<open>r\<close>.\<close>

lemma rowCol_split:
  assumes "ed_cursor (clamped e) = int n" and "n \<le> length (ed_value e)"
  shows "rowCol e = (int (length (split_nl (take n (ed_value e)))) - 1, int (length (last (split_nl (take n (ed_value e))))))"
  using assms rowCol_loop_split [OF assms(2)] by (simp add: rowCol_def Let_def clamped_def)

lemma rowCol_cases:
  obtains r k where "rowCol e = (int r, int k)" and "r < length (ta_lines e)" and "k \<le> length (ta_lines e ! r)"
    and "split_nl (take (nat (ed_cursor (clamped e))) (ed_value e)) = take r (ta_lines e) @ [take k (ta_lines e ! r)]"
proof -
  obtain n where n: "ed_cursor (clamped e) = int n" "n \<le> length (ed_value e)" by (rule clamped_cases)
  define S where "S = split_nl (take n (ed_value e))"
  have ne: "S \<noteq> []" by (simp add: S_def)
  note S = split_nl_prefix [OF n(2) S_def, folded ta_text_def, folded ta_lines_def]
  have "rowCol e = (int (length S - 1), int (length (last S)))"
    using rowCol_split [OF n, folded S_def] ne by (simp add: of_nat_diff Suc_le_eq)
  moreover have "length (last S) \<le> length (ta_lines e ! (length S - 1))"
    using S(3) by (metis length_take min.cobounded1 min.commute)
  moreover have "S = take (length S - 1) (ta_lines e) @ [take (length (last S)) (ta_lines e ! (length S - 1))]"
    unfolding S(1,3) using ne by simp
  ultimately show ?thesis using that [of "length S - 1" "length (last S)"] S(2) n(1) by (simp add: S_def)
qed

lemma ta_lines_cursor [simp]: "ta_lines (e\<lparr>ed_cursor := c\<rparr>) = ta_lines e"
  by (simp add: ta_lines_def ta_text_def)

lemma rowCol_put:
  assumes "r < length (ta_lines e)" and "k \<le> length (ta_lines e ! r)"
  shows "rowCol (e\<lparr>ed_cursor := int (span_of (take r (ta_lines e)) + k)\<rparr>) = (int r, int k)"
proof -
  define n where "n = span_of (take r (ta_lines e)) + k"
  note pos = split_nl_position [of r "ed_value e" k, folded ta_text_def, folded ta_lines_def, OF assms, folded n_def, unfolded ta_text_def]
  have "rowCol (e\<lparr>ed_cursor := int n\<rparr>) =
      (int (length (split_nl (take n (ed_value e)))) - 1, int (length (last (split_nl (take n (ed_value e))))))"
    using pos by (subst rowCol_split [of _ n]) (simp_all add: clamped_def vlen_def)
  then show ?thesis using pos assms by (simp add: n_def [symmetric])
qed

lemma lineBounds_nth:
  "r < length (ta_lines e) \<Longrightarrow> lineBounds e ! r =
     (int (span_of (take r (ta_lines e))), int (span_of (take r (ta_lines e)) + length (ta_lines e ! r)))"
  by (simp add: lineBounds_split nth_bounds_from)

lemma clampCursor_column: "clampCursor (int s + int k) (int (s + m)) = int (s + min k m)"
  by (simp add: clampCursor_def min_def)

lemma ta_up_spec:
  assumes "rowCol e = (int r, int k)" and "r < length (ta_lines e)"
  shows "ta_up e = (if r = 0 then (False, e)
    else (True, e\<lparr>ed_cursor := int (span_of (take (r - 1) (ta_lines e)) + min k (length (ta_lines e ! (r - 1))))\<rparr>))"
proof (cases r)
  case (Suc q)
  then show ?thesis using assms by (simp add: ta_up_def lineBounds_nth clampCursor_column del: of_nat_add)
qed (simp add: ta_up_def assms)

lemma ta_down_spec:
  assumes "rowCol e = (int r, int k)"
  shows "ta_down e = (if length (ta_lines e) \<le> Suc r then (False, e)
    else (True, e\<lparr>ed_cursor := int (span_of (take (Suc r) (ta_lines e)) + min k (length (ta_lines e ! Suc r)))\<rparr>))"
proof -
  have "nat (int r + 1) = Suc r" by simp
  then show ?thesis using assms
    by (simp add: ta_down_def lineBounds_nth clampCursor_column del: of_nat_add) (simp add: lineBounds_split)
qed

lemma ta_home_spec: "rowCol e = (int r, int k) \<Longrightarrow> r < length (ta_lines e) \<Longrightarrow>
    snd (ta_home e) = e\<lparr>ed_cursor := int (span_of (take r (ta_lines e)) + 0)\<rparr>"
  by (simp add: ta_home_def lineBounds_nth Let_def)

lemma ta_end_spec: "rowCol e = (int r, int k) \<Longrightarrow> r < length (ta_lines e) \<Longrightarrow>
    snd (ta_end e) = e\<lparr>ed_cursor := int (span_of (take r (ta_lines e)) + length (ta_lines e ! r))\<rparr>"
  by (simp add: ta_end_def lineBounds_nth Let_def)

text \<open>Moving by lines does not change the text.\<close>

lemma ta_lines_moves [simp]:
  "ta_lines (snd (ta_up e)) = ta_lines e" "ta_lines (snd (ta_down e)) = ta_lines e"
  by (simp_all add: ta_up_def ta_down_def split: prod.split)

lemma page_up_row:
  "fst (rowCol (snd (page_loop ta_up n moved e))) = max 0 (fst (rowCol e) - int n)"
proof (induction n arbitrary: moved e)
  case 0
  show ?case by (rule rowCol_cases [of e]) simp
next
  case (Suc n)
  show ?case
  proof (rule rowCol_cases [of e])
    fix r k
    assume rk: "rowCol e = (int r, int k)" "r < length (ta_lines e)"
    show ?thesis
    proof (cases r)
      case 0
      then show ?thesis using rk by (simp add: ta_up_spec [OF rk])
    next
      case (Suc q)
      then have "rowCol (snd (ta_up e)) = (int q, int (min k (length (ta_lines e ! q))))"
        using rk rowCol_put [of q e "min k (length (ta_lines e ! q))"] by (simp add: ta_up_spec [OF rk])
      then show ?thesis using rk Suc Suc.IH [of True "snd (ta_up e)"] by (simp add: ta_up_spec [OF rk])
    qed
  qed
qed

lemma page_down_row:
  "fst (rowCol (snd (page_loop ta_down n moved e))) = min (int (length (ta_lines e)) - 1) (fst (rowCol e) + int n)"
proof (induction n arbitrary: moved e)
  case 0
  show ?case by (rule rowCol_cases [of e]) simp
next
  case (Suc n)
  show ?case
  proof (rule rowCol_cases [of e])
    fix r k
    assume rk: "rowCol e = (int r, int k)" "r < length (ta_lines e)"
    show ?thesis
    proof (cases "length (ta_lines e) \<le> Suc r")
      case True
      then show ?thesis using rk by (simp add: ta_down_spec [OF rk(1)])
    next
      case False
      then have "rowCol (snd (ta_down e)) = (int (Suc r), int (min k (length (ta_lines e ! Suc r))))"
        using rk rowCol_put [of "Suc r" e "min k (length (ta_lines e ! Suc r))"] by (simp add: ta_down_spec [OF rk(1)])
      then show ?thesis using rk False Suc.IH [of True "snd (ta_down e)"] by (simp add: ta_down_spec [OF rk(1)])
    qed
  qed
qed

section \<open>The invariant of a text area\<close>

definition ta_inv :: "text_area \<Rightarrow> bool" where
  "ta_inv e = ed_ok (\<lambda>r. r \<noteq> CR) e"

definition ta_step :: "(nat \<Rightarrow> bool) \<Rightarrow> text_area \<Rightarrow> ed_event \<Rightarrow> text_area" where
  "ta_step letter e event =
     (case event of Key ev \<Rightarrow> snd (ta_handleKey letter ev e)
      | PasteText s \<Rightarrow> snd (ta_insertString s e)
      | SetText s \<Rightarrow> ta_setValue s e)"

lemma ta_inv_put:
  assumes "ta_inv e" and "r < length (ta_lines e)" and "k \<le> length (ta_lines e ! r)"
  shows "ta_inv (e\<lparr>ed_cursor := int (span_of (take r (ta_lines e)) + k)\<rparr>)"
  using assms split_nl_position [of r "ed_value e" k]
  by (auto simp: ta_inv_def vlen_def ta_lines_def ta_text_def simp del: of_nat_add intro!: ed_ok_cursor)

lemma ta_inv_vertical:
  assumes "ta_inv e"
  shows "ta_inv (snd (ta_up e))" "ta_inv (snd (ta_down e))" "ta_inv (snd (ta_home e))" "ta_inv (snd (ta_end e))"
proof -
  obtain r k where rk: "rowCol e = (int r, int k)" "r < length (ta_lines e)" by (rule rowCol_cases)
  show "ta_inv (snd (ta_up e))" "ta_inv (snd (ta_down e))" "ta_inv (snd (ta_home e))" "ta_inv (snd (ta_end e))"
    using assms rk ta_inv_put [OF assms rk(2), of 0]
    by (simp_all add: ta_up_spec [OF rk] ta_down_spec [OF rk(1)] ta_home_spec [OF rk] ta_end_spec [OF rk] ta_inv_put
        del: of_nat_add)
qed

lemma page_loop_keeps:
  "(\<And>e. ta_inv e \<Longrightarrow> ta_inv (snd (move e))) \<Longrightarrow> ta_inv e \<Longrightarrow> ta_inv (snd (page_loop move n moved e))"
  by (induction n arbitrary: moved e) (simp_all split: prod.split, metis snd_conv)

lemma ta_inv_insertRune: "ta_inv e \<Longrightarrow> ta_inv (snd (ta_insertRune r e))"
  unfolding ta_inv_def ta_insertRune_def by (rule ed_ok_insertRune) auto

lemma ta_inv_keeps:
  assumes "ta_inv e"
  shows "ta_inv (snd (ta_left e))" "ta_inv (snd (ta_right e))" "ta_inv (snd (ta_backspace e))" "ta_inv (snd (ta_delete e))"
    "ta_inv (snd (ta_wordLeft letter e))" "ta_inv (snd (ta_wordRight letter e))" "ta_inv (snd (ta_deleteWordLeft letter e))"
    "ta_inv (snd (ta_pageUp e))" "ta_inv (snd (ta_pageDown e))"
  using assms
  by (simp_all add: ta_left_def ta_right_def ta_backspace_def ta_delete_def ta_wordLeft_def ta_wordRight_def
      ta_deleteWordLeft_def ta_pageUp_def ta_pageDown_def page_loop_keeps ta_inv_vertical)
    (simp_all add: ta_inv_def ed_keeps)

lemma ta_inv_handleKey: "ta_inv e \<Longrightarrow> ta_inv (snd (ta_handleKey letter event e))"
  unfolding ta_handleKey_def Let_def
  by (simp add: ta_inv_keeps ta_inv_vertical ta_inv_insertRune del: asc_simps split: option.split)

lemma ta_inv_step: "ta_inv e \<Longrightarrow> ta_inv (ta_step letter e event)"
proof -
  have P: "list_all (\<lambda>r. r \<noteq> CR) (filterRunes s True)" for s
    using list_all_filterRunes [of True s] by simp
  show "ta_inv e \<Longrightarrow> ta_inv (ta_step letter e event)"
    by (auto simp: ta_step_def ta_inv_handleKey ta_insertString_def ta_setValue_def split: ed_event.split)
      (auto simp: ta_inv_def intro!: ed_keeps P)
qed

interpretation ta: machine "new_TextArea (blank opts)" "ta_step letter" ta_inv for opts letter
proof unfold_locales
  show "ta_inv (new_TextArea (blank opts))"
    by (simp add: ta_inv_def ed_ok_def new_TextArea_def blank_def editor_of_def toRunes_def or_else_def vlen_def
        editor.defs text_area.defs)
qed (rule ta_inv_step)

section \<open>Rendering\<close>

lemma count_masked: "count_list v NL \<le> count_list (concat (map (\<lambda>r. if r = NL then [r] else m) v)) NL"
  by (induction v) auto

lemma length_display_lines: "length (ta_lines e) \<le> length (split_nl (concat (ta_displayRunes e)))"
  using count_masked [of "ed_value e" "ed_mask e"]
  by (simp add: ta_lines_def ta_text_def ta_displayRunes_def length_split_nl)

lemma visibleRowOffset_spec:
  assumes "rowCol e = (cr, cc)" and "0 \<le> cr" and "cr < n" and "k = visibleRowOffset n e"
  shows "0 \<le> k" "k \<le> cr" "cr < k + visibleHeight n e" "k + visibleHeight n e \<le> n" "visibleHeight (n - k) e = visibleHeight n e"
proof -
  have h: "1 \<le> visibleHeight n e" "visibleHeight n e \<le> n" using assms by (auto simp: visibleHeight_def Let_def)
  show k: "0 \<le> k" "k \<le> cr" "cr < k + visibleHeight n e" "k + visibleHeight n e \<le> n"
    using h assms by (auto simp: visibleRowOffset_def Let_def)
  show "visibleHeight (n - k) e = visibleHeight n e"
    using k h by (auto simp: visibleHeight_def Let_def split: if_splits)
qed

lemma js_slice_runes: "0 \<le> i \<Longrightarrow> js_slice (runes_of l) i j = runes_of (take (nat j - nat i) (drop (nat i) l))"
  by (simp add: js_slice_def)

text \<open>The window of the cursor line holds the cursor cell.\<close>

lemma colWindow_spec:
  assumes w: "2 \<le> ed_width e" and cc: "0 \<le> cc" and r: "0 \<le> r" "r < int (length ls)"
    and win: "colWindow ls r cc e = (off, col)" and line: "line = runes_of (ls ! nat r)"
  shows "0 \<le> off" "off \<le> cc" "cellWidthOf (js_slice line off cc) + cursorCellWidth line cc \<le> ed_width e"
    "0 \<le> col" "col < ed_width e"
proof -
  define k where "k = min (min (max 0 (ta_colOffset e)) cc) (int (length line))"
  have k: "k \<le> cc" "0 \<le> k" using cc by (simp_all add: k_def)
  have ln: "lineRunes ls r = line" using r line by (simp add: lineRunes_def)
  have s: "k \<le> scroll_to line (ed_width e) cc k" "scroll_to line (ed_width e) cc k \<le> cc"
    using scroll_to_spec [OF k(1)] by simp_all
  have offk: "off = scroll_to line (ed_width e) cc k" and col: "col = cellWidthOf (js_slice line off (clampCursor cc (int (length line))))"
  proof -
    have m: "(if int (length line) < (if cc < (if ta_colOffset e < 0 then 0 else ta_colOffset e) then cc else if ta_colOffset e < 0 then 0 else ta_colOffset e)
        then int (length line) else (if cc < (if ta_colOffset e < 0 then 0 else ta_colOffset e) then cc else if ta_colOffset e < 0 then 0 else ta_colOffset e)) = k"
      by (auto simp: k_def)
    show "off = scroll_to line (ed_width e) cc k" "col = cellWidthOf (js_slice line off (clampCursor cc (int (length line))))"
      using win w s unfolding colWindow_def Let_def ln m by auto
  qed
  show "0 \<le> off" "off \<le> cc" using s k by (simp_all add: offk)
  show fit: "cellWidthOf (js_slice line off cc) + cursorCellWidth line cc \<le> ed_width e"
    using scroll_to_spec [OF k(1), of line "ed_width e"] w by (simp add: offk)
  have "js_slice line off (clampCursor cc (int (length line))) = js_slice line off cc"
    using cc by (auto simp: js_slice_def clampCursor_def)
  then show "0 \<le> col" "col < ed_width e"
    using fit cursorCellWidth_bounds(1) [of line cc] unfolding col by simp_all
qed

lemma lineBox_plain:
  assumes "0 < ed_width e" and "\<not> cursorLine \<or> \<not> ed_focused e"
  shows "displayWidth (row_text (lineBox line cursorLine cc off e)) = ed_width e"
proof -
  have "padTo s (ed_width e) \<noteq> []" for s using displayWidth_padTo [of "ed_width e" s] assms(1) by auto
  then show ?thesis using assms unfolding lineBox_def Let_def if_P [OF assms(2)]
    by (simp add: row_text_def displayWidth_padTo)
qed

text \<open>Cutting the line to the width keeps the cursor cell.\<close>

lemma truncate_keeps_cursor:
  assumes "displayWidth (take m q) + cursorCellWidth (runes_of q) (int m) \<le> w" and "rel = min m (length (Builder.truncate q w))"
  shows "displayWidth (take rel (Builder.truncate q w)) + cursorCellWidth (runes_of (Builder.truncate q w)) (int rel) \<le> w"
proof (cases "m < length q")
  case True
  then have "cursorCellWidth (runes_of q) (int m) = cellWidth (q ! m)" by (simp add: cursorCellWidth_def)
  then have "displayWidth (take (Suc m) q) \<le> w" using assms(1) True by (simp add: take_Suc_conv_app_nth)
  then have len: "Suc m \<le> length (Builder.truncate q w)"
    using truncate_maximal [of "take (Suc m) q" q w] True by (simp add: take_is_prefix)
  obtain z where z: "q = Builder.truncate q w @ z" using truncate_prefix [of q w] by (auto simp: prefix_def)
  have "take m (Builder.truncate q w) = take m q" using len by (subst (2) z) simp
  moreover have "Builder.truncate q w ! m = q ! m" using len by (subst (2) z) (simp add: nth_append)
  ultimately show ?thesis using assms len True by (simp add: cursorCellWidth_def min_absorb1)
next
  case False
  then have "displayWidth q + 1 \<le> w" using assms(1) by (simp add: cursorCellWidth_def)
  then have "Builder.truncate q w = q" by (intro truncate_all) simp
  then show ?thesis using assms False by (simp add: cursorCellWidth_def)
qed

lemma lineBox_cursor:
  assumes w: "0 < ed_width e" and f: "ed_focused e" and off: "0 \<le> off" "off \<le> cc"
    and fit: "cellWidthOf (js_slice (runes_of l) off cc) + cursorCellWidth (runes_of l) cc \<le> ed_width e"
  shows "displayWidth (row_text (lineBox (runes_of l) True cc off e)) = ed_width e"
proof -
  define start where "start = nat (clampCursor off (int (length l)))"
  define q where "q = drop start l"
  define t where "t = Builder.truncate q (ed_width e)"
  define m where "m = nat cc - start"
  have start: "start = min (nat off) (length l)" "int start = clampCursor off (int (length l))"
    using off by (auto simp: start_def clampCursor_def min_def)
  have rel: "clampCursor (cc - int start) (int (length t)) = int (min m (length t))"
    using off start by (auto simp: clampCursor_def m_def min_def)
  have "js_slice (runes_of l) off cc = runes_of (take m q)"
    using off start by (auto simp: js_slice_runes q_def m_def min_def)
  moreover have "cursorCellWidth (runes_of q) (int m) = cursorCellWidth (runes_of l) cc"
  proof -
    have "nat off + nat (cc - off) = nat cc" using off by (simp flip: nat_add_distrib)
    then show ?thesis using off start by (auto simp: cursorCellWidth_def q_def m_def min_def nat_less_iff le_nat_iff)
  qed
  ultimately have "displayWidth (take m q) + cursorCellWidth (runes_of q) (int m) \<le> ed_width e" using fit by simp
  from truncate_keeps_cursor [OF this refl, folded t_def]
  have tfit: "displayWidth (concat (take (nat (int (min m (length t)))) (runes_of t))) + cursorCellWidth (runes_of t) (int (min m (length t))) \<le> ed_width e"
    by simp
  obtain pre ct post where sp: "cursor_spans (ed_width e) (runes_of t) (int (min m (length t))) = (pre, ct, post)"
    by (cases "cursor_spans (ed_width e) (runes_of t) (int (min m (length t)))")
  have used: "displayWidth pre + displayWidth ct + displayWidth post \<le> ed_width e"
    by (rule cursor_spans_width(3) [OF w _ _ _ tfit sp]) simp_all
  have "truncateRunesToCells (drop start (runes_of l)) (ed_width e) = runes_of t"
    by (simp add: truncateRunesToCells_runes t_def q_def)
  then have "row_text (lineBox (runes_of l) True cc off e) =
      concat (map own_text (span_boxes e (pre, ct, post))) @ replicate (nat (ed_width e - (displayWidth pre + displayWidth ct + displayWidth post))) 32"
    using w f sp rel start(2) unfolding lineBox_def Let_def by (simp add: row_text_def start_def)
  then show ?thesis using used by (simp add: texts_span_boxes)
qed

section \<open>Joining lines\<close>

fun join_nl :: "ustr list \<Rightarrow> ustr" where
  "join_nl [] = []"
| "join_nl [l] = l"
| "join_nl (l # ls) = l @ NL # join_nl ls"

lemma join_split_nl [simp]: "join_nl (split_nl s) = s"
proof (induction s)
  case (Cons c s)
  obtain l ls where l: "split_nl s = l # ls" by (cases "split_nl s") simp_all
  show ?case using Cons.IH by (cases ls) (auto simp: l)
qed simp

lemma slices_bounds_from:
  "length u = k \<Longrightarrow> map (\<lambda>(i, j). js_slice (u @ join_nl ls) i j) (bounds_from k ls) = ls"
proof (induction k ls arbitrary: u rule: bounds_from.induct)
  case (2 k l ls)
  show ?case
  proof (cases ls)
    case Nil
    then show ?thesis using "2.prems" by (simp add: js_slice_def nat_add_distrib)
  next
    case (Cons l' ls')
    have "u @ join_nl (l # ls) = (u @ l @ [NL]) @ join_nl ls" by (simp add: Cons)
    then show ?thesis using "2.IH" [of "u @ l @ [NL]"] "2.prems" by (simp add: js_slice_def nat_add_distrib)
  qed
qed simp

section \<open>Properties\<close>

text \<open>
  C22: The loops of \<open>rowCol\<close> and \<open>lineBounds\<close> agree with splitting the value at line feeds: the cursor's row
  and column are those of the split text before it, for every value and every (also out of range) cursor,
  and the bounds cut out exactly the lines.
\<close>

theorem positions_agree_with_lines:
  "(case rowCol e of (r, c) \<Rightarrow> 0 \<le> r \<and> r < int (length (ta_lines e)) \<and> 0 \<le> c \<and> c \<le> int (length (ta_line r e)) \<and>
      split_nl (fst (around e)) = take (nat r) (ta_lines e) @ [take (nat c) (ta_line r e)]) \<and>
   map (\<lambda>(i, j). js_slice (ta_text e) i j) (lineBounds e) = ta_lines e"
proof (intro conjI)
  show "case rowCol e of (r, c) \<Rightarrow> 0 \<le> r \<and> r < int (length (ta_lines e)) \<and> 0 \<le> c \<and> c \<le> int (length (ta_line r e)) \<and>
      split_nl (fst (around e)) = take (nat r) (ta_lines e) @ [take (nat c) (ta_line r e)]"
    by (rule rowCol_cases [of e]) (simp add: around_def ta_line_def)
  show "map (\<lambda>(i, j). js_slice (ta_text e) i j) (lineBounds e) = ta_lines e"
    using slices_bounds_from [of "[]" 0 "ta_lines e"] by (simp add: lineBounds_split ta_lines_def)
qed

text \<open>
  Moving by lines. \<open>up\<close> and \<open>down\<close> go to the neighbouring line, on the same column or the end of a
  shorter line, and report false with nothing changed on the first and on the last line; \<open>home\<close> and
  \<open>end\<close> go to the ends of the line; a page up or down moves by the page height, but not past the
  first or last line.
\<close>

theorem line_movements:
  "case rowCol e of (r, c) \<Rightarrow>
     (if r = 0 then ta_up e = (False, e)
      else fst (ta_up e) \<and> rowCol (snd (ta_up e)) = (r - 1, min c (int (length (ta_line (r - 1) e))))) \<and>
     (if r = int (length (ta_lines e)) - 1 then ta_down e = (False, e)
      else fst (ta_down e) \<and> rowCol (snd (ta_down e)) = (r + 1, min c (int (length (ta_line (r + 1) e))))) \<and>
     rowCol (snd (ta_home e)) = (r, 0) \<and> rowCol (snd (ta_end e)) = (r, int (length (ta_line r e))) \<and>
     fst (rowCol (snd (ta_pageUp e))) = max 0 (r - pageHeight e) \<and>
     fst (rowCol (snd (ta_pageDown e))) = min (int (length (ta_lines e)) - 1) (r + pageHeight e)"
proof (rule rowCol_cases [of e])
  fix r k
  assume rk: "rowCol e = (int r, int k)" "r < length (ta_lines e)" and k: "k \<le> length (ta_lines e ! r)"
  have line: "q < length (ta_lines e) \<Longrightarrow> ta_line (int q) e = ta_lines e ! q" for q by (simp add: ta_line_def)
  have up: "r \<noteq> 0 \<Longrightarrow> fst (ta_up e) \<and> rowCol (snd (ta_up e)) = (int (r - 1), int (min k (length (ta_lines e ! (r - 1)))))"
    using rk rowCol_put [of "r - 1" e "min k (length (ta_lines e ! (r - 1)))"] by (simp add: ta_up_spec [OF rk])
  have down: "Suc r < length (ta_lines e) \<Longrightarrow>
      fst (ta_down e) \<and> rowCol (snd (ta_down e)) = (int (Suc r), int (min k (length (ta_lines e ! Suc r))))"
    using rowCol_put [of "Suc r" e "min k (length (ta_lines e ! Suc r))"] by (simp add: ta_down_spec [OF rk(1)])
  have ends: "rowCol (snd (ta_home e)) = (int r, 0)" "rowCol (snd (ta_end e)) = (int r, int (length (ta_line (int r) e)))"
    using rowCol_put [OF rk(2), of 0] rowCol_put [OF rk(2) order.refl] rk
    by (simp_all add: ta_home_spec [OF rk] ta_end_spec [OF rk] line)
  have page: "0 < pageHeight e" by (simp add: pageHeight_def)
  have top: "r = 0 \<Longrightarrow> ta_up e = (False, e)" and bottom: "length (ta_lines e) = Suc r \<Longrightarrow> ta_down e = (False, e)"
    by (simp_all add: ta_up_spec [OF rk] ta_down_spec [OF rk(1)])
  have pages: "fst (rowCol (snd (ta_pageUp e))) = max 0 (int r - pageHeight e)"
      "fst (rowCol (snd (ta_pageDown e))) = min (int (length (ta_lines e)) - 1) (int r + pageHeight e)"
    using page by (simp_all add: ta_pageUp_def ta_pageDown_def page_up_row page_down_row rk)
  show ?thesis unfolding rk(1) prod.case
  proof (intro conjI, goal_cases)
    case 1
    show ?case
    proof (cases "r = 0")
      case False
      then obtain q where "r = Suc q" by (cases r) auto
      then show ?thesis using up line [of q] rk(2) by (simp add: of_nat_min)
    qed (simp add: top)
  next
    case 2
    show ?case
    proof (cases "length (ta_lines e) = Suc r")
      case False
      then have "Suc r < length (ta_lines e)" "int r \<noteq> int (length (ta_lines e)) - 1" using rk(2) by simp_all
      then show ?thesis using down line [of "Suc r"] by (simp add: of_nat_min add.commute)
    qed (simp add: bottom)
  qed (rule ends pages)+
qed

text \<open>
  A text area created without an initial value keeps its invariant over any sequence of keys (line and
  page movements included), pastes and values set: the cursor is inside the text, the length limit
  holds where there is one, and no carriage return is stored.
\<close>

lemma ta_session_invariant:
  "let e = foldl (ta_step letter) (new_TextArea (blank opts)) evs
   in 0 \<le> ed_cursor e \<and> ed_cursor e \<le> int (length (ta_text e)) \<and>
      (ed_maxLen e \<le> 0 \<or> int (length (ta_text e)) \<le> ed_maxLen e) \<and> list_all (\<lambda>r. r \<noteq> CR) (ta_text e)"
  using ta.inv_run [where opts = opts and letter = letter and es = evs]
  by (auto simp: Let_def ta_inv_def ed_ok_def vlen_def ta_text_def)

text \<open>
  C29: A text area at least two cells wide that shows text fills its rectangle exactly: it draws as many rows
  as its height and its text allow, every row has exactly the width, and when it is focused the
  cursor is inside these rows and columns. This holds for every mask, cursor and scroll offset.
\<close>

theorem ta_build_fits:
  assumes w: "2 \<le> ed_width e" and shown: "\<not> (ed_value e = [] \<and> ed_placeholder e \<noteq> [])"
  shows "int (length (children (ta_build e))) = visibleHeight (int (length (split_nl (concat (ta_displayRunes e))))) e \<and>
    list_all (\<lambda>b. displayWidth (row_text b) = ed_width e) (children (ta_build e)) \<and>
    (ed_focused e \<longrightarrow> (\<exists>cur. box_cursor (attrs (ta_build e)) = Some cur \<and>
       0 \<le> cur_row cur \<and> cur_row cur < int (length (children (ta_build e))) \<and>
       0 \<le> cur_col cur \<and> cur_col cur < ed_width e))"
proof -
  define ls where "ls = split_nl (concat (ta_displayRunes e))"
  define n where "n = int (length ls)"
  obtain r k where rk: "rowCol e = (int r, int k)" "r < length (ta_lines e)" by (rule rowCol_cases)
  have r: "int r < n" using rk(2) length_display_lines [of e] by (simp add: n_def ls_def)
  define off where "off = visibleRowOffset n e"
  define h where "h = visibleHeight n e"
  note o = visibleRowOffset_spec [OF rk(1) _ r off_def, folded h_def]
  obtain co dc where win: "colWindow ls (int r) (int k) e = (co, dc)" by (cases "colWindow ls (int r) (int k) e")
  note cw = colWindow_spec [OF w _ _ r [unfolded n_def] win refl]
  define rows where "rows = map (\<lambda>i. lineBox (runes_of (ls ! nat (off + int i))) (off + int i = int r) (int k) co e) [0..<nat h]"
  have h: "0 < h" using o(2,3) by simp
  have rows: "length rows = nat h" "rows \<noteq> []" using h by (simp_all add: rows_def)
  have width: "displayWidth (row_text (lineBox (runes_of (ls ! nat p)) (p = int r) (int k) co e)) = ed_width e" for p
  proof (cases "p = int r \<and> ed_focused e")
    case True
    then show ?thesis using lineBox_cursor [of e co "int k" "ls ! r"] w cw(1,2,3) by simp
  next
    case False
    then show ?thesis using w by (intro lineBox_plain) auto
  qed
  have ch: "children (ta_build e) = rows"
    using rows(2) unfolding ta_build_def Let_def if_not_P [OF shown] ls_def [symmetric] n_def [symmetric] rk(1) prod.case
      off_def [symmetric] win o(5) [simplified] rows_def [symmetric] by simp
  have cur: "ed_focused e \<Longrightarrow> box_cursor (attrs (ta_build e)) = Some
      \<lparr>cur_keys = [''row'', ''col'', ''shape''], cur_row = int r - off, cur_col = dc, cur_shape = Some (cursorShape (ed_cursorShape e)), cur_visible = None\<rparr>"
    using rows(2) o(2) unfolding ta_build_def Let_def if_not_P [OF shown] ls_def [symmetric] n_def [symmetric] rk(1) prod.case
      off_def [symmetric] win o(5) [simplified] rows_def [symmetric] by (simp add: n_cursor_def)
  have "list_all (\<lambda>b. displayWidth (row_text b) = ed_width e) rows" by (simp add: rows_def list_all_iff width)
  then show ?thesis
    using cur o cw(4,5) rows(1) h unfolding ch ls_def [symmetric] n_def [symmetric] h_def [symmetric] by auto
qed

text \<open>Two lines in a window of one row, the cursor on the second.\<close>

definition sample_area :: text_area where
  "sample_area = \<lparr>ed_id = [], ed_value = asc ''ab'' @ NL # asc ''c'', ed_cursor = 4, ed_placeholder = [], ed_mask = [],
     ed_maxLen = 0, ed_width = 3, ed_focused = True, ed_style = [], ed_placeholderStyle = [], ed_cursorStyle = [],
     ed_cursorShape = [], ed_input = [], ta_height = 1, ta_rowOffset = 0, ta_colOffset = 0\<rparr>"

theorem ta_build_fits_witness:
  "length (children (ta_build sample_area)) = 1 \<and>
   list_all (\<lambda>b. displayWidth (row_text b) = 3) (children (ta_build sample_area))"
  using ta_build_fits [of sample_area]
  by (simp add: sample_area_def visibleHeight_def ta_displayRunes_def NL_def)

end
