(* ===== verification/Decimal.thy ===== *)
theory Decimal
  imports Prelude "HOL-Library.Signed_Division"
begin

text \<open>
  Decimal numbers as JavaScript prints and reads them, \<open>padStart\<close>, and the integer forms of \<open>Math.trunc(a / b)\<close>
  and \<open>a % b\<close>: signed division and its remainder. For integers below \<open>2 ^ 53\<close> the double quotient has
  the integer part of the exact one.
\<close>

section \<open>Definitions\<close>

fun show_nat :: "nat \<Rightarrow> ustr" where
  "show_nat n = (if n < 10 then [48 + n] else show_nat (n div 10) @ [48 + n mod 10])"

declare show_nat.simps [simp del]

definition show_int :: "int \<Rightarrow> ustr" where
  "show_int n = (if n < 0 then 45 # show_nat (nat (- n)) else show_nat (nat n))"

definition is_digit :: "nat \<Rightarrow> bool" where
  "is_digit c \<longleftrightarrow> 48 \<le> c \<and> c \<le> 57"

definition parse_nat :: "ustr \<Rightarrow> nat" where
  "parse_nat s = foldl (\<lambda>n c. 10 * n + (c - 48)) 0 s"

definition padStart :: "nat \<Rightarrow> nat \<Rightarrow> ustr \<Rightarrow> ustr" where
  "padStart n c s = replicate (n - length s) c @ s"

section \<open>Lemmas\<close>

lemma sdiv_pos: "0 \<le> a \<Longrightarrow> 0 < b \<Longrightarrow> (a :: int) sdiv b = a div b"
  by (auto simp: signed_divide_int_def sgn_if)

text \<open>Truncated division with the correction for a negative remainder is floored division.\<close>

lemma floor_of_sdiv:
  fixes a b :: int
  assumes "0 < b"
  shows "(if a smod b < 0 then a sdiv b - 1 else a sdiv b) = a div b"
    and "(if a smod b < 0 then a smod b + b else a smod b) = a mod b"
proof -
  define q where "q = (if a smod b < 0 then a sdiv b - 1 else a sdiv b)"
  define r where "r = (if a smod b < 0 then a smod b + b else a smod b)"
  have e: "a = a sdiv b * b + a smod b" by (simp add: sdiv_mult_smod_eq)
  have "\<bar>a smod b\<bar> < b"
  proof -
    have "\<bar>a smod b\<bar> = \<bar>a\<bar> mod \<bar>b\<bar>"
      using assms by (auto simp: signed_modulo_int_def sgn_if abs_mult)
    then show ?thesis using assms by simp
  qed
  then have r: "0 \<le> r" "r < b" by (auto simp: r_def)
  have "a = q * b + r" using e by (simp add: q_def r_def algebra_simps)
  then have "a div b = q" "a mod b = r" using r assms by (simp_all add: div_mult_self3 div_pos_pos_trivial)
  then show "(if a smod b < 0 then a sdiv b - 1 else a sdiv b) = a div b"
    "(if a smod b < 0 then a smod b + b else a smod b) = a mod b" by (simp_all add: q_def r_def)
qed

lemma parse_nat_snoc [simp]: "parse_nat (s @ [c]) = 10 * parse_nat s + (c - 48)"
  by (simp add: parse_nat_def)

lemma parse_show_nat [simp]: "parse_nat (show_nat n) = n"
proof (induction n rule: show_nat.induct)
  case (1 n)
  show ?case
  proof (cases "n < 10")
    case True
    then show ?thesis by (simp add: show_nat.simps parse_nat_def)
  next
    case False
    then show ?thesis using "1.IH" by (subst show_nat.simps) simp
  qed
qed

lemma parse_nat_zeros [simp]: "parse_nat (replicate k 48 @ s) = parse_nat s"
  by (induction k) (simp_all add: parse_nat_def)

lemma parse_padStart [simp]: "parse_nat (padStart k 48 s) = parse_nat s"
  by (simp add: padStart_def)

lemma show_nat_digits: "list_all is_digit (show_nat n)"
proof (induction n rule: show_nat.induct)
  case (1 n)
  then show ?case by (subst show_nat.simps) (auto simp: is_digit_def [of "_ + _"])
qed

lemma padStart_digits: "list_all is_digit s \<Longrightarrow> list_all is_digit (padStart k 48 s)"
  by (auto simp: padStart_def list_all_iff is_digit_def)

lemma length_show_nat: "0 < k \<Longrightarrow> n < 10 ^ k \<Longrightarrow> length (show_nat n) \<le> k"
proof (induction k arbitrary: n)
  case (Suc k)
  show ?case
  proof (cases "n < 10")
    case False
    then have "0 < k" using Suc.prems by (cases k) auto
    moreover have "n div 10 < 10 ^ k" using Suc.prems(2) by (simp add: less_mult_imp_div_less mult.commute)
    ultimately show ?thesis using Suc.IH False by (subst show_nat.simps) simp
  qed (simp add: show_nat.simps)
qed simp

lemma length_padStart: "length s \<le> k \<Longrightarrow> length (padStart k c s) = k"
  by (simp add: padStart_def)

end
