(* ===== verification/Scrollbar.thy ===== *)
theory Scrollbar
  imports TextEditor Decimal
begin

text \<open>
  The proportional scroll indicator of \<open>clients/tui/sdk/ts/src/widgets/scrollbar.js\<close>.
  \<open>Math.trunc(a * b / c)\<close> is signed division of the exact integers: below \<open>2 ^ 53\<close> the double
  nearest to a quotient of integers has the same integer part.
\<close>

section \<open>Definitions\<close>

record scrollbar =
  sb_id :: ustr
  sb_total :: int
  sb_visible :: int
  sb_offset :: int
  sb_height :: int
  sb_width :: int
  sb_vertical :: bool
  sb_trackStyle :: ustr
  sb_thumbStyle :: ustr
  sb_up :: ustr
  sb_down :: ustr

definition DEFAULT_SCROLLBAR_TRACK_STYLE :: ustr where "DEFAULT_SCROLLBAR_TRACK_STYLE = asc ''muted''"
definition DEFAULT_SCROLLBAR_THUMB_STYLE :: ustr where "DEFAULT_SCROLLBAR_THUMB_STYLE = asc ''accent''"
definition SCROLLBAR_TRACK_VERTICAL :: ustr where "SCROLLBAR_TRACK_VERTICAL = [0x2502]"
definition SCROLLBAR_THUMB_VERTICAL :: ustr where "SCROLLBAR_THUMB_VERTICAL = [0x2503]"
definition SCROLLBAR_TRACK_HORIZONTAL :: ustr where "SCROLLBAR_TRACK_HORIZONTAL = [0x2500]"
definition SCROLLBAR_THUMB_HORIZONTAL :: ustr where "SCROLLBAR_THUMB_HORIZONTAL = [0x2501]"

definition isVertical :: "scrollbar \<Rightarrow> bool" where
  "isVertical s = (if sb_vertical s then True else if 0 < sb_width s \<and> sb_height s \<le> 0 then False else True)"

definition trackLength :: "scrollbar \<Rightarrow> int" where
  "trackLength s =
     (if isVertical s then (if 0 < sb_height s then sb_height s else 0)
      else if 0 < sb_width s then sb_width s else 0)"

definition thumbMaxOffset :: "scrollbar \<Rightarrow> int" where
  "thumbMaxOffset s = (let m = sb_total s - sb_visible s in if m < 0 then 0 else m)"

definition sb_clampOffset :: "scrollbar \<Rightarrow> int" where
  "sb_clampOffset s =
     (let x = (if sb_offset s < 0 then 0 else sb_offset s); m = thumbMaxOffset s
      in if m < x then m else x)"

definition thumb :: "scrollbar \<Rightarrow> int \<times> int" where
  "thumb s =
     (let len = trackLength s
      in if len \<le> 0 then (0, 0)
         else if sb_total s \<le> 0 \<or> sb_total s \<le> sb_visible s then (0, len)
         else let sz = (sb_visible s * len) sdiv sb_total s;
                  sz = (if sz < 1 then 1 else sz);
                  sz = (if len < sz then len else sz);
                  m = thumbMaxOffset s;
                  start = (if 0 < m then (sb_clampOffset s * (len - sz)) sdiv m else 0);
                  start = (if start < 0 then 0 else start);
                  start = (if len - sz < start then len - sz else start)
              in (start, sz))"

definition offsetAt :: "int \<Rightarrow> scrollbar \<Rightarrow> int" where
  "offsetAt pos s =
     (let len = trackLength s; m = thumbMaxOffset s
      in if len \<le> 0 then 0 else if m \<le> 0 then 0
         else let sz = snd (thumb s); denom = len - sz
              in if denom \<le> 0 then 0
                 else let x = ((pos - sz sdiv 2) * m) sdiv denom
                      in if x < 0 then 0 else if m < x then m else x)"

definition capCount :: "scrollbar \<Rightarrow> int" where
  "capCount s = (if sb_up s \<noteq> [] then 1 else 0) + (if sb_down s \<noteq> [] then 1 else 0)"

definition glyphs :: "scrollbar \<Rightarrow> ustr \<times> ustr" where
  "glyphs s =
     (if isVertical s then (SCROLLBAR_TRACK_VERTICAL, SCROLLBAR_THUMB_VERTICAL)
      else (SCROLLBAR_TRACK_HORIZONTAL, SCROLLBAR_THUMB_HORIZONTAL))"

definition sb_cell :: "ustr \<Rightarrow> ustr \<Rightarrow> box" where
  "sb_cell glyph style = n_height 1 (n_width 1 (n_style style (text_node glyph)))"

definition sb_cells :: "scrollbar \<Rightarrow> box list" where
  "sb_cells s =
     (case (thumb s, glyphs s) of ((start, sz), (trackGlyph, thumbGlyph)) \<Rightarrow>
        let trackStyle = firstNonEmpty [sb_trackStyle s, DEFAULT_SCROLLBAR_TRACK_STYLE];
            thumbStyle = firstNonEmpty [sb_thumbStyle s, DEFAULT_SCROLLBAR_THUMB_STYLE];
            cell = (\<lambda>i. if start \<le> i \<and> i < start + sz then sb_cell thumbGlyph thumbStyle else sb_cell trackGlyph trackStyle)
        in (if sb_up s \<noteq> [] then [sb_cell (sb_up s) trackStyle] else []) @
           map cell [0..trackLength s - 1] @
           (if sb_down s \<noteq> [] then [sb_cell (sb_down s) trackStyle] else []))"

definition sb_build :: "scrollbar \<Rightarrow> box" where
  "sb_build s =
     (let len = trackLength s;
          node = (if isVertical s then n_width 1 (new_Node (Some (asc ''col''))) else n_height 1 (new_Node (Some (asc ''row''))));
          node = (if sb_id s \<noteq> [] then n_id (sb_id s) node else node);
          node = n_input [asc ''mouse''] node;
          node = (if isVertical s then n_height (len + capCount s) node else n_width (len + capCount s) node);
          cells = sb_cells s
      in if cells = [] then node else n_child cells node)"

section \<open>Lemmas\<close>

lemma thumbMaxOffset_nonneg [simp]: "0 \<le> thumbMaxOffset s"
  by (simp add: thumbMaxOffset_def Let_def)

lemma sb_clampOffset_eq: "sb_clampOffset s = min (max 0 (sb_offset s)) (thumbMaxOffset s)"
  using thumbMaxOffset_nonneg [of s] by (auto simp: sb_clampOffset_def Let_def simp del: thumbMaxOffset_nonneg)

lemma trackLength_nonneg [simp]: "0 \<le> trackLength s"
  by (simp add: trackLength_def)

lemma trackLength_offset [simp]: "trackLength (s\<lparr>sb_offset := x\<rparr>) = trackLength s"
  by (simp add: trackLength_def isVertical_def)

text \<open>The thumb of a track that does not show everything.\<close>

lemma thumb_scrolling:
  assumes "0 < trackLength s" and "0 < sb_total s" and "sb_visible s < sb_total s"
  obtains sz where "1 \<le> sz" and "sz \<le> trackLength s"
    and "thumb s = ((sb_clampOffset s * (trackLength s - sz)) div thumbMaxOffset s, sz)"
    and "\<And>x. thumb (s\<lparr>sb_offset := x\<rparr>) =
      ((sb_clampOffset (s\<lparr>sb_offset := x\<rparr>) * (trackLength s - sz)) div thumbMaxOffset s, sz)"
proof -
  define q where "q = (sb_visible s * trackLength s) sdiv sb_total s"
  define sz where "sz = (if trackLength s < (if q < 1 then 1 else q) then trackLength s else (if q < 1 then 1 else q))"
  have sz: "1 \<le> sz" "sz \<le> trackLength s" using assms(1) by (auto simp: sz_def)
  have m: "0 < thumbMaxOffset s" using assms by (simp add: thumbMaxOffset_def Let_def)
  have go: "thumb u = ((sb_clampOffset u * (trackLength s - sz)) div thumbMaxOffset s, sz)"
    if u: "trackLength u = trackLength s" "sb_total u = sb_total s" "sb_visible u = sb_visible s"
      "thumbMaxOffset u = thumbMaxOffset s" for u
  proof -
    define c where "c = sb_clampOffset u"
    have c: "0 \<le> c" "c \<le> thumbMaxOffset s" by (simp_all add: c_def sb_clampOffset_eq u)
    have p: "0 \<le> c * (trackLength s - sz)" using c sz by simp
    have le: "c * (trackLength s - sz) div thumbMaxOffset s \<le> trackLength s - sz"
    proof -
      have "c * (trackLength s - sz) \<le> thumbMaxOffset s * (trackLength s - sz)"
        using c sz by (intro mult_right_mono) simp_all
      then have "c * (trackLength s - sz) div thumbMaxOffset s \<le> thumbMaxOffset s * (trackLength s - sz) div thumbMaxOffset s"
        using m by (intro zdiv_mono1) simp_all
      then show ?thesis using m by simp
    qed
    have ge: "0 \<le> c * (trackLength s - sz) div thumbMaxOffset s" using p m by (simp add: pos_imp_zdiv_nonneg_iff)
    show ?thesis
      using assms m le ge unfolding thumb_def Let_def u q_def [symmetric] sz_def [symmetric] c_def [symmetric] sdiv_pos [OF p m]
      by auto
  qed
  show ?thesis
    by (rule that [OF sz go go]) (simp_all add: trackLength_def isVertical_def thumbMaxOffset_def)
qed

lemma thumb_all: "0 < trackLength s \<Longrightarrow> sb_total s \<le> 0 \<or> sb_total s \<le> sb_visible s \<Longrightarrow> thumb s = (0, trackLength s)"
  by (simp add: thumb_def Let_def)

lemma children_sb_build: "children (sb_build s) = sb_cells s"
  by (simp add: sb_build_def Let_def)

section \<open>Properties\<close>

text \<open>
  The thumb of a non-empty track is at least one cell and inside the track, for every total, visible
  count and offset; it touches the start of the track at offset 0 and its end at the largest
  offset, and it never moves backwards when the offset grows.
\<close>

theorem thumb_in_track:
  assumes "0 < trackLength s"
  shows "case thumb s of (start, sz) \<Rightarrow> 0 \<le> start \<and> 1 \<le> sz \<and> start + sz \<le> trackLength s \<and>
    (sb_offset s \<le> 0 \<longrightarrow> start = 0) \<and> (thumbMaxOffset s \<le> sb_offset s \<longrightarrow> start + sz = trackLength s) \<and>
    (\<forall>x. sb_offset s \<le> x \<longrightarrow> start \<le> fst (thumb (s\<lparr>sb_offset := x\<rparr>)))"
proof (cases "sb_total s \<le> 0 \<or> sb_total s \<le> sb_visible s")
  case True
  have "thumb (s\<lparr>sb_offset := x\<rparr>) = (0, trackLength s)" for x
    using thumb_all [of "s\<lparr>sb_offset := x\<rparr>"] assms True by simp
  then show ?thesis using thumb_all [OF assms True] assms by simp
next
  case False
  then have "0 < sb_total s" "sb_visible s < sb_total s" by simp_all
  then obtain sz where sz: "1 \<le> sz" "sz \<le> trackLength s"
      and th: "thumb s = ((sb_clampOffset s * (trackLength s - sz)) div thumbMaxOffset s, sz)"
      and th': "\<And>x. thumb (s\<lparr>sb_offset := x\<rparr>) =
        ((sb_clampOffset (s\<lparr>sb_offset := x\<rparr>) * (trackLength s - sz)) div thumbMaxOffset s, sz)"
    by (rule thumb_scrolling [OF assms]) blast
  have m: "0 < thumbMaxOffset s" using False by (simp add: thumbMaxOffset_def Let_def)
  have mono: "a * (trackLength s - sz) div thumbMaxOffset s \<le> b * (trackLength s - sz) div thumbMaxOffset s" if "a \<le> b" for a b
    using that sz m by (intro zdiv_mono1 mult_right_mono) simp_all
  have max: "thumbMaxOffset (s\<lparr>sb_offset := x\<rparr>) = thumbMaxOffset s" for x by (simp add: thumbMaxOffset_def)
  have "0 \<le> sb_clampOffset s" "sb_clampOffset s \<le> thumbMaxOffset s" using m by (simp_all add: sb_clampOffset_eq)
  from mono [OF this(1)] mono [OF this(2)]
  have range: "0 \<le> fst (thumb s)" "fst (thumb s) \<le> trackLength s - sz" using m by (simp_all add: th)
  have "sb_offset s \<le> 0 \<Longrightarrow> fst (thumb s) = 0" "thumbMaxOffset s \<le> sb_offset s \<Longrightarrow> fst (thumb s) + sz = trackLength s"
    using m by (simp_all add: th sb_clampOffset_eq)
  moreover have "sb_offset s \<le> x \<Longrightarrow> fst (thumb s) \<le> fst (thumb (s\<lparr>sb_offset := x\<rparr>))" for x
    using mono by (simp add: th th' sb_clampOffset_eq max)
  ultimately show ?thesis using range sz by (simp add: th)
qed

text \<open>A track of four cells over ten lines of which five are visible.\<close>

definition sample_bar :: scrollbar where
  "sample_bar = \<lparr>sb_id = [], sb_total = 10, sb_visible = 5, sb_offset = 5, sb_height = 4, sb_width = 0, sb_vertical = True,
     sb_trackStyle = [], sb_thumbStyle = [], sb_up = [], sb_down = []\<rparr>"

lemma sample_bar_fields: "trackLength sample_bar = 4" "thumbMaxOffset sample_bar = 5" "sb_offset sample_bar = 5"
  by (simp_all add: sample_bar_def trackLength_def isVertical_def thumbMaxOffset_def)

theorem thumb_in_track_witness: "0 \<le> fst (thumb sample_bar) \<and> fst (thumb sample_bar) + snd (thumb sample_bar) = 4"
  using thumb_in_track [of sample_bar] by (cases "thumb sample_bar") (simp add: sample_bar_fields)

text \<open>
  A click anywhere gives an offset the content has, and the bar is drawn with one cell per cell of the track
  plus its caps, of which exactly the cells of the thumb show the thumb glyph.
\<close>

lemma offsetAt_and_drawing:
  "0 \<le> offsetAt pos s \<and> offsetAt pos s \<le> thumbMaxOffset s \<and>
   int (length (children (sb_build s))) = trackLength s + capCount s \<and>
   map own_text (sb_cells s) =
     (if sb_up s \<noteq> [] then [sb_up s] else []) @
     map (\<lambda>i. if fst (thumb s) \<le> i \<and> i < fst (thumb s) + snd (thumb s) then snd (glyphs s) else fst (glyphs s)) [0..trackLength s - 1] @
     (if sb_down s \<noteq> [] then [sb_down s] else [])"
proof -
  have "0 \<le> offsetAt pos s \<and> offsetAt pos s \<le> thumbMaxOffset s" by (simp add: offsetAt_def Let_def)
  moreover have "int (length (sb_cells s)) = trackLength s + capCount s"
    by (cases "thumb s"; cases "glyphs s") (simp add: sb_cells_def Let_def capCount_def)
  moreover have "own_text (sb_cell g st) = g" for g st by (simp add: sb_cell_def)
  ultimately show ?thesis
    by (cases "thumb s"; cases "glyphs s") (simp add: children_sb_build, simp add: sb_cells_def Let_def)
qed

end
