(* ===== verification/ListWindow.thy ===== *)
theory ListWindow
  imports TextEditor
begin

text \<open>
  The windowed lists of \<open>clients/tui/sdk/ts/src/widgets/list.js\<close>: the arithmetic of a window of rows
  that follows a selection, and the classes \<open>List\<close> and \<open>VirtualList\<close>. The two classes have the same
  methods over \<open>items\<close> and \<open>rows\<close>; the common part of their state is the record \<open>window\<close>, and the
  number of entries is an argument of the shared operations.
\<close>

section \<open>Window arithmetic\<close>

definition DEFAULT_LIST_MARKER :: ustr where "DEFAULT_LIST_MARKER = [0x25B8, 32]"

definition chromeRows :: "ustr \<Rightarrow> ustr \<Rightarrow> int" where
  "chromeRows header footer = (if header \<noteq> [] then 1 else 0) + (if footer \<noteq> [] then 1 else 0)"

definition windowSize :: "int \<Rightarrow> int \<Rightarrow> int \<Rightarrow> int" where
  "windowSize height chrome n =
     (let sz = (if height \<le> 0 then n else height);
          sz = sz - chrome;
          sz = (if sz < 0 then 0 else sz)
      in if n < sz then n else sz)"

definition clampIndex :: "int \<Rightarrow> int \<Rightarrow> int" where
  "clampIndex i n = (if i < 0 \<or> n \<le> 0 then 0 else if n \<le> i then n - 1 else i)"

definition clampOffset :: "int \<Rightarrow> int \<Rightarrow> int \<Rightarrow> int" where
  "clampOffset offset sz n =
     (if sz \<le> 0 then 0 else if offset < 0 then 0 else if n - sz < offset then n - sz else offset)"

definition followOffset :: "int \<Rightarrow> int \<Rightarrow> int \<Rightarrow> int" where
  "followOffset offset selected sz =
     (if sz \<le> 0 then 0
      else let offset = (if selected < offset then selected else offset);
               offset = (if offset + sz \<le> selected then selected - sz + 1 else offset)
           in if offset < 0 then 0 else offset)"

definition moveWindow :: "int \<Rightarrow> int \<Rightarrow> int \<Rightarrow> int \<Rightarrow> int \<Rightarrow> bool \<Rightarrow> int \<times> int" where
  "moveWindow offset selected delta sz n follow =
     (let selected = clampIndex (selected + delta) n;
          offset = (if follow then followOffset offset selected sz else offset)
      in (clampOffset offset sz n, selected))"

definition applyWheel :: "int \<Rightarrow> int \<Rightarrow> int \<Rightarrow> int \<Rightarrow> int" where
  "applyWheel offset tot visible delta =
     (if visible \<le> 0 \<or> tot \<le> visible then 0 else clampOffset (offset + delta) visible tot)"

section \<open>The window of a list\<close>

record window =
  lw_id :: ustr
  lw_width :: int
  lw_height :: int
  lw_offset :: int
  lw_selected :: int
  lw_follow :: bool
  lw_header :: ustr
  lw_footer :: ustr
  lw_empty :: ustr
  lw_marker :: ustr
  lw_style :: ustr
  lw_selectedStyle :: ustr
  lw_headerStyle :: ustr
  lw_footerStyle :: ustr
  lw_emptyStyle :: ustr

definition lw_size :: "int \<Rightarrow> 'a window_scheme \<Rightarrow> int" where
  "lw_size n l = windowSize (lw_height l) (chromeRows (lw_header l) (lw_footer l)) n"

definition lw_visibleRange :: "int \<Rightarrow> 'a window_scheme \<Rightarrow> int \<times> int" where
  "lw_visibleRange n l =
     (let sz = lw_size n l
      in if sz \<le> 0 then (0, 0)
         else let offset = (if lw_follow l then followOffset (lw_offset l) (clampIndex (lw_selected l) n) sz else lw_offset l);
                  offset = clampOffset offset sz n
              in (offset, offset + sz))"

definition lw_ensureVisible :: "int \<Rightarrow> 'a window_scheme \<Rightarrow> 'a window_scheme" where
  "lw_ensureVisible n l =
     (let sz = lw_size n l
      in if sz \<le> 0 \<or> n = 0 then l
         else let selected = clampIndex (lw_selected l) n
              in l\<lparr>lw_offset := clampOffset (followOffset (lw_offset l) selected sz) sz n, lw_selected := selected\<rparr>)"

definition lw_move :: "int \<Rightarrow> int \<Rightarrow> 'a window_scheme \<Rightarrow> 'a window_scheme" where
  "lw_move n delta l =
     (case moveWindow (lw_offset l) (lw_selected l) delta (lw_size n l) n (lw_follow l) of
        (offset, selected) \<Rightarrow> l\<lparr>lw_offset := offset, lw_selected := selected\<rparr>)"

definition lw_pageUp :: "int \<Rightarrow> 'a window_scheme \<Rightarrow> 'a window_scheme" where
  "lw_pageUp n l = lw_move n (- lw_size n l) l"

definition lw_pageDown :: "int \<Rightarrow> 'a window_scheme \<Rightarrow> 'a window_scheme" where
  "lw_pageDown n l = lw_move n (lw_size n l) l"

definition lw_top :: "'a window_scheme \<Rightarrow> 'a window_scheme" where
  "lw_top l = l\<lparr>lw_selected := 0, lw_offset := 0\<rparr>"

definition lw_bottom :: "int \<Rightarrow> 'a window_scheme \<Rightarrow> 'a window_scheme" where
  "lw_bottom n l =
     (if n = 0 then l\<lparr>lw_selected := 0, lw_offset := 0\<rparr>
      else let l = l\<lparr>lw_selected := n - 1\<rparr>; sz = lw_size n l
           in if 0 < sz then l\<lparr>lw_offset := clampOffset (n - sz) sz n\<rparr> else l)"

definition lw_rowAt :: "int \<Rightarrow> int \<Rightarrow> 'a window_scheme \<Rightarrow> int option" where
  "lw_rowAt n y l =
     (let top = (if lw_header l \<noteq> [] then 1 else 0); sz = lw_size n l
      in if sz \<le> 0 \<or> y < top \<or> top + sz \<le> y then None
         else let r = fst (lw_visibleRange n l) + (y - top)
              in if r < 0 \<or> n \<le> r then None else Some r)"

text \<open>A wheel event is its delta; an event without one counts as 0.\<close>

definition lw_onWheel :: "int \<Rightarrow> int option \<Rightarrow> 'a window_scheme \<Rightarrow> 'a window_scheme" where
  "lw_onWheel n event l =
     (case event of None \<Rightarrow> l | Some delta \<Rightarrow> l\<lparr>lw_offset := applyWheel (lw_offset l) n (lw_size n l) delta\<rparr>)"

definition listBox :: "ustr \<Rightarrow> int \<Rightarrow> int \<Rightarrow> box" where
  "listBox i width height =
     (let node = new_Node (Some (asc ''col''));
          node = (if i \<noteq> [] then n_id i node else node);
          node = (if 0 < width then n_width width node else node)
      in if 0 < height then n_height height node else node)"

definition listRowBox :: "ustr \<Rightarrow> ustr \<Rightarrow> ustr \<Rightarrow> int \<Rightarrow> box" where
  "listRowBox value style i width =
     (let value = (if 0 < width then padTo value width else value);
          node = n_height 1 (text_node value);
          node = (if 0 < width then n_width width node else node);
          node = (if style \<noteq> [] then n_style style node else node)
      in if i \<noteq> [] then n_input [asc ''mouse''] (n_id i node) else node)"

text \<open>The rows between header and footer are an argument: the two classes draw different rows.\<close>

definition lw_build :: "int \<Rightarrow> (int \<Rightarrow> box) \<Rightarrow> 'a window_scheme \<Rightarrow> box" where
  "lw_build n r l =
     (case lw_visibleRange n l of (start, end') \<Rightarrow>
        let header = (if lw_header l \<noteq> [] then [listRowBox (lw_header l) (lw_headerStyle l) [] (lw_width l)] else []);
            body = (if start < end' then map r [start..end' - 1]
                    else if n = 0 \<and> lw_empty l \<noteq> [] then [listRowBox (lw_empty l) (lw_emptyStyle l) [] (lw_width l)]
                    else []);
            footer = (if lw_footer l \<noteq> [] then [listRowBox (lw_footer l) (lw_footerStyle l) [] (lw_width l)] else []);
            rows = header @ body @ footer
        in if rows = [] then listBox (lw_id l) (lw_width l) (lw_height l)
           else n_child rows (listBox (lw_id l) (lw_width l) (lw_height l)))"

section \<open>List\<close>

record list_widget = window +
  li_items :: "ustr list"
  li_rowId :: "(int \<Rightarrow> ustr) option"
  li_rowStyle :: "(int \<Rightarrow> bool \<Rightarrow> ustr) option"

definition li_count :: "list_widget \<Rightarrow> int" where
  "li_count l = int (length (li_items l))"

text \<open>The constructors take the options with their defaults (those of \<open>empty_window\<close>) filled in.\<close>

definition empty_window :: window where
  "empty_window = \<lparr>lw_id = [], lw_width = 0, lw_height = 0, lw_offset = 0, lw_selected = 0, lw_follow = False,
     lw_header = [], lw_footer = [], lw_empty = [], lw_marker = [], lw_style = [], lw_selectedStyle = [],
     lw_headerStyle = [], lw_footerStyle = [], lw_emptyStyle = []\<rparr>"

definition new_List :: "window \<Rightarrow> ustr list \<Rightarrow> (int \<Rightarrow> ustr) option \<Rightarrow> (int \<Rightarrow> bool \<Rightarrow> ustr) option \<Rightarrow> list_widget" where
  "new_List opts items rowId rowStyle = window.extend opts (list_widget.fields items rowId rowStyle)"

definition li_visibleRange :: "list_widget \<Rightarrow> int \<times> int" where "li_visibleRange l = lw_visibleRange (li_count l) l"
definition li_ensureVisible :: "list_widget \<Rightarrow> list_widget" where "li_ensureVisible l = lw_ensureVisible (li_count l) l"
definition li_move :: "int \<Rightarrow> list_widget \<Rightarrow> list_widget" where "li_move delta l = lw_move (li_count l) delta l"
definition li_pageUp :: "list_widget \<Rightarrow> list_widget" where "li_pageUp l = lw_pageUp (li_count l) l"
definition li_pageDown :: "list_widget \<Rightarrow> list_widget" where "li_pageDown l = lw_pageDown (li_count l) l"
definition li_top :: "list_widget \<Rightarrow> list_widget" where "li_top l = lw_top l"
definition li_bottom :: "list_widget \<Rightarrow> list_widget" where "li_bottom l = lw_bottom (li_count l) l"
definition li_rowAt :: "int \<Rightarrow> list_widget \<Rightarrow> int option" where "li_rowAt y l = lw_rowAt (li_count l) y l"
definition li_onWheel :: "int option \<Rightarrow> list_widget \<Rightarrow> list_widget" where "li_onWheel event l = lw_onWheel (li_count l) event l"

definition li_row :: "list_widget \<Rightarrow> int \<Rightarrow> box" where
  "li_row l index =
     (let item = li_items l ! nat index;
          sel = (index = lw_selected l);
          value = (if sel then firstNonEmpty [lw_marker l, DEFAULT_LIST_MARKER] @ item else [32, 32] @ item);
          style = (if sel \<and> lw_selectedStyle l \<noteq> [] then lw_selectedStyle l else lw_style l);
          style = (case li_rowStyle l of None \<Rightarrow> style
                   | Some f \<Rightarrow> if f index sel \<noteq> [] then f index sel else style);
          i = (case li_rowId l of None \<Rightarrow> [] | Some f \<Rightarrow> f index)
      in listRowBox value style i (lw_width l))"

definition li_build :: "list_widget \<Rightarrow> box" where
  "li_build l = lw_build (li_count l) (li_row l) l"

section \<open>VirtualList\<close>

record vrow =
  vr_text :: "ustr option"
  vr_style :: ustr
  vr_disabled :: bool
  vr_id :: ustr

record virtual_list = window +
  vl_rows :: "vrow list"
  vl_disabledStyle :: ustr

definition vl_count :: "virtual_list \<Rightarrow> int" where
  "vl_count l = int (length (vl_rows l))"

definition new_VirtualList :: "window \<Rightarrow> vrow list \<Rightarrow> ustr \<Rightarrow> virtual_list" where
  "new_VirtualList opts rows disabledStyle = window.extend opts (virtual_list.fields rows disabledStyle)"

definition vl_visibleRange :: "virtual_list \<Rightarrow> int \<times> int" where "vl_visibleRange l = lw_visibleRange (vl_count l) l"
definition vl_ensureVisible :: "virtual_list \<Rightarrow> virtual_list" where "vl_ensureVisible l = lw_ensureVisible (vl_count l) l"
definition vl_move :: "int \<Rightarrow> virtual_list \<Rightarrow> virtual_list" where "vl_move delta l = lw_move (vl_count l) delta l"
definition vl_pageUp :: "virtual_list \<Rightarrow> virtual_list" where "vl_pageUp l = lw_pageUp (vl_count l) l"
definition vl_pageDown :: "virtual_list \<Rightarrow> virtual_list" where "vl_pageDown l = lw_pageDown (vl_count l) l"
definition vl_top :: "virtual_list \<Rightarrow> virtual_list" where "vl_top l = lw_top l"
definition vl_bottom :: "virtual_list \<Rightarrow> virtual_list" where "vl_bottom l = lw_bottom (vl_count l) l"
definition vl_rowAt :: "int \<Rightarrow> virtual_list \<Rightarrow> int option" where "vl_rowAt y l = lw_rowAt (vl_count l) y l"
definition vl_onWheel :: "int option \<Rightarrow> virtual_list \<Rightarrow> virtual_list" where "vl_onWheel event l = lw_onWheel (vl_count l) event l"

definition vl_row :: "virtual_list \<Rightarrow> int \<Rightarrow> box" where
  "vl_row l index =
     (let item = vl_rows l ! nat index;
          itemText = (case vr_text item of None \<Rightarrow> [] | Some t \<Rightarrow> t);
          style = firstNonEmpty [vr_style item, lw_style l];
          style = (if vr_disabled item then firstNonEmpty [vl_disabledStyle l, style] else style);
          sel = (index = lw_selected l);
          value = (if sel then firstNonEmpty [lw_marker l, DEFAULT_LIST_MARKER] @ itemText else [32, 32] @ itemText);
          style = (if sel then firstNonEmpty [lw_selectedStyle l, style] else style)
      in listRowBox value style (vr_id item) (lw_width l))"

definition vl_build :: "virtual_list \<Rightarrow> box" where
  "vl_build l = lw_build (vl_count l) (vl_row l) l"

section \<open>Lemmas\<close>

lemma windowSize_bounds: "0 \<le> n \<Longrightarrow> 0 \<le> windowSize h c n" "0 \<le> n \<Longrightarrow> windowSize h c n \<le> n"
  by (simp_all add: windowSize_def Let_def)

lemma clampIndex_bounds: "0 \<le> clampIndex i n" "0 < n \<Longrightarrow> clampIndex i n < n"
  by (simp_all add: clampIndex_def)

lemma clampIndex_id: "0 \<le> i \<Longrightarrow> i < n \<Longrightarrow> clampIndex i n = i"
  by (simp add: clampIndex_def)

lemma clampOffset_bounds:
  "sz \<le> n \<Longrightarrow> 0 \<le> clampOffset x sz n" "0 < sz \<Longrightarrow> sz \<le> n \<Longrightarrow> clampOffset x sz n + sz \<le> n"
  "0 \<le> n \<Longrightarrow> clampOffset x sz n \<le> max 0 (n - sz)"
  by (auto simp: clampOffset_def)

text \<open>Following brings the selection into the window, and clamping afterwards keeps it there.\<close>

lemma follow_clamp:
  assumes "0 < sz" and "sz \<le> n" and "0 \<le> s" and "s < n"
  shows "clampOffset (followOffset x s sz) sz n \<le> s" "s < clampOffset (followOffset x s sz) sz n + sz"
  using assms by (auto simp: clampOffset_def followOffset_def Let_def)

text \<open>A window that already shows the selection does not move.\<close>

lemma followOffset_stays: "0 \<le> x \<Longrightarrow> x \<le> s \<Longrightarrow> s < x + sz \<Longrightarrow> followOffset x s sz = x"
  by (simp add: followOffset_def)

lemma lw_size_bounds: "0 \<le> n \<Longrightarrow> 0 \<le> lw_size n l" "0 \<le> n \<Longrightarrow> lw_size n l \<le> n"
  by (simp_all add: lw_size_def windowSize_bounds)

lemma lw_size_update [simp]: "lw_size n (l\<lparr>lw_offset := a\<rparr>) = lw_size n l" "lw_size n (l\<lparr>lw_selected := b\<rparr>) = lw_size n l"
  by (simp_all add: lw_size_def)

lemma lw_visibleRange_spec:
  assumes "0 < lw_size n l" and "0 \<le> n"
  obtains a where "lw_visibleRange n l = (a, a + lw_size n l)" and "0 \<le> a" and "a + lw_size n l \<le> n"
    and "lw_follow l \<longrightarrow> a \<le> clampIndex (lw_selected l) n \<and> clampIndex (lw_selected l) n < a + lw_size n l"
proof -
  define x where "x = (if lw_follow l then followOffset (lw_offset l) (clampIndex (lw_selected l) n) (lw_size n l) else lw_offset l)"
  define a where "a = clampOffset x (lw_size n l) n"
  have sz: "lw_size n l \<le> n" by (rule lw_size_bounds(2) [OF assms(2)])
  have "lw_visibleRange n l = (a, a + lw_size n l)"
    using assms(1) by (simp add: lw_visibleRange_def Let_def a_def x_def)
  moreover have "0 \<le> a" "a + lw_size n l \<le> n" using clampOffset_bounds(1,2) sz assms(1) by (simp_all add: a_def)
  moreover have "0 < n" using assms(1) sz by simp
  then have "lw_follow l \<longrightarrow> a \<le> clampIndex (lw_selected l) n \<and> clampIndex (lw_selected l) n < a + lw_size n l"
    using follow_clamp [OF assms(1) sz clampIndex_bounds(1) clampIndex_bounds(2)] by (simp add: a_def x_def)
  ultimately show ?thesis by (rule that)
qed

text \<open>What can happen to a list, and the invariant of its window.\<close>

datatype list_event = Move int | PageUp | PageDown | Top | Bottom | EnsureVisible | Wheel "int option"

definition lw_step :: "int \<Rightarrow> 'a window_scheme \<Rightarrow> list_event \<Rightarrow> 'a window_scheme" where
  "lw_step n l event =
     (case event of Move d \<Rightarrow> lw_move n d l | PageUp \<Rightarrow> lw_pageUp n l | PageDown \<Rightarrow> lw_pageDown n l
      | Top \<Rightarrow> lw_top l | Bottom \<Rightarrow> lw_bottom n l | EnsureVisible \<Rightarrow> lw_ensureVisible n l
      | Wheel ev \<Rightarrow> lw_onWheel n ev l)"

definition lw_inv :: "int \<Rightarrow> 'a window_scheme \<Rightarrow> bool" where
  "lw_inv n l \<longleftrightarrow> 0 \<le> lw_selected l \<and> lw_selected l < max 1 n \<and>
     0 \<le> lw_offset l \<and> lw_offset l \<le> max 0 (n - lw_size n l)"

lemma lw_inv_at_start: "0 \<le> n \<Longrightarrow> lw_selected l = 0 \<Longrightarrow> lw_offset l = 0 \<Longrightarrow> lw_inv n l"
  by (simp add: lw_inv_def)

lemma lw_inv_put:
  assumes "0 \<le> n"
  shows "lw_inv n (l\<lparr>lw_offset := clampOffset x (lw_size n l) n, lw_selected := clampIndex s n\<rparr>)"
  using assms lw_size_bounds(2) [OF assms, of l] clampOffset_bounds(1,3) [where sz = "lw_size n l" and n = n] clampIndex_bounds [of s n]
  by (cases "0 < n") (auto simp: lw_inv_def clampIndex_def)

lemma lw_inv_offset: "0 \<le> n \<Longrightarrow> lw_inv n l \<Longrightarrow> lw_inv n (l\<lparr>lw_offset := clampOffset x (lw_size n l) n\<rparr>)"
  using lw_size_bounds(2) [of n l] clampOffset_bounds(1,3) [where sz = "lw_size n l" and n = n] by (auto simp: lw_inv_def)

lemma lw_inv_move: "0 \<le> n \<Longrightarrow> lw_inv n (lw_move n d l)"
  using lw_inv_put [where n = n and l = l] by (simp add: lw_move_def moveWindow_def Let_def)

lemma lw_inv_step:
  assumes "0 \<le> n" and "lw_inv n l"
  shows "lw_inv n (lw_step n l event)"
proof (cases event)
  case Bottom
  then show ?thesis using assms lw_size_bounds(2) [OF assms(1), of l]
    by (auto simp: lw_step_def lw_bottom_def Let_def lw_inv_def clampOffset_def)
next
  case EnsureVisible
  then show ?thesis using assms lw_inv_put [OF assms(1), where l = l and s = "lw_selected l"]
    by (simp add: lw_step_def lw_ensureVisible_def Let_def)
next
  case (Wheel ev)
  then show ?thesis using assms lw_inv_offset [OF assms]
    by (auto simp: lw_step_def lw_onWheel_def applyWheel_def split: option.split) (simp_all add: lw_inv_def)
qed (use assms in \<open>simp_all add: lw_step_def lw_inv_move lw_pageUp_def lw_pageDown_def lw_top_def lw_inv_at_start\<close>)

definition li_step :: "list_widget \<Rightarrow> list_event \<Rightarrow> list_widget" where
  "li_step l event =
     (case event of Move d \<Rightarrow> li_move d l | PageUp \<Rightarrow> li_pageUp l | PageDown \<Rightarrow> li_pageDown l
      | Top \<Rightarrow> li_top l | Bottom \<Rightarrow> li_bottom l | EnsureVisible \<Rightarrow> li_ensureVisible l | Wheel ev \<Rightarrow> li_onWheel ev l)"

definition vl_step :: "virtual_list \<Rightarrow> list_event \<Rightarrow> virtual_list" where
  "vl_step l event =
     (case event of Move d \<Rightarrow> vl_move d l | PageUp \<Rightarrow> vl_pageUp l | PageDown \<Rightarrow> vl_pageDown l
      | Top \<Rightarrow> vl_top l | Bottom \<Rightarrow> vl_bottom l | EnsureVisible \<Rightarrow> vl_ensureVisible l | Wheel ev \<Rightarrow> vl_onWheel ev l)"

lemmas lw_ops = lw_step_def lw_move_def lw_pageUp_def lw_pageDown_def lw_top_def lw_bottom_def lw_ensureVisible_def lw_onWheel_def

lemma li_step_window: "li_step l event = lw_step (li_count l) l event"
  by (cases event) (simp_all add: li_step_def lw_step_def li_move_def li_pageUp_def li_pageDown_def li_top_def li_bottom_def
      li_ensureVisible_def li_onWheel_def)

lemma vl_step_window: "vl_step l event = lw_step (vl_count l) l event"
  by (cases event) (simp_all add: vl_step_def lw_step_def vl_move_def vl_pageUp_def vl_pageDown_def vl_top_def vl_bottom_def
      vl_ensureVisible_def vl_onWheel_def)

lemma li_items_lw_step [simp]: "li_items (lw_step n l event) = li_items l"
  by (cases event) (simp_all add: lw_ops Let_def split: prod.split option.split)

lemma vl_rows_lw_step [simp]: "vl_rows (lw_step n l event) = vl_rows l"
  by (cases event) (simp_all add: lw_ops Let_def split: prod.split option.split)

text \<open>The options of a list whose selection and offset are not given.\<close>

definition at_start :: "window \<Rightarrow> window" where
  "at_start opts = opts\<lparr>lw_offset := 0, lw_selected := 0\<rparr>"

definition li_inv :: "list_widget \<Rightarrow> bool" where "li_inv l = lw_inv (li_count l) l"
definition vl_inv :: "virtual_list \<Rightarrow> bool" where "vl_inv l = lw_inv (vl_count l) l"

interpretation li: machine "new_List (at_start opts) items rowId rowStyle" li_step li_inv for opts items rowId rowStyle
proof unfold_locales
  show "li_inv (new_List (at_start opts) items rowId rowStyle)"
    by (simp add: li_inv_def li_count_def new_List_def at_start_def window.defs list_widget.defs lw_inv_at_start)
  show "li_inv l \<Longrightarrow> li_inv (li_step l event)" for l event
    using lw_inv_step [of "li_count l" l event] by (simp add: li_inv_def li_step_window li_count_def)
qed

interpretation vl: machine "new_VirtualList (at_start opts) rows disabledStyle" vl_step vl_inv for opts rows disabledStyle
proof unfold_locales
  show "vl_inv (new_VirtualList (at_start opts) rows disabledStyle)"
    by (simp add: vl_inv_def vl_count_def new_VirtualList_def at_start_def window.defs virtual_list.defs lw_inv_at_start)
  show "vl_inv l \<Longrightarrow> vl_inv (vl_step l event)" for l event
    using lw_inv_step [of "vl_count l" l event] by (simp add: vl_inv_def vl_step_window vl_count_def)
qed

section \<open>Rendering\<close>

lemma children_listBox [simp]: "children (listBox i w h) = []"
  by (simp add: listBox_def Let_def)

lemma own_text_listRowBox: "0 < w \<Longrightarrow> own_text (listRowBox v st i w) = padTo v w"
  by (simp add: listRowBox_def Let_def)

lemma children_lw_build:
  "children (lw_build n r l) =
     (if lw_header l \<noteq> [] then [listRowBox (lw_header l) (lw_headerStyle l) [] (lw_width l)] else []) @
     (if fst (lw_visibleRange n l) < snd (lw_visibleRange n l)
      then map r [fst (lw_visibleRange n l)..snd (lw_visibleRange n l) - 1]
      else if n = 0 \<and> lw_empty l \<noteq> [] then [listRowBox (lw_empty l) (lw_emptyStyle l) [] (lw_width l)] else []) @
     (if lw_footer l \<noteq> [] then [listRowBox (lw_footer l) (lw_footerStyle l) [] (lw_width l)] else [])"
  unfolding lw_build_def Let_def by (cases "lw_visibleRange n l") simp

text \<open>The row found at a position is the row drawn there.\<close>

lemma lw_rowAt_drawn:
  assumes "0 \<le> n" and "lw_rowAt n y l = Some i"
  shows "0 \<le> i" "i < n" "0 \<le> y" "y < int (length (children (lw_build n r l)))" "children (lw_build n r l) ! nat y = r i"
proof -
  define t where "t = (if lw_header l \<noteq> [] then 1 else 0 :: int)"
  have sz: "0 < lw_size n l" and y: "t \<le> y" "y < t + lw_size n l"
    using assms(2) by (auto simp: lw_rowAt_def Let_def t_def split: if_splits)
  obtain a where a: "lw_visibleRange n l = (a, a + lw_size n l)" "0 \<le> a" "a + lw_size n l \<le> n"
    by (rule lw_visibleRange_spec [OF sz assms(1)])
  have i: "i = a + (y - t)" using assms(2) a by (auto simp: lw_rowAt_def Let_def t_def split: if_splits)
  show "0 \<le> i" "i < n" "0 \<le> y" using i y a by (auto simp: t_def split: if_splits)
  define hd' where "hd' = (if lw_header l \<noteq> [] then [listRowBox (lw_header l) (lw_headerStyle l) [] (lw_width l)] else [])"
  define ft where "ft = (if lw_footer l \<noteq> [] then [listRowBox (lw_footer l) (lw_footerStyle l) [] (lw_width l)] else [])"
  have ch: "children (lw_build n r l) = hd' @ map r [a..a + lw_size n l - 1] @ ft"
    using sz by (simp add: children_lw_build a hd'_def ft_def)
  have hl: "int (length hd') = t" by (simp add: hd'_def t_def)
  then show "y < int (length (children (lw_build n r l)))" using y sz by (simp add: ch)
  have "nat y - length hd' = nat (y - t)" using hl y by linarith
  moreover have "\<not> nat y < length hd'" using hl y by linarith
  ultimately show "children (lw_build n r l) ! nat y = r i" using y by (simp add: ch nth_append i)
qed

lemma lw_ensureVisible_shows:
  assumes "0 < lw_size n l" and "0 \<le> n"
  shows "case lw_visibleRange n (lw_ensureVisible n l) of (a, b) \<Rightarrow>
    a \<le> lw_selected (lw_ensureVisible n l) \<and> lw_selected (lw_ensureVisible n l) < b"
proof -
  have sz: "lw_size n l \<le> n" by (rule lw_size_bounds(2) [OF assms(2)])
  have n: "0 < n" using assms sz by simp
  define s where "s = clampIndex (lw_selected l) n"
  define x where "x = clampOffset (followOffset (lw_offset l) s (lw_size n l)) (lw_size n l) n"
  have s: "0 \<le> s" "s < n" using clampIndex_bounds(1) [of "lw_selected l" n] clampIndex_bounds(2) [of n "lw_selected l"] n by (simp_all add: s_def)
  have x: "x \<le> s" "s < x + lw_size n l" "0 \<le> x" "x + lw_size n l \<le> n"
    using follow_clamp [OF assms(1) sz s] clampOffset_bounds(1,2) sz assms(1) by (simp_all add: x_def)
  have e: "lw_ensureVisible n l = l\<lparr>lw_offset := x, lw_selected := s\<rparr>"
    using assms(1) n by (simp add: lw_ensureVisible_def Let_def s_def x_def)
  have c: "clampOffset x (lw_size n l) n = x" using x assms(1) by (simp add: clampOffset_def)
  show ?thesis using x s assms(1) by (simp add: e lw_visibleRange_def Let_def clampIndex_id followOffset_stays c)
qed

section \<open>Properties\<close>

text \<open>
  C30: A list (of either class) created without an offset and a selection stays well formed over any sequence of
  moves, pages, jumps, wheel turns and \<open>ensureVisible\<close>: the selection is an entry of the list and
  the offset leaves a full window of entries.
\<close>

theorem list_window_invariant:
  "(let l = foldl li_step (new_List (at_start opts) items rowId rowStyle) evs
    in 0 \<le> lw_selected l \<and> lw_selected l < max 1 (li_count l) \<and>
       0 \<le> lw_offset l \<and> lw_offset l \<le> max 0 (li_count l - lw_size (li_count l) l)) \<and>
   (let v = foldl vl_step (new_VirtualList (at_start opts) rows disabledStyle) evs
    in 0 \<le> lw_selected v \<and> lw_selected v < max 1 (vl_count v) \<and>
       0 \<le> lw_offset v \<and> lw_offset v \<le> max 0 (vl_count v - lw_size (vl_count v) v))"
  using li.inv_run [where opts = opts and items = items and rowId = rowId and rowStyle = rowStyle and es = evs]
    vl.inv_run [where opts = opts and rows = rows and disabledStyle = disabledStyle and es = evs]
  by (simp add: Let_def li_inv_def vl_inv_def lw_inv_def)

text \<open>
  Whatever offset and selection a list was given, the rows it shows are entries of the list, as many as
  the window has room for; a list that follows its selection shows the selected entry, and so does
  every list after \<open>ensureVisible\<close>.
\<close>

lemma list_selection_visible:
  assumes "0 < lw_size (li_count l) l"
  shows "(case li_visibleRange l of (a, b) \<Rightarrow>
      0 \<le> a \<and> b = a + lw_size (li_count l) l \<and> b \<le> li_count l \<and>
      (lw_follow l \<longrightarrow> a \<le> clampIndex (lw_selected l) (li_count l) \<and> clampIndex (lw_selected l) (li_count l) < b)) \<and>
    (case li_visibleRange (li_ensureVisible l) of (a, b) \<Rightarrow>
      a \<le> lw_selected (li_ensureVisible l) \<and> lw_selected (li_ensureVisible l) < b)"
proof (rule lw_visibleRange_spec [OF assms])
  show n: "0 \<le> li_count l" by (simp add: li_count_def)
  have "li_count (li_ensureVisible l) = li_count l"
    by (simp add: li_ensureVisible_def lw_ensureVisible_def Let_def li_count_def)
  then have "case li_visibleRange (li_ensureVisible l) of (a, b) \<Rightarrow>
      a \<le> lw_selected (li_ensureVisible l) \<and> lw_selected (li_ensureVisible l) < b"
    using lw_ensureVisible_shows [OF assms n] by (simp add: li_visibleRange_def li_ensureVisible_def)
  then show ?thesis if "lw_visibleRange (li_count l) l = (a, a + lw_size (li_count l) l)" "0 \<le> a" "a + lw_size (li_count l) l \<le> li_count l"
    "lw_follow l \<longrightarrow> a \<le> clampIndex (lw_selected l) (li_count l) \<and> clampIndex (lw_selected l) (li_count l) < a + lw_size (li_count l) l" for a
    using that by (simp add: li_visibleRange_def)
qed

text \<open>Three entries in a window of two rows, scrolled to the top with the last entry selected.\<close>

definition sample_list :: list_widget where
  "sample_list = new_List (empty_window\<lparr>lw_height := 2, lw_selected := 2, lw_follow := True, lw_width := 4\<rparr>)
     [asc ''a'', asc ''b'', asc ''c''] None None"

lemma sample_list_fields:
  "li_count sample_list = 3" "lw_size 3 sample_list = 2" "lw_follow sample_list" "lw_selected sample_list = 2"
  "lw_offset sample_list = 0" "lw_header sample_list = []"
  by (simp_all add: sample_list_def new_List_def empty_window_def li_count_def lw_size_def windowSize_def chromeRows_def
      window.defs list_widget.defs)

text \<open>
  A position of the pointer and the drawing agree: the entry \<open>rowAt\<close> finds at line \<open>y\<close> of a list is an
  entry, and it is the one drawn as line \<open>y\<close>, header and scrolling included.
\<close>

theorem list_click_hits_row:
  assumes "li_rowAt y l = Some i"
  shows "0 \<le> i \<and> i < li_count l \<and> 0 \<le> y \<and> y < int (length (children (li_build l))) \<and>
    children (li_build l) ! nat y = li_row l i"
  using lw_rowAt_drawn [of "li_count l" y l i] assms
  by (simp add: li_rowAt_def li_build_def li_count_def)

theorem list_click_hits_row_witness:
  "li_rowAt 1 sample_list = Some 2 \<and> children (li_build sample_list) ! 1 = li_row sample_list 2"
proof -
  have "li_rowAt 1 sample_list = Some 2"
    by (simp add: li_rowAt_def lw_rowAt_def lw_visibleRange_def sample_list_fields clampIndex_def followOffset_def clampOffset_def)
  then show ?thesis using list_click_hits_row [of 1 sample_list 2] by simp
qed

end
