(* ===== verification/SelectBox.thy ===== *)
theory SelectBox
  imports ListWindow Decimal
begin

text \<open>
  The dropdown of \<open>clients/tui/sdk/ts/src/widgets/select.js\<close>: the selection among options some of which are disabled,
  the search by typed prefix, and the closed and open renderings. Prefixes are compared by UTF-16 code units,
  as \<open>charCodeAt\<close> reads them.
\<close>

section \<open>Definitions\<close>

definition DEFAULT_SELECT_INDICATOR :: ustr where "DEFAULT_SELECT_INDICATOR = [32, 0x25BE]"

record sel_option =
  so_value :: ustr
  so_label :: ustr
  so_disabled :: bool
  so_style :: ustr

record select =
  se_id :: ustr
  se_label :: ustr
  se_options :: "sel_option list"
  se_value :: ustr
  se_open :: bool
  se_width :: int
  se_placeholder :: ustr
  se_style :: ustr
  se_labelStyle :: ustr
  se_placeholderStyle :: ustr
  se_selectedStyle :: ustr
  se_disabledStyle :: ustr
  se_marker :: ustr
  se_indicator :: ustr
  se_dropdownStyle :: ustr

definition absInt :: "int \<Rightarrow> int" where
  "absInt v = (if v < 0 then - v else v)"

definition optionDisplay :: "sel_option \<Rightarrow> ustr" where
  "optionDisplay opt = (if so_label opt \<noteq> [] then so_label opt else so_value opt)"

definition toLowerASCIIByte :: "nat \<Rightarrow> nat" where
  "toLowerASCIIByte b = (if 0x41 \<le> b \<and> b \<le> 0x5a then b + 0x20 else b)"

text \<open>The code units of the lowered string.\<close>

definition toLowerASCII :: "ustr \<Rightarrow> nat list" where
  "toLowerASCII s = map toLowerASCIIByte (utf16 s)"

definition hasPrefixFold :: "ustr \<Rightarrow> nat list \<Rightarrow> bool" where
  "hasPrefixFold v lowerPrefix =
     (if length (utf16 v) < length lowerPrefix then False
      else list_all (\<lambda>i. toLowerASCIIByte (utf16 v ! i) = lowerPrefix ! i) [0..<length lowerPrefix])"

fun index_from :: "ustr \<Rightarrow> int \<Rightarrow> sel_option list \<Rightarrow> int" where
  "index_from v i [] = -1"
| "index_from v i (opt # opts) = (if so_value opt = v then i else index_from v (i + 1) opts)"

definition se_index :: "select \<Rightarrow> int" where
  "se_index s = index_from (se_value s) 0 (se_options s)"

definition se_selected :: "select \<Rightarrow> sel_option option" where
  "se_selected s =
     (let i = se_index s
      in if i < 0 \<or> so_disabled (se_options s ! nat i) then None else Some (se_options s ! nat i))"

definition selectIndex :: "int \<Rightarrow> select \<Rightarrow> bool \<times> select" where
  "selectIndex i s =
     (if i < 0 \<or> int (length (se_options s)) \<le> i \<or> so_disabled (se_options s ! nat i) then (False, s)
      else (True, s\<lparr>se_value := so_value (se_options s ! nat i)\<rparr>))"

text \<open>The inner loop of \<open>move\<close>: from \<open>next\<close> on in the direction, past disabled options.\<close>

function skipDisabled :: "sel_option list \<Rightarrow> bool \<Rightarrow> int \<Rightarrow> int" where
  "skipDisabled opts fwd k =
     (if 0 \<le> k \<and> k < int (length opts) \<and> so_disabled (opts ! nat k)
      then skipDisabled opts fwd (if fwd then k + 1 else k - 1) else k)"
  by pat_completeness auto
termination
  by (relation "measure (\<lambda>(opts, fwd, k). if fwd then nat (int (length opts) - k) else nat (k + 1))") auto

declare skipDisabled.simps [simp del]

text \<open>The outer loop: at most \<open>n\<close> steps, leaving at the boundary.\<close>

fun moveLoop :: "sel_option list \<Rightarrow> bool \<Rightarrow> nat \<Rightarrow> int \<Rightarrow> int" where
  "moveLoop opts fwd 0 current = current"
| "moveLoop opts fwd (Suc n) current =
     (let k = skipDisabled opts fwd (if fwd then current + 1 else current - 1)
      in if k < 0 \<or> int (length opts) \<le> k then current else moveLoop opts fwd n k)"

definition se_move :: "int \<Rightarrow> select \<Rightarrow> select" where
  "se_move delta s =
     (if delta = 0 \<or> se_options s = [] then s
      else let opts = se_options s; fwd = (0 < delta); current = se_index s;
               current = (if current < 0 then if fwd then -1 else int (length opts) else current);
               current = moveLoop opts fwd (nat (absInt delta)) current
           in if 0 \<le> current \<and> current < int (length opts) then s\<lparr>se_value := so_value (opts ! nat current)\<rparr> else s)"

definition matches :: "nat list \<Rightarrow> sel_option \<Rightarrow> bool" where
  "matches needle opt \<longleftrightarrow> \<not> so_disabled opt \<and> (hasPrefixFold (optionDisplay opt) needle \<or> hasPrefixFold (so_value opt) needle)"

fun typeLoop :: "nat list \<Rightarrow> sel_option list \<Rightarrow> int \<Rightarrow> nat list \<Rightarrow> sel_option option" where
  "typeLoop needle opts start [] = None"
| "typeLoop needle opts start (i # is) =
     (let n = int (length opts);
          k = (if start < 0 then int i - 1 else start + int i);
          k = k smod n;
          k = (if k < 0 then k + n else k);
          opt = opts ! nat k
      in if matches needle opt then Some opt else typeLoop needle opts start is)"

definition typeahead :: "ustr \<Rightarrow> select \<Rightarrow> bool \<times> select" where
  "typeahead pre s =
     (if pre = [] \<or> se_options s = [] then (False, s)
      else (case typeLoop (toLowerASCII pre) (se_options s) (se_index s) [1..<length (se_options s) + 1] of
              None \<Rightarrow> (False, s)
            | Some opt \<Rightarrow> (True, s\<lparr>se_value := so_value opt\<rparr>)))"

definition se_container :: "select \<Rightarrow> box" where
  "se_container s =
     (let col = new_Node (Some (asc ''col''));
          col = (if se_id s \<noteq> [] then n_id (se_id s) col else col)
      in if 0 < se_width s then n_width (se_width s) col else col)"

definition se_dropRow :: "select \<Rightarrow> nat \<Rightarrow> box" where
  "se_dropRow s i =
     (let opt = se_options s ! i;
          style = firstNonEmpty [so_style opt, se_style s];
          style = (if so_disabled opt then firstNonEmpty [se_disabledStyle s, style] else style);
          cur = (int i = se_index s \<and> \<not> so_disabled opt);
          value = (if cur then firstNonEmpty [se_marker s, DEFAULT_LIST_MARKER] @ optionDisplay opt else [32, 32] @ optionDisplay opt);
          style = (if cur then firstNonEmpty [se_selectedStyle s, style] else style)
      in listRowBox value style [] (se_width s))"

definition buildDropdown :: "select \<Rightarrow> box" where
  "buildDropdown s =
     (let col = se_container s;
          col = (if se_dropdownStyle s \<noteq> [] then n_style (se_dropdownStyle s) col else col);
          rows = map (se_dropRow s) [0..<length (se_options s)]
      in if rows = [] then col else n_child rows col)"

text \<open>The closed row: the value cut to what the indicator leaves, the indicator, and padding.\<close>

definition se_row :: "select \<Rightarrow> box" where
  "se_row s =
     (let node = n_height 1 (new_Node (Some (asc ''row'')));
          node = (if 0 < se_width s then n_width (se_width s) node else node);
          value = (case se_selected s of None \<Rightarrow> se_placeholder s | Some opt \<Rightarrow> optionDisplay opt);
          style = (case se_selected s of None \<Rightarrow> se_placeholderStyle s
                   | Some opt \<Rightarrow> firstNonEmpty [so_style opt, se_selectedStyle s, se_style s]);
          value = (if value = [] then [32] else value);
          indicator = firstNonEmpty [se_indicator s, DEFAULT_SELECT_INDICATOR];
          value = (if 0 < se_width s then Builder.truncate value (max 0 (se_width s - displayWidth indicator)) else value);
          pad = se_width s - displayWidth value - displayWidth indicator
      in n_child ([styled_text value style, styled_text indicator (se_placeholderStyle s)] @
           (if 0 < se_width s \<and> 0 < pad then [text_node (replicate (nat pad) 32)] else [])) node)"

definition se_build :: "select \<Rightarrow> box" where
  "se_build s =
     (if se_open s then buildDropdown s
      else n_child ((if se_label s \<noteq> [] then [styled_text (se_label s) (se_labelStyle s)] else []) @ [se_row s]) (se_container s))"

section \<open>Lemmas\<close>

abbreviation enabled_at :: "sel_option list \<Rightarrow> int \<Rightarrow> bool" where
  "enabled_at opts i \<equiv> \<not> so_disabled (opts ! nat i)"

lemma index_from_bounds: "index_from v i opts = -1 \<or> i \<le> index_from v i opts \<and> index_from v i opts < i + int (length opts)"
  by (induction v i opts rule: index_from.induct) auto

lemma index_from_value:
  "0 \<le> i \<Longrightarrow> index_from v i opts \<noteq> -1 \<Longrightarrow> so_value (opts ! nat (index_from v i opts - i)) = v"
proof (induction v i opts rule: index_from.induct)
  case (2 v i opt opts)
  show ?case
  proof (cases "so_value opt = v")
    case False
    then have "i + 1 \<le> index_from v (i + 1) opts" using index_from_bounds [of v "i + 1" opts] 2 by auto
    then have "nat (index_from v (i + 1) opts - i) = Suc (nat (index_from v (i + 1) opts - (i + 1)))" by simp
    then show ?thesis using 2 False by simp
  qed (use 2 in simp)
qed simp

lemma se_index_bounds: "se_index s = -1 \<or> 0 \<le> se_index s \<and> se_index s < int (length (se_options s))"
  using index_from_bounds [of "se_value s" 0 "se_options s"] by (simp add: se_index_def)

text \<open>Ahead of a position: the enabled options in the direction of the move, nearest first.\<close>

definition ahead :: "sel_option list \<Rightarrow> bool \<Rightarrow> int \<Rightarrow> int list" where
  "ahead opts fwd current =
     (if fwd then filter (enabled_at opts) [current + 1..int (length opts) - 1]
      else rev (filter (enabled_at opts) [0..current - 1]))"

lemma upto_first: "a \<le> b \<Longrightarrow> [a..b] = a # [a + 1..b]"
  by (rule upto_rec1)

lemma ahead_skip_fwd:
  "0 \<le> k \<Longrightarrow> k \<le> int (length opts) \<Longrightarrow>
   filter (enabled_at opts) [k..int (length opts) - 1] =
     (let q = skipDisabled opts True k in if int (length opts) \<le> q then [] else q # filter (enabled_at opts) [q + 1..int (length opts) - 1]) \<and>
   k \<le> skipDisabled opts True k \<and> skipDisabled opts True k \<le> int (length opts)"
proof (induction "nat (int (length opts) - k)" arbitrary: k)
  case 0
  then show ?case by (subst (1 2 3) skipDisabled.simps) (simp add: skipDisabled.simps)
next
  case (Suc n)
  then have k: "k < int (length opts)" by simp
  show ?case
  proof (cases "so_disabled (opts ! nat k)")
    case True
    then have s: "skipDisabled opts True k = skipDisabled opts True (k + 1)" using k Suc.prems by (subst skipDisabled.simps) simp
    have "n = nat (int (length opts) - (k + 1))" using Suc.hyps(2) by linarith
    from Suc.hyps(1) [OF this] Suc.prems k True show ?thesis by (auto simp: s upto_first)
  next
    case False
    then have s: "skipDisabled opts True k = k" by (subst skipDisabled.simps) simp
    show ?thesis using k False by (simp add: s upto_first)
  qed
qed

lemma ahead_skip_bwd:
  "-1 \<le> k \<Longrightarrow> k < int (length opts) \<Longrightarrow>
   rev (filter (enabled_at opts) [0..k]) =
     (let q = skipDisabled opts False k in if q < 0 then [] else q # rev (filter (enabled_at opts) [0..q - 1])) \<and>
   skipDisabled opts False k \<le> k \<and> -1 \<le> skipDisabled opts False k"
proof (induction "nat (k + 1)" arbitrary: k)
  case 0
  then show ?case by (subst (1 2 3) skipDisabled.simps) (simp add: skipDisabled.simps)
next
  case (Suc n)
  then have k: "0 \<le> k" by simp
  show ?case
  proof (cases "so_disabled (opts ! nat k)")
    case True
    then have s: "skipDisabled opts False k = skipDisabled opts False (k - 1)" using k Suc.prems by (subst skipDisabled.simps) simp
    have "n = nat (k - 1 + 1)" using Suc.hyps(2) by linarith
    from Suc.hyps(1) [OF this] Suc.prems k True show ?thesis by (auto simp: s upto_rec2)
  next
    case False
    then have s: "skipDisabled opts False k = k" by (subst skipDisabled.simps) simp
    show ?thesis using k False by (simp add: s upto_rec2)
  qed
qed

text \<open>Moving \<open>n\<close> steps ends on the \<open>n\<close>-th enabled option ahead, or on the last one there is.\<close>

lemma moveLoop_ahead:
  assumes "-1 \<le> current" and "current \<le> int (length opts)"
  shows "moveLoop opts fwd n current = last (current # take n (ahead opts fwd current))"
  using assms
proof (induction n arbitrary: current)
  case (Suc n)
  define q where "q = skipDisabled opts fwd (if fwd then current + 1 else current - 1)"
  have a: "ahead opts fwd current = (if q < 0 \<or> int (length opts) \<le> q then [] else q # ahead opts fwd q) \<and>
    (q < 0 \<or> int (length opts) \<le> q \<or> (-1 \<le> q \<and> q \<le> int (length opts)))"
  proof (cases fwd)
    case True
    show ?thesis
    proof (cases "current + 1 \<le> int (length opts)")
      case le: True
      then show ?thesis using ahead_skip_fwd [of "current + 1" opts] Suc.prems True by (auto simp: ahead_def q_def Let_def)
    next
      case False
      then have "q = current + 1" using True by (simp add: q_def skipDisabled.simps)
      then show ?thesis using False True by (simp add: ahead_def)
    qed
  next
    case bwd: False
    show ?thesis
    proof (cases "-1 \<le> current - 1")
      case True
      then show ?thesis using ahead_skip_bwd [of "current - 1" opts] Suc.prems bwd by (auto simp: ahead_def q_def Let_def)
    next
      case False
      then have "q = current - 1" using bwd by (simp add: q_def skipDisabled.simps)
      then show ?thesis using False bwd by (simp add: ahead_def)
    qed
  qed
  show ?case
  proof (cases "q < 0 \<or> int (length opts) \<le> q")
    case True
    then show ?thesis using a by (auto simp: q_def [symmetric] Let_def)
  next
    case False
    then show ?thesis using a Suc.IH [of q] by (auto simp: q_def [symmetric] Let_def)
  qed
qed simp

text \<open>The search visits the options once each, starting behind the current one.\<close>

definition search_order :: "int \<Rightarrow> nat \<Rightarrow> nat list" where
  "search_order start n = rotate (nat (start + 1)) [0..<n]"

lemma typeLoop_find:
  assumes "opts \<noteq> []" and "-1 \<le> start" and "list_all (\<lambda>i. 1 \<le> i) is"
  shows "typeLoop needle opts start is = find (matches needle) (map (\<lambda>i. opts ! ((nat (start + 1) + (i - 1)) mod length opts)) is)"
  using assms(3)
proof (induction "is")
  case (Cons i "is")
  define n where "n = length opts"
  have n: "0 < n" using assms(1) by (simp add: n_def)
  obtain j where j: "i = Suc j" using Cons.prems by (cases i) auto
  define k where "k = (if start < 0 then int i - 1 else start + int i)"
  have k: "k = int (nat (start + 1) + j)" using assms(2) by (auto simp: k_def j)
  have "k smod int n = int ((nat (start + 1) + j) mod n)"
    using n by (simp add: k signed_modulo_int_def sgn_if zmod_int)
  moreover have "typeLoop needle opts start (i # is) =
      (let k' = k smod int n; k' = (if k' < 0 then k' + int n else k'); opt = opts ! nat k'
       in if matches needle opt then Some opt else typeLoop needle opts start is)"
    by (simp add: k_def n_def Let_def)
  ultimately show ?case using Cons by (simp add: n_def j Let_def)
qed simp

lemma search_order_map:
  "map (\<lambda>i. opts ! ((s + (i - 1)) mod length opts)) [1..<length opts + 1] = map (nth opts) (rotate s [0..<length opts])"
proof -
  have upt: "map Suc [0..<length opts] = [1..<length opts + 1]" by (simp add: map_Suc_upt del: upt_Suc)
  have "map (\<lambda>i. opts ! ((s + (i - 1)) mod length opts)) [1..<length opts + 1] =
      map (\<lambda>i. opts ! ((s + i) mod length opts)) [0..<length opts]"
    by (simp only: upt [symmetric] map_map comp_def diff_Suc_1)
  also have "\<dots> = map (nth opts) (rotate s [0..<length opts])"
  proof (intro nth_equalityI)
    fix i
    assume "i < length (map (\<lambda>i. opts ! ((s + i) mod length opts)) [0..<length opts])"
    then have i: "i < length opts" by simp
    then have "(s + i) mod length opts < length opts" by (intro mod_less_divisor) linarith
    then show "map (\<lambda>i. opts ! ((s + i) mod length opts)) [0..<length opts] ! i = map (nth opts) (rotate s [0..<length opts]) ! i"
      using i by (simp add: nth_rotate)
  qed simp
  finally show ?thesis .
qed

lemma typeahead_find:
  assumes "pre \<noteq> []" and "se_options s \<noteq> []"
  shows "typeahead pre s =
    (case find (\<lambda>i. matches (toLowerASCII pre) (se_options s ! i)) (search_order (se_index s) (length (se_options s))) of
       None \<Rightarrow> (False, s) | Some i \<Rightarrow> (True, s\<lparr>se_value := so_value (se_options s ! i)\<rparr>))"
proof -
  have find_map: "find P (map f xs) = map_option f (find (P \<circ> f) xs)" for P :: "sel_option \<Rightarrow> bool" and f :: "nat \<Rightarrow> sel_option" and xs
    by (induction xs) simp_all
  have "-1 \<le> se_index s" using se_index_bounds [of s] by auto
  moreover have "list_all (\<lambda>i. 1 \<le> i) [1..<length (se_options s) + 1]" by (auto simp: list_all_iff)
  ultimately have "typeLoop (toLowerASCII pre) (se_options s) (se_index s) [1..<length (se_options s) + 1] =
      map_option (nth (se_options s)) (find (\<lambda>i. matches (toLowerASCII pre) (se_options s ! i)) (search_order (se_index s) (length (se_options s))))"
    by (simp only: typeLoop_find [OF assms(2)] search_order_map find_map search_order_def comp_def)
  then show ?thesis using assms by (simp add: typeahead_def split: option.split)
qed

section \<open>Properties\<close>

text \<open>
  Moving the selection by any delta goes to the option that many enabled options ahead in its direction, or to
  the last enabled one there is, and never rests on a disabled option it was not on before. Without a selection a
  move starts before the first or behind the last option.
\<close>

theorem select_move_ahead:
  assumes "delta \<noteq> 0" and "se_options s \<noteq> []"
  shows "let opts = se_options s; fwd = (0 < delta);
             start = (if se_index s < 0 then if fwd then -1 else int (length opts) else se_index s);
             target = last (start # take (nat (absInt delta)) (ahead opts fwd start))
         in se_move delta s = (if 0 \<le> target \<and> target < int (length opts) then s\<lparr>se_value := so_value (opts ! nat target)\<rparr> else s) \<and>
            (target = start \<or> 0 \<le> target \<and> target < int (length opts) \<and> enabled_at opts target)"
proof -
  define opts where "opts = se_options s"
  define fwd where "fwd = (0 < delta)"
  define start where "start = (if se_index s < 0 then if fwd then -1 else int (length opts) else se_index s)"
  have st: "-1 \<le> start" "start \<le> int (length opts)"
    using se_index_bounds [of s] by (auto simp: start_def opts_def)
  define target where "target = last (start # take (nat (absInt delta)) (ahead opts fwd start))"
  have t: "target = moveLoop opts fwd (nat (absInt delta)) start" by (simp add: target_def moveLoop_ahead [OF st])
  have mv: "se_move delta s = (if 0 \<le> target \<and> target < int (length opts) then s\<lparr>se_value := so_value (opts ! nat target)\<rparr> else s)"
  proof -
    have "\<not> (delta = 0 \<or> se_options s = [])" using assms by simp
    then show ?thesis unfolding t se_move_def Let_def opts_def fwd_def start_def by (subst if_not_P) auto
  qed
  have "target = start \<or> target \<in> set (ahead opts fwd start)"
  proof (cases "take (nat (absInt delta)) (ahead opts fwd start)" rule: rev_cases)
    case Nil
    then show ?thesis by (simp only: target_def) simp
  next
    case (snoc xs x)
    then have "x \<in> set (take (nat (absInt delta)) (ahead opts fwd start))" by simp
    then have "x \<in> set (ahead opts fwd start)" by (rule in_set_takeD)
    moreover have "target = x" by (simp only: target_def snoc) simp
    ultimately show ?thesis by blast
  qed
  moreover have "0 \<le> x \<and> x < int (length opts) \<and> enabled_at opts x" if "x \<in> set (ahead opts fwd start)" for x
    using that st unfolding ahead_def by (cases fwd) auto
  ultimately have "target = start \<or> 0 \<le> target \<and> target < int (length opts) \<and> enabled_at opts target" by blast
  with mv show ?thesis
    unfolding Let_def opts_def [symmetric] fwd_def [symmetric] start_def [symmetric] target_def [symmetric] by blast
qed

text \<open>Three options, the middle one disabled, the first one selected.\<close>

definition opt_of :: "string \<Rightarrow> bool \<Rightarrow> sel_option" where
  "opt_of v dis = \<lparr>so_value = asc v, so_label = [], so_disabled = dis, so_style = []\<rparr>"

definition sample_select :: select where
  "sample_select = \<lparr>se_id = [], se_label = [], se_options = [opt_of ''a'' False, opt_of ''b'' True, opt_of ''c'' False], se_value = asc ''a'',
     se_open = False, se_width = 6, se_placeholder = [], se_style = [], se_labelStyle = [], se_placeholderStyle = [],
     se_selectedStyle = [], se_disabledStyle = [], se_marker = [], se_indicator = [], se_dropdownStyle = []\<rparr>"

lemma sample_select_fields:
  "se_options sample_select = [opt_of ''a'' False, opt_of ''b'' True, opt_of ''c'' False]" "se_index sample_select = 0"
  by (simp_all add: sample_select_def se_index_def opt_of_def)

theorem select_move_ahead_witness:
  "se_move 5 sample_select = sample_select\<lparr>se_value := asc ''c''\<rparr>"
  using select_move_ahead [of 5 sample_select]
  by (simp add: sample_select_fields Let_def absInt_def ahead_def opt_of_def upto.simps [of 1 2] upto.simps [of 2 2] upto.simps [of 3 2])

text \<open>
  A typed prefix selects the first enabled option that matches it, looking at every option once from behind the
  current one around to it; it reports false and keeps the selection exactly when no enabled option matches.
\<close>

lemma typeahead_first_match:
  assumes "pre \<noteq> []" and "se_options s \<noteq> []"
  shows "distinct (search_order (se_index s) (length (se_options s))) \<and>
    set (search_order (se_index s) (length (se_options s))) = {..<length (se_options s)} \<and>
    typeahead pre s =
      (case find (\<lambda>i. matches (toLowerASCII pre) (se_options s ! i)) (search_order (se_index s) (length (se_options s))) of
         None \<Rightarrow> (False, s) | Some i \<Rightarrow> (True, s\<lparr>se_value := so_value (se_options s ! i)\<rparr>)) \<and>
    (fst (typeahead pre s) \<longleftrightarrow> list_ex (matches (toLowerASCII pre)) (se_options s))"
proof -
  have ex: "list_ex (matches (toLowerASCII pre)) (se_options s) \<longleftrightarrow>
      (\<exists>i < length (se_options s). matches (toLowerASCII pre) (se_options s ! i))"
    by (rule list_ex_length)
  have "set (search_order (se_index s) (length (se_options s))) = {..<length (se_options s)}" by (auto simp: search_order_def)
  moreover from this have "fst (typeahead pre s) \<longleftrightarrow> list_ex (matches (toLowerASCII pre)) (se_options s)"
    unfolding typeahead_find [OF assms] ex by (auto split: option.split simp: find_None_iff find_Some_iff)
  ultimately show ?thesis using typeahead_find [OF assms] by (simp add: search_order_def)
qed

lemma sample_matches:
  "matches (toLowerASCII (asc ''C'')) (opt_of ''c'' False)" "\<not> matches n (opt_of v True)"
  "\<not> matches (toLowerASCII (asc ''b'')) (opt_of ''a'' False)" "\<not> matches (toLowerASCII (asc ''b'')) (opt_of ''c'' False)"
  by (simp_all add: matches_def opt_of_def hasPrefixFold_def toLowerASCII_def toLowerASCIIByte_def utf16_def optionDisplay_def)

end
