(* ===== verification/TextInput.thy ===== *)
theory TextInput
  imports TextEditor
begin

text \<open>
  The single-line editor: class \<open>TextInput\<close> of \<open>clients/tui/sdk/ts/src/widgets/input.js\<close>. Its edits
  and movements are those of the theory of text editors; here are the constructor, the operations
  that differ from \<open>TextArea\<close>, the key bindings and the rendering.
\<close>

section \<open>Definitions\<close>

record text_input = editor +
  ti_offset :: int

definition new_TextInput :: "options \<Rightarrow> text_input" where
  "new_TextInput opts = editor.extend (editor_of opts) (text_input.fields (or_else 0 (op_offset opts)))"

definition ti_text :: "text_input \<Rightarrow> ustr" where
  "ti_text e = ed_value e"

definition ti_displayRunes :: "text_input \<Rightarrow> ustr list" where
  "ti_displayRunes e = (if ed_mask e = [] then runes_of (ed_value e) else map (\<lambda>r. ed_mask e) (ed_value e))"

definition ti_displayText :: "text_input \<Rightarrow> ustr" where
  "ti_displayText e = (if ed_value e = [] \<and> ed_placeholder e \<noteq> [] then ed_placeholder e else concat (ti_displayRunes e))"

definition ti_setValue :: "ustr \<Rightarrow> text_input \<Rightarrow> text_input" where
  "ti_setValue s e = ed_setRunes (filterRunes s False) e"

definition ti_insertRune :: "nat \<Rightarrow> text_input \<Rightarrow> bool \<times> text_input" where
  "ti_insertRune r e = ed_insertRune (\<lambda>r. r = NL \<or> r = CR) r e"

definition ti_insertString :: "ustr \<Rightarrow> text_input \<Rightarrow> bool \<times> text_input" where
  "ti_insertString s e = ed_insertRunes (filterRunes s False) e"

definition ti_home :: "text_input \<Rightarrow> bool \<times> text_input" where
  "ti_home e = (ed_cursor e \<noteq> 0, e\<lparr>ed_cursor := 0\<rparr>)"

definition ti_end :: "text_input \<Rightarrow> bool \<times> text_input" where
  "ti_end e = (ed_cursor e \<noteq> vlen e, e\<lparr>ed_cursor := vlen e\<rparr>)"

definition ti_handleKey :: "(nat \<Rightarrow> bool) \<Rightarrow> key_event option \<Rightarrow> text_input \<Rightarrow> bool \<times> text_input" where
  "ti_handleKey letter event e =
     (case event of None \<Rightarrow> (False, e) | Some ev \<Rightarrow>
        let k = ke_key ev in
        if k = asc ''left'' then (True, snd (ed_left e))
        else if k = asc ''right'' then (True, snd (ed_right e))
        else if k = asc ''home'' \<or> k = asc ''ctrl-a'' then (True, snd (ti_home e))
        else if k = asc ''end'' \<or> k = asc ''ctrl-e'' then (True, snd (ti_end e))
        else if k = asc ''backspace'' then (True, snd (ed_backspace e))
        else if k = asc ''delete'' then (True, snd (ed_delete e))
        else if k = asc ''ctrl-left'' \<or> k = asc ''alt-left'' \<or> k = asc ''ctrl-b'' then (True, snd (ed_wordLeft letter e))
        else if k = asc ''ctrl-right'' \<or> k = asc ''alt-right'' \<or> k = asc ''ctrl-f'' then (True, snd (ed_wordRight letter e))
        else if k = asc ''ctrl-w'' \<or> k = asc ''alt-backspace'' then (True, snd (ed_deleteWordLeft letter e))
        else if k = asc ''ctrl-k'' then (True, snd (ed_deleteToEnd e))
        else if k = asc ''ctrl-u'' then (True, snd (ti_home (snd (ed_deleteToEnd e))))
        else (case printableRune ev of
                Some r \<Rightarrow> (True, snd (ti_insertRune r e))
              | None \<Rightarrow> (False, e)))"

definition ti_visibleOffset :: "ustr list \<Rightarrow> text_input \<Rightarrow> int" where
  "ti_visibleOffset runes e =
     (if ed_width e \<le> 0 then 0
      else let n = int (length runes);
               offset = clampCursor (ti_offset e) n;
               cursor = clampCursor (ed_cursor e) n;
               offset = (if cursor < offset then cursor else offset)
           in scroll_to runes (ed_width e) cursor offset)"

definition inputRowBox :: "ustr \<Rightarrow> int \<Rightarrow> box" where
  "inputRowBox i width =
     (let node = n_height 1 (row_node []);
          node = (if i \<noteq> [] then n_id i node else node)
      in if 0 < width then n_width width node else node)"

definition ti_build :: "text_input \<Rightarrow> box" where
  "ti_build e =
     (let node = n_input (ed_inputs e) (n_focused (ed_focused e) (inputRowBox (ed_id e) (ed_width e)))
      in if ed_value e = [] \<and> ed_placeholder e \<noteq> [] then
           let value = (if 0 < ed_width e then Builder.truncate (ed_placeholder e) (ed_width e) else ed_placeholder e);
               node = n_child (styled_text value (ed_placeholderStyle e) # pad_boxes (ed_width e) (displayWidth value)) node
           in if ed_focused e then n_cursor 0 0 (cursorShape (ed_cursorShape e)) None node else node
         else
           let runes = ti_displayRunes e;
               cursor = clampCursor (ed_cursor e) (int (length runes));
               start = ti_visibleOffset runes e;
               visible = drop (nat start) runes
           in if \<not> ed_focused e then
                let value = (if 0 < ed_width e then padTo (concat visible) (ed_width e) else concat visible)
                in if value \<noteq> [] then n_child [styled_text value (ed_style e)] node else node
              else
                let rel = clampCursor (cursor - start) (int (length visible));
                    spans = cursor_spans (ed_width e) visible rel;
                    used = (case spans of (pre, cursorText, postText) \<Rightarrow>
                      displayWidth pre + displayWidth cursorText + displayWidth postText)
                in n_cursor 0 (displayWidth (fst spans)) (cursorShape (ed_cursorShape e)) None
                     (n_child (span_boxes e spans @ pad_boxes (ed_width e) used) node))"

section \<open>Editing\<close>

definition ti_step :: "(nat \<Rightarrow> bool) \<Rightarrow> text_input \<Rightarrow> ed_event \<Rightarrow> text_input" where
  "ti_step letter e event =
     (case event of Key ev \<Rightarrow> snd (ti_handleKey letter ev e)
      | PasteText s \<Rightarrow> snd (ti_insertString s e)
      | SetText s \<Rightarrow> ti_setValue s e)"

text \<open>The key bindings as a table, and the edit an event stands for.\<close>

definition bindings :: "(ustr \<times> edit) list" where
  "bindings =
     [(asc ''left'', Left), (asc ''right'', Right), (asc ''home'', Home), (asc ''ctrl-a'', Home),
      (asc ''end'', End), (asc ''ctrl-e'', End), (asc ''backspace'', Backspace), (asc ''delete'', Delete),
      (asc ''ctrl-left'', WordLeft), (asc ''alt-left'', WordLeft), (asc ''ctrl-b'', WordLeft),
      (asc ''ctrl-right'', WordRight), (asc ''alt-right'', WordRight), (asc ''ctrl-f'', WordRight),
      (asc ''ctrl-w'', KillWord), (asc ''alt-backspace'', KillWord), (asc ''ctrl-k'', KillEnd),
      (asc ''ctrl-u'', KillEndHome)]"

definition key_edit :: "key_event \<Rightarrow> edit option" where
  "key_edit ev = (case map_of bindings (ke_key ev) of Some c \<Rightarrow> Some c | None \<Rightarrow> map_option Type (printableRune ev))"

definition event_edit :: "ed_event \<Rightarrow> edit option" where
  "event_edit event =
     (case event of Key None \<Rightarrow> None | Key (Some ev) \<Rightarrow> key_edit ev
      | PasteText s \<Rightarrow> Some (Paste (filterRunes s False)) | SetText s \<Rightarrow> Some (Replace (filterRunes s False)))"

definition edit_step :: "(nat \<Rightarrow> bool) \<Rightarrow> int \<Rightarrow> halves \<Rightarrow> ed_event \<Rightarrow> halves" where
  "edit_step letter maxLen h event = (case event_edit event of None \<Rightarrow> h | Some c \<Rightarrow> apply_edit letter maxLen c h)"

lemma around_ti_home: "around (snd (ti_home e)) = apply_edit letter m Home (around e)"
  by (simp add: ti_home_def around_home)

lemma around_ti_end: "around (snd (ti_end e)) = apply_edit letter m End (around e)"
  by (simp add: ti_end_def around_end)

lemma apply_KillEndHome [simp]:
  "apply_edit letter m Home (apply_edit letter m KillEnd h) = apply_edit letter m KillEndHome h"
  by (cases h) simp

lemmas ti_moves = around_ed_left around_ed_right around_ed_backspace around_ed_delete around_ed_wordLeft
  around_ed_wordRight around_ed_deleteWordLeft around_ed_deleteToEnd around_ti_home around_ti_end

lemma ti_handleKey_bound:
  assumes "map_of bindings (ke_key ev) = Some c"
  shows "fst (ti_handleKey letter (Some ev) e) \<and>
    around (snd (ti_handleKey letter (Some ev) e)) = apply_edit letter (ed_maxLen e) c (around e)"
  using map_of_SomeD [OF assms] unfolding bindings_def list.set insert_iff empty_iff prod.inject
  by (elim disjE conjE FalseE)
    (simp_all add: ti_handleKey_def ti_moves [where letter = letter and m = "ed_maxLen e"])

lemma ti_handleKey_unbound:
  assumes "map_of bindings (ke_key ev) = None"
  shows "ti_handleKey letter (Some ev) e =
    (case printableRune ev of Some r \<Rightarrow> (True, snd (ti_insertRune r e)) | None \<Rightarrow> (False, e))"
proof -
  have "ke_key ev \<notin> fst ` set bindings" using assms by (simp add: map_of_eq_None_iff)
  then show ?thesis unfolding bindings_def ti_handleKey_def Let_def by (simp del: asc_simps)
qed

lemma ti_handleKey_edit:
  "fst (ti_handleKey letter (Some ev) e) = (key_edit ev \<noteq> None) \<and>
   around (snd (ti_handleKey letter (Some ev) e)) =
     (case key_edit ev of None \<Rightarrow> around e | Some c \<Rightarrow> apply_edit letter (ed_maxLen e) c (around e))"
proof (cases "map_of bindings (ke_key ev)")
  case None
  then show ?thesis
    using printableRune_line [of ev]
    by (auto simp: ti_handleKey_unbound key_edit_def ti_insertRune_def split: option.split
        intro!: around_ed_insertRune [THEN trans])
next
  case (Some c)
  then show ?thesis using ti_handleKey_bound [OF Some, of letter e] by (simp add: key_edit_def)
qed

lemma ti_step_edit: "around (ti_step letter e event) = edit_step letter (ed_maxLen e) (around e) event"
  by (auto simp: ti_step_def edit_step_def event_edit_def ti_handleKey_edit ti_insertString_def ti_setValue_def
      around_ed_insertRunes [of _ _ letter] around_ed_setRunes [of _ _ letter] ti_handleKey_def [of _ None]
      split: ed_event.split option.split)

text \<open>The limit is a constant of the editor.\<close>

lemma ed_maxLen_ti_handleKey [simp]: "ed_maxLen (snd (ti_handleKey letter event e)) = ed_maxLen e"
  by (simp add: ti_handleKey_def Let_def ti_home_def ti_end_def ti_insertRune_def
      del: asc_simps split: option.split)

lemma ed_maxLen_ti_step [simp]: "ed_maxLen (ti_step letter e event) = ed_maxLen e"
  by (simp add: ti_step_def ti_insertString_def ti_setValue_def split: ed_event.split)

subsection \<open>The invariant of an input\<close>

definition ti_inv :: "text_input \<Rightarrow> bool" where
  "ti_inv e = ed_ok (\<lambda>r. r \<noteq> NL \<and> r \<noteq> CR) e"

lemma ti_inv_insertRune: "ti_inv e \<Longrightarrow> ti_inv (snd (ti_insertRune r e))"
  unfolding ti_inv_def ti_insertRune_def by (rule ed_ok_insertRune) auto

lemma ti_inv_keeps:
  assumes "ti_inv e"
  shows "ti_inv (snd (ed_left e))" "ti_inv (snd (ed_right e))" "ti_inv (snd (ti_home e))" "ti_inv (snd (ti_end e))"
    "ti_inv (snd (ed_backspace e))" "ti_inv (snd (ed_delete e))" "ti_inv (snd (ed_wordLeft letter e))"
    "ti_inv (snd (ed_wordRight letter e))" "ti_inv (snd (ed_deleteWordLeft letter e))"
    "ti_inv (snd (ed_deleteToEnd e))"
  using assms
  by (simp_all add: ti_inv_def ti_home_def ti_end_def ed_keeps ed_ok_cursor vlen_def)

lemma ti_inv_handleKey: "ti_inv e \<Longrightarrow> ti_inv (snd (ti_handleKey letter event e))"
  unfolding ti_handleKey_def Let_def by (simp add: ti_inv_keeps ti_inv_insertRune del: asc_simps split: option.split)

lemma ti_inv_step: "ti_inv e \<Longrightarrow> ti_inv (ti_step letter e event)"
proof -
  have P: "list_all (\<lambda>r. r \<noteq> NL \<and> r \<noteq> CR) (filterRunes s False)" for s
    using list_all_filterRunes [of False s] by (simp add: conj_commute)
  show "ti_inv e \<Longrightarrow> ti_inv (ti_step letter e event)"
    by (auto simp: ti_step_def ti_inv_handleKey ti_insertString_def ti_setValue_def split: ed_event.split)
      (auto simp: ti_inv_def intro!: ed_keeps P)
qed

interpretation ti: machine "new_TextInput (blank opts)" "ti_step letter" ti_inv for opts letter
proof unfold_locales
  show "ti_inv (new_TextInput (blank opts))"
    by (simp add: ti_inv_def ed_ok_def new_TextInput_def blank_def editor_of_def toRunes_def or_else_def vlen_def
        editor.defs text_input.defs)
qed (rule ti_inv_step)

section \<open>Rendering\<close>

lemma single_displayRunes: "length (ed_mask e) \<le> 1 \<Longrightarrow> single (ti_displayRunes e)"
  by (cases "ed_mask e") (auto simp: ti_displayRunes_def single_def list_all_iff runes_of_def)

lemma length_displayRunes [simp]: "length (ti_displayRunes e) = length (ed_value e)"
  by (simp add: ti_displayRunes_def runes_of_def)

lemma children_inputRowBox [simp]: "children (inputRowBox i w) = []"
  and cursor_inputRowBox [simp]: "box_cursor (attrs (inputRowBox i w)) = None"
  by (simp_all add: inputRowBox_def Let_def)

text \<open>The window starts at or before the cursor and holds the whole cursor cell.\<close>

lemma ti_visibleOffset_spec:
  assumes "2 \<le> ed_width e" and "start = ti_visibleOffset rs e" and "c = clampCursor (ed_cursor e) (int (length rs))"
  shows "0 \<le> start" and "start \<le> c" and "cellWidthOf (js_slice rs start c) + cursorCellWidth rs c \<le> ed_width e"
proof -
  define k where "k = (if c < clampCursor (ti_offset e) (int (length rs)) then c else clampCursor (ti_offset e) (int (length rs)))"
  have k: "0 \<le> k" "k \<le> c" using assms(3) by (simp_all add: k_def)
  have s: "start = scroll_to rs (ed_width e) c k"
    using assms by (simp add: ti_visibleOffset_def Let_def k_def)
  show "0 \<le> start" "start \<le> c" "cellWidthOf (js_slice rs start c) + cursorCellWidth rs c \<le> ed_width e"
    using scroll_to_spec [OF k(2), of rs "ed_width e"] k(1) assms(1) unfolding s by linarith+
qed

text \<open>The focused row, with the cursor in view.\<close>

lemma ti_build_focused:
  assumes w: "2 \<le> ed_width e" and m: "length (ed_mask e) \<le> 1" and f: "ed_focused e"
    and p: "\<not> (ed_value e = [] \<and> ed_placeholder e \<noteq> [])"
    and start: "start = ti_visibleOffset (ti_displayRunes e) e"
  shows "displayWidth (row_text (ti_build e)) = ed_width e"
    and "\<exists>cur. box_cursor (attrs (ti_build e)) = Some cur \<and> cur_row cur = 0 \<and>
      cur_col cur = cellWidthOf (js_slice (ti_displayRunes e) start (ed_cursor (clamped e)))"
proof -
  define rs where "rs = ti_displayRunes e"
  define c where "c = clampCursor (ed_cursor e) (int (length rs))"
  define vis where "vis = drop (nat start) rs"
  have s: "0 \<le> start" "start \<le> c" "cellWidthOf (js_slice rs start c) + cursorCellWidth rs c \<le> ed_width e"
    using ti_visibleOffset_spec [OF w start [folded rs_def] c_def] by simp_all
  have c: "c \<le> int (length rs)" "ed_cursor (clamped e) = c" by (simp_all add: c_def rs_def clamped_def vlen_def)
  have single: "single rs" "single vis" using single_displayRunes [OF m] by (simp_all add: rs_def vis_def)
  have rel: "0 \<le> c - start" "c - start \<le> int (length vis)" using s c by (simp_all add: vis_def)
  have sl: "js_slice rs start c = take (nat (c - start)) vis"
    using s by (simp add: js_slice_def vis_def nat_diff_distrib)
  obtain pre ct post where sp: "cursor_spans (ed_width e) vis (c - start) = (pre, ct, post)"
    by (cases "cursor_spans (ed_width e) vis (c - start)")
  have fit: "displayWidth (concat (take (nat (c - start)) vis)) + cursorCellWidth vis (c - start) \<le> ed_width e"
    using s single c(1) by (simp add: sl cursorCellWidth_drop vis_def flip: cellWidthOf_single)
  note width = cursor_spans_width [OF _ single(2) rel fit sp]
  have b: "ti_build e = n_cursor 0 (displayWidth pre) (cursorShape (ed_cursorShape e)) None
      (n_child (span_boxes e (pre, ct, post) @ pad_boxes (ed_width e) (displayWidth pre + displayWidth ct + displayWidth post))
        (n_input (ed_inputs e) (n_focused (ed_focused e) (inputRowBox (ed_id e) (ed_width e)))))"
    using f sp rel unfolding ti_build_def Let_def if_not_P [OF p] rs_def [symmetric] start [folded rs_def, symmetric]
    by (simp add: c_def [symmetric] vis_def [symmetric])
  show "displayWidth (row_text (ti_build e)) = ed_width e"
    using w width(3) by (simp add: b row_text_def texts_span_boxes texts_pad_boxes)
  show "\<exists>cur. box_cursor (attrs (ti_build e)) = Some cur \<and> cur_row cur = 0 \<and>
      cur_col cur = cellWidthOf (js_slice (ti_displayRunes e) start (ed_cursor (clamped e)))"
    using w width(1) single by (simp add: b n_cursor_def c(2) rs_def [symmetric] sl cellWidthOf_single)
qed

section \<open>Properties\<close>

text \<open>
  C5: Whatever keys, pastes and values set by the program an input receives, its text before and
  after the cursor is what the abstract editor gives for the same events: the key table decides
  which edit a key is, printable keys insert, and every edit is its function on the two halves.
\<close>

theorem ti_session_refines:
  "around (foldl (ti_step letter) e evs) = foldl (edit_step letter (ed_maxLen e)) (around e) evs"
proof (induction evs arbitrary: e)
  case (Cons ev evs)
  show ?case using Cons.IH [of "ti_step letter e ev"] by (simp add: ti_step_edit)
qed simp

text \<open>
  An input created without an initial value keeps its invariant over any sequence of keys,
  pastes and values set: the cursor is inside the text, the length limit holds where there is one,
  and no line break ever enters the single line.
\<close>

lemma ti_session_invariant:
  "let e = foldl (ti_step letter) (new_TextInput (blank opts)) evs
   in 0 \<le> ed_cursor e \<and> ed_cursor e \<le> int (length (ti_text e)) \<and>
      (ed_maxLen e \<le> 0 \<or> int (length (ti_text e)) \<le> ed_maxLen e) \<and> list_all (\<lambda>r. r \<noteq> NL \<and> r \<noteq> CR) (ti_text e)"
  using ti.inv_run [where opts = opts and letter = letter and es = evs]
  by (auto simp: Let_def ti_inv_def ed_ok_def vlen_def ti_text_def)

text \<open>
  A row at least two cells wide, with a mask of at most one character, is drawn exactly as wide
  as it was asked to be, whatever the text, the cursor and the scroll offset; when the input is
  focused the cursor column is inside the row.
\<close>

theorem ti_build_fits:
  assumes "2 \<le> ed_width e" and "length (ed_mask e) \<le> 1"
  shows "displayWidth (row_text (ti_build e)) = ed_width e \<and>
    (ed_focused e \<longrightarrow> (\<exists>cur. box_cursor (attrs (ti_build e)) = Some cur \<and> cur_row cur = 0 \<and>
       0 \<le> cur_col cur \<and> cur_col cur < ed_width e))"
proof (cases "ed_value e = [] \<and> ed_placeholder e \<noteq> []")
  case True
  then show ?thesis
    using assms(1) truncate_width [of "ed_width e" "ed_placeholder e"]
    by (auto simp: ti_build_def Let_def row_text_def texts_pad_boxes n_cursor_def)
next
  case False
  show ?thesis
  proof (cases "ed_focused e")
    case True
    let ?c = "ed_cursor (clamped e)" and ?rs = "ti_displayRunes e"
    have c: "?c = clampCursor (ed_cursor e) (int (length ?rs))" by (simp add: clamped_def vlen_def)
    have "cellWidthOf (js_slice ?rs (ti_visibleOffset ?rs e) ?c) < ed_width e"
      using ti_visibleOffset_spec(3) [OF assms(1) refl c] cursorCellWidth_bounds(1) [of ?rs ?c] by linarith
    moreover have "0 \<le> cellWidthOf rs" for rs
      unfolding cellWidthOf_sum by (rule sum_list_nonneg) (auto intro: less_imp_le)
    ultimately show ?thesis using ti_build_focused [OF assms True False refl] by auto
  next
    case unfocused: False
    have "padTo s (ed_width e) \<noteq> []" for s using displayWidth_padTo [of "ed_width e" s] assms(1) by auto
    then show ?thesis
      using assms(1) False unfocused
      by (simp only: ti_build_def Let_def) (simp add: row_text_def displayWidth_padTo)
  qed
qed

text \<open>A masked input two cells wide with its cursor behind the text.\<close>

definition sample_input :: text_input where
  "sample_input = \<lparr>ed_id = [], ed_value = asc ''abc'', ed_cursor = 3, ed_placeholder = [], ed_mask = asc ''*'',
     ed_maxLen = 0, ed_width = 2, ed_focused = True, ed_style = [], ed_placeholderStyle = [], ed_cursorStyle = [],
     ed_cursorShape = [], ed_input = [], ti_offset = 0\<rparr>"

theorem ti_build_fits_witness:
  "displayWidth (row_text (ti_build sample_input)) = 2 \<and>
   (\<exists>cur. box_cursor (attrs (ti_build sample_input)) = Some cur \<and> 0 \<le> cur_col cur \<and> cur_col cur < 2)"
  using ti_build_fits [of sample_input] by (auto simp: sample_input_def)

end
