(* ===== verification/Validate.thy ===== *)
theory Validate
  imports Builder Decimal
begin

text \<open>
  The field validators of \<open>clients/tui/sdk/ts/src/widgets/validate.js\<close>. A validator maps a value to an error message, empty when the
  value is acceptable. The regular expressions the file writes out are modelled; \<open>pattern\<close> takes a compiler of
  regular expressions, which may fail, as a parameter.
\<close>

section \<open>Definitions\<close>

type_synonym validator = "ustr \<Rightarrow> ustr"

definition required :: "ustr \<Rightarrow> validator" where
  "required msg value = (if trim value = [] then msg else [])"

definition minLen :: "int \<Rightarrow> ustr \<Rightarrow> validator" where
  "minLen n msg value = (if value = [] \<or> n \<le> 0 then [] else if int (length value) < n then msg else [])"

definition maxLen :: "int \<Rightarrow> ustr \<Rightarrow> validator" where
  "maxLen n msg value = (if value = [] \<or> n \<le> 0 then [] else if n < int (length value) then msg else [])"

definition pattern :: "(ustr \<Rightarrow> (ustr \<Rightarrow> bool) option) \<Rightarrow> ustr \<Rightarrow> ustr \<Rightarrow> validator" where
  "pattern compile re msg =
     (case compile re of
        None \<Rightarrow> (\<lambda>value. if value = [] then [] else msg)
      | Some test \<Rightarrow> (\<lambda>value. if value = [] then [] else if test value then [] else msg))"

definition AT :: nat where "AT = 64"
definition DOT :: nat where "DOT = 46"

text \<open>\<open>[^@\s]\<close>\<close>

definition plain :: "nat \<Rightarrow> bool" where
  "plain c \<longleftrightarrow> c \<noteq> AT \<and> \<not> js_space c"

text \<open>Whether \<open>/^[^@\s]+@[^@\s]+\.[^@\s]+$/\<close> matches: some position holds the at sign and some later one the dot.\<close>

definition EMAIL_PATTERN :: "ustr \<Rightarrow> bool" where
  "EMAIL_PATTERN s =
     list_ex (\<lambda>i. s ! i = AT \<and> 0 < i \<and> list_all plain (take i s) \<and>
       list_ex (\<lambda>j. s ! j = DOT \<and> Suc i < j \<and> Suc j < length s \<and>
         list_all plain (take (j - Suc i) (drop (Suc i) s)) \<and> list_all plain (drop (Suc j) s)) [0..<length s]) [0..<length s]"

definition email :: "ustr \<Rightarrow> validator" where
  "email msg value = (if value = [] then [] else if EMAIL_PATTERN value then [] else msg)"

text \<open>\<open>/^[+-]?\d+$/\<close>, and the number such a text stands for.\<close>

definition split_sign :: "ustr \<Rightarrow> bool \<times> ustr" where
  "split_sign s = (case s of c # cs \<Rightarrow> if c = 45 then (True, cs) else if c = 43 then (False, cs) else (False, s) | [] \<Rightarrow> (False, s))"

definition int_syntax :: "ustr \<Rightarrow> bool" where
  "int_syntax s = (let ds = snd (split_sign s) in ds \<noteq> [] \<and> list_all is_digit ds)"

definition number_of :: "ustr \<Rightarrow> int" where
  "number_of s = (case split_sign s of (neg, ds) \<Rightarrow> let n = int (js_Number (parse_nat ds)) in if neg then - n else n)"

definition intRange :: "int \<Rightarrow> int \<Rightarrow> ustr \<Rightarrow> validator" where
  "intRange mn mx msg value =
     (let t = trim value
      in if t = [] then [] else if \<not> int_syntax t then msg
         else let n = number_of t in if n < mn \<or> mx < n then msg else [])"

definition oneOf :: "ustr list \<Rightarrow> ustr \<Rightarrow> validator" where
  "oneOf vals msg value = (if value = [] then [] else if value \<in> set vals then [] else msg)"

fun all_validators :: "validator option list \<Rightarrow> validator" where
  "all_validators [] value = []"
| "all_validators (v # vs) value =
     (case v of None \<Rightarrow> all_validators vs value
      | Some validate \<Rightarrow> if validate value \<noteq> [] then validate value else all_validators vs value)"

definition custom :: "validator option \<Rightarrow> validator" where
  "custom fn = (case fn of None \<Rightarrow> (\<lambda>value. []) | Some f \<Rightarrow> f)"

section \<open>Lemmas\<close>

lemma EMAIL_PATTERN_language:
  "EMAIL_PATTERN s \<longleftrightarrow> (\<exists>a b c. s = a @ [AT] @ b @ [DOT] @ c \<and> a \<noteq> [] \<and> b \<noteq> [] \<and> c \<noteq> [] \<and>
     list_all plain a \<and> list_all plain b \<and> list_all plain c)" (is "_ \<longleftrightarrow> ?R")
proof
  assume "EMAIL_PATTERN s"
  then obtain i j where i: "i < length s" "s ! i = AT" "0 < i" "list_all plain (take i s)"
      and j: "j < length s" "s ! j = DOT" "Suc i < j" "Suc j < length s"
        "list_all plain (take (j - Suc i) (drop (Suc i) s))" "list_all plain (drop (Suc j) s)"
    by (auto simp: EMAIL_PATTERN_def list_ex_iff)
  have "s = take i s @ [AT] @ drop (Suc i) s" using id_take_nth_drop [OF i(1)] i(2) by simp
  moreover have "drop (Suc i) s = take (j - Suc i) (drop (Suc i) s) @ [DOT] @ drop (Suc j) s"
    using id_take_nth_drop [of "j - Suc i" "drop (Suc i) s"] j by simp
  ultimately have "s = take i s @ [AT] @ take (j - Suc i) (drop (Suc i) s) @ [DOT] @ drop (Suc j) s" by simp
  moreover have "take i s \<noteq> []" "take (j - Suc i) (drop (Suc i) s) \<noteq> []" "drop (Suc j) s \<noteq> []" using i j by auto
  ultimately show ?R using i j by blast
next
  assume ?R
  then obtain a b c where s: "s = a @ [AT] @ b @ [DOT] @ c" and ne: "a \<noteq> []" "b \<noteq> []" "c \<noteq> []"
      and p: "list_all plain a" "list_all plain b" "list_all plain c" by blast
  let ?i = "length a" and ?j = "Suc (length a + length b)"
  have "?i < length s" "?j < length s" by (simp_all add: s)
  moreover have "s ! ?i = AT" "s ! ?j = DOT" by (simp_all add: s nth_append)
  moreover have "take ?i s = a" "take (?j - Suc ?i) (drop (Suc ?i) s) = b" "drop (Suc ?j) s = c" by (simp_all add: s)
  moreover have "0 < ?i" "Suc ?i < ?j" "Suc ?j < length s" using ne by (simp_all add: s)
  ultimately show "EMAIL_PATTERN s"
    using p unfolding EMAIL_PATTERN_def list_ex_iff by (intro bexI [of _ ?i] conjI bexI [of _ ?j]) simp_all
qed

section \<open>Properties\<close>

text \<open>
  A combined validator accepts a value exactly when every validator in it does, and otherwise gives the message of the first one
  that rejects it; the email validator accepts exactly the empty value and the texts with one at sign that has plain characters
  before it and a dot inside plain characters after it.
\<close>

theorem validators_sound:
  "all_validators vs value = (case find (\<lambda>v. custom v value \<noteq> []) vs of None \<Rightarrow> [] | Some v \<Rightarrow> custom v value) \<and>
   (all_validators vs value = [] \<longleftrightarrow> list_all (\<lambda>v. custom v value = []) vs) \<and>
   (email (m # msg) value = [] \<longleftrightarrow> value = [] \<or>
      (\<exists>a b c. value = a @ [AT] @ b @ [DOT] @ c \<and> a \<noteq> [] \<and> b \<noteq> [] \<and> c \<noteq> [] \<and>
         list_all plain a \<and> list_all plain b \<and> list_all plain c))"
proof (intro conjI)
  show "all_validators vs value = (case find (\<lambda>v. custom v value \<noteq> []) vs of None \<Rightarrow> [] | Some v \<Rightarrow> custom v value)"
    by (induction vs) (auto simp: custom_def split: option.split)
  show "all_validators vs value = [] \<longleftrightarrow> list_all (\<lambda>v. custom v value = []) vs"
    by (induction vs) (auto simp: custom_def split: option.split)
  show "email (m # msg) value = [] \<longleftrightarrow> value = [] \<or>
      (\<exists>a b c. value = a @ [AT] @ b @ [DOT] @ c \<and> a \<noteq> [] \<and> b \<noteq> [] \<and> c \<noteq> [] \<and>
         list_all plain a \<and> list_all plain b \<and> list_all plain c)"
    unfolding EMAIL_PATTERN_language [symmetric] by (simp add: email_def)
qed

end
