(* ===== verification/Civil.thy ===== *)
theory Civil
  imports Decimal
begin

text \<open>
  The civil calendar of \<open>clients/tui/sdk/ts/src/widgets/datepicker.js\<close>: dates as year, month and day, their conversion to
  and from day numbers, and the arithmetic, printing and parsing built on it. \<open>Math.floor(a / b)\<close> is floored
  division; \<open>Math.trunc\<close> and \<open>%\<close> are signed division and remainder.
\<close>

section \<open>Day numbers\<close>

definition daysFromCivil :: "int \<Rightarrow> int \<Rightarrow> int \<Rightarrow> int" where
  "daysFromCivil y m d =
     (let y = y - (if m \<le> 2 then 1 else 0);
          era = y div 400;
          yoe = y - era * 400;
          doy = (153 * (m + (if 2 < m then -3 else 9)) + 2) div 5 + d - 1;
          doe = yoe * 365 + yoe div 4 - yoe div 100 + doy
      in era * 146097 + doe - 719468)"

definition civilFromDays :: "int \<Rightarrow> int \<times> int \<times> int" where
  "civilFromDays z =
     (let z = z + 719468;
          era = z div 146097;
          doe = z - era * 146097;
          yoe = (doe - doe div 1460 + doe div 36524 - doe div 146096) div 365;
          y = yoe + era * 400;
          doy = doe - (365 * yoe + yoe div 4 - yoe div 100);
          mp = (5 * doy + 2) div 153;
          d = doy - (153 * mp + 2) div 5 + 1;
          m = mp + (if mp < 10 then 3 else -9)
      in (y + (if m \<le> 2 then 1 else 0), m, d))"

definition isLeapYear :: "int \<Rightarrow> bool" where
  "isLeapYear year \<longleftrightarrow> year smod 4 = 0 \<and> (year smod 100 \<noteq> 0 \<or> year smod 400 = 0)"

definition daysInMonth :: "int \<Rightarrow> int \<Rightarrow> int" where
  "daysInMonth year month =
     (if month < 1 \<or> 12 < month then 0
      else if month = 4 \<or> month = 6 \<or> month = 9 \<or> month = 11 then 30
      else if month = 2 then (if isLeapYear year then 29 else 28)
      else 31)"

definition addMonths :: "int \<Rightarrow> int \<Rightarrow> int \<Rightarrow> int \<times> int" where
  "addMonths year month n =
     (if month < 1 \<or> 12 < month then (year, month)
      else let index = year * 12 + (month - 1) + n;
               targetYear = index sdiv 12;
               targetMonth = index smod 12
           in if targetMonth < 0 then (targetYear - 1, targetMonth + 12 + 1) else (targetYear, targetMonth + 1))"

section \<open>The calendar dates\<close>

text \<open>A date that exists.\<close>

definition real_date :: "int \<Rightarrow> int \<Rightarrow> int \<Rightarrow> bool" where
  "real_date y m d \<longleftrightarrow> 1 \<le> m \<and> m \<le> 12 \<and> 1 \<le> d \<and> d \<le> daysInMonth y m"

lemma smod_zero [simp]: "0 < b \<Longrightarrow> (a :: int) smod b = 0 \<longleftrightarrow> a mod b = 0"
  using floor_of_sdiv(2) [of b a] by (auto simp: signed_modulo_int_def sgn_if mod_eq_0_iff_dvd dvd_eq_mod_eq_0 [symmetric])

lemma isLeapYear_mod: "isLeapYear y \<longleftrightarrow> y mod 4 = 0 \<and> (y mod 100 \<noteq> 0 \<or> y mod 400 = 0)"
  by (simp add: isLeapYear_def)

lemma div_add_small: "0 \<le> u \<Longrightarrow> u < b \<Longrightarrow> (b * k + u) div b = (k :: int)"
  by simp

text \<open>
  Years are counted from March, so that the leap day is the last day of a year. A year of the era is
  \<open>100 a + 4 b + r\<close>; its first day of the era is \<open>36524 a + 1461 b + 365 r\<close>.
\<close>

lemma era_year:
  fixes a b r doy :: int
  assumes a: "0 \<le> a" "a \<le> 3" and b: "0 \<le> b" "b \<le> 24" and r: "0 \<le> r" "r \<le> 3"
    and doy: "0 \<le> doy" "doy \<le> 365" and leap: "doy = 365 \<Longrightarrow> r = 3 \<and> (b \<noteq> 24 \<or> a = 3)"
    and doe: "doe = 36524 * a + 1461 * b + 365 * r + doy"
  shows "(doe - doe div 1460 + doe div 36524 - doe div 146096) div 365 = 100 * a + 4 * b + r"
    and "0 \<le> doe" and "doe \<le> 146096"
proof -
  define e where "e = 1461 * b + 365 * r + doy"
  have e: "0 \<le> e" "e \<le> 36524" "e = 36524 \<Longrightarrow> a = 3"
  proof -
    show "0 \<le> e" using b r doy by (simp add: e_def)
    show "e \<le> 36524" "e = 36524 \<Longrightarrow> a = 3"
      using b r doy leap by (cases "b = 24"; cases "doy = 365"; simp add: e_def)+
  qed
  have de: "doe = 36524 * a + e" by (simp add: doe e_def)
  show lo: "0 \<le> doe" and hi: "doe \<le> 146096" using a e by (simp_all add: de)
  have c: "doe div 36524 - doe div 146096 = a"
  proof (cases "e = 36524")
    case True
    then show ?thesis using e(3) by (simp add: de)
  next
    case False
    then have "doe div 36524 = a" using e by (simp add: de)
    moreover have "doe < 146096" using False e a by (simp add: de)
    ultimately show ?thesis using lo by simp
  qed
  define t where "t = 24 * a + b + 365 * r + doy"
  have t: "0 \<le> t" "t < 2920" using a b r doy by (simp_all add: t_def)
  have "doe = 1460 * (25 * a + b) + t" by (simp add: doe t_def)
  then have d: "doe div 1460 = 25 * a + b + t div 1460" by simp
  have q: "t div 1460 = (if t < 1460 then 0 else 1)" using t by auto
  have f: "doe - doe div 1460 + doe div 36524 - doe div 146096 = 365 * (100 * a + 4 * b + r) + (doy - t div 1460)"
    using c d by (simp add: doe)
  have "0 \<le> doy - t div 1460 \<and> doy - t div 1460 < 365"
  proof (cases "doy = 365")
    case True
    then have "1460 \<le> t" using leap a b by (simp add: t_def)
    then show ?thesis using True q by simp
  next
    case False
    then show ?thesis using q a b r doy by (auto simp: t_def)
  qed
  then show "(doe - doe div 1460 + doe div 36524 - doe div 146096) div 365 = 100 * a + 4 * b + r"
    unfolding f by (intro div_add_small) simp_all
qed

text \<open>The months, counted from March, and the days in them.\<close>

lemma month_of_day:
  fixes mp d :: int
  assumes "0 \<le> mp" "mp \<le> 11" "1 \<le> d" "d \<le> (if mp = 11 then 29 else if mp = 1 \<or> mp = 3 \<or> mp = 6 \<or> mp = 8 then 30 else 31)"
    and "doy = (153 * mp + 2) div 5 + d - 1"
  shows "(5 * doy + 2) div 153 = mp" and "doy - (153 * mp + 2) div 5 + 1 = d" and "0 \<le> doy" and "doy \<le> 365"
    and "doy = 365 \<Longrightarrow> mp = 11 \<and> d = 29"
proof -
  have "mp \<in> {0, 1, 2, 3, 4, 5, 6, 7, 8, 9, 10, 11}" using assms(1,2) by (simp, presburger)
  then show "(5 * doy + 2) div 153 = mp" "0 \<le> doy" "doy \<le> 365" "doy = 365 \<Longrightarrow> mp = 11 \<and> d = 29"
    using assms(3,4,5) by auto
  show "doy - (153 * mp + 2) div 5 + 1 = d" using assms(5) by simp
qed

text \<open>Any year of an era, split into centuries, leap cycles and years.\<close>

lemma year_parts:
  fixes yoe :: int
  assumes "0 \<le> yoe" and "yoe < 400"
  obtains a b r where "yoe = 100 * a + 4 * b + r" "0 \<le> a" "a \<le> 3" "0 \<le> b" "b \<le> 24" "0 \<le> r" "r \<le> 3"
    "yoe div 4 - yoe div 100 = 24 * a + b" "yoe mod 4 = r" "yoe mod 100 = 4 * b + r" "(yoe + 1) mod 400 = 0 \<longleftrightarrow> a = 3 \<and> b = 24 \<and> r = 3"
proof -
  define a where "a = yoe div 100"
  define b where "b = (yoe mod 100) div 4"
  define r where "r = yoe mod 4"
  have m: "yoe mod 100 = 4 * b + r"
  proof -
    have "yoe mod 100 mod 4 = yoe mod 4" by (simp add: mod_mod_cancel)
    then show ?thesis using mult_div_mod_eq [of 4 "yoe mod 100"] by (simp add: b_def r_def)
  qed
  have y: "yoe = 100 * a + 4 * b + r" using mult_div_mod_eq [of 100 yoe] m by (simp add: a_def)
  have bounds: "0 \<le> a" "a \<le> 3" "0 \<le> b" "b \<le> 24" "0 \<le> r" "r \<le> 3" using assms by (auto simp: a_def b_def r_def)
  have "yoe = 4 * (25 * a + b) + r" using y by simp
  then have "yoe div 4 = 25 * a + b" using div_add_small [of r 4 "25 * a + b"] bounds by simp
  then have div: "yoe div 4 - yoe div 100 = 24 * a + b" unfolding a_def [symmetric] by linarith
  have last: "(yoe + 1) mod 400 = 0 \<longleftrightarrow> a = 3 \<and> b = 24 \<and> r = 3"
  proof -
    have "(yoe + 1) mod 400 = 0 \<longleftrightarrow> yoe = 399"
    proof (cases "yoe = 399")
      case False
      then have "(yoe + 1) mod 400 = yoe + 1" using assms by (intro mod_pos_pos_trivial) simp_all
      then show ?thesis using assms False by linarith
    qed simp
    moreover have "a = 3 \<and> b = 24 \<and> r = 3" if "yoe = 399"
    proof -
      have a: "a = 3" using that y bounds by linarith
      then have "b = 24" using that y bounds by linarith
      then show ?thesis using a that y by linarith
    qed
    moreover have "yoe = 399" if "a = 3 \<and> b = 24 \<and> r = 3" using that y by linarith
    ultimately show ?thesis by metis
  qed
  show ?thesis by (rule that [OF y bounds div r_def [symmetric] m last])
qed

text \<open>Year, month and day as the code counts them from March.\<close>

lemma leap_parts:
  fixes y :: int
  shows "isLeapYear (y + 1) \<longleftrightarrow> (let yoe = y - y div 400 * 400 in (yoe + 1) mod 4 = 0 \<and> ((yoe + 1) mod 100 \<noteq> 0 \<or> (yoe + 1) mod 400 = 0))"
proof -
  define q where "q = y div 400"
  define x where "x = y - q * 400 + 1"
  have y: "y + 1 = x + 400 * q" by (simp add: x_def)
  have x: "y - y div 400 * 400 + 1 = x" by (simp add: x_def q_def)
  have mods: "(x + 400 * q) mod 4 = x mod 4" "(x + 400 * q) mod 100 = x mod 100" "(x + 400 * q) mod 400 = x mod 400"
    using mod_mult_self1 [of x "q * 100" 4] mod_mult_self1 [of x "q * 4" 100] mod_mult_self1 [of x q 400] by (simp_all add: mult.commute)
  show ?thesis unfolding isLeapYear_mod Let_def x y mods ..
qed

lemma civil_of_days:
  assumes "real_date y m d"
  shows "civilFromDays (daysFromCivil y m d) = (y, m, d)"
proof -
  define Y where "Y = y - (if m \<le> 2 then 1 else 0)"
  define mp where "mp = m + (if 2 < m then -3 else 9)"
  define era where "era = Y div 400"
  define yoe where "yoe = Y - era * 400"
  define doy where "doy = (153 * mp + 2) div 5 + d - 1"
  define doe where "doe = yoe * 365 + yoe div 4 - yoe div 100 + doy"
  have z: "daysFromCivil y m d + 719468 = era * 146097 + doe"
    by (simp add: daysFromCivil_def Let_def Y_def mp_def era_def yoe_def doy_def doe_def)
  have m: "1 \<le> m" "m \<le> 12" "1 \<le> d" "d \<le> daysInMonth y m" using assms by (simp_all add: real_date_def)
  have mp: "0 \<le> mp" "mp \<le> 11" using m by (auto simp: mp_def)
  have "d \<le> (if mp = 11 then 29 else if mp = 1 \<or> mp = 3 \<or> mp = 6 \<or> mp = 8 then 30 else 31)"
    using m by (auto simp: daysInMonth_def mp_def split: if_splits)
  note month = month_of_day [OF mp m(3) this doy_def]
  have yoe: "0 \<le> yoe" "yoe < 400" by (simp_all add: yoe_def era_def minus_div_mult_eq_mod)
  then obtain a b r where p: "yoe = 100 * a + 4 * b + r" "0 \<le> a" "a \<le> 3" "0 \<le> b" "b \<le> 24" "0 \<le> r" "r \<le> 3"
      "yoe div 4 - yoe div 100 = 24 * a + b" "yoe mod 4 = r" "yoe mod 100 = 4 * b + r" "(yoe + 1) mod 400 = 0 \<longleftrightarrow> a = 3 \<and> b = 24 \<and> r = 3"
    by (rule year_parts)
  have leap: "r = 3 \<and> (b \<noteq> 24 \<or> a = 3)" if "doy = 365"
  proof -
    have "mp = 11" "d = 29" using month(5) [OF that] by simp_all
    then have "m = 2" using m by (simp add: mp_def split: if_splits)
    then have ly: "isLeapYear (Y + 1)" using m(4) \<open>d = 29\<close> by (simp add: daysInMonth_def Y_def split: if_splits)
    then have "(yoe + 1) mod 4 = 0" "(yoe + 1) mod 100 \<noteq> 0 \<or> (yoe + 1) mod 400 = 0"
      unfolding leap_parts Let_def yoe_def era_def by simp_all
    note lp = this
    have mods: "(yoe + 1) mod 4 = (r + 1) mod 4" "(yoe + 1) mod 100 = (4 * b + r + 1) mod 100"
      using mod_add_left_eq [of yoe 4 1] mod_add_left_eq [of yoe 100 1] p(9,10) by simp_all
    have r: "r = 3"
    proof (rule ccontr)
      assume "r \<noteq> 3"
      then have "(r + 1) mod 4 = r + 1" using p(6,7) by simp
      then show False using lp(1) mods(1) p(6) by linarith
    qed
    moreover have "a = 3" if "b = 24"
    proof -
      have "(yoe + 1) mod 100 = 0" unfolding mods(2) by (simp add: that r)
      then have "(yoe + 1) mod 400 = 0" using lp(2) by simp
      then show ?thesis using p(11) by simp
    qed
    ultimately show ?thesis by blast
  qed
  have doe36: "doe = 36524 * a + 1461 * b + 365 * r + doy" using p(1,8) by (simp add: doe_def)
  note ey = era_year [OF p(2-7) month(3,4) leap doe36]
  have era: "(era * 146097 + doe) div 146097 = era" using ey(2,3) by simp
  have rest: "era * 146097 + doe - era * 146097 = doe" by simp
  have yr: "(doe - doe div 1460 + doe div 36524 - doe div 146096) div 365 = yoe" using ey(1) p(1) by simp
  have day: "doe - (365 * yoe + yoe div 4 - yoe div 100) = doy" by (simp add: doe_def)
  have mon: "mp + (if mp < 10 then 3 else -9) = m" using m by (auto simp: mp_def)
  have "yoe + era * 400 + (if m \<le> 2 then 1 else 0) = y" by (simp add: yoe_def Y_def)
  then show ?thesis unfolding civilFromDays_def z Let_def era rest yr day month(1) mon month(2) by simp
qed

section \<open>Every day number is a date\<close>

text \<open>The day number without eras.\<close>

lemma daysFromCivil_linear:
  "daysFromCivil y m d =
     (let Y = y - (if m \<le> 2 then 1 else 0)
      in 365 * Y + Y div 4 - Y div 100 + Y div 400 + (153 * (m + (if 2 < m then -3 else 9)) + 2) div 5 + d - 719469)"
proof -
  define Y where "Y = y - (if m \<le> 2 then 1 else 0)"
  define e where "e = Y div 400"
  define u where "u = Y - e * 400"
  have Y: "Y = u + e * 400" by (simp add: u_def)
  have "Y div 4 = u div 4 + 100 * e" "Y div 100 = u div 100 + 4 * e"
    using div_mult_self1 [of 4 u "100 * e"] div_mult_self1 [of 100 u "4 * e"] by (simp_all add: Y mult.commute)
  then show ?thesis unfolding daysFromCivil_def Let_def Y_def [symmetric] e_def [symmetric] u_def [symmetric] by (simp add: Y)
qed

lemma div_step:
  fixes y b :: int
  assumes b: "0 < b"
  shows "y div b = (y - 1) div b + (if y mod b = 0 then 1 else 0)"
proof -
  define q where "q = y div b"
  define r where "r = y mod b"
  have y: "y = b * q + r" by (simp add: q_def r_def)
  have r: "0 \<le> r" "r < b" using b by (simp_all add: r_def)
  have "(y - 1) div b = q - (if r = 0 then 1 else 0)"
  proof (cases "r = 0")
    case True
    have "y - 1 = b * (q - 1) + (b - 1)" unfolding y True by (simp add: algebra_simps)
    then have "(y - 1) div b = q - 1" using div_add_small [of "b - 1" b "q - 1"] b by (simp only:)
    then show ?thesis using True by simp
  next
    case False
    have "y - 1 = b * q + (r - 1)" unfolding y by simp
    then have e: "(y - 1) div b = (b * q + (r - 1)) div b" by (simp only:)
    have "(y - 1) div b = q" unfolding e using r False by (intro div_add_small) simp_all
    then show ?thesis using False by simp
  qed
  then show ?thesis by (simp add: q_def [symmetric] r_def [symmetric])
qed

lemma year_length:
  "365 * y + y div 4 - y div 100 + y div 400 =
   365 * (y - 1) + (y - 1) div 4 - (y - 1) div 100 + (y - 1) div 400 + (if isLeapYear y then 366 else (365 :: int))"
proof -
  have "y mod 400 = 0 \<Longrightarrow> y mod 100 = 0" "y mod 100 = 0 \<Longrightarrow> y mod 4 = 0"
    by (simp_all add: mod_eq_0_iff_dvd) (auto elim: dvd_trans [rotated])
  then show ?thesis
    unfolding div_step [of 4 y, simplified] div_step [of 100 y, simplified] div_step [of 400 y, simplified] isLeapYear_mod
    by (cases "y mod 4 = 0"; cases "y mod 100 = 0"; cases "y mod 400 = 0") (simp_all only: if_True if_False simp_thms, simp_all)
qed

fun next_day :: "int \<times> int \<times> int \<Rightarrow> int \<times> int \<times> int" where
  "next_day (y, m, d) = (if d < daysInMonth y m then (y, m, d + 1) else if m < 12 then (y, m + 1, 1) else (y + 1, 1, 1))"

fun prev_day :: "int \<times> int \<times> int \<Rightarrow> int \<times> int \<times> int" where
  "prev_day (y, m, d) = (if 1 < d then (y, m, d - 1) else if 1 < m then (y, m - 1, daysInMonth y (m - 1)) else (y - 1, 12, 31))"

definition dayno :: "int \<times> int \<times> int \<Rightarrow> int" where
  "dayno c = (case c of (y, m, d) \<Rightarrow> daysFromCivil y m d)"

definition real :: "int \<times> int \<times> int \<Rightarrow> bool" where
  "real c = (case c of (y, m, d) \<Rightarrow> real_date y m d)"

lemma month_cases:
  "1 \<le> m \<Longrightarrow> m \<le> 12 \<Longrightarrow> m = 1 \<or> m = 2 \<or> m = 3 \<or> m = 4 \<or> m = 5 \<or> m = 6 \<or> m = 7 \<or> m = 8 \<or> m = 9 \<or> m = 10 \<or> m = 11 \<or> m = (12 :: int)"
  by presburger

lemma daysInMonth_pos: "1 \<le> m \<Longrightarrow> m \<le> 12 \<Longrightarrow> 28 \<le> daysInMonth y m" "daysInMonth y m \<le> 31"
  by (simp_all add: daysInMonth_def)

lemma dayno_next_month:
  assumes "1 \<le> m" and "m < 12"
  shows "daysFromCivil y (m + 1) 1 = daysFromCivil y m (daysInMonth y m) + 1"
proof (cases "m = 2")
  case True
  then show ?thesis using year_length [of y] by (simp add: daysFromCivil_linear Let_def daysInMonth_def)
next
  case False
  then show ?thesis using month_cases [of m] assms by (auto simp: daysFromCivil_linear Let_def daysInMonth_def)
qed

lemma dayno_day: "daysFromCivil y m d = daysFromCivil y m 1 + (d - 1)"
  by (simp add: daysFromCivil_def Let_def)

lemma dayno_next_year: "daysFromCivil (y + 1) 1 1 = daysFromCivil y 12 31 + 1"
  by (simp add: daysFromCivil_linear Let_def)

lemma next_day_succ: "real c \<Longrightarrow> real (next_day c) \<and> dayno (next_day c) = dayno c + 1"
proof (cases c)
  case (fields y m d)
  assume "real c"
  then have c: "1 \<le> m" "m \<le> 12" "1 \<le> d" "d \<le> daysInMonth y m" by (simp_all add: fields real_def real_date_def)
  show ?thesis
  proof (cases "d < daysInMonth y m")
    case True
    then show ?thesis using c dayno_day [of y m "d + 1"] dayno_day [of y m d] by (simp add: fields real_def real_date_def dayno_def)
  next
    case False
    then have d: "d = daysInMonth y m" using c by simp
    have "28 \<le> daysInMonth y (m + 1)" if "m < 12" using daysInMonth_pos(1) [of "m + 1" y] c that by simp
    then show ?thesis using c d dayno_next_month [of m y] dayno_next_year [of y]
      by (auto simp: fields real_def real_date_def dayno_def daysInMonth_def [of _ 1] daysInMonth_def [of _ 12])
  qed
qed

lemma prev_day_pred: "real c \<Longrightarrow> real (prev_day c) \<and> dayno (prev_day c) = dayno c - 1"
proof (cases c)
  case (fields y m d)
  assume "real c"
  then have c: "1 \<le> m" "m \<le> 12" "1 \<le> d" "d \<le> daysInMonth y m" by (simp_all add: fields real_def real_date_def)
  show ?thesis
  proof (cases "1 < d")
    case True
    then show ?thesis using c dayno_day [of y m "d - 1"] dayno_day [of y m d] by (simp add: fields real_def real_date_def dayno_def)
  next
    case False
    then have d: "d = 1" using c by simp
    have "28 \<le> daysInMonth y (m - 1)" if "1 < m" using daysInMonth_pos(1) [of "m - 1" y] c that by simp
    then show ?thesis using c d dayno_next_month [of "m - 1" y] dayno_next_year [of "y - 1"]
      by (auto simp: fields real_def real_date_def dayno_def daysInMonth_def [of _ 12])
  qed
qed

lemma day_exists: "\<exists>c. real c \<and> dayno c = z"
proof (induction z rule: int_induct [where k = 0])
  case base
  have "real (1970, 1, 1) \<and> dayno (1970, 1, 1) = 0"
    by (simp add: real_def real_date_def dayno_def daysFromCivil_def daysInMonth_def)
  then show ?case by blast
next
  case (step1 i)
  then show ?case using next_day_succ by metis
next
  case (step2 i)
  then show ?case using prev_day_pred by metis
qed

lemma civilFromDays_real:
  "real (civilFromDays z)" "dayno (civilFromDays z) = z"
proof -
  obtain c where "real c" "dayno c = z" using day_exists [of z] by blast
  moreover from this have "civilFromDays z = c"
    using civil_of_days by (cases c) (auto simp: real_def dayno_def)
  ultimately show "real (civilFromDays z)" "dayno (civilFromDays z) = z" by simp_all
qed

section \<open>Properties\<close>

text \<open>
  C6: The two conversions are inverse to each other without any bound on the year: a date that exists comes back from
  its day number, and every day number, before 1970 included, is the number of a date that exists.
\<close>

theorem civil_days_bijection:
  "(real_date y m d \<longrightarrow> civilFromDays (daysFromCivil y m d) = (y, m, d)) \<and>
   (case civilFromDays z of (y', m', d') \<Rightarrow> real_date y' m' d' \<and> daysFromCivil y' m' d' = z)"
  using civilFromDays_real [of z] by (auto simp: civil_of_days real_def dayno_def split: prod.splits)

theorem civil_days_bijection_witness:
  "civilFromDays (daysFromCivil 2024 2 29) = (2024, 2, 29)"
  using civil_days_bijection [of 2024 2 29 0] by (simp add: real_date_def daysInMonth_def isLeapYear_mod)

end
