(* ===== verification/Table.thy ===== *)
theory Table
  imports TextEditor Decimal
begin

text \<open>
  The aligned text tables of \<open>clients/tui/sdk/ts/src/widgets/table.js\<close>: the widths of the columns (natural size,
  growth by flex shares, shrinking from the right) and the rows drawn with them.
\<close>

section \<open>Definitions\<close>

text \<open>The values of a record cell: what \<open>String(value)\<close> prints for them.\<close>

datatype cell_value = VNull | VStr ustr | VInt int | VBool bool

fun sprint :: "cell_value \<Rightarrow> ustr" where
  "sprint VNull = asc ''<nil>''"
| "sprint (VStr s) = s"
| "sprint (VInt n) = show_int n"
| "sprint (VBool b) = (if b then asc ''true'' else asc ''false'')"

record column =
  co_title :: ustr
  co_width :: int
  co_minWidth :: int
  co_flex :: int
  co_align :: ustr
  co_format :: "(cell_value \<Rightarrow> ustr) option"

record table =
  tb_id :: ustr
  tb_columns :: "column list"
  tb_rows :: "ustr list list"
  tb_records :: "cell_value list list"
  tb_width :: int
  tb_hideHeader :: bool
  tb_rule :: bool
  tb_zebra :: bool
  tb_zebraStyle :: ustr
  tb_selected :: int
  tb_style :: ustr
  tb_headerStyle :: ustr
  tb_selectedStyle :: ustr
  tb_footerStyle :: ustr
  tb_separatorStyle :: ustr
  tb_footer :: "ustr list"
  tb_separator :: ustr
  tb_rowId :: "(int \<Rightarrow> ustr) option"

definition ALIGN_RIGHT :: ustr where "ALIGN_RIGHT = asc ''right''"
definition ALIGN_CENTER :: ustr where "ALIGN_CENTER = asc ''center''"
definition DEFAULT_TABLE_SEPARATOR :: ustr where "DEFAULT_TABLE_SEPARATOR = asc '' ''"

definition padCell :: "ustr \<Rightarrow> int \<Rightarrow> ustr \<Rightarrow> ustr" where
  "padCell value width align =
     (let out = Builder.truncate value width; pad = width - displayWidth out; left = pad div 2
      in if pad \<le> 0 then out
         else if align = ALIGN_RIGHT then replicate (nat pad) 32 @ out
         else if align = ALIGN_CENTER then replicate (nat left) 32 @ out @ replicate (nat (pad - left)) 32
         else out @ replicate (nat pad) 32)"

definition rowCount :: "table \<Rightarrow> nat" where
  "rowCount t = (if tb_records t \<noteq> [] then length (tb_records t) else length (tb_rows t))"

definition tb_cell :: "table \<Rightarrow> int \<Rightarrow> int \<Rightarrow> ustr" where
  "tb_cell t r c =
     (if tb_records t \<noteq> [] then
        if r < 0 \<or> int (length (tb_records t)) \<le> r then []
        else let rec = tb_records t ! nat r
             in if c < 0 \<or> int (length rec) \<le> c then []
                else if c < int (length (tb_columns t)) \<and> co_format (tb_columns t ! nat c) \<noteq> None
                     then the (co_format (tb_columns t ! nat c)) (rec ! nat c)
                else sprint (rec ! nat c)
      else if r < 0 \<or> int (length (tb_rows t)) \<le> r then []
      else let cells = tb_rows t ! nat r
           in if c < 0 \<or> int (length cells) \<le> c then [] else cells ! nat c)"

definition minWidth :: "table \<Rightarrow> int \<Rightarrow> int" where
  "minWidth t c =
     (if 0 \<le> c \<and> c < int (length (tb_columns t)) \<and> 0 < co_minWidth (tb_columns t ! nat c)
      then co_minWidth (tb_columns t ! nat c) else 1)"

definition tb_align :: "table \<Rightarrow> int \<Rightarrow> ustr" where
  "tb_align t c = (if 0 \<le> c \<and> c < int (length (tb_columns t)) then co_align (tb_columns t ! nat c) else [])"

definition tb_separatorText :: "table \<Rightarrow> ustr" where
  "tb_separatorText t = (if tb_separator t = [] then DEFAULT_TABLE_SEPARATOR else tb_separator t)"

definition sepWidth :: "table \<Rightarrow> int" where
  "sepWidth t = displayWidth (tb_separatorText t)"

text \<open>The natural width of column \<open>i\<close>.\<close>

definition naturalWidth :: "table \<Rightarrow> nat \<Rightarrow> int" where
  "naturalWidth t i =
     (let col = tb_columns t ! i
      in if 0 < co_width col then co_width col
         else let width = foldl (\<lambda>width r. let cell = displayWidth (tb_cell t (int r) (int i)) in if width < cell then cell else width)
                    (displayWidth (co_title col)) [0..<rowCount t];
                  width = (if width < minWidth t (int i) then minWidth t (int i) else width)
              in if width < 1 then 1 else width)"

definition flexible :: "table \<Rightarrow> nat \<Rightarrow> bool" where
  "flexible t i \<longleftrightarrow> co_width (tb_columns t ! i) \<le> 0 \<and> 0 < co_flex (tb_columns t ! i)"

definition totalFlex :: "table \<Rightarrow> int" where
  "totalFlex t = foldl (\<lambda>f i. if flexible t i then f + co_flex (tb_columns t ! i) else f) 0 [0..<length (tb_columns t)]"

text \<open>The growth loop: widths, cells added so far, last column that grew.\<close>

definition grow_step :: "table \<Rightarrow> int \<Rightarrow> int \<Rightarrow> int list \<times> int \<times> nat option \<Rightarrow> nat \<Rightarrow> int list \<times> int \<times> nat option" where
  "grow_step t extra flex st i =
     (case st of (widths, added, lst) \<Rightarrow>
        if \<not> flexible t i then st
        else let share = (extra * co_flex (tb_columns t ! i)) sdiv flex
             in (widths[i := widths ! i + share], added + share, Some i))"

definition grow :: "table \<Rightarrow> int \<Rightarrow> int \<Rightarrow> int list \<Rightarrow> int list" where
  "grow t extra flex widths =
     (case foldl (grow_step t extra flex) (widths, 0, None) [0..<length (tb_columns t)] of
        (ws, added, lst) \<Rightarrow> (case lst of None \<Rightarrow> ws | Some i \<Rightarrow> ws[i := ws ! i + (extra - added)]))"

text \<open>The shrink loop, from the last column down; it stops when the widths fit.\<close>

fun shrink :: "table \<Rightarrow> int \<Rightarrow> nat \<Rightarrow> int list \<Rightarrow> int \<Rightarrow> int list" where
  "shrink t avail 0 widths used = widths"
| "shrink t avail (Suc i) widths used =
     (if used \<le> avail then widths
      else if 0 < co_width (tb_columns t ! i) then shrink t avail i widths used
      else let reduce = used - avail;
               floor' = minWidth t (int i);
               reduce = (if widths ! i - reduce < floor' then widths ! i - floor' else reduce)
           in if 0 < reduce then shrink t avail i (widths[i := widths ! i - reduce]) (used - reduce)
              else shrink t avail i widths used)"

definition columnWidths :: "table \<Rightarrow> int list" where
  "columnWidths t =
     (let n = length (tb_columns t); widths = map (naturalWidth t) [0..<n]
      in if n = 0 then []
         else if tb_width t \<le> 0 then widths
         else let avail = tb_width t - sepWidth t * (int n - 1)
              in if avail \<le> 0 then widths
                 else let used = sum_list widths
                      in if used < avail then
                           let flex = totalFlex t in if flex = 0 then widths else grow t (avail - used) flex widths
                         else if avail < used then shrink t avail n widths used
                         else widths)"

definition headerCells :: "table \<Rightarrow> ustr list" where
  "headerCells t = map co_title (tb_columns t)"

definition tb_cells :: "table \<Rightarrow> nat \<Rightarrow> ustr list" where
  "tb_cells t r = map (\<lambda>i. tb_cell t (int r) (int i)) [0..<length (tb_columns t)]"

definition totalWidth :: "table \<Rightarrow> int list \<Rightarrow> int" where
  "totalWidth t widths = (if widths = [] then 0 else sepWidth t * (int (length widths) - 1) + sum_list widths)"

definition rowBox :: "table \<Rightarrow> ustr list \<Rightarrow> int list \<Rightarrow> ustr \<Rightarrow> ustr \<Rightarrow> box" where
  "rowBox t cells widths style i =
     (let line = n_height 1 (new_Node (Some (asc ''row'')));
          line = (if i \<noteq> [] then n_input [asc ''mouse''] (n_id i line) else line);
          kids = concat (map (\<lambda>k. (if 0 < k then [n_style (tb_separatorStyle t) (text_node (tb_separatorText t))] else []) @
            [n_height 1 (n_width (widths ! k) (n_style style
               (text_node (padCell (if k < length cells then cells ! k else []) (widths ! k) (tb_align t (int k))))))]) [0..<length widths])
      in if kids = [] then line else n_child kids line)"

definition tb_rowAt :: "int \<Rightarrow> table \<Rightarrow> int option" where
  "tb_rowAt y t =
     (if tb_columns t = [] then None
      else let top = (if tb_hideHeader t then 0 else if tb_rule t then 2 else 1); r = y - top
           in if r < 0 \<or> int (rowCount t) \<le> r then None else Some r)"

definition tb_dataRow :: "table \<Rightarrow> int list \<Rightarrow> nat \<Rightarrow> box" where
  "tb_dataRow t widths r =
     (let style = (if tb_zebra t \<and> r mod 2 = 1 then firstNonEmpty [tb_zebraStyle t, tb_style t] else tb_style t);
          style = (if int r = tb_selected t then firstNonEmpty [tb_selectedStyle t, style] else style);
          i = (case tb_rowId t of None \<Rightarrow> [] | Some f \<Rightarrow> f (int r))
      in rowBox t (tb_cells t r) widths style i)"

text \<open>\<open>repeat\<close> throws on a negative count; \<open>totalWidth\<close> is never negative for the widths used here.\<close>

definition tb_build :: "table \<Rightarrow> box" where
  "tb_build t =
     (let col = new_Node (Some (asc ''col''));
          col = (if tb_id t \<noteq> [] then n_id (tb_id t) col else col);
          col = (if 0 < tb_width t then n_width (tb_width t) col else col)
      in if tb_columns t = [] then col
         else let widths = columnWidths t;
                  header = (if tb_hideHeader t then []
                    else [rowBox t (headerCells t) widths (tb_headerStyle t) []] @
                      (if tb_rule t then [n_height 1 (n_style (tb_headerStyle t) (text_node (replicate (nat (totalWidth t widths)) 0x2500)))] else []));
                  body = map (tb_dataRow t widths) [0..<rowCount t];
                  footer = (if tb_footer t \<noteq> [] then [rowBox t (tb_footer t) widths (tb_footerStyle t) []] else []);
                  rows = header @ body @ footer
              in if rows = [] then col else n_child rows col)"

section \<open>Lemmas\<close>

lemma padCell_width: "0 \<le> w \<Longrightarrow> displayWidth (padCell v w al) = w"
proof -
  assume "0 \<le> w"
  then have "displayWidth (Builder.truncate v w) \<le> w" by (rule truncate_width)
  then show ?thesis by (auto simp: padCell_def Let_def)
qed

lemma minWidth_pos: "1 \<le> minWidth t c"
  by (simp add: minWidth_def)

lemma naturalWidth_pos: "1 \<le> naturalWidth t i"
  by (simp add: naturalWidth_def Let_def)

lemma naturalWidth_min: "co_width (tb_columns t ! i) \<le> 0 \<Longrightarrow> minWidth t (int i) \<le> naturalWidth t i"
  by (auto simp: naturalWidth_def Let_def)

lemma sum_list_update_add: "i < length xs \<Longrightarrow> sum_list (xs[i := xs ! i + d]) = sum_list xs + (d :: int)"
proof (induction xs arbitrary: i)
  case (Cons x xs)
  then show ?case by (cases i) simp_all
qed simp

text \<open>Flex shares before column \<open>k\<close>.\<close>

definition flexBefore :: "table \<Rightarrow> nat \<Rightarrow> int" where
  "flexBefore t k = foldl (\<lambda>f i. if flexible t i then f + co_flex (tb_columns t ! i) else f) 0 [0..<k]"

lemma flexBefore_simps [simp]:
  "flexBefore t 0 = 0"
  "flexBefore t (Suc k) = (if flexible t k then flexBefore t k + co_flex (tb_columns t ! k) else flexBefore t k)"
  by (simp_all add: flexBefore_def)

lemma flexBefore_mono: "k \<le> n \<Longrightarrow> flexBefore t k \<le> flexBefore t n"
  by (induction n) (auto simp: le_Suc_eq flexible_def)

lemma totalFlex_before: "totalFlex t = flexBefore t (length (tb_columns t))"
  by (simp add: totalFlex_def flexBefore_def)

lemma flexBefore_none: "(\<And>i. i < k \<Longrightarrow> \<not> flexible t i) \<Longrightarrow> flexBefore t k = 0"
  by (induction k) simp_all

text \<open>The state of the growth loop before column \<open>k\<close>.\<close>

lemma grow_loop:
  assumes "0 < flex" and "0 \<le> extra" and "foldl (grow_step t extra flex) (widths, 0, None) [0..<k] = (ws, added, lst)"
    and "k \<le> length widths"
  shows "length ws = length widths \<and> sum_list ws = sum_list widths + added \<and> flex * added \<le> extra * flexBefore t k \<and>
    (\<forall>i < length widths. widths ! i \<le> ws ! i) \<and> (case lst of None \<Rightarrow> flexBefore t k = 0 | Some j \<Rightarrow> j < k)"
  using assms(3,4)
proof (induction k arbitrary: ws added lst)
  case (Suc k)
  obtain ws' added' lst' where st: "foldl (grow_step t extra flex) (widths, 0, None) [0..<k] = (ws', added', lst')"
    by (cases "foldl (grow_step t extra flex) (widths, 0, None) [0..<k]")
  note IH = Suc.IH [OF st]
  have k: "k < length widths" using Suc.prems by simp
  have step: "grow_step t extra flex (ws', added', lst') k = (ws, added, lst)" using Suc.prems(1) st by simp
  show ?case
  proof (cases "flexible t k")
    case False
    then show ?thesis using step k IH by (auto simp: grow_step_def split: option.splits)
  next
    case True
    define share where "share = (extra * co_flex (tb_columns t ! k)) sdiv flex"
    have f: "0 < co_flex (tb_columns t ! k)" using True by (simp add: flexible_def)
    have sh: "share = extra * co_flex (tb_columns t ! k) div flex"
      unfolding share_def using f assms by (intro sdiv_pos) simp_all
    have sh0: "0 \<le> share" "flex * share \<le> extra * co_flex (tb_columns t ! k)"
      using f assms mult_div_mod_eq [of flex "extra * co_flex (tb_columns t ! k)"]
        pos_mod_sign [of flex "extra * co_flex (tb_columns t ! k)"]
      unfolding sh by (simp add: pos_imp_zdiv_nonneg_iff, linarith)
    have e: "ws = ws'[k := ws' ! k + share]" "added = added' + share" "lst = Some k"
      using step True by (simp_all add: grow_step_def share_def Let_def)
    have "flex * added \<le> extra * flexBefore t (Suc k)"
      using IH sh0(2) k True by (simp add: e distrib_left)
    then show ?thesis using IH k sh0(1) by (auto simp: e sum_list_update_add nth_list_update)
  qed
qed simp

lemma grow_spec:
  assumes "totalFlex t \<noteq> 0" and "0 \<le> extra" and "length widths = length (tb_columns t)"
  shows "length (grow t extra (totalFlex t) widths) = length widths \<and>
    sum_list (grow t extra (totalFlex t) widths) = sum_list widths + extra \<and>
    (\<forall>i < length widths. widths ! i \<le> grow t extra (totalFlex t) widths ! i)"
proof -
  define flex where "flex = totalFlex t"
  have fl: "0 < flex" using assms(1) flexBefore_mono [of 0 "length (tb_columns t)" t] by (simp add: flex_def totalFlex_before)
  obtain ws added lst where st: "foldl (grow_step t extra flex) (widths, 0, None) [0..<length (tb_columns t)] = (ws, added, lst)"
    by (cases "foldl (grow_step t extra flex) (widths, 0, None) [0..<length (tb_columns t)]")
  note g = grow_loop [OF fl assms(2) st] 
  obtain j where j: "lst = Some j" "j < length ws" using g assms fl by (auto simp: flex_def totalFlex_before split: option.splits)
  have "flex * added \<le> flex * extra" using g assms(3) by (simp add: flex_def totalFlex_before mult.commute)
  then have "added \<le> extra" using fl by simp
  moreover have "grow t extra flex widths = ws[j := ws ! j + (extra - added)]" by (simp add: grow_def st j)
  ultimately show ?thesis using g assms(3) j by (auto simp: flex_def [symmetric] sum_list_update_add nth_list_update)
qed

lemma shrink_spec:
  assumes "avail \<le> sum_list widths" and "i \<le> length widths"
    and "\<And>k. k < i \<Longrightarrow> co_width (tb_columns t ! k) \<le> 0 \<Longrightarrow> minWidth t (int k) \<le> widths ! k" and "list_all (\<lambda>w. 1 \<le> w) widths"
  shows "let ws = shrink t avail i widths (sum_list widths) in
    length ws = length widths \<and> avail \<le> sum_list ws \<and> sum_list ws \<le> sum_list widths \<and> list_all (\<lambda>w. 1 \<le> w) ws \<and>
    (\<forall>k. i \<le> k \<longrightarrow> ws ! k = widths ! k) \<and>
    (sum_list ws = avail \<or> (\<forall>k < i. 0 < co_width (tb_columns t ! k) \<or> ws ! k = minWidth t (int k)))"
  using assms
proof (induction i arbitrary: widths)
  case 0
  then show ?case by simp
next
  case (Suc i)
  show ?case
  proof (cases "sum_list widths \<le> avail")
    case True
    then show ?thesis using Suc.prems by (simp add: Let_def)
  next
    case over: False
    show ?thesis
    proof (cases "0 < co_width (tb_columns t ! i)")
      case True
      then show ?thesis using Suc.IH [of widths] Suc.prems over by (auto simp: Let_def less_Suc_eq)
    next
      case False
      define red where "red = (if widths ! i - (sum_list widths - avail) < minWidth t (int i)
        then widths ! i - minWidth t (int i) else sum_list widths - avail)"
      define ws where "ws = widths[i := widths ! i - red]"
      have mn: "minWidth t (int i) \<le> widths ! i" using Suc.prems(3) [of i] False by simp
      have red: "0 \<le> red" "red \<le> sum_list widths - avail" "minWidth t (int i) \<le> widths ! i - red"
          "widths ! i - red = minWidth t (int i) \<or> red = sum_list widths - avail"
        using mn over by (auto simp: red_def)
      have sum: "sum_list ws = sum_list widths - red"
        using sum_list_update_add [of i widths "- red"] Suc.prems(2) by (simp add: ws_def)
      have "list_all (\<lambda>w. 1 \<le> w) ws"
        using Suc.prems(2,4) red(3) minWidth_pos [of t "int i"] by (auto simp: ws_def list_all_length nth_list_update)
      then have IH: "let vs = shrink t avail i ws (sum_list ws) in
          length vs = length ws \<and> avail \<le> sum_list vs \<and> sum_list vs \<le> sum_list ws \<and> list_all (\<lambda>w. 1 \<le> w) vs \<and>
          (\<forall>k. i \<le> k \<longrightarrow> vs ! k = ws ! k) \<and>
          (sum_list vs = avail \<or> (\<forall>k < i. 0 < co_width (tb_columns t ! k) \<or> vs ! k = minWidth t (int k)))"
        using Suc.prems red sum by (intro Suc.IH) (auto simp: ws_def nth_list_update)
      have step: "shrink t avail (Suc i) widths (sum_list widths) = shrink t avail i ws (sum_list ws)"
        using over False red(1) sum by (simp add: Let_def red_def [symmetric] ws_def [symmetric])
          (metis diff_zero list_update_id ws_def order_antisym not_less)
      have i: "i < length widths" using Suc.prems(2) by simp
      show ?thesis using IH sum red i unfolding step Let_def
        by (auto simp: ws_def less_Suc_eq nth_list_update)
    qed
  qed
qed

subsection \<open>Rows\<close>

lemma length_columnWidths: "length (columnWidths t) = length (tb_columns t)"
  and columnWidths_pos: "list_all (\<lambda>w. 1 \<le> w) (columnWidths t)"
proof -
  define n where "n = length (tb_columns t)"
  define ws where "ws = map (naturalWidth t) [0..<n]"
  define avail where "avail = tb_width t - sepWidth t * (int n - 1)"
  have ws: "length ws = n" "list_all (\<lambda>w. 1 \<le> w) ws" by (simp_all add: ws_def list_all_iff naturalWidth_pos)
  have cw: "columnWidths t = (if n = 0 then [] else if tb_width t \<le> 0 then ws else if avail \<le> 0 then ws
      else if sum_list ws < avail then (if totalFlex t = 0 then ws else grow t (avail - sum_list ws) (totalFlex t) ws)
      else if avail < sum_list ws then shrink t avail n ws (sum_list ws) else ws)"
    by (simp add: columnWidths_def Let_def n_def ws_def avail_def)
  have g: "length (grow t (avail - sum_list ws) (totalFlex t) ws) = n \<and> list_all (\<lambda>w. 1 \<le> w) (grow t (avail - sum_list ws) (totalFlex t) ws)"
    if "sum_list ws < avail" "totalFlex t \<noteq> 0"
  proof -
    have "0 \<le> avail - sum_list ws" using that(1) by simp
    note gs = grow_spec [OF that(2) this ws(1) [unfolded n_def]]
    have "1 \<le> grow t (avail - sum_list ws) (totalFlex t) ws ! i" if i: "i < length ws" for i
    proof -
      have "ws ! i \<le> grow t (avail - sum_list ws) (totalFlex t) ws ! i" using gs i by blast
      moreover have "1 \<le> ws ! i" using ws(2) i unfolding list_all_length by blast
      ultimately show ?thesis by linarith
    qed
    then show ?thesis using gs ws(1) unfolding list_all_length by metis
  qed
  have sh: "length (shrink t avail n ws (sum_list ws)) = n \<and> list_all (\<lambda>w. 1 \<le> w) (shrink t avail n ws (sum_list ws))"
    if "avail < sum_list ws"
  proof -
    have "minWidth t (int k) \<le> ws ! k" if "k < n" "co_width (tb_columns t ! k) \<le> 0" for k
      using that naturalWidth_min by (simp add: ws_def)
    from shrink_spec [OF _ _ this ws(2), of avail n] that ws(1) show ?thesis unfolding Let_def by simp
  qed
  show "length (columnWidths t) = length (tb_columns t)" "list_all (\<lambda>w. 1 \<le> w) (columnWidths t)"
    using ws g sh unfolding cw by (simp_all add: n_def)
qed

lemma own_text_new_Node [simp]: "own_text (new_Node (Some v)) = []"
  by (simp add: own_text_def node_defs)

lemma rowBox_width:
  assumes "list_all (\<lambda>w. 1 \<le> w) widths" and "widths \<noteq> []"
  shows "own_text (rowBox t cells widths style i) = []" and "displayWidth (row_text (rowBox t cells widths style i)) = totalWidth t widths"
proof -
  define cell where "cell = (\<lambda>k. (if 0 < k then [n_style (tb_separatorStyle t) (text_node (tb_separatorText t))] else []) @
    [n_height 1 (n_width (widths ! k) (n_style style
       (text_node (padCell (if k < length cells then cells ! k else []) (widths ! k) (tb_align t (int k))))))])"
  define kids where "kids = concat (map cell [0..<length widths])"
  have "displayWidth (concat (map own_text (concat (map cell [0..<k])))) =
      (if k = 0 then 0 else sepWidth t * (int k - 1) + sum_list (take k widths))" if "k \<le> length widths" for k
    using that
  proof (induction k)
    case (Suc k)
    have "1 \<le> widths ! k" using Suc.prems assms(1) by (simp add: list_all_length)
    then have "0 \<le> widths ! k" by simp
    then show ?case using Suc by (simp add: cell_def padCell_width take_Suc_conv_app_nth sepWidth_def algebra_simps)
  qed simp
  from this [of "length widths"] assms(2)
  have w: "displayWidth (concat (map own_text kids)) = totalWidth t widths" by (simp add: kids_def totalWidth_def)
  have ne: "kids \<noteq> []" using assms(2) by (auto simp: kids_def cell_def)
  have rb: "rowBox t cells widths style i = n_child kids (if i \<noteq> [] then n_input [asc ''mouse''] (n_id i (n_height 1 (new_Node (Some (asc ''row'')))))
      else n_height 1 (new_Node (Some (asc ''row''))))"
    using ne by (simp add: rowBox_def Let_def kids_def cell_def)
  show "own_text (rowBox t cells widths style i) = []" by (simp add: rb)
  show "displayWidth (row_text (rowBox t cells widths style i)) = totalWidth t widths" using w by (simp add: rb row_text_def)
qed

section \<open>Properties\<close>

text \<open>
  C28: The columns fill the table. With a declared width that leaves room for cells, every column keeps at
  least one cell; when the natural widths leave space and some column is flexible the table is
  exactly as wide as declared; when they need more, columns shrink until the table is exactly
  that wide or every column without a fixed width is at its minimum.
\<close>

theorem columnWidths_fill:
  assumes "tb_columns t \<noteq> []" and "0 < tb_width t" and "sepWidth t * (int (length (tb_columns t)) - 1) < tb_width t"
  shows "list_all (\<lambda>w. 1 \<le> w) (columnWidths t) \<and>
    (totalWidth t (map (naturalWidth t) [0..<length (tb_columns t)]) < tb_width t \<and> totalFlex t \<noteq> 0 \<longrightarrow>
       totalWidth t (columnWidths t) = tb_width t) \<and>
    (tb_width t < totalWidth t (map (naturalWidth t) [0..<length (tb_columns t)]) \<longrightarrow>
       tb_width t \<le> totalWidth t (columnWidths t) \<and>
       (totalWidth t (columnWidths t) = tb_width t \<or>
        (\<forall>i < length (tb_columns t). 0 < co_width (tb_columns t ! i) \<or> columnWidths t ! i = minWidth t (int i))))"
proof -
  define n where "n = length (tb_columns t)"
  define ws where "ws = map (naturalWidth t) [0..<n]"
  define avail where "avail = tb_width t - sepWidth t * (int n - 1)"
  have n: "0 < n" using assms(1) by (simp add: n_def)
  have tw: "length vs = n \<Longrightarrow> totalWidth t vs = sum_list vs + (tb_width t - avail)" for vs
    using n by (auto simp: totalWidth_def avail_def)
  have len: "length ws = n" by (simp add: ws_def)
  have av: "0 < avail" using assms(3) by (simp add: avail_def n_def)
  have cw: "columnWidths t = (if sum_list ws < avail then (if totalFlex t = 0 then ws else grow t (avail - sum_list ws) (totalFlex t) ws)
      else if avail < sum_list ws then shrink t avail n ws (sum_list ws) else ws)"
    using n assms(2) av by (simp add: columnWidths_def Let_def n_def ws_def avail_def)
  have "totalWidth t (columnWidths t) = tb_width t" if "sum_list ws < avail" "totalFlex t \<noteq> 0"
    using grow_spec [of t "avail - sum_list ws" ws] that len by (subst tw) (simp_all add: cw n_def)
  moreover have "tb_width t \<le> totalWidth t (columnWidths t) \<and>
      (totalWidth t (columnWidths t) = tb_width t \<or> (\<forall>i < n. 0 < co_width (tb_columns t ! i) \<or> columnWidths t ! i = minWidth t (int i)))"
    if "avail < sum_list ws"
  proof -
    have "list_all (\<lambda>w. 1 \<le> w) ws" by (simp add: ws_def list_all_iff naturalWidth_pos)
    moreover have "minWidth t (int k) \<le> ws ! k" if "k < n" "co_width (tb_columns t ! k) \<le> 0" for k
      using that naturalWidth_min by (simp add: ws_def)
    ultimately show ?thesis using shrink_spec [of avail ws n t] that len
      by (simp add: cw Let_def tw) 
  qed
  ultimately show ?thesis
    using columnWidths_pos [of t] tw [OF len] unfolding n_def [symmetric] ws_def [symmetric] by auto
qed

text \<open>Two columns, one flexible, in eight cells.\<close>

definition sample_column :: column where
  "sample_column = \<lparr>co_title = asc ''ab'', co_width = 0, co_minWidth = 0, co_flex = 1, co_align = [], co_format = None\<rparr>"

definition sample_table :: table where
  "sample_table = \<lparr>tb_id = [], tb_columns = [sample_column, sample_column\<lparr>co_flex := 0\<rparr>], tb_rows = [], tb_records = [], tb_width = 8,
     tb_hideHeader = False, tb_rule = False, tb_zebra = False, tb_zebraStyle = [], tb_selected = 0, tb_style = [], tb_headerStyle = [],
     tb_selectedStyle = [], tb_footerStyle = [], tb_separatorStyle = [], tb_footer = [], tb_separator = [], tb_rowId = None\<rparr>"

lemma sample_table_fields:
  "sepWidth sample_table = 1" "naturalWidth sample_table 0 = 2" "naturalWidth sample_table (Suc 0) = 2" "totalFlex sample_table = 1"
  "length (tb_columns sample_table) = 2" "tb_width sample_table = 8" "tb_columns sample_table \<noteq> []"
  by (simp_all add: sample_table_def sample_column_def sepWidth_def tb_separatorText_def DEFAULT_TABLE_SEPARATOR_def naturalWidth_def
      rowCount_def minWidth_def totalFlex_def flexible_def cellWidth_def isWide_def upt_rec)

theorem columnWidths_fill_witness:
  "totalWidth sample_table (columnWidths sample_table) = 8 \<and> list_all (\<lambda>w. 1 \<le> w) (columnWidths sample_table)"
  using columnWidths_fill [of sample_table]
  by (simp add: sample_table_fields totalWidth_def [of sample_table "[2, 2]"] upt_rec)

text \<open>
  The table is aligned: the header, the rule, every data row and the footer are drawn with the same display
  width, the total of the column widths and separators, whatever the cells hold.
\<close>

lemma table_rows_aligned:
  "list_all (\<lambda>b. displayWidth (own_text b @ row_text b) = totalWidth t (columnWidths t)) (children (tb_build t))"
proof (cases "tb_columns t = []")
  case True
  then show ?thesis by (simp add: tb_build_def Let_def)
next
  case False
  then have ne: "columnWidths t \<noteq> []" using length_columnWidths [of t] by auto
  note rb = rowBox_width [OF columnWidths_pos ne]
  have "0 \<le> sepWidth t * (int (length (columnWidths t)) - 1)" using ne by (simp add: sepWidth_def Suc_le_eq)
  moreover have "0 \<le> sum_list (columnWidths t)"
    using columnWidths_pos [of t] by (intro sum_list_nonneg) (auto simp: list_all_iff)
  ultimately have tot: "0 \<le> totalWidth t (columnWidths t)" by (simp add: totalWidth_def)
  have rule: "displayWidth (replicate k 0x2500) = int k" for k by (induction k) (simp_all add: cellWidth_def isWide_def)
  have row: "displayWidth (own_text (tb_dataRow t (columnWidths t) r)) + displayWidth (row_text (tb_dataRow t (columnWidths t) r)) =
      totalWidth t (columnWidths t)" for r
    by (simp add: tb_dataRow_def Let_def rb)
  define hs where "hs = (if tb_hideHeader t then [] else [rowBox t (headerCells t) (columnWidths t) (tb_headerStyle t) []] @
    (if tb_rule t then [n_height 1 (n_style (tb_headerStyle t) (text_node (replicate (nat (totalWidth t (columnWidths t))) 0x2500)))] else []))"
  define ft where "ft = (if tb_footer t \<noteq> [] then [rowBox t (tb_footer t) (columnWidths t) (tb_footerStyle t) []] else [])"
  define body where "body = map (tb_dataRow t (columnWidths t)) [0..<rowCount t]"
  have ch: "children (tb_build t) = hs @ body @ ft"
    using False unfolding tb_build_def Let_def hs_def [symmetric] body_def [symmetric] ft_def [symmetric] by simp
  have leaf: "row_text (n_height 1 (n_style v (text_node w))) = []" for v w by (simp add: row_text_def text_node_def)
  have "list_all (\<lambda>b. displayWidth (own_text b @ row_text b) = totalWidth t (columnWidths t)) hs" by (simp add: hs_def rb leaf rule tot)
  moreover have "list_all (\<lambda>b. displayWidth (own_text b @ row_text b) = totalWidth t (columnWidths t)) body" by (simp add: body_def list_all_iff row)
  moreover have "list_all (\<lambda>b. displayWidth (own_text b @ row_text b) = totalWidth t (columnWidths t)) ft" by (simp add: ft_def rb)
  ultimately show ?thesis by (simp add: ch)
qed

end
