(* ===== verification/Calendar.thy ===== *)
theory Calendar
  imports Civil Table
begin

text \<open>
  Dates, their text form and the month grid of \<open>clients/tui/sdk/ts/src/widgets/datepicker.js\<close>, on top of the civil calendar.
  A thrown error is \<open>Inl\<close> of its message.
\<close>

section \<open>Dates\<close>

record date =
  dt_year :: int
  dt_month :: int
  dt_day :: int

definition DATE_FIELD_MESSAGE :: ustr where "DATE_FIELD_MESSAGE = asc ''invalid date''"
definition DEFAULT_CALENDAR_SELECTED_STYLE :: ustr where "DEFAULT_CALENDAR_SELECTED_STYLE = asc ''reverse''"

definition MONTH_NAMES :: "ustr list" where
  "MONTH_NAMES = [[], asc ''January'', asc ''February'', asc ''March'', asc ''April'', asc ''May'', asc ''June'',
     asc ''July'', asc ''August'', asc ''September'', asc ''October'', asc ''November'', asc ''December'']"

definition WEEKDAY_NAMES :: "ustr list" where
  "WEEKDAY_NAMES = [asc ''Sunday'', asc ''Monday'', asc ''Tuesday'', asc ''Wednesday'', asc ''Thursday'', asc ''Friday'', asc ''Saturday'']"

definition CALENDAR_WEEKDAYS :: "ustr list" where
  "CALENDAR_WEEKDAYS = [asc ''Mo'', asc ''Tu'', asc ''We'', asc ''Th'', asc ''Fr'', asc ''Sa'', asc ''Su'']"

definition sign :: "int \<Rightarrow> int" where
  "sign n = (if n < 0 then -1 else if 0 < n then 1 else 0)"

definition pad2 :: "int \<Rightarrow> ustr" where
  "pad2 n = padStart 2 48 (show_int n)"

definition pad4 :: "int \<Rightarrow> ustr" where
  "pad4 n = (let digits = show_int \<bar>n\<bar>; signChar = (if n < 0 then [45] else []) in signChar @ padStart (4 - length signChar) 48 digits)"

definition date_of :: "int \<times> int \<times> int \<Rightarrow> date" where
  "date_of c = (case c of (y, m, d) \<Rightarrow> \<lparr>dt_year = y, dt_month = m, dt_day = d\<rparr>)"

definition isLeap :: "date \<Rightarrow> bool" where
  "isLeap dt = isLeapYear (dt_year dt)"

definition date_daysInMonth :: "date \<Rightarrow> int" where
  "date_daysInMonth dt = daysInMonth (dt_year dt) (dt_month dt)"

definition civil :: "date \<Rightarrow> int \<times> int \<times> int" where
  "civil dt =
     (let tot = dt_year dt * 12 + (dt_month dt - 1);
          year = tot sdiv 12;
          month = tot smod 12
      in if month < 0 then civilFromDays (daysFromCivil (year - 1) (month + 12 + 1) 1 + (dt_day dt - 1))
         else civilFromDays (daysFromCivil year (month + 1) 1 + (dt_day dt - 1)))"

definition weekday :: "date \<Rightarrow> int" where
  "weekday dt = (case civil dt of (y, m, d) \<Rightarrow> ((daysFromCivil y m d + 4) smod 7 + 7) smod 7)"

definition weekdayName :: "date \<Rightarrow> ustr" where
  "weekdayName dt = WEEKDAY_NAMES ! nat (weekday dt)"

definition compare :: "date \<Rightarrow> date \<Rightarrow> int" where
  "compare dt other =
     (if dt_year dt \<noteq> dt_year other then sign (dt_year dt - dt_year other)
      else if dt_month dt \<noteq> dt_month other then sign (dt_month dt - dt_month other)
      else if dt_day dt \<noteq> dt_day other then sign (dt_day dt - dt_day other)
      else 0)"

definition date_equals :: "date \<Rightarrow> date \<Rightarrow> bool" where "date_equals dt other = (compare dt other = 0)"
definition date_before :: "date \<Rightarrow> date \<Rightarrow> bool" where "date_before dt other = (compare dt other < 0)"
definition date_after :: "date \<Rightarrow> date \<Rightarrow> bool" where "date_after dt other = (0 < compare dt other)"

definition valid :: "date \<Rightarrow> bool" where
  "valid dt \<longleftrightarrow> 1 \<le> dt_month dt \<and> dt_month dt \<le> 12 \<and> 1 \<le> dt_day dt \<and> dt_day dt \<le> 31"

definition addDays :: "int \<Rightarrow> date \<Rightarrow> date" where
  "addDays n dt = (if \<not> valid dt then dt else (case civil dt of (y, m, d) \<Rightarrow> date_of (civilFromDays (daysFromCivil y m d + n))))"

definition date_addMonths :: "int \<Rightarrow> date \<Rightarrow> date" where
  "date_addMonths n dt =
     (if \<not> valid dt then dt
      else case addMonths (dt_year dt) (dt_month dt) n of (year, month) \<Rightarrow>
        let maxDay = daysInMonth year month
        in date_of (year, month, if maxDay < dt_day dt then maxDay else dt_day dt))"

definition date_toString :: "date \<Rightarrow> ustr" where
  "date_toString dt = (if \<not> valid dt then [] else pad4 (dt_year dt) @ [45] @ pad2 (dt_month dt) @ [45] @ pad2 (dt_day dt))"

text \<open>The groups of \<open>/^(\d{4})-(\d{2})-(\d{2})$/\<close>.\<close>

definition date_groups :: "ustr \<Rightarrow> (ustr \<times> ustr \<times> ustr) option" where
  "date_groups s =
     (if length s = 10 \<and> s ! 4 = 45 \<and> s ! 7 = 45 \<and> list_all is_digit (take 4 s) \<and>
         list_all is_digit (take 2 (drop 5 s)) \<and> list_all is_digit (drop 8 s)
      then Some (take 4 s, take 2 (drop 5 s), drop 8 s) else None)"

definition invalid_date :: "ustr \<Rightarrow> ustr" where
  "invalid_date s = asc ''invalid date '' @ [34] @ s @ [34]"

definition parseDate :: "ustr \<Rightarrow> ustr + date" where
  "parseDate s =
     (case date_groups s of None \<Rightarrow> Inl (invalid_date s)
      | Some (y, m, d) \<Rightarrow>
          let dt = date_of (int (parse_nat y), int (parse_nat m), int (parse_nat d))
          in if \<not> valid dt \<or> date_daysInMonth dt < dt_day dt \<or> date_toString dt \<noteq> s then Inl (invalid_date s) else Inr dt)"

section \<open>The month grid\<close>

record calendar =
  ca_id :: ustr
  ca_month :: date
  ca_selected :: date
  ca_width :: int
  ca_marked :: "ustr \<rightharpoonup> ustr"
  ca_style :: ustr
  ca_selectedStyle :: ustr
  ca_todayStyle :: ustr
  ca_headerStyle :: ustr
  ca_weekdayStyle :: ustr
  ca_markedStyle :: ustr
  ca_today :: date

datatype mark_key = MarkText ustr | MarkDate date

definition normalizeMarked :: "(mark_key \<times> ustr) list \<Rightarrow> ustr \<rightharpoonup> ustr" where
  "normalizeMarked entries = foldl (\<lambda>out (k, v). out((case k of MarkText s \<Rightarrow> s | MarkDate dt \<Rightarrow> date_toString dt) \<mapsto> v)) Map.empty entries"

definition calendarCellText :: "date \<Rightarrow> int \<Rightarrow> ustr" where
  "calendarCellText dt width = padCell (padStart 2 32 (show_int (dt_day dt))) width ALIGN_CENTER"

definition calendar_cell :: "ustr \<Rightarrow> ustr \<Rightarrow> int \<Rightarrow> box" where
  "calendar_cell value style width = n_height 1 (n_width width (n_style style (text_node value)))"

definition calendarWeekdayRow :: "ustr \<Rightarrow> int \<Rightarrow> box" where
  "calendarWeekdayRow style width =
     n_child (map (\<lambda>name. calendar_cell (padCell name width ALIGN_CENTER) style width) CALENDAR_WEEKDAYS) (n_height 1 (row_node []))"

definition monthLabel :: "calendar \<Rightarrow> ustr" where
  "monthLabel c =
     (if dt_month (ca_month c) < 1 \<or> 12 < dt_month (ca_month c) then []
      else MONTH_NAMES ! nat (dt_month (ca_month c)) @ [32] @ show_int (dt_year (ca_month c)))"

definition grid :: "calendar \<Rightarrow> date list list option" where
  "grid c =
     (let first = date_of (dt_year (ca_month c), dt_month (ca_month c), 1)
      in if dt_month first < 1 \<or> 12 < dt_month first then None
         else let offset = (weekday first + 6) smod 7;
                  start = addDays (- offset) first
              in Some (map (\<lambda>rowIndex. map (\<lambda>col. addDays (rowIndex * 7 + col) start) [0..6]) [0..5]))"

definition normalizedSelected :: "calendar \<Rightarrow> date" where
  "normalizedSelected c =
     (if 1 \<le> dt_month (ca_selected c) \<and> dt_month (ca_selected c) \<le> 12 \<and> 1 \<le> dt_day (ca_selected c) then ca_selected c
      else if 1 \<le> dt_month (ca_month c) \<and> dt_month (ca_month c) \<le> 12 then date_of (dt_year (ca_month c), dt_month (ca_month c), 1)
      else ca_month c)"

definition moveCursor :: "int \<Rightarrow> calendar \<Rightarrow> bool \<times> calendar" where
  "moveCursor days c =
     (if days = 0 then (False, c)
      else let nxt = addDays days (normalizedSelected c); c = c\<lparr>ca_selected := nxt\<rparr>
           in (True, if dt_month nxt \<noteq> dt_month (ca_month c) \<or> dt_year nxt \<noteq> dt_year (ca_month c)
                     then c\<lparr>ca_month := date_of (dt_year nxt, dt_month nxt, 1)\<rparr> else c))"

definition ca_cellWidth :: "date list list \<Rightarrow> int" where
  "ca_cellWidth g = foldl (\<lambda>width rowDates. foldl (\<lambda>width dt. max width (displayWidth (calendarCellText dt 0))) width rowDates) 3 g"

definition cellStyle :: "calendar \<Rightarrow> date \<Rightarrow> ustr" where
  "cellStyle c dt =
     (if date_equals dt (normalizedSelected c) then firstNonEmpty [ca_selectedStyle c, DEFAULT_CALENDAR_SELECTED_STYLE]
      else if (case ca_marked c (date_toString dt) of None \<Rightarrow> False | Some v \<Rightarrow> v \<noteq> []) then firstNonEmpty [ca_markedStyle c, ca_style c]
      else if 1 \<le> dt_month (ca_today c) \<and> date_equals dt (ca_today c) then firstNonEmpty [ca_todayStyle c, ca_style c]
      else ca_style c)"

definition calendar_row :: "calendar \<Rightarrow> int \<Rightarrow> date list \<Rightarrow> box" where
  "calendar_row c width rowDates =
     (let line = n_height 1 (row_node []);
          line = (if 0 < ca_width c then n_width (ca_width c) line else line)
      in n_child (map (\<lambda>dt. calendar_cell (calendarCellText dt width) (cellStyle c dt) width) rowDates) line)"

definition ca_build :: "calendar \<Rightarrow> box" where
  "ca_build c =
     (let col = new_Node (Some (asc ''col''));
          col = (if ca_id c \<noteq> [] then n_id (ca_id c) col else col);
          col = (if 0 < ca_width c then n_width (ca_width c) col else col);
          col = (if ca_style c \<noteq> [] then n_style (ca_style c) col else col);
          g = grid c;
          width = ca_cellWidth (case g of None \<Rightarrow> [] | Some rows \<Rightarrow> rows);
          label = monthLabel c
      in n_child ((if label \<noteq> [] then [n_height 1 (n_style (ca_headerStyle c) (text_node label))] else []) @
           [calendarWeekdayRow (ca_weekdayStyle c) width] @
           (case g of None \<Rightarrow> [] | Some rows \<Rightarrow> map (calendar_row c width) rows)) col)"

section \<open>Date fields\<close>

definition dayValidator :: "date \<Rightarrow> date \<Rightarrow> ustr \<Rightarrow> ustr \<Rightarrow> ustr" where
  "dayValidator minimum maximum msg value =
     (if value = [] then []
      else case parseDate value of Inl err \<Rightarrow> msg
        | Inr dt \<Rightarrow> if valid minimum \<and> date_before dt minimum then msg
                   else if valid maximum \<and> date_after dt maximum then msg
                   else [])"

section \<open>Lemmas\<close>

text \<open>The day number of a date, whose day may be outside its month.\<close>

definition date_no :: "date \<Rightarrow> int" where
  "date_no dt = daysFromCivil (dt_year dt) (dt_month dt) (dt_day dt)"

definition exists_date :: "date \<Rightarrow> bool" where
  "exists_date dt = real_date (dt_year dt) (dt_month dt) (dt_day dt)"

lemma date_of_sel [simp]: "dt_year (date_of (y, m, d)) = y" "dt_month (date_of (y, m, d)) = m" "dt_day (date_of (y, m, d)) = d"
  by (simp_all add: date_of_def)

lemma date_of_fields [simp]: "date_of (dt_year dt, dt_month dt, dt_day dt) = dt"
  by (simp add: date_of_def)

lemma exists_valid: "exists_date dt \<Longrightarrow> valid dt"
  using daysInMonth_pos(2) [of "dt_year dt" "dt_month dt"] by (simp add: exists_date_def real_date_def valid_def)

lemma date_civilFromDays: "exists_date (date_of (civilFromDays z))" "date_no (date_of (civilFromDays z)) = z"
  using civilFromDays_real [of z] by (cases "civilFromDays z"; simp add: exists_date_def date_no_def real_def dayno_def)+

lemma date_of_date_no: "exists_date dt \<Longrightarrow> date_of (civilFromDays (date_no dt)) = dt"
  by (simp add: exists_date_def date_no_def civil_of_days)

lemma civil_month:
  assumes "1 \<le> dt_month dt" and "dt_month dt \<le> 12"
  shows "civil dt = civilFromDays (date_no dt)"
proof -
  define tot where "tot = dt_year dt * 12 + (dt_month dt - 1)"
  have "tot = 12 * dt_year dt + (dt_month dt - 1)" by (simp add: tot_def)
  then have y: "tot div 12 = dt_year dt" using div_add_small [of "dt_month dt - 1" 12 "dt_year dt"] assms by simp
  then have m: "tot mod 12 = dt_month dt - 1" using minus_mult_div_eq_mod [of tot 12] by (simp add: tot_def)
  have "civil dt = civilFromDays (daysFromCivil (tot div 12) (tot mod 12 + 1) 1 + (dt_day dt - 1))"
    unfolding floor_of_sdiv(1) [of 12 tot, symmetric, simplified] floor_of_sdiv(2) [of 12 tot, symmetric, simplified]
    by (simp add: civil_def Let_def tot_def)
  then show ?thesis using dayno_day [of "dt_year dt" "dt_month dt" "dt_day dt"] by (simp add: y m date_no_def)
qed

lemma civil_no: "1 \<le> dt_month dt \<Longrightarrow> dt_month dt \<le> 12 \<Longrightarrow> (case civil dt of (y, m, d) \<Rightarrow> daysFromCivil y m d) = date_no dt"
  using civilFromDays_real(2) [of "date_no dt"] by (simp add: civil_month dayno_def)

lemma addDays_no: "valid dt \<Longrightarrow> addDays n dt = date_of (civilFromDays (date_no dt + n))"
  using civil_no [of dt] by (auto simp: addDays_def valid_def split: prod.splits)

lemma js_mod7: "(a smod 7 + 7) smod 7 = a mod (7 :: int)"
proof -
  have "\<bar>a smod 7\<bar> < 7" by (auto simp: signed_modulo_int_def sgn_if abs_mult)
  then have "0 \<le> a smod 7 + 7" by linarith
  then have "(a smod 7 + 7) smod 7 = (a smod 7 + 7) mod 7" by (simp add: signed_modulo_int_def sgn_if)
  also have "\<dots> = a mod 7" using floor_of_sdiv(2) [of 7 a] by (auto split: if_splits) (metis mod_add_self2 mod_mod_trivial)
  finally show ?thesis .
qed

lemma weekday_no: "1 \<le> dt_month dt \<Longrightarrow> dt_month dt \<le> 12 \<Longrightarrow> weekday dt = (date_no dt + 4) mod 7"
  using civil_no [of dt] by (auto simp: weekday_def js_mod7 split: prod.splits)

lemma date_no_inj: "exists_date a \<Longrightarrow> exists_date b \<Longrightarrow> date_no a = date_no b \<Longrightarrow> a = b"
  by (metis date_of_date_no)

subsection \<open>Text\<close>

lemma pad2_digits: "0 \<le> n \<Longrightarrow> n < 100 \<Longrightarrow> length (pad2 n) = 2 \<and> list_all is_digit (pad2 n) \<and> parse_nat (pad2 n) = nat n"
  using length_show_nat [of 2 "nat n"] by (simp add: pad2_def show_int_def length_padStart padStart_digits show_nat_digits nat_less_iff)

lemma pad4_digits: "0 \<le> n \<Longrightarrow> n < 10000 \<Longrightarrow> length (pad4 n) = 4 \<and> list_all is_digit (pad4 n) \<and> parse_nat (pad4 n) = nat n"
  using length_show_nat [of 4 "nat n"] by (simp add: pad4_def Let_def show_int_def length_padStart padStart_digits show_nat_digits nat_less_iff)

lemma parse_nat_bound: "list_all is_digit s \<Longrightarrow> parse_nat s < 10 ^ length s"
proof (induction s rule: rev_induct)
  case (snoc c s)
  then have "parse_nat s < 10 ^ length s" "c - 48 \<le> 9" by (auto simp: is_digit_def)
  then show ?case by simp
qed (simp add: parse_nat_def)

lemma date_groups_toString:
  assumes "length y = 4" "length m = 2" "length d = 2" "list_all is_digit y" "list_all is_digit m" "list_all is_digit d"
  shows "date_groups (y @ [45] @ m @ [45] @ d) = Some (y, m, d)"
  using assms by (simp add: date_groups_def nth_append)

lemma parse_toString:
  assumes "exists_date dt" and "0 \<le> dt_year dt" and "dt_year dt \<le> 9999"
  shows "parseDate (date_toString dt) = Inr dt"
proof -
  have r: "1 \<le> dt_month dt" "dt_month dt \<le> 12" "1 \<le> dt_day dt" "dt_day dt \<le> 31" "dt_day dt \<le> date_daysInMonth dt"
    using assms(1) exists_valid [OF assms(1)] by (simp_all add: exists_date_def real_date_def valid_def date_daysInMonth_def)
  have s: "date_toString dt = pad4 (dt_year dt) @ [45] @ pad2 (dt_month dt) @ [45] @ pad2 (dt_day dt)"
    using exists_valid [OF assms(1)] by (simp add: date_toString_def)
  have "date_groups (date_toString dt) = Some (pad4 (dt_year dt), pad2 (dt_month dt), pad2 (dt_day dt))"
    unfolding s using pad4_digits [of "dt_year dt"] pad2_digits [of "dt_month dt"] pad2_digits [of "dt_day dt"] assms r
    by (intro date_groups_toString) simp_all
  then show ?thesis
    using pad4_digits [of "dt_year dt"] pad2_digits [of "dt_month dt"] pad2_digits [of "dt_day dt"] assms r exists_valid [OF assms(1)]
    by (simp add: parseDate_def)
qed

lemma toString_parse:
  assumes "parseDate s = Inr dt"
  shows "s = date_toString dt" "exists_date dt" "0 \<le> dt_year dt" "dt_year dt \<le> 9999"
proof -
  obtain y m d where g: "date_groups s = Some (y, m, d)"
      and dt: "dt = date_of (int (parse_nat y), int (parse_nat m), int (parse_nat d))"
      and v: "valid dt" "dt_day dt \<le> date_daysInMonth dt" "date_toString dt = s"
    using assms by (auto simp: parseDate_def Let_def split: option.splits if_splits)
  have "length y = 4" "list_all is_digit y" using g by (auto simp: date_groups_def split: if_splits)
  then have "parse_nat y < 10000" using parse_nat_bound [of y] by simp
  then show "0 \<le> dt_year dt" "dt_year dt \<le> 9999" by (simp_all add: dt)
  show "s = date_toString dt" using v by simp
  show "exists_date dt" using v by (simp add: exists_date_def real_date_def valid_def date_daysInMonth_def)
qed

subsection \<open>The grid\<close>

lemma upto_fixed: "[0..6] = [0, 1, 2, 3, 4, 5, 6 :: int]" "[0..5] = [0, 1, 2, 3, 4, 5 :: int]"
  by (simp_all add: upto_rec1)

text \<open>The grid as consecutive day numbers from a Monday on or before the first of the month.\<close>

lemma grid_days:
  assumes "1 \<le> dt_month (ca_month c)" and "dt_month (ca_month c) \<le> 12"
  obtains z where "(z + 4) mod 7 = 1" and "z \<le> daysFromCivil (dt_year (ca_month c)) (dt_month (ca_month c)) 1"
    and "daysFromCivil (dt_year (ca_month c)) (dt_month (ca_month c)) 1 < z + 7"
    and "grid c = Some (map (\<lambda>r. map (\<lambda>k. date_of (civilFromDays (z + (r * 7 + k)))) [0..6]) [0..5])"
proof -
  define first where "first = date_of (dt_year (ca_month c), dt_month (ca_month c), 1)"
  define f where "f = daysFromCivil (dt_year (ca_month c)) (dt_month (ca_month c)) 1"
  have no: "date_no first = f" by (simp add: date_no_def first_def f_def)
  have w: "weekday first = (f + 4) mod 7" using assms no by (subst weekday_no) (simp_all add: first_def)
  define off where "off = (weekday first + 6) smod 7"
  have "off = (weekday first + 6) mod 7" using w by (simp add: off_def signed_modulo_int_def sgn_if)
  then have off: "off = (f + 3) mod 7" unfolding w by presburger
  have v: "valid first" using assms by (simp add: first_def valid_def)
  have start: "addDays (- off) first = date_of (civilFromDays (f - off))" by (simp add: addDays_no [OF v] no)
  have "addDays n (addDays (- off) first) = date_of (civilFromDays (f - off + n))" for n
    unfolding start using date_civilFromDays [of "f - off"] exists_valid by (subst addDays_no) simp_all
  then have g: "grid c = Some (map (\<lambda>r. map (\<lambda>k. date_of (civilFromDays (f - off + (r * 7 + k)))) [0..6]) [0..5])"
    using assms by (simp add: grid_def Let_def first_def [symmetric] off_def [symmetric]) (simp add: first_def)
  have b: "0 \<le> off" "off < 7" by (simp_all add: off)
  have "(f - off + 4) mod 7 = 1" unfolding off by presburger
  then show ?thesis using that [of "f - off"] g b by (simp add: f_def)
qed

lemma concat_grid:
  "concat (map (\<lambda>r. map (\<lambda>k. f (z + (r * 7 + k))) [0..6]) [0..5]) = map f [z..z + 41]"
proof -
  have "[z..z + 41] = map (\<lambda>i. z + i) [0..41]"
    by (rule nth_equalityI) simp_all
  moreover have "[0..41] = concat (map (\<lambda>r. map (\<lambda>k. r * 7 + k) [0..6]) [0..5 :: int])" by (simp add: upto_fixed upto_rec1)
  ultimately show ?thesis by (simp add: upto_fixed)
qed

lemma date_of_day: "exists_date (date_of (civilFromDays i))" "date_no (date_of (civilFromDays i)) = i"
  by (rule date_civilFromDays)+

lemma weekday_of_day: "weekday (date_of (civilFromDays i)) = (i + 4) mod 7"
  using date_of_day [of i] exists_valid [of "date_of (civilFromDays i)"] weekday_no [of "date_of (civilFromDays i)"]
  by (simp add: valid_def)

section \<open>Properties\<close>

text \<open>
  C34: \<open>parseDate\<close> accepts exactly the text forms of the dates that exist in the years 0 to 9999, and returns the date
  whose text form it was given. Everything else, such as the 30th of February, a missing zero or trailing text, is an error.
\<close>

theorem parseDate_exact:
  "parseDate s = Inr dt \<longleftrightarrow>
     s = date_toString dt \<and> real_date (dt_year dt) (dt_month dt) (dt_day dt) \<and> 0 \<le> dt_year dt \<and> dt_year dt \<le> 9999"
  using toString_parse [of s dt] parse_toString [of dt] by (auto simp: exists_date_def)

text \<open>
  C26: The grid of a month has six rows from Monday to Sunday of dates that exist, no date appears twice, consecutive
  cells are consecutive days, and every day of the month is there.
\<close>

theorem grid_shows_month:
  assumes "1 \<le> dt_month (ca_month c)" and "dt_month (ca_month c) \<le> 12"
  shows "\<exists>rows. grid c = Some rows \<and> length rows = 6 \<and> list_all (\<lambda>r. map weekday r = [1, 2, 3, 4, 5, 6, 0]) rows \<and>
    distinct (concat rows) \<and> (\<exists>z. map date_no (concat rows) = [z..z + 41]) \<and>
    (\<forall>d. 1 \<le> d \<longrightarrow> d \<le> daysInMonth (dt_year (ca_month c)) (dt_month (ca_month c)) \<longrightarrow>
       date_of (dt_year (ca_month c), dt_month (ca_month c), d) \<in> set (concat rows))"
proof (rule grid_days [OF assms])
  fix z
  let ?y = "dt_year (ca_month c)" and ?m = "dt_month (ca_month c)"
  let ?rows = "map (\<lambda>r. map (\<lambda>k. date_of (civilFromDays (z + (r * 7 + k)))) [0..6]) [0..5]"
  assume z: "(z + 4) mod 7 = 1" "z \<le> daysFromCivil ?y ?m 1" "daysFromCivil ?y ?m 1 < z + 7" and g: "grid c = Some ?rows"
  have flat: "concat ?rows = map (\<lambda>i. date_of (civilFromDays i)) [z..z + 41]" by (rule concat_grid)
  have nos: "map date_no (concat ?rows) = [z..z + 41]" unfolding flat by (simp add: date_of_day comp_def)
  then have "distinct (map date_no (concat ?rows))" by simp
  then have "distinct (concat ?rows)" by (simp only: distinct_map)
  moreover have wd: "(z + (r * 7 + k) + 4) mod 7 = (1 + k) mod 7" for r k
  proof -
    have "z + (r * 7 + k) + 4 = (z + 4 + k) + r * 7" by simp
    then have "(z + (r * 7 + k) + 4) mod 7 = (z + 4 + k) mod 7" by (simp only: mod_mult_self1)
    also have "\<dots> = ((z + 4) mod 7 + k) mod 7" by (simp only: mod_add_left_eq)
    finally show ?thesis by (simp only: z(1))
  qed
  have "map weekday (map (\<lambda>k. date_of (civilFromDays (z + (r * 7 + k)))) [0..6]) = [1, 2, 3, 4, 5, 6, 0]" for r
  proof -
    have "map weekday (map (\<lambda>k. date_of (civilFromDays (z + (r * 7 + k)))) [0..6]) = map (\<lambda>k. (1 + k) mod 7) [0..6]"
      by (simp only: map_map comp_def weekday_of_day wd)
    also have "\<dots> = [1, 2, 3, 4, 5, 6, 0]" by (simp add: upto_fixed(1))
    finally show ?thesis .
  qed
  then have "list_all (\<lambda>r. map weekday r = [1, 2, 3, 4, 5, 6, 0]) ?rows" unfolding list_all_iff set_map by blast
  moreover have "date_of (?y, ?m, d) \<in> set (concat ?rows)" if "1 \<le> d" "d \<le> daysInMonth ?y ?m" for d
  proof -
    have "real_date ?y ?m d" using assms that by (simp add: real_date_def)
    then have e: "date_of (civilFromDays (daysFromCivil ?y ?m d)) = date_of (?y, ?m, d)" by (simp add: civil_of_days)
    have "daysFromCivil ?y ?m d \<in> {z..z + 41}"
      using z(2,3) that daysInMonth_pos(2) [of ?y ?m] dayno_day [of ?y ?m d] by simp
    then show ?thesis unfolding flat set_map set_upto using e by (metis image_eqI)
  qed
  ultimately show ?thesis using g nos by (intro exI [of _ ?rows]) (auto simp: upto_fixed(2))
qed

definition zero_date :: date where "zero_date = date_of (0, 0, 0)"

text \<open>The calendar of February 2024.\<close>

definition sample_calendar :: calendar where
  "sample_calendar = \<lparr>ca_id = [], ca_month = date_of (2024, 2, 1), ca_selected = zero_date, ca_width = 0, ca_marked = Map.empty, ca_style = [],
     ca_selectedStyle = [], ca_todayStyle = [], ca_headerStyle = [], ca_weekdayStyle = [], ca_markedStyle = [], ca_today = zero_date\<rparr>"

theorem grid_shows_month_witness:
  "\<exists>rows. grid sample_calendar = Some rows \<and> length rows = 6 \<and> date_of (2024, 2, 29) \<in> set (concat rows)"
proof -
  have "dt_month (ca_month sample_calendar) = 2" "dt_year (ca_month sample_calendar) = 2024" by (simp_all add: sample_calendar_def)
  moreover have "29 \<le> daysInMonth 2024 2" by (simp add: daysInMonth_def isLeapYear_mod)
  ultimately show ?thesis using grid_shows_month [of sample_calendar] by fastforce
qed

text \<open>
  Moving the cursor of a calendar whose selection exists moves the selection by exactly that many days, to a date that
  exists, and shows its month; moving back by the same number of days returns to the selection it started from.
\<close>

lemma moveCursor_days:
  assumes "real_date (dt_year (ca_selected c)) (dt_month (ca_selected c)) (dt_day (ca_selected c))" and "n \<noteq> 0"
  shows "let c' = snd (moveCursor n c) in
    fst (moveCursor n c) \<and> exists_date (ca_selected c') \<and> date_no (ca_selected c') = date_no (ca_selected c) + n \<and>
    dt_month (ca_month c') = dt_month (ca_selected c') \<and> dt_year (ca_month c') = dt_year (ca_selected c') \<and>
    ca_selected (snd (moveCursor (- n) c')) = ca_selected c"
proof -
  have e: "exists_date (ca_selected c)" using assms(1) by (simp add: exists_date_def)
  have norm: "exists_date (ca_selected u) \<Longrightarrow> normalizedSelected u = ca_selected u" for u
    by (simp add: normalizedSelected_def exists_date_def real_date_def)
  have mv: "ca_selected (snd (moveCursor k u)) = addDays k (ca_selected u)" if "k \<noteq> 0" "exists_date (ca_selected u)" for k u
    using that norm by (simp add: moveCursor_def Let_def)
  define s where "s = addDays n (ca_selected c)"
  have s: "s = date_of (civilFromDays (date_no (ca_selected c) + n))" by (simp add: s_def addDays_no exists_valid e)
  have es: "exists_date s" "date_no s = date_no (ca_selected c) + n" by (simp_all add: s date_civilFromDays)
  have sel: "ca_selected (snd (moveCursor n c)) = s" using mv [OF assms(2) e] by (simp add: s_def)
  have ret: "addDays (- n) s = ca_selected c" using es e by (simp add: addDays_no exists_valid date_of_date_no)
  have "ca_selected (snd (moveCursor (- n) (snd (moveCursor n c)))) = ca_selected c"
    using mv [of "- n" "snd (moveCursor n c)"] assms(2) es(1) ret by (simp add: sel)
  moreover have "dt_month (ca_month (snd (moveCursor n c))) = dt_month s" "dt_year (ca_month (snd (moveCursor n c))) = dt_year s"
    using assms(2) norm [OF e] by (simp_all add: moveCursor_def Let_def s_def)
  ultimately show ?thesis using es assms(2) by (simp add: Let_def sel) (simp add: moveCursor_def Let_def)
qed

end
