(* ===== verification/Form.thy ===== *)
theory Form
  imports TextInput ListWindow Validate Calendar
begin

text \<open>
  The forms of \<open>clients/tui/sdk/ts/src/widgets/form.js\<close>: labelled fields that own a \<open>TextInput\<close>, the keyboard focus that moves over the
  selectable ones, validation and rendering. Every field owns its input; \<open>cloneInput\<close>, which keeps \<open>build\<close> from changing it,
  is the identity on values.
\<close>

section \<open>Definitions\<close>

record field =
  fd_id :: ustr
  fd_label :: ustr
  fd_help :: ustr
  fd_error :: ustr
  fd_input :: "text_input option"
  fd_required :: bool
  fd_validate :: "validator option"
  fd_style :: ustr
  fd_labelStyle :: ustr
  fd_errorStyle :: ustr
  fd_helpStyle :: ustr
  fd_focused :: bool
  fd_disabled :: bool
  fd_readonly :: bool

record form =
  fo_id :: ustr
  fo_fields :: "field list"
  fo_focus :: int
  fo_width :: int
  fo_style :: ustr
  fo_errorStyle :: ustr
  fo_validateOnChange :: bool

definition FORM_REQUIRED_MESSAGE :: ustr where "FORM_REQUIRED_MESSAGE = asc ''required''"

definition selectable :: "field \<Rightarrow> bool" where
  "selectable fd \<longleftrightarrow> \<not> fd_disabled fd \<and> \<not> fd_readonly fd"

definition fd_text :: "field \<Rightarrow> ustr" where
  "fd_text fd = (case fd_input fd of None \<Rightarrow> [] | Some i \<Rightarrow> ti_text i)"

definition formFieldBox :: "field \<Rightarrow> int \<Rightarrow> box" where
  "formFieldBox fd width =
     (let col = new_Node (Some (asc ''col''));
          col = (if 0 < width then n_width width col else col);
          col = (if fd_style fd \<noteq> [] then n_style (fd_style fd) col else col);
          label = (if fd_required fd then fd_label fd @ asc '' *'' else fd_label fd);
          kids = (if fd_label fd \<noteq> [] then [styled_text label (fd_labelStyle fd)] else []) @
            (case fd_input fd of None \<Rightarrow> []
             | Some i \<Rightarrow> let i = i\<lparr>ed_focused := fd_focused fd\<rparr>
                        in [ti_build (if ed_width i \<le> 0 \<and> 0 < width then i\<lparr>ed_width := width\<rparr> else i)]) @
            (if fd_error fd \<noteq> [] then [styled_text (fd_error fd) (fd_errorStyle fd)]
             else if fd_help fd \<noteq> [] then [styled_text (fd_help fd) (fd_helpStyle fd)] else [])
      in if kids = [] then col else n_child kids col)"

definition fd_build :: "field \<Rightarrow> box" where
  "fd_build fd = formFieldBox fd 0"

fun focusLoop :: "field list \<Rightarrow> int \<Rightarrow> int \<Rightarrow> nat list \<Rightarrow> int" where
  "focusLoop fs focus step [] = focus"
| "focusLoop fs focus step (i # is) =
     (let n = int (length fs);
          k = (focus + step * int i) smod n;
          k = (if k < 0 then k + n else k)
      in if selectable (fs ! nat k) then k else focusLoop fs focus step is)"

definition moveFocus :: "int \<Rightarrow> form \<Rightarrow> form" where
  "moveFocus step f =
     (let n = length (fo_fields f)
      in if n = 0 then f\<lparr>fo_focus := 0\<rparr>
         else f\<lparr>fo_focus := focusLoop (fo_fields f) (clampIndex (fo_focus f) (int n)) step [1..<n + 1]\<rparr>)"

definition fo_next :: "form \<Rightarrow> form" where "fo_next f = moveFocus 1 f"
definition fo_prev :: "form \<Rightarrow> form" where "fo_prev f = moveFocus (-1) f"

definition focusId :: "form \<Rightarrow> ustr" where
  "focusId f = (if fo_focus f < 0 \<or> int (length (fo_fields f)) \<le> fo_focus f then [] else fd_id (fo_fields f ! nat (fo_focus f)))"

definition setValues :: "(ustr \<rightharpoonup> ustr) \<Rightarrow> form \<Rightarrow> form" where
  "setValues vals f = f\<lparr>fo_fields := map (\<lambda>fd.
     case fd_input fd of None \<Rightarrow> fd
     | Some i \<Rightarrow> if fd_id fd = [] then fd
                else (case vals (fd_id fd) of None \<Rightarrow> fd | Some v \<Rightarrow> fd\<lparr>fd_input := Some (ti_setValue v i)\<rparr>)) (fo_fields f)\<rparr>"

definition fo_values :: "form \<Rightarrow> (ustr \<times> ustr) list" where
  "fo_values f = foldl (\<lambda>out fd.
     case fd_input fd of None \<Rightarrow> out | Some i \<Rightarrow> if fd_id fd = [] then out else obj_set (fd_id fd) (ti_text i) out) [] (fo_fields f)"

fun input_of :: "ustr \<Rightarrow> field list \<Rightarrow> text_input option" where
  "input_of i [] = None"
| "input_of i (fd # fs) = (if fd_id fd = i then fd_input fd else input_of i fs)"

definition fo_input :: "ustr \<Rightarrow> form \<Rightarrow> text_input option" where
  "fo_input i f = input_of i (fo_fields f)"

definition fieldError :: "form \<Rightarrow> int \<Rightarrow> ustr" where
  "fieldError f i =
     (if i < 0 \<or> int (length (fo_fields f)) \<le> i then []
      else let fd = fo_fields f ! nat i; value = fd_text fd
           in if fd_required fd \<and> trim value = [] then FORM_REQUIRED_MESSAGE
              else case fd_validate fd of Some v \<Rightarrow> v value | None \<Rightarrow> [])"

text \<open>The loop of \<open>validate\<close>: it stores the message of each field as it goes.\<close>

definition set_error :: "int \<Rightarrow> ustr \<Rightarrow> form \<Rightarrow> form" where
  "set_error i msg f = f\<lparr>fo_fields := (fo_fields f)[nat i := (fo_fields f ! nat i)\<lparr>fd_error := msg\<rparr>]\<rparr>"

definition fo_validate :: "form \<Rightarrow> bool \<times> form" where
  "fo_validate f =
     foldl (\<lambda>(ok, f) i. let msg = fieldError f (int i) in (ok \<and> msg = [], set_error (int i) msg f)) (True, f) [0..<length (fo_fields f)]"

definition fo_handleKey :: "(nat \<Rightarrow> bool) \<Rightarrow> ustr \<Rightarrow> key_event option \<Rightarrow> form \<Rightarrow> bool \<times> form" where
  "fo_handleKey letter i event f =
     (case event of None \<Rightarrow> (False, f) | Some ev \<Rightarrow>
        if i \<noteq> [] \<and> i \<noteq> focusId f then (False, f)
        else if ke_key ev = asc ''enter'' \<or> ke_key ev = asc ''tab'' then (True, fo_next f)
        else if ke_key ev = asc ''shift-tab'' then (True, fo_prev f)
        else if fo_focus f < 0 \<or> int (length (fo_fields f)) \<le> fo_focus f then (False, f)
        else (case fd_input (fo_fields f ! nat (fo_focus f)) of
                None \<Rightarrow> (False, f)
              | Some inp \<Rightarrow>
                  (case ti_handleKey letter event inp of (used, inp') \<Rightarrow>
                     let f = f\<lparr>fo_fields := (fo_fields f)[nat (fo_focus f) := (fo_fields f ! nat (fo_focus f))\<lparr>fd_input := Some inp'\<rparr>]\<rparr>
                     in if \<not> used then (False, f)
                        else (True, if fo_validateOnChange f then set_error (fo_focus f) (fieldError f (fo_focus f)) f else f))))"

definition fo_build :: "form \<Rightarrow> box" where
  "fo_build f =
     (let col = new_Node (Some (asc ''col''));
          col = (if fo_id f \<noteq> [] then n_id (fo_id f) col else col);
          col = (if 0 < fo_width f then n_width (fo_width f) col else col);
          col = (if fo_style f \<noteq> [] then n_style (fo_style f) col else col);
          kids = map (\<lambda>i. let fd = (fo_fields f ! i)\<lparr>fd_focused := (int i = fo_focus f)\<rparr>;
                             fd = (if fd_errorStyle fd = [] then fd\<lparr>fd_errorStyle := fo_errorStyle f\<rparr> else fd)
                         in formFieldBox fd (fo_width f)) [0..<length (fo_fields f)]
      in if kids = [] then col else n_child kids col)"

text \<open>\<open>DateField\<close> of \<open>datepicker.js\<close>: a field whose validator is that of dates in a range.\<close>

definition DateField :: "date \<Rightarrow> date \<Rightarrow> field \<Rightarrow> field" where
  "DateField mn mx fd = fd\<lparr>fd_validate := Some (dayValidator mn mx DATE_FIELD_MESSAGE)\<rparr>"

definition dateField_date :: "field \<Rightarrow> date option" where
  "dateField_date fd =
     (case fd_input fd of None \<Rightarrow> None
      | Some i \<Rightarrow> (case parseDate (ti_text i) of Inl err \<Rightarrow> None | Inr dt \<Rightarrow> Some dt))"

definition empty_field :: field where
  "empty_field = \<lparr>fd_id = [], fd_label = [], fd_help = [], fd_error = [], fd_input = None, fd_required = False, fd_validate = None, fd_style = [],
     fd_labelStyle = [], fd_errorStyle = [], fd_helpStyle = [], fd_focused = False, fd_disabled = False, fd_readonly = False\<rparr>"

definition newDateField :: "ustr \<Rightarrow> ustr \<Rightarrow> text_input option \<Rightarrow> field" where
  "newDateField i label inp =
     DateField (date_of (0, 0, 0)) (date_of (0, 0, 0)) (empty_field\<lparr>fd_id := i, fd_label := label, fd_input := inp\<rparr>)"

section \<open>Focus\<close>

lemma js_index: "0 < n \<Longrightarrow> (let k = a smod n in if k < 0 then k + n else k) = a mod (n :: int)"
  using floor_of_sdiv(2) [of n a] by (simp add: Let_def)

lemma focusLoop_find:
  "fs \<noteq> [] \<Longrightarrow> focusLoop fs focus step is =
     (case find (\<lambda>i. selectable (fs ! nat ((focus + step * int i) mod int (length fs)))) is of
        None \<Rightarrow> focus | Some i \<Rightarrow> (focus + step * int i) mod int (length fs))"
proof (induction "is")
  case (Cons i "is")
  have "(let k = (focus + step * int i) smod int (length fs) in if k < 0 then k + int (length fs) else k) =
      (focus + step * int i) mod int (length fs)"
    using Cons.prems by (intro js_index) simp
  then show ?case using Cons by (simp add: Let_def)
qed simp

text \<open>The field at distance \<open>d\<close> behind the focus.\<close>

definition at_distance :: "form \<Rightarrow> nat \<Rightarrow> int" where
  "at_distance f d = (fo_focus f + int d) mod int (length (fo_fields f))"

definition focus_ok :: "form \<Rightarrow> bool" where
  "focus_ok f \<longleftrightarrow> 0 \<le> fo_focus f \<and> fo_focus f < int (length (fo_fields f))"

text \<open>\<open>next\<close> goes to the nearest selectable field, all round the form if need be.\<close>

lemma fo_next_nearest:
  assumes "focus_ok f" and "1 \<le> d" and "d \<le> length (fo_fields f)" and "selectable (fo_fields f ! nat (at_distance f d))"
  obtains k where "1 \<le> k" and "k \<le> d" and "fo_focus (fo_next f) = at_distance f k" and "fo_fields (fo_next f) = fo_fields f"
    and "selectable (fo_fields f ! nat (at_distance f k))"
proof -
  define n where "n = length (fo_fields f)"
  define P where "P = (\<lambda>i. selectable (fo_fields f ! nat (at_distance f i)))"
  have ne: "fo_fields f \<noteq> []" using assms(1) by (auto simp: focus_ok_def)
  have clamp: "clampIndex (fo_focus f) (int n) = fo_focus f" using assms(1) by (simp add: focus_ok_def n_def clampIndex_id)
  have nx: "fo_focus (fo_next f) = (case find P [1..<n + 1] of None \<Rightarrow> fo_focus f | Some i \<Rightarrow> at_distance f i)"
    "fo_fields (fo_next f) = fo_fields f"
    using ne clamp by (simp_all add: fo_next_def moveFocus_def Let_def n_def focusLoop_find P_def at_distance_def del: upt_Suc split: option.split)
  obtain k where k: "find P [1..<n + 1] = Some k"
    using assms(2,3,4) find_None_iff [of P "[1..<n + 1]"] by (cases "find P [1..<n + 1]") (auto simp: P_def n_def)
  then obtain q where q: "q < length [1..<n + 1]" "P ([1..<n + 1] ! q)" "k = [1..<n + 1] ! q" "\<forall>r<q. \<not> P ([1..<n + 1] ! r)"
    by (auto simp: find_Some_iff)
  have kq: "k = Suc q" "q < n" using q(1,3) by (simp_all del: upt_Suc)
  have "\<not> d < k"
  proof
    assume "d < k"
    then have "d - 1 < q" "[1..<n + 1] ! (d - 1) = d" using kq assms(2,3) by (simp_all add: n_def del: upt_Suc)
    then show False using q(4) assms(4) by (metis P_def)
  qed
  then show ?thesis using that [of k] nx k q(2,3) kq by (simp add: P_def)
qed

lemma focus_reaches:
  "focus_ok f \<Longrightarrow> 1 \<le> d \<Longrightarrow> d \<le> length (fo_fields f) \<Longrightarrow> selectable (fo_fields f ! nat (at_distance f d)) \<Longrightarrow>
   \<exists>k. 1 \<le> k \<and> k \<le> d \<and> fo_focus ((fo_next ^^ k) f) = at_distance f d"
proof (induction d arbitrary: f rule: less_induct)
  case (less d)
  obtain k where k: "1 \<le> k" "k \<le> d" "fo_focus (fo_next f) = at_distance f k" "fo_fields (fo_next f) = fo_fields f"
    by (rule fo_next_nearest [OF less.prems])
  have n: "0 < length (fo_fields f)" using less.prems(1) by (auto simp: focus_ok_def)
  show ?case
  proof (cases "k = d")
    case True
    then show ?thesis using k less.prems(2) by (intro exI [of _ 1]) simp
  next
    case False
    define g where "g = fo_next f"
    have g: "fo_focus g = at_distance f k" "fo_fields g = fo_fields f" using k by (simp_all add: g_def)
    have dist: "at_distance g (d - k) = at_distance f d"
    proof -
      have "fo_focus f + int k + int (d - k) = fo_focus f + int d" using k(2) by simp
      then show ?thesis unfolding at_distance_def g(2) g(1) [unfolded at_distance_def] by (simp add: mod_add_left_eq)
    qed
    have ok: "focus_ok g" using n by (simp add: focus_ok_def g at_distance_def)
    have "\<exists>j. 1 \<le> j \<and> j \<le> d - k \<and> fo_focus ((fo_next ^^ j) g) = at_distance g (d - k)"
      using k False less.prems by (intro less.IH ok) (simp_all add: g dist)
    then obtain j where "1 \<le> j" "j \<le> d - k" "fo_focus ((fo_next ^^ j) g) = at_distance f d" unfolding dist by blast
    then show ?thesis using k(1,2) by (intro exI [of _ "Suc j"]) (simp add: g_def funpow_swap1)
  qed
qed

section \<open>Validation and keys\<close>

lemma fieldError_local:
  "length (fo_fields f) = length (fo_fields g) \<Longrightarrow> 0 \<le> i \<Longrightarrow> i < int (length (fo_fields f)) \<Longrightarrow>
   fo_fields f ! nat i = (fo_fields g ! nat i) \<Longrightarrow> fieldError f i = fieldError g i"
  by (simp add: fieldError_def Let_def)

lemma fo_validate_loop:
  "k \<le> length (fo_fields f) \<Longrightarrow>
   foldl (\<lambda>(ok, f) i. let msg = fieldError f (int i) in (ok \<and> msg = [], set_error (int i) msg f)) (True, f) [0..<k] =
   (list_all (\<lambda>i. fieldError f (int i) = []) [0..<k],
    f\<lparr>fo_fields := map (\<lambda>i. (fo_fields f ! i)\<lparr>fd_error := fieldError f (int i)\<rparr>) [0..<k] @ drop k (fo_fields f)\<rparr>)"
proof (induction k)
  case (Suc k)
  define g where "g = f\<lparr>fo_fields := map (\<lambda>i. (fo_fields f ! i)\<lparr>fd_error := fieldError f (int i)\<rparr>) [0..<k] @ drop k (fo_fields f)\<rparr>"
  have k: "k < length (fo_fields f)" using Suc.prems by simp
  have gk: "fo_fields g ! k = fo_fields f ! k" "length (fo_fields g) = length (fo_fields f)"
    using k by (simp_all add: g_def nth_append)
  have e: "fieldError g (int k) = fieldError f (int k)" using k gk by (intro fieldError_local) simp_all
  have "set_error (int k) (fieldError f (int k)) g =
      f\<lparr>fo_fields := map (\<lambda>i. (fo_fields f ! i)\<lparr>fd_error := fieldError f (int i)\<rparr>) [0..<Suc k] @ drop (Suc k) (fo_fields f)\<rparr>"
  proof -
    have "drop k (fo_fields f) = fo_fields f ! k # drop (Suc k) (fo_fields f)" using k by (simp add: Cons_nth_drop_Suc)
    then show ?thesis by (simp add: set_error_def g_def nth_append list_update_append)
  qed
  then show ?case using Suc.IH Suc.prems e by (simp add: g_def [symmetric] Let_def)
qed simp

lemma fo_validate_eq:
  "fo_validate f = (list_all (\<lambda>i. fieldError f (int i) = []) [0..<length (fo_fields f)],
     f\<lparr>fo_fields := map (\<lambda>i. (fo_fields f ! i)\<lparr>fd_error := fieldError f (int i)\<rparr>) [0..<length (fo_fields f)]\<rparr>)"
  using fo_validate_loop [of "length (fo_fields f)" f] by (simp add: fo_validate_def)

lemma moveFocus_fields [simp]: "fo_fields (moveFocus step f) = fo_fields f"
  by (simp add: moveFocus_def Let_def)

section \<open>Properties\<close>

text \<open>
  C25: The focus reaches every selectable field: from any focused field, pressing next at most as often as the form has fields
  puts the focus on it, whatever disabled and read-only fields lie between, and each step lands on a selectable field.
\<close>

theorem form_focus_reaches:
  assumes "focus_ok f" and "t < length (fo_fields f)" and "selectable (fo_fields f ! t)"
  shows "(\<exists>k. 1 \<le> k \<and> k \<le> length (fo_fields f) \<and> fo_focus ((fo_next ^^ k) f) = int t) \<and>
    selectable (fo_fields f ! nat (fo_focus (fo_next f)))"
proof -
  define n where "n = length (fo_fields f)"
  define d where "d = (if int t = fo_focus f then n else nat ((int t - fo_focus f) mod int n))"
  have f: "0 \<le> fo_focus f" "fo_focus f < int n" using assms(1) by (simp_all add: focus_ok_def n_def)
  have t: "int t < int n" "0 < n" using assms(2) unfolding n_def by linarith+
  have d: "1 \<le> d \<and> d \<le> n \<and> at_distance f d = int t"
  proof (cases "int t = fo_focus f")
    case True
    then show ?thesis using f t by (simp add: d_def at_distance_def n_def [symmetric])
  next
    case False
    define m where "m = (int t - fo_focus f) mod int n"
    have m: "0 \<le> m" "m < int n" using t by (simp_all add: m_def)
    have e: "(fo_focus f + m) mod int n = int t" using t f by (simp add: m_def mod_add_right_eq)
    have "m \<noteq> 0" using e False f by auto
    then have "Suc 0 \<le> nat m" "nat m \<le> n" using m by linarith+
    then show ?thesis using m e False by (simp add: d_def at_distance_def n_def [symmetric] m_def [symmetric])
  qed
  then have sel: "selectable (fo_fields f ! nat (at_distance f d))" using assms(3) by simp
  have "\<exists>k. 1 \<le> k \<and> k \<le> d \<and> fo_focus ((fo_next ^^ k) f) = at_distance f d"
    using d sel by (intro focus_reaches assms(1)) (simp_all add: n_def)
  moreover have "selectable (fo_fields f ! nat (fo_focus (fo_next f)))"
    by (rule fo_next_nearest [OF assms(1) _ _ sel]) (use d in \<open>simp_all add: n_def\<close>)
  ultimately show ?thesis using d by (auto simp: n_def intro: order_trans)
qed

text \<open>Three fields, the middle one disabled.\<close>

definition sample_field :: "bool \<Rightarrow> field" where
  "sample_field dis = empty_field\<lparr>fd_required := True, fd_disabled := dis\<rparr>"

definition sample_form :: form where
  "sample_form = \<lparr>fo_id = [], fo_fields = [sample_field False, sample_field True, sample_field False], fo_focus = 0, fo_width = 0, fo_style = [],
     fo_errorStyle = [], fo_validateOnChange = False\<rparr>"

theorem form_focus_reaches_witness:
  "\<exists>k. 1 \<le> k \<and> k \<le> 3 \<and> fo_focus ((fo_next ^^ k) sample_form) = 2"
proof -
  have "focus_ok sample_form" "length (fo_fields sample_form) = 3" "selectable (fo_fields sample_form ! 2)"
    by (simp_all add: sample_form_def focus_ok_def selectable_def sample_field_def empty_field_def)
  then show ?thesis using form_focus_reaches [of sample_form 2] by simp
qed

lemma moveFocus_others: "(moveFocus d f)\<lparr>fo_fields := fo_fields f, fo_focus := fo_focus f\<rparr> = f"
  by (cases f) (simp add: moveFocus_def Let_def)

text \<open>
  C35: Validating a form reports success exactly when no field has an error, stores each field's message in that field and
  changes nothing else; it is the required message for a required field that is blank. A key changes
  nothing of the form but the focused field and the focus.
\<close>

theorem form_validate_and_keys:
  "(fst (fo_validate f) \<longleftrightarrow> (\<forall>i < length (fo_fields f). fieldError f (int i) = [])) \<and>
   snd (fo_validate f) = f\<lparr>fo_fields := map (\<lambda>i. (fo_fields f ! i)\<lparr>fd_error := fieldError f (int i)\<rparr>) [0..<length (fo_fields f)]\<rparr> \<and>
   (\<forall>i < length (fo_fields f). fd_required (fo_fields f ! i) \<and> trim (fd_text (fo_fields f ! i)) = [] \<longrightarrow>
      fieldError f (int i) = FORM_REQUIRED_MESSAGE) \<and>
   (\<forall>i. int i \<noteq> fo_focus f \<longrightarrow> fo_fields (snd (fo_handleKey letter fid ev f)) ! i = fo_fields f ! i) \<and>
   length (fo_fields (snd (fo_handleKey letter fid ev f))) = length (fo_fields f) \<and>
   (snd (fo_handleKey letter fid ev f))\<lparr>fo_fields := fo_fields f, fo_focus := fo_focus f\<rparr> = f"
proof -
  have keys: "fo_fields (snd (fo_handleKey letter fid ev f)) ! i = fo_fields f ! i" if "int i \<noteq> fo_focus f" for i
    using that by (auto simp: fo_handleKey_def Let_def set_error_def fo_next_def fo_prev_def nth_list_update
        simp del: asc_simps split: option.split prod.split)
  have len: "length (fo_fields (snd (fo_handleKey letter fid ev f))) = length (fo_fields f)"
    by (simp add: fo_handleKey_def Let_def set_error_def fo_next_def fo_prev_def del: asc_simps split: option.split prod.split)
  have err: "fd_required (fo_fields f ! i) \<and> trim (fd_text (fo_fields f ! i)) = [] \<Longrightarrow> i < length (fo_fields f) \<Longrightarrow>
      fieldError f (int i) = FORM_REQUIRED_MESSAGE" for i
    by (simp add: fieldError_def Let_def)
  have others: "(snd (fo_handleKey letter fid ev f))\<lparr>fo_fields := fo_fields f, fo_focus := fo_focus f\<rparr> = f"
    by (simp add: fo_handleKey_def Let_def set_error_def fo_next_def fo_prev_def moveFocus_others del: asc_simps split: option.split prod.split)
  show ?thesis using keys len err others by (simp add: fo_validate_eq list_all_iff Ball_def)
qed

theorem form_validate_and_keys_witness:
  "\<not> fst (fo_validate sample_form) \<and> fieldError sample_form 0 = FORM_REQUIRED_MESSAGE"
proof -
  have len: "length (fo_fields sample_form) = 3" by (simp add: sample_form_def)
  have req: "\<forall>i<3. fd_required (fo_fields sample_form ! i) \<and> trim (fd_text (fo_fields sample_form ! i)) = [] \<longrightarrow>
      fieldError sample_form (int i) = FORM_REQUIRED_MESSAGE"
    and ok: "fst (fo_validate sample_form) \<longleftrightarrow> (\<forall>i<3. fieldError sample_form (int i) = [])"
    using form_validate_and_keys [of sample_form "\<lambda>c. False" "[]" None] len by auto
  have "fd_required (fo_fields sample_form ! 0)" "trim (fd_text (fo_fields sample_form ! 0)) = []"
    by (simp_all add: sample_form_def sample_field_def empty_field_def fd_text_def trim_def)
  then have "fieldError sample_form 0 = FORM_REQUIRED_MESSAGE" using req [rule_format, of 0] by simp
  moreover have "FORM_REQUIRED_MESSAGE \<noteq> []" by (simp add: FORM_REQUIRED_MESSAGE_def)
  ultimately have "fieldError sample_form (int 0) \<noteq> []" "fieldError sample_form 0 = FORM_REQUIRED_MESSAGE" by simp_all
  then show ?thesis unfolding ok by (intro conjI notI) (drule spec [of _ 0], simp_all)
qed

end
