(* ===== verification/Chrome.thy ===== *)
theory Chrome
  imports Builder
begin

text \<open>
  The chrome widgets of \<open>clients/tui/sdk/ts/src/widgets/basics.js\<close>: segments and how groups of them are
  fitted into a width, the tab bar, the status bar, frames, cards, dividers, buttons and key hints.
  An option that is missing has the default of the constructor: an empty string, 0, an empty list.
\<close>

section \<open>Definitions\<close>

definition DEFAULT_ACTIVE_STYLE :: ustr where "DEFAULT_ACTIVE_STYLE = asc ''tab_active''"
definition DEFAULT_INACTIVE_STYLE :: ustr where "DEFAULT_INACTIVE_STYLE = asc ''tab_inactive''"
definition DEFAULT_CHROME_STYLE :: ustr where "DEFAULT_CHROME_STYLE = asc ''chrome''"
definition DEFAULT_STATUS_STYLE :: ustr where "DEFAULT_STATUS_STYLE = asc ''status''"
definition DEFAULT_SEP_STYLE :: ustr where "DEFAULT_SEP_STYLE = asc ''muted''"
definition DEFAULT_KEY_STYLE :: ustr where "DEFAULT_KEY_STYLE = asc ''muted''"
definition DEFAULT_BORDER_STYLE :: ustr where "DEFAULT_BORDER_STYLE = asc ''border''"
definition DEFAULT_BUTTON_STYLE :: ustr where "DEFAULT_BUTTON_STYLE = asc ''accent''"
definition DEFAULT_SEPARATOR :: ustr where "DEFAULT_SEPARATOR = [0x2502]"

text \<open>\<open>a || b\<close> on strings\<close>

definition str_or :: "ustr \<Rightarrow> ustr \<Rightarrow> ustr" where
  "str_or a b = (if a = [] then b else a)"

definition applyStyle :: "box \<Rightarrow> ustr \<Rightarrow> box" where
  "applyStyle node style = (if style = [] then node else n_style style node)"

definition applyInput :: "box \<Rightarrow> ustr list \<Rightarrow> box" where
  "applyInput node kinds = (if kinds = [] then node else n_input kinds node)"

definition applyId :: "box \<Rightarrow> ustr \<Rightarrow> box" where
  "applyId node i = (if i = [] then node else n_id i node)"

definition maxInt :: "int \<Rightarrow> int \<Rightarrow> int" where
  "maxInt a b = (if b < a then a else b)"

fun firstNonEmpty :: "ustr list \<Rightarrow> ustr" where
  "firstNonEmpty [] = []"
| "firstNonEmpty (v # vs) = (if v \<noteq> [] then v else firstNonEmpty vs)"

record segment =
  seg_text :: ustr
  seg_style :: ustr
  seg_id :: ustr
  seg_input :: "ustr list"

definition segmentBox :: "segment \<Rightarrow> ustr \<Rightarrow> box" where
  "segmentBox seg fallbackStyle =
     applyInput (applyStyle (applyId (text_node (seg_text seg)) (seg_id seg)) (str_or (seg_style seg) fallbackStyle)) (seg_input seg)"

text \<open>\<open>appendGroup\<close> adds children to a row; here it gives the children it adds.\<close>

fun group_tail :: "segment list \<Rightarrow> ustr \<Rightarrow> ustr \<Rightarrow> box list" where
  "group_tail [] sepStyle sepText = []"
| "group_tail (s # ss) sepStyle sepText = applyStyle (text_node sepText) sepStyle # segmentBox s [] # group_tail ss sepStyle sepText"

fun appendGroup :: "segment list \<Rightarrow> ustr \<Rightarrow> ustr \<Rightarrow> box list" where
  "appendGroup [] sepStyle sepText = []"
| "appendGroup (s # ss) sepStyle sepText = segmentBox s [] # group_tail ss sepStyle sepText"

fun groupWidth :: "segment list \<Rightarrow> int \<Rightarrow> int" where
  "groupWidth [] sepW = 0"
| "groupWidth [s] sepW = displayWidth (seg_text s)"
| "groupWidth (s # t # ss) sepW = displayWidth (seg_text s) + sepW + groupWidth (t # ss) sepW"

definition cloneWithText :: "segment \<Rightarrow> ustr \<Rightarrow> segment" where
  "cloneWithText seg value = seg\<lparr>seg_text := value\<rparr>"

function fit_loop :: "segment list \<Rightarrow> int \<Rightarrow> int \<Rightarrow> segment list \<times> int" where
  "fit_loop out budget sepW =
     (if out = [] then ([], 0)
      else if groupWidth out sepW \<le> budget then (out, groupWidth out sepW)
      else if length out = 1 then
        (let trimmed = Builder.truncate (seg_text (hd out)) budget in ([cloneWithText (hd out) trimmed], displayWidth trimmed))
      else fit_loop (butlast out) budget sepW)"
  by pat_completeness auto
termination
  by (relation "measure (\<lambda>(out, budget, sepW). length out)") auto

declare fit_loop.simps [simp del]

definition fitSegments :: "segment list \<Rightarrow> int \<Rightarrow> int \<Rightarrow> segment list \<times> int" where
  "fitSegments segs budget sepW = (if budget \<le> 0 then ([], 0) else fit_loop segs budget sepW)"

definition segmentTexts :: "segment list \<Rightarrow> ustr list" where
  "segmentTexts segs = map seg_text segs"

text \<open>\<open>texts.join(sep)\<close>\<close>

fun join_with :: "ustr \<Rightarrow> ustr list \<Rightarrow> ustr" where
  "join_with sep [] = []"
| "join_with sep [t] = t"
| "join_with sep (t # u # ts) = t @ sep @ join_with sep (u # ts)"

record tabItem =
  ti_id :: ustr
  ti_title :: ustr
  ti_active :: bool

record tabBar =
  tbr_left :: "segment option"
  tbr_items :: "tabItem list"
  tbr_plus :: bool
  tbr_plusId :: ustr
  tbr_plusText :: ustr
  tbr_activeStyle :: ustr
  tbr_inactiveStyle :: ustr
  tbr_chromeStyle :: ustr

definition activeStyleValue :: "tabBar \<Rightarrow> ustr" where
  "activeStyleValue t = str_or (tbr_activeStyle t) DEFAULT_ACTIVE_STYLE"

definition inactiveStyleValue :: "tabBar \<Rightarrow> ustr" where
  "inactiveStyleValue t = str_or (tbr_inactiveStyle t) DEFAULT_INACTIVE_STYLE"

definition chromeStyleValue :: "tabBar \<Rightarrow> ustr" where
  "chromeStyleValue t = str_or (tbr_chromeStyle t) DEFAULT_CHROME_STYLE"

definition tab_label :: "tabItem \<Rightarrow> ustr" where
  "tab_label item = (if ti_active item then 91 # ti_title item @ [93] else 32 # ti_title item @ [32])"

definition tab_node :: "tabBar \<Rightarrow> tabItem \<Rightarrow> box" where
  "tab_node t item =
     applyId (n_input [asc ''mouse''] (n_style (if ti_active item then activeStyleValue t else inactiveStyleValue t)
       (text_node (tab_label item)))) (ti_id item)"

definition tabBar_build :: "tabBar \<Rightarrow> box" where
  "tabBar_build t = row_node
     ((case tbr_left t of None \<Rightarrow> [] | Some seg \<Rightarrow> [segmentBox seg (chromeStyleValue t)]) @
      map (tab_node t) (tbr_items t) @
      (if tbr_plus t then [n_input [asc ''mouse''] (n_style (chromeStyleValue t) (n_id (str_or (tbr_plusId t) (asc ''tab:new''))
         (text_node (str_or (tbr_plusText t) (asc '' + '')))))] else []))"

record statusBar =
  stb_id :: ustr
  stb_left :: "segment list"
  stb_right :: "segment list"
  stb_width :: int
  stb_separator :: ustr
  stb_sepStyle :: ustr

definition stb_segmentTexts :: "statusBar \<Rightarrow> ustr list" where
  "stb_segmentTexts s = map seg_text (stb_left s) @ map seg_text (stb_right s)"

definition separatorText :: "ustr \<Rightarrow> ustr" where
  "separatorText separator = (if separator \<noteq> [] then 32 # separator @ [32] else 32 # DEFAULT_SEPARATOR @ [32])"

definition stb_text :: "statusBar \<Rightarrow> ustr" where
  "stb_text s = join_with (separatorText (stb_separator s)) (stb_segmentTexts s)"

definition pad_node :: "int \<Rightarrow> box list" where
  "pad_node pad = (if 0 < pad then [text_node (replicate (nat pad) 32)] else [])"

definition stb_fit :: "statusBar \<Rightarrow> segment list \<times> segment list" where
  "stb_fit s =
     (let sepW = displayWidth (separatorText (stb_separator s)) in
      if 0 < stb_width s then
        let right = fst (fitSegments (stb_right s) (stb_width s) sepW);
          rightW = groupWidth right sepW;
          leftBudget = (if stb_left s \<noteq> [] then stb_width s - rightW - (if right \<noteq> [] then sepW else 0) else 0)
        in (fst (fitSegments (stb_left s) leftBudget sepW), right)
      else (stb_left s, stb_right s))"

definition stb_build :: "statusBar \<Rightarrow> box" where
  "stb_build s =
     (let sepText = separatorText (stb_separator s);
        sepStyle = str_or (stb_sepStyle s) DEFAULT_SEP_STYLE;
        sepW = displayWidth sepText in
      case stb_fit s of (left, right) \<Rightarrow>
        let used = groupWidth left sepW + groupWidth right sepW + (if left \<noteq> [] \<and> right \<noteq> [] then sepW else 0)
        in n_child (appendGroup left sepStyle sepText @
             (if left \<noteq> [] \<and> right \<noteq> [] then [applyStyle (text_node sepText) sepStyle] else []) @
             (if 0 < stb_width s then pad_node (stb_width s - used) else []) @
             appendGroup right sepStyle sepText)
           (applyId (n_height 1 (row_node [])) (stb_id s)))"

record frameRow =
  fr_text :: ustr
  fr_style :: ustr
  fr_id :: ustr
  fr_input :: "ustr list"

record frame =
  frm_id :: ustr
  frm_title :: ustr
  frm_width :: int
  frm_height :: int
  frm_style :: ustr
  frm_rows :: "frameRow list"
  frm_fillStyle :: ustr

definition frame_padTo :: "ustr \<Rightarrow> int \<Rightarrow> ustr" where
  "frame_padTo value width =
     (let out = Builder.truncate value width; pad = width - displayWidth out
      in if 0 < pad then out @ replicate (nat pad) 32 else out)"

definition frameRowBox :: "frameRow \<Rightarrow> int \<Rightarrow> ustr \<Rightarrow> box" where
  "frameRowBox rowDef width fallbackStyle =
     applyInput (applyStyle (applyId (n_height 1 (n_width width (text_node (frame_padTo (fr_text rowDef) width)))) (fr_id rowDef))
       (str_or (fr_style rowDef) fallbackStyle)) (fr_input rowDef)"

fun frameTextWidth :: "frameRow list \<Rightarrow> int \<Rightarrow> int" where
  "frameTextWidth [] width = width"
| "frameTextWidth (r # rs) width =
     frameTextWidth rs (if width < displayWidth (fr_text r) then displayWidth (fr_text r) else width)"

definition ruleText :: "int \<Rightarrow> ustr \<Rightarrow> ustr" where
  "ruleText width title =
     (let inner = width - 2 in
      if inner \<le> 0 then [0x250c, 0x2510]
      else if title = [] then 0x250c # replicate (nat inner) 0x2500 @ [0x2510]
      else
        let budget = inner - 1;
          label = (if 0 \<le> budget then Builder.truncate (32 # title @ [32]) budget else []);
          fill = inner - 1 - displayWidth label
        in [0x250c, 0x2500] @ label @ replicate (nat (if fill < 0 then 0 else fill)) 0x2500 @ [0x2510])"

definition bottomRuleText :: "int \<Rightarrow> ustr" where
  "bottomRuleText width = (if width < 2 then [0x2514] else 0x2514 # replicate (nat (width - 2)) 0x2500 @ [0x2518])"

definition frame_line :: "ustr \<Rightarrow> int \<Rightarrow> frameRow \<Rightarrow> box" where
  "frame_line style inner rowDef =
     n_child [n_width 1 (n_style style (text_node [0x2502])), frameRowBox rowDef inner [], n_width 1 (n_style style (text_node [0x2502]))]
       (n_height 1 (row_node []))"

definition fill_row :: "frame \<Rightarrow> frameRow" where
  "fill_row f = \<lparr>fr_text = [], fr_style = frm_fillStyle f, fr_id = [], fr_input = []\<rparr>"

definition frame_build :: "frame \<Rightarrow> box" where
  "frame_build f =
     (let width = (if frm_width f \<le> 0 then frameTextWidth (frm_rows f) 0 + 2 else frm_width f);
        height = (if frm_height f \<le> 0 then int (length (frm_rows f)) + 2 else frm_height f);
        style = str_or (frm_style f) DEFAULT_BORDER_STYLE;
        col = n_height height (n_width width (applyId (new_Node (Some (asc ''col''))) (frm_id f)))
      in if width < 3 \<or> height < 2 then n_child (map (\<lambda>r. frameRowBox r (maxInt 1 width) []) (frm_rows f)) col
      else n_child
        ([n_height 1 (n_width width (n_style style (text_node (ruleText width (frm_title f)))))] @
         map (\<lambda>i. frame_line style (width - 2) (if i < length (frm_rows f) then frm_rows f ! i else fill_row f)) [0..<nat (height - 2)] @
         [n_height 1 (n_width width (n_style style (text_node (bottomRuleText width))))]) col)"

record dividerWidget =
  dv_id :: ustr
  dv_vertical :: bool
  dv_length :: int
  dv_style :: ustr
  dv_input :: "ustr list"

definition dv_build :: "dividerWidget \<Rightarrow> box" where
  "dv_build d =
     (let glyph = (if dv_vertical d then 0x2502 else 0x2500);
        width = (if dv_vertical d then 1 else dv_length d);
        height = (if dv_vertical d then dv_length d else 1);
        width = (if width \<le> 0 then 1 else width);
        height = (if height \<le> 0 then 1 else height)
      in applyInput (applyStyle (applyId (n_height height (n_width width
           (text_node (replicate (nat (maxInt 1 (dv_length d))) glyph)))) (dv_id d)) (str_or (dv_style d) DEFAULT_SEP_STYLE)) (dv_input d))"

record card =
  cd_id :: ustr
  cd_title :: ustr
  cd_lines :: "ustr list"
  cd_width :: int
  cd_height :: int
  cd_style :: ustr
  cd_lineStyle :: ustr
  cd_center :: bool

definition centerLines :: "ustr list \<Rightarrow> int \<Rightarrow> int \<Rightarrow> ustr list" where
  "centerLines ls width height =
     (let out = (if 2 < width
          then map (\<lambda>line. let pad = (width - 2 - displayWidth line) div 2 in if 0 < pad then replicate (nat pad) 32 @ line else line) ls
          else ls);
        pad = (height - 2 - int (length out)) div 2
      in if 2 < height \<and> 0 < pad then replicate (nat pad) [] @ out else out)"

definition card_frame :: "card \<Rightarrow> frame" where
  "card_frame c =
     (let ls = (if cd_center c then centerLines (cd_lines c) (cd_width c) (cd_height c) else cd_lines c)
      in \<lparr>frm_id = cd_id c, frm_title = cd_title c, frm_width = cd_width c, frm_height = cd_height c, frm_style = cd_style c,
          frm_rows = map (\<lambda>l. \<lparr>fr_text = l, fr_style = cd_lineStyle c, fr_id = [], fr_input = []\<rparr>) ls, frm_fillStyle = []\<rparr>)"

definition card_build :: "card \<Rightarrow> box" where
  "card_build c = frame_build (card_frame c)"

record button =
  btn_id :: ustr
  btn_text :: ustr
  btn_hot :: ustr
  btn_style :: ustr
  btn_input :: "ustr list"

definition btn_line :: "button \<Rightarrow> ustr" where
  "btn_line b = btn_text b"

text \<open>\<open>text.indexOf(hot)\<close> in code points: a match of a well-formed string starts at a code point.\<close>

fun indexOf :: "ustr \<Rightarrow> ustr \<Rightarrow> nat option" where
  "indexOf hot [] = (if hot = [] then Some 0 else None)"
| "indexOf hot (c # s) = (if prefix hot (c # s) then Some 0 else map_option Suc (indexOf hot s))"

definition plainBox :: "button \<Rightarrow> ustr \<Rightarrow> ustr list \<Rightarrow> box" where
  "plainBox b style inputs = applyInput (applyStyle (applyId (text_node (btn_text b)) (btn_id b)) style) inputs"

definition btn_build :: "button \<Rightarrow> box" where
  "btn_build b =
     (let inputs = (if btn_input b \<noteq> [] then btn_input b else [asc ''mouse'']);
        style = str_or (btn_style b) DEFAULT_BUTTON_STYLE
      in case (if btn_hot b \<noteq> [] then indexOf (btn_hot b) (btn_text b) else None) of
        None \<Rightarrow> plainBox b style inputs
      | Some idx \<Rightarrow>
          let pre = take idx (btn_text b);
            hot = take (length (btn_hot b)) (drop idx (btn_text b));
            post = drop (idx + length (btn_hot b)) (btn_text b)
          in n_child ((if pre \<noteq> [] then [applyStyle (text_node pre) style] else []) @
               [applyStyle (text_node hot) DEFAULT_BUTTON_STYLE] @
               (if post \<noteq> [] then [applyStyle (text_node post) style] else []))
             (applyInput (applyId (row_node []) (btn_id b)) inputs))"

record keyHint =
  kh_id :: ustr
  kh_mode :: ustr
  kh_keys :: "ustr list"
  kh_modeStyle :: ustr
  kh_keyStyle :: ustr
  kh_sepStyle :: ustr

text \<open>The middle dot between the keys.\<close>

definition KEY_SEPARATOR :: ustr where "KEY_SEPARATOR = [32, 0xb7, 32]"

definition kh_text :: "keyHint \<Rightarrow> ustr" where
  "kh_text k =
     (let keys = join_with KEY_SEPARATOR (kh_keys k) in
      if kh_mode k = [] then keys
      else if keys = [] then kh_mode k
      else kh_mode k @ 32 # DEFAULT_SEPARATOR @ [32] @ keys)"

definition kh_build :: "keyHint \<Rightarrow> box" where
  "kh_build k = n_child
     ((if kh_mode k \<noteq> [] then [applyStyle (text_node (kh_mode k)) (str_or (kh_modeStyle k) DEFAULT_STATUS_STYLE)] else []) @
      (if kh_keys k \<noteq> [] then
         (if kh_mode k \<noteq> [] then [applyStyle (text_node (32 # DEFAULT_SEPARATOR @ [32])) (str_or (kh_sepStyle k) DEFAULT_SEP_STYLE)] else []) @
         [applyStyle (text_node (join_with KEY_SEPARATOR (kh_keys k))) (str_or (kh_keyStyle k) DEFAULT_KEY_STYLE)]
       else []))
     (applyId (n_height 1 (row_node [])) (kh_id k))"

section \<open>Texts and widths\<close>

lemma own_text_apply [simp]:
  "own_text (applyStyle b st) = own_text b" "own_text (applyInput b ks) = own_text b" "own_text (applyId b i) = own_text b"
  by (simp_all add: applyStyle_def applyInput_def applyId_def)

lemma children_apply [simp]:
  "children (applyStyle b st) = children b" "children (applyInput b ks) = children b" "children (applyId b i) = children b"
  by (simp_all add: applyStyle_def applyInput_def applyId_def)

lemma own_text_segmentBox [simp]: "own_text (segmentBox s st) = seg_text s"
  by (simp add: segmentBox_def)

text \<open>The width of the texts of a list of nodes.\<close>

definition texts_width :: "box list \<Rightarrow> int" where
  "texts_width bs = displayWidth (concat (map own_text bs))"

lemma texts_width_simps [simp]:
  "texts_width [] = 0" "texts_width (b # bs) = displayWidth (own_text b) + texts_width bs"
  "texts_width (as @ bs) = texts_width as + texts_width bs"
  by (simp_all add: texts_width_def)

lemma texts_width_group_tail:
  "texts_width (group_tail ss st sep) = (\<Sum>s\<leftarrow>ss. displayWidth sep + displayWidth (seg_text s))"
  by (induction ss) simp_all

lemma groupWidth_Cons: "groupWidth (s # ss) w = displayWidth (seg_text s) + (\<Sum>t\<leftarrow>ss. w + displayWidth (seg_text t))"
  by (induction ss arbitrary: s) simp_all

lemma texts_width_appendGroup [simp]: "texts_width (appendGroup ss st sep) = groupWidth ss (displayWidth sep)"
  by (cases ss) (simp_all add: texts_width_group_tail groupWidth_Cons)

lemma displayWidth_join: "displayWidth (join_with sep (segmentTexts ss)) = groupWidth ss (displayWidth sep)"
  by (induction ss "displayWidth sep" rule: groupWidth.induct) (simp_all add: segmentTexts_def)

lemma fit_loop_width:
  "0 < budget \<Longrightarrow> groupWidth (fst (fit_loop out budget w)) w \<le> budget"
proof (induction out budget w rule: fit_loop.induct)
  case (1 out budget w)
  show ?case
  proof (cases "out = [] \<or> groupWidth out w \<le> budget \<or> length out = 1")
    case True
    with "1.prems" show ?thesis
      using truncate_width [of budget "seg_text (hd out)"]
      by (subst fit_loop.simps) (auto simp: Let_def cloneWithText_def)
  next
    case False
    with 1 show ?thesis by (subst fit_loop.simps) simp
  qed
qed

text \<open>What a group is cut to fits, whatever the budget.\<close>

lemma fitSegments_width: "groupWidth (fst (fitSegments segs budget w)) w \<le> max 0 budget"
  using fit_loop_width [of budget segs w] by (auto simp: fitSegments_def)

lemma fitSegments_all: "0 < budget \<Longrightarrow> groupWidth segs w \<le> budget \<Longrightarrow> fst (fitSegments segs budget w) = segs"
  by (cases segs) (simp_all add: fitSegments_def fit_loop.simps)

lemma fitSegments_Nil [simp]: "fst (fitSegments [] budget w) = []"
  by (simp add: fitSegments_def fit_loop.simps)

lemma texts_width_pad [simp]: "texts_width (pad_node n) = max 0 n"
  by (simp add: pad_node_def)

section \<open>Properties\<close>

lemma row_text_width: "displayWidth (row_text b) = texts_width (children b)"
  by (simp add: row_text_def texts_width_def)

lemma stb_fit_width:
  assumes "0 < stb_width s" and "stb_fit s = (left, right)"
  defines "sepW \<equiv> displayWidth (separatorText (stb_separator s))"
  shows "groupWidth left sepW + groupWidth right sepW + (if left \<noteq> [] \<and> right \<noteq> [] then sepW else 0) \<le> stb_width s"
proof -
  have right: "right = fst (fitSegments (stb_right s) (stb_width s) sepW)"
    using assms by (auto simp: stb_fit_def Let_def)
  then have r: "groupWidth right sepW \<le> stb_width s" using fitSegments_width [of "stb_right s" "stb_width s" sepW] assms(1) by simp
  have left: "left = fst (fitSegments (stb_left s) (if stb_left s \<noteq> [] then stb_width s - groupWidth right sepW - (if right \<noteq> [] then sepW else 0) else 0) sepW)"
    using assms(1,2) right by (auto simp: stb_fit_def Let_def sepW_def)
  show ?thesis
  proof (cases "left = []")
    case True
    with r show ?thesis by simp
  next
    case False
    then have ne: "stb_left s \<noteq> []" using left by auto
    let ?b = "stb_width s - groupWidth right sepW - (if right \<noteq> [] then sepW else 0)"
    have "0 < ?b" using False left ne by (auto simp: fitSegments_def split: if_splits)
    then have "groupWidth left sepW \<le> ?b" using fitSegments_width [of "stb_left s" ?b sepW] left ne by simp
    then show ?thesis using False by (auto split: if_splits)
  qed
qed

text \<open>A status bar fills exactly its width, whatever its segments.\<close>

lemma stb_build_width:
  assumes "0 < stb_width s"
  shows "displayWidth (row_text (stb_build s)) = stb_width s"
proof -
  obtain left right where lr: "stb_fit s = (left, right)" by (cases "stb_fit s")
  from stb_fit_width [OF assms lr] show ?thesis
    using assms by (simp add: row_text_width stb_build_def lr Let_def)
qed

lemma displayWidth_frame_padTo: "0 \<le> w \<Longrightarrow> displayWidth (frame_padTo s w) = w"
  using truncate_width [of w s] by (simp add: frame_padTo_def Let_def)

lemma box_glyphs [simp]: "cellWidth 0x2500 = 1" "cellWidth 0x2502 = 1" "cellWidth 0x250c = 1" "cellWidth 0x2510 = 1"
  "cellWidth 0x2514 = 1" "cellWidth 0x2518 = 1"
  by (simp_all add: cellWidth_def isWide_def)

lemma displayWidth_replicate_rule [simp]: "displayWidth (replicate n 0x2500) = int n"
  by (induction n) simp_all

lemma ruleText_width: "3 \<le> w \<Longrightarrow> displayWidth (ruleText w t) = w"
  using truncate_width [of "w - 3" "32 # t @ [32]"] by (simp add: ruleText_def Let_def)

lemma bottomRuleText_width: "2 \<le> w \<Longrightarrow> displayWidth (bottomRuleText w) = w"
  by (simp add: bottomRuleText_def)

text \<open>The text of one line of a frame: its own, or that of the cells of its row.\<close>

definition line_text :: "box \<Rightarrow> ustr" where
  "line_text b = own_text b @ row_text b"

lemma children_text_node [simp]: "children (text_node t) = []"
  by (simp add: text_node_def)

lemma frame_line_width: "0 \<le> w \<Longrightarrow> displayWidth (line_text (frame_line st w r)) = w + 2"
  by (simp add: line_text_def row_text_def frame_line_def frameRowBox_def displayWidth_frame_padTo)

text \<open>
  a frame that is given a size of at least 3 by 2 cells is drawn with exactly as many lines as
  it is high, and every line (the top rule with its title, the rows, cut or filled up, and the bottom
  rule) is exactly as wide as the frame, also where a wide character is cut.
\<close>

theorem frame_exact:
  assumes "3 \<le> frm_width f" and "2 \<le> frm_height f"
  shows "int (length (children (frame_build f))) = frm_height f \<and>
    list_all (\<lambda>b. displayWidth (line_text b) = frm_width f) (children (frame_build f))"
  using assms frame_line_width [of "frm_width f - 2"]
  by (simp add: frame_build_def Let_def list_all_iff line_text_def [of "n_height _ _"] row_text_def ruleText_width bottomRuleText_width)

theorem frame_exact_witness:
  "let f = \<lparr>frm_id = [], frm_title = asc ''Log'', frm_width = 6, frm_height = 4, frm_style = [],
      frm_rows = [\<lparr>fr_text = asc ''started'', fr_style = [], fr_id = [], fr_input = []\<rparr>], frm_fillStyle = []\<rparr>
   in int (length (children (frame_build f))) = 4 \<and>
     list_all (\<lambda>b. displayWidth (line_text b) = 6) (children (frame_build f))"
  unfolding Let_def
  using frame_exact [of "\<lparr>frm_id = [], frm_title = asc ''Log'', frm_width = 6, frm_height = 4, frm_style = [],
      frm_rows = [\<lparr>fr_text = asc ''started'', fr_style = [], fr_id = [], fr_input = []\<rparr>], frm_fillStyle = []\<rparr>"]
  by (simp only: frame.simps order_refl)

end
