(* ===== verification/Layout.thy ===== *)
theory Layout
  imports Chrome
begin

text \<open>
  The layout widgets of \<open>clients/tui/sdk/ts/src/widgets/layout.js\<close>: the division of cells among panes,
  split layouts, the title bar, the footer, pickers, floating layers and toasts. Sizes and weights are
  integers; \<open>Math.floor(a / b)\<close> of integers below \<open>2 ^ 53\<close> is \<open>div\<close>.
\<close>

section \<open>Definitions\<close>

record rect =
  rc_x :: int
  rc_y :: int
  rc_w :: int
  rc_h :: int

definition add_last :: "int \<Rightarrow> int list \<Rightarrow> int list" where
  "add_last d xs = butlast xs @ [last xs + d]"

definition last_at_least_1 :: "int list \<Rightarrow> int list" where
  "last_at_least_1 xs = (if last xs < 1 then butlast xs @ [1] else xs)"

definition at_least_1 :: "int \<Rightarrow> int" where
  "at_least_1 v = (if v < 1 then 1 else v)"

definition distribute :: "int \<Rightarrow> int list \<Rightarrow> int list" where
  "distribute avail ratios =
     (if ratios = [] then []
      else
        let avail = (if avail < int (length ratios) then int (length ratios) else avail);
          tot = sum_list (filter (\<lambda>r. 0 < r) ratios);
          out = (if tot \<le> 0 then replicate (length ratios) 1 else map (\<lambda>r. at_least_1 (avail * r div tot)) ratios)
        in last_at_least_1 (add_last (avail - sum_list out) out))"

record splitLayout =
  sl_orient :: ustr
  sl_weights :: "int list"
  sl_gap :: int

definition axis_col :: "splitLayout \<Rightarrow> bool" where
  "axis_col s \<longleftrightarrow> sl_orient s = asc ''col''"

definition gapWidth :: "splitLayout \<Rightarrow> int" where
  "gapWidth s = (if 0 < sl_gap s then sl_gap s else 1)"

text \<open>The loop over the sizes: a pane, and a divider after every pane but the last.\<close>

fun place :: "(int \<Rightarrow> int \<Rightarrow> rect) \<Rightarrow> int \<Rightarrow> int \<Rightarrow> int list \<Rightarrow> rect list \<times> rect list" where
  "place mk gap p [] = ([], [])"
| "place mk gap p [sz] = ([mk p sz], [])"
| "place mk gap p (sz # t # szs) =
     (case place mk gap (p + sz + gap) (t # szs) of (panes, dividers) \<Rightarrow> (mk p sz # panes, mk (p + sz) gap # dividers))"

definition rects :: "splitLayout \<Rightarrow> int \<Rightarrow> int \<Rightarrow> rect list \<times> rect list" where
  "rects s width height =
     (let weights = (if sl_weights s = [] then [1] else sl_weights s);
        count = int (length weights);
        gap = gapWidth s
      in if axis_col s
         then place (\<lambda>y sz. \<lparr>rc_x = 0, rc_y = y, rc_w = width, rc_h = sz\<rparr>) gap 0 (distribute (height - (count - 1) * gap) weights)
         else place (\<lambda>x sz. \<lparr>rc_x = x, rc_y = 0, rc_w = sz, rc_h = height\<rparr>) gap 0 (distribute (width - (count - 1) * gap) weights))"

definition segmentsText :: "segment list \<Rightarrow> ustr" where
  "segmentsText segments = concat (map seg_text segments)"

definition segmentsWidth :: "segment list \<Rightarrow> int" where
  "segmentsWidth segments = (\<Sum>s\<leftarrow>segments. displayWidth (seg_text s))"

record titleBar =
  tbar_id :: ustr
  tbar_left :: "segment list"
  tbar_buttons :: "button list"
  tbar_width :: int
  tbar_fill :: ustr

definition tbar_right :: "titleBar \<Rightarrow> ustr" where
  "tbar_right t = join_with [32] (map btn_line (tbar_buttons t))"

definition tbar_line :: "titleBar \<Rightarrow> ustr" where
  "tbar_line t =
     (let left = segmentsText (tbar_left t); right = tbar_right t;
        pad = tbar_width t - displayWidth left - displayWidth right
      in if 0 < tbar_width t \<and> 0 < pad then left @ replicate (nat pad) 32 @ right else left @ right)"

fun button_nodes :: "button list \<Rightarrow> box list" where
  "button_nodes [] = []"
| "button_nodes [b] = [btn_build b]"
| "button_nodes (b # c # bs) = btn_build b # text_node [32] # button_nodes (c # bs)"

definition tbar_fitted :: "titleBar \<Rightarrow> segment list" where
  "tbar_fitted t =
     (if 0 < tbar_width t \<and> displayWidth (tbar_right t) < tbar_width t
      then fst (fitSegments (tbar_left t) (tbar_width t - displayWidth (tbar_right t)) (displayWidth DEFAULT_SEPARATOR))
      else tbar_left t)"

definition tbar_build :: "titleBar \<Rightarrow> box" where
  "tbar_build t =
     (let left = tbar_fitted t
      in n_child (appendGroup left (tbar_fill t) DEFAULT_SEPARATOR @
           (if 0 < tbar_width t then pad_node (tbar_width t - segmentsWidth left - displayWidth (tbar_right t)) else []) @
           button_nodes (tbar_buttons t))
         (applyId (n_height 1 (row_node [])) (tbar_id t)))"

record footer =
  ft_id :: ustr
  ft_badge :: segment
  ft_hasBadge :: bool
  ft_groups :: "segment list"
  ft_right :: "segment list"
  ft_width :: int
  ft_separator :: ustr
  ft_sepStyle :: ustr

definition leftSegments :: "footer \<Rightarrow> segment list" where
  "leftSegments f = (if ft_hasBadge f then [ft_badge f] else []) @ ft_groups f"

definition ft_fit :: "footer \<Rightarrow> segment list \<times> segment list" where
  "ft_fit f =
     (let sepW = displayWidth (separatorText (ft_separator f)); left = leftSegments f in
      if 0 < ft_width f then
        let right = fst (fitSegments (ft_right f) (ft_width f) sepW);
          budget = ft_width f - groupWidth right sepW - (if left \<noteq> [] \<and> right \<noteq> [] then sepW else 0)
        in (fst (fitSegments left budget sepW), right)
      else (left, ft_right f))"

definition ft_line :: "footer \<Rightarrow> ustr" where
  "ft_line f =
     (let sep = separatorText (ft_separator f) in
      case ft_fit f of (left, right) \<Rightarrow>
        let leftText = join_with sep (segmentTexts left); rightText = join_with sep (segmentTexts right) in
        if ft_width f \<le> 0 then (if leftText \<noteq> [] \<and> rightText \<noteq> [] then leftText @ sep @ rightText else leftText @ rightText)
        else
          let pad = ft_width f - displayWidth leftText - displayWidth rightText
          in leftText @ replicate (nat (if pad < 0 then 0 else pad)) 32 @ rightText)"

definition ft_build :: "footer \<Rightarrow> box" where
  "ft_build f =
     (let sep = separatorText (ft_separator f);
        sepStyle = str_or (ft_sepStyle f) DEFAULT_SEP_STYLE;
        sepW = displayWidth sep in
      case ft_fit f of (left, right) \<Rightarrow>
        let used = groupWidth left sepW + groupWidth right sepW + (if left \<noteq> [] \<and> right \<noteq> [] then sepW else 0)
        in n_child (appendGroup left sepStyle sep @
             (if left \<noteq> [] \<and> right \<noteq> [] then [n_style sepStyle (text_node sep)] else []) @
             pad_node (ft_width f - used) @
             appendGroup right sepStyle sep)
           (applyId (n_height 1 (row_node [])) (ft_id f)))"

record pickerRow =
  pr_text :: ustr
  pr_id :: ustr
  pr_style :: ustr
  pr_selected :: bool
  pr_selectable :: bool

record picker =
  pk_id :: ustr
  pk_title :: ustr
  pk_width :: int
  pk_height :: int
  pk_rows :: "pickerRow list"
  pk_style :: ustr
  pk_marker :: ustr
  pk_selectedStyle :: ustr

definition picker_row :: "picker \<Rightarrow> pickerRow \<Rightarrow> frameRow" where
  "picker_row p r =
     \<lparr>fr_text = (if pr_selected r then str_or (pk_marker p) [0x25b8, 32] else [32, 32]) @ pr_text r,
      fr_style = (if pr_selected r \<and> pk_selectedStyle p \<noteq> [] then pk_selectedStyle p else pr_style r),
      fr_id = pr_id r, fr_input = (if pr_id r \<noteq> [] then [asc ''mouse''] else [])\<rparr>"

definition picker_frame :: "picker \<Rightarrow> frame" where
  "picker_frame p =
     \<lparr>frm_id = pk_id p, frm_title = pk_title p, frm_width = (if 0 < pk_width p then pk_width p else 40),
      frm_height = (if 0 < pk_height p then pk_height p else int (length (pk_rows p)) + 2), frm_style = pk_style p,
      frm_rows = map (picker_row p) (pk_rows p), frm_fillStyle = []\<rparr>"

definition picker_build :: "picker \<Rightarrow> box" where
  "picker_build p = frame_build (picker_frame p)"

record floatingLayer =
  fl_id :: ustr
  fl_title :: ustr
  fl_x :: int
  fl_y :: int
  fl_width :: int
  fl_height :: int
  fl_style :: ustr
  fl_rows :: "frameRow list"
  fl_collapsed :: bool

definition fl_build :: "floatingLayer \<Rightarrow> box" where
  "fl_build l = n_pos (fl_x l) (fl_y l) (frame_build
     \<lparr>frm_id = fl_id l, frm_title = fl_title l, frm_width = fl_width l, frm_height = (if fl_collapsed l then 1 else fl_height l),
      frm_style = fl_style l, frm_rows = fl_rows l, frm_fillStyle = []\<rparr>)"

record toast =
  to_id :: ustr
  to_text :: ustr
  to_style :: ustr

definition toast_build :: "toast \<Rightarrow> box" where
  "toast_build t = applyStyle (applyId (text_node (to_text t)) (to_id t)) (to_style t)"

section \<open>Dividing cells\<close>

lemma add_last_props:
  assumes "xs \<noteq> []"
  shows "sum_list (add_last d xs) = sum_list xs + d" and "length (add_last d xs) = length xs"
    and "butlast (add_last d xs) = butlast xs"
proof -
  have "sum_list (butlast xs @ [last xs]) = sum_list xs" using assms by simp
  then show "sum_list (add_last d xs) = sum_list xs + d" by (simp add: add_last_def)
  show "length (add_last d xs) = length xs" "butlast (add_last d xs) = butlast xs" using assms by (simp_all add: add_last_def)
qed

lemma last_at_least_1_props:
  assumes "xs \<noteq> []"
  shows "butlast (last_at_least_1 xs) = butlast xs" and "last (last_at_least_1 xs) = max 1 (last xs)"
    and "length (last_at_least_1 xs) = length xs" and "last_at_least_1 xs \<noteq> []"
  using assms by (simp_all add: last_at_least_1_def)

lemma sum_butlast_last: "xs \<noteq> [] \<Longrightarrow> sum_list xs = sum_list (butlast xs) + (last xs :: int)"
  by (metis add.right_neutral append_butlast_last_id sum_list.Cons sum_list.Nil sum_list_append)

text \<open>The sizes before the last one is adjusted.\<close>

definition shares :: "int \<Rightarrow> int list \<Rightarrow> int list" where
  "shares avail ratios =
     (let tot = sum_list (filter (\<lambda>r. 0 < r) ratios)
      in if tot \<le> 0 then replicate (length ratios) 1 else map (\<lambda>r. at_least_1 (avail * r div tot)) ratios)"

lemma shares_props: "length (shares a rs) = length rs" "\<forall>x\<in>set (shares a rs). 1 \<le> x"
  by (auto simp: shares_def Let_def at_least_1_def)

lemma distribute_shares:
  fixes avail :: int
  assumes "ratios \<noteq> []"
  defines "n \<equiv> max avail (int (length ratios))"
  shows "butlast (distribute avail ratios) = butlast (shares n ratios)"
    and "sum_list (distribute avail ratios) = max n (sum_list (butlast (shares n ratios)) + 1)"
    and "length (distribute avail ratios) = length ratios"
proof -
  let ?o = "shares n ratios"
  have ne: "?o \<noteq> []" using shares_props(1) [of n ratios] assms(1) by auto
  have n: "(if avail < int (length ratios) then int (length ratios) else avail) = n" by (simp add: n_def)
  have d: "distribute avail ratios = last_at_least_1 (add_last (n - sum_list ?o) ?o)"
    using assms(1) unfolding distribute_def n by (simp add: shares_def Let_def)
  have ane: "add_last (n - sum_list ?o) ?o \<noteq> []" by (simp add: add_last_def)
  note a = add_last_props [OF ne, of "n - sum_list ?o"] and l = last_at_least_1_props [OF ane]
  show "butlast (distribute avail ratios) = butlast ?o" unfolding d l(1) a(3) ..
  show "length (distribute avail ratios) = length ratios" unfolding d l(3) a(2) by (rule shares_props)
  have "last (add_last (n - sum_list ?o) ?o) = n - sum_list (butlast ?o)"
    using sum_butlast_last [OF ane] a(1,3) by simp
  then show "sum_list (distribute avail ratios) = max n (sum_list (butlast ?o) + 1)"
    unfolding d using sum_butlast_last [OF l(4)] by (simp add: l(1,2) a(3))
qed

lemma distribute_positive: "\<forall>x\<in>set (distribute avail ratios). 1 \<le> x"
proof (cases "ratios = []")
  case True
  then show ?thesis by (simp add: distribute_def)
next
  case False
  let ?n = "max avail (int (length ratios))" and ?d = "distribute avail ratios"
  have ne: "?d \<noteq> []" using distribute_shares(3) [OF False, of avail] False by auto
  have "\<forall>x\<in>set (butlast ?d). 1 \<le> x"
    unfolding distribute_shares(1) [OF False] using shares_props(2) by (auto dest: in_set_butlastD)
  moreover have "1 \<le> last ?d"
    using sum_butlast_last [OF ne] distribute_shares(1,2) [OF False, of avail] by simp
  moreover have "set ?d = insert (last ?d) (set (butlast ?d))"
    using ne by (metis append_butlast_last_id list.set(1) list.simps(15) set_append Un_insert_right sup_bot_right)
  ultimately show ?thesis by simp
qed

text \<open>Cells are lost when the last share cannot absorb what the minimum of one cell added elsewhere.\<close>

lemma distribute_overflows: "distribute 3 [1000, 1, 1] = [2, 1, 1] \<and> 3 < sum_list (distribute 3 [1000, 1, 1])"
  by (simp add: distribute_def Let_def add_last_def last_at_least_1_def at_least_1_def)

section \<open>Split layouts\<close>

text \<open>Where the \<open>i\<close>-th pane starts.\<close>

definition offset :: "int \<Rightarrow> int list \<Rightarrow> nat \<Rightarrow> int" where
  "offset gap szs i = sum_list (take i szs) + int i * gap"

lemma offset_Suc: "offset gap (sz # szs) (Suc i) = sz + gap + offset gap szs i"
  by (simp add: offset_def algebra_simps)

lemma place_spec:
  "place mk gap p szs =
    (map (\<lambda>i. mk (p + offset gap szs i) (szs ! i)) [0..<length szs],
     map (\<lambda>i. mk (p + offset gap szs i + szs ! i) gap) [0..<length szs - 1])"
proof (induction mk gap p szs rule: place.induct)
  case (3 mk gap p sz t szs)
  have up: "[0..<Suc n] = 0 # map Suc [0..<n]" for n by (simp add: upt_conv_Cons map_Suc_upt del: upt_Suc)
  show ?case
    unfolding place.simps 3 length_Cons diff_Suc_1 up prod.case
    by (simp add: offset_Suc offset_def [of gap "_ # _" 0] add_ac comp_def del: upt_Suc)
qed (simp_all add: offset_def)

definition split_weights :: "splitLayout \<Rightarrow> int list" where
  "split_weights s = (if sl_weights s = [] then [1] else sl_weights s)"

definition split_avail :: "splitLayout \<Rightarrow> int \<Rightarrow> int \<Rightarrow> int" where
  "split_avail s width height = (if axis_col s then height else width) - (int (length (split_weights s)) - 1) * gapWidth s"

definition split_rect :: "splitLayout \<Rightarrow> int \<Rightarrow> int \<Rightarrow> int \<Rightarrow> int \<Rightarrow> rect" where
  "split_rect s width height p sz =
     (if axis_col s then \<lparr>rc_x = 0, rc_y = p, rc_w = width, rc_h = sz\<rparr> else \<lparr>rc_x = p, rc_y = 0, rc_w = sz, rc_h = height\<rparr>)"

lemma rects_place: "rects s width height = place (split_rect s width height) (gapWidth s) 0 (distribute (split_avail s width height) (split_weights s))"
proof -
  have "split_rect s width height = (if axis_col s then (\<lambda>p sz. \<lparr>rc_x = 0, rc_y = p, rc_w = width, rc_h = sz\<rparr>)
      else (\<lambda>p sz. \<lparr>rc_x = p, rc_y = 0, rc_w = sz, rc_h = height\<rparr>))"
    by (simp add: split_rect_def fun_eq_iff)
  then show ?thesis by (simp add: rects_def split_avail_def split_weights_def Let_def)
qed

text \<open>
  C33: the panes and dividers of a split layout tile their axis. There is one pane per weight, each at
  least one cell, one divider of the gap's width between neighbours, and each starts where the one
  before ends, the first at 0. Every pane but the last has its share of the cells, rounded down but at
  least one, and the last gets the rest: together they fill the available cells exactly, unless the
  panes before the last leave it less than one cell, in which case they need one cell more than those.
\<close>

theorem split_panes_tile:
  "let szs = distribute (split_avail s width height) (split_weights s);
     n = length (split_weights s);
     a = max (split_avail s width height) (int n) in
   rects s width height =
     (map (\<lambda>i. split_rect s width height (offset (gapWidth s) szs i) (szs ! i)) [0..<n],
      map (\<lambda>i. split_rect s width height (offset (gapWidth s) szs i + szs ! i) (gapWidth s)) [0..<n - 1]) \<and>
   length szs = n \<and> list_all (\<lambda>x. 1 \<le> x) szs \<and> 0 < gapWidth s \<and>
   butlast szs = butlast (shares a (split_weights s)) \<and>
   sum_list szs = max a (sum_list (butlast szs) + 1)"
proof -
  have ne: "split_weights s \<noteq> []" by (simp add: split_weights_def)
  note d = distribute_shares [OF ne, of "split_avail s width height"]
  show ?thesis
    unfolding Let_def rects_place place_spec d(3)
    using distribute_positive [of "split_avail s width height" "split_weights s"] d
    by (simp add: gapWidth_def list_all_iff)
qed

section \<open>Bars\<close>

lemma ft_fit_width:
  assumes "0 < ft_width f" and "ft_fit f = (left, right)"
  defines "sepW \<equiv> displayWidth (separatorText (ft_separator f))"
  shows "groupWidth left sepW + groupWidth right sepW + (if left \<noteq> [] \<and> right \<noteq> [] then sepW else 0) \<le> ft_width f"
proof -
  have right: "right = fst (fitSegments (ft_right f) (ft_width f) sepW)"
    using assms by (auto simp: ft_fit_def Let_def)
  then have r: "groupWidth right sepW \<le> ft_width f" using fitSegments_width [of "ft_right f" "ft_width f" sepW] assms(1) by simp
  let ?b = "ft_width f - groupWidth right sepW - (if leftSegments f \<noteq> [] \<and> right \<noteq> [] then sepW else 0)"
  have left: "left = fst (fitSegments (leftSegments f) ?b sepW)"
    using assms(1,2) right by (auto simp: ft_fit_def Let_def sepW_def)
  show ?thesis
  proof (cases "left = []")
    case True
    with r show ?thesis by simp
  next
    case False
    then have ne: "leftSegments f \<noteq> []" using left by auto
    have "0 < ?b" using False left by (auto simp: fitSegments_def split: if_splits)
    then have "groupWidth left sepW \<le> ?b" using fitSegments_width [of "leftSegments f" ?b sepW] left by simp
    then show ?thesis using False ne by (auto split: if_splits)
  qed
qed

text \<open>
  a status bar and a footer that have a width fill exactly that width, whatever their segments:
  the right group is cut first, the left one gets what is left beside a separator, a single segment
  that is too long is truncated, and the rest is blank. The footer's plain line has the same width.
\<close>

theorem bars_exact:
  assumes "0 < stb_width b" and "0 < ft_width f"
  shows "displayWidth (row_text (stb_build b)) = stb_width b \<and>
    displayWidth (row_text (ft_build f)) = ft_width f \<and> displayWidth (ft_line f) = ft_width f"
proof -
  obtain left right where lr: "ft_fit f = (left, right)" by (cases "ft_fit f")
  let ?w = "displayWidth (separatorText (ft_separator f))"
  have "groupWidth left ?w + groupWidth right ?w \<le> groupWidth left ?w + groupWidth right ?w + (if left \<noteq> [] \<and> right \<noteq> [] then ?w else 0)"
    by simp
  then have fit: "groupWidth left ?w + groupWidth right ?w \<le> ft_width f"
    using ft_fit_width [OF assms(2) lr] by (rule order_trans)
  have "displayWidth (ft_line f) = ft_width f"
    using fit assms(2) by (simp add: ft_line_def lr Let_def displayWidth_join)
  then show ?thesis
    using ft_fit_width [OF assms(2) lr] stb_build_width [of b] assms(1) by (simp add: row_text_width ft_build_def lr Let_def)
qed

definition sample_segment :: segment where
  "sample_segment = \<lparr>seg_text = asc ''branch: main'', seg_style = [], seg_id = [], seg_input = []\<rparr>"

definition sample_footer :: footer where
  "sample_footer = \<lparr>ft_id = [], ft_badge = sample_segment, ft_hasBadge = True, ft_groups = [sample_segment, sample_segment],
     ft_right = [sample_segment], ft_width = 20, ft_separator = [], ft_sepStyle = []\<rparr>"

definition sample_status :: statusBar where
  "sample_status = \<lparr>stb_id = [], stb_left = [sample_segment], stb_right = [sample_segment], stb_width = 30, stb_separator = [], stb_sepStyle = []\<rparr>"

theorem bars_exact_witness: "displayWidth (row_text (stb_build sample_status)) = 30 \<and>
    displayWidth (row_text (ft_build sample_footer)) = 20 \<and> displayWidth (ft_line sample_footer) = 20"
  using bars_exact [of sample_status sample_footer] by (simp add: sample_footer_def sample_status_def)

text \<open>The text of a node and of everything below it.\<close>

fun tree_text :: "box \<Rightarrow> ustr" where
  "tree_text (Box ks a cs) = own_text (Box ks a []) @ concat (map tree_text cs)"

lemma tree_text_eq: "tree_text b = own_text b @ concat (map tree_text (children b))"
  by (cases b) (simp add: own_text_def)

lemma tree_text_leaf [simp]: "children b = [] \<Longrightarrow> tree_text b = own_text b"
  by (simp add: tree_text_eq)

lemma indexOf_split: "indexOf h s = Some i \<Longrightarrow> \<exists>pre post. s = pre @ h @ post \<and> length pre = i"
proof (induction s arbitrary: i)
  case Nil
  then show ?case by (auto split: if_splits)
next
  case (Cons c s)
  show ?case
  proof (cases "prefix h (c # s)")
    case True
    with Cons.prems show ?thesis by (auto simp: prefix_def)
  next
    case False
    with Cons.prems obtain k where k: "indexOf h s = Some k" "i = Suc k" by auto
    then obtain pre post where "s = pre @ h @ post" "length pre = k" using Cons.IH by blast
    with k have "c # s = (c # pre) @ h @ post \<and> length (c # pre) = i" by simp
    then show ?thesis by blast
  qed
qed

text \<open>A button shows its text, with or without a hot part.\<close>

lemma tree_text_button [simp]: "tree_text (btn_build b) = btn_text b"
proof (cases "if btn_hot b \<noteq> [] then indexOf (btn_hot b) (btn_text b) else None")
  case None
  then show ?thesis by (simp add: btn_build_def Let_def plainBox_def)
next
  case (Some i)
  then have "indexOf (btn_hot b) (btn_text b) = Some i" by (simp split: if_splits)
  then obtain pre post where s: "btn_text b = pre @ btn_hot b @ post" "length pre = i" using indexOf_split by blast
  with Some show ?thesis by (auto simp: btn_build_def Let_def tree_text_eq [of "n_child _ _"] s split: if_splits)
qed

lemma tree_width_buttons: "displayWidth (concat (map tree_text (button_nodes bs))) = displayWidth (join_with [32] (map btn_line bs))"
  by (induction bs rule: button_nodes.induct) (simp_all add: btn_line_def)

lemma tree_text_group: "concat (map tree_text (appendGroup ss st sep)) = concat (map own_text (appendGroup ss st sep))"
proof -
  have leaf: "children (segmentBox s st') = []" for s st' by (simp add: segmentBox_def)
  have tail: "map tree_text (group_tail ts st sep) = map own_text (group_tail ts st sep)" for ts
    by (induction ts) (simp_all add: leaf)
  show ?thesis by (cases ss) (simp_all add: leaf tail)
qed

lemma groupWidth_segments: "ss \<noteq> [] \<Longrightarrow> groupWidth ss w = segmentsWidth ss + (int (length ss) - 1) * w"
proof (induction ss w rule: groupWidth.induct)
  case (3 s t ss w)
  then show ?case by (simp add: segmentsWidth_def algebra_simps)
qed (simp_all add: segmentsWidth_def)

lemma separator_width [simp]: "displayWidth DEFAULT_SEPARATOR = 1"
  by (simp add: DEFAULT_SEPARATOR_def)

text \<open>
  a title bar with a width is one cell too wide for every separator between its left segments:
  the padding is computed from the segments alone, although separators are drawn between them and
  were counted when the segments were fitted.
\<close>

theorem titleBar_too_wide:
  assumes "0 < tbar_width t" and "displayWidth (tbar_right t) < tbar_width t" and "tbar_fitted t \<noteq> []"
  shows "displayWidth (tree_text (tbar_build t)) = tbar_width t + (int (length (tbar_fitted t)) - 1)"
proof -
  let ?l = "tbar_fitted t" and ?r = "displayWidth (tbar_right t)"
  have "groupWidth ?l 1 \<le> tbar_width t - ?r"
    using fitSegments_width [of "tbar_left t" "tbar_width t - ?r" 1] assms(1,2) by (simp add: tbar_fitted_def)
  then have fit: "segmentsWidth ?l + (int (length ?l) - 1) \<le> tbar_width t - ?r"
    using groupWidth_segments [OF assms(3), of 1] by simp
  have len: "1 \<le> int (length ?l)" using assms(3) by (cases ?l) simp_all
  have group: "displayWidth (concat (map tree_text (appendGroup ?l st DEFAULT_SEPARATOR))) = segmentsWidth ?l + (int (length ?l) - 1)" for st
    unfolding tree_text_group using texts_width_appendGroup [of ?l st DEFAULT_SEPARATOR] groupWidth_segments [OF assms(3), of 1]
    by (simp add: texts_width_def)
  have pad: "displayWidth (concat (map tree_text (pad_node n))) = max 0 n" for n by (simp add: pad_node_def)
  have "own_text (applyId (n_height 1 (row_node [])) (tbar_id t)) = []" by simp
  then have "displayWidth (tree_text (tbar_build t)) =
      segmentsWidth ?l + (int (length ?l) - 1) + max 0 (tbar_width t - segmentsWidth ?l - ?r) + ?r"
    using assms(1) by (simp add: tbar_build_def Let_def tree_text_eq [of "n_child _ _"] group pad tree_width_buttons tbar_right_def)
  then show ?thesis using fit len by simp
qed

definition sample_title :: titleBar where
  "sample_title = \<lparr>tbar_id = [], tbar_left =
     [\<lparr>seg_text = asc ''a'', seg_style = [], seg_id = [], seg_input = []\<rparr>, \<lparr>seg_text = asc ''b'', seg_style = [], seg_id = [], seg_input = []\<rparr>],
     tbar_buttons = [], tbar_width = 10, tbar_fill = []\<rparr>"

theorem titleBar_too_wide_witness: "displayWidth (tree_text (tbar_build sample_title)) = 11"
proof -
  have a: "0 < tbar_width sample_title" "displayWidth (tbar_right sample_title) < tbar_width sample_title"
    by (simp_all add: sample_title_def tbar_right_def)
  have "tbar_fitted sample_title = tbar_left sample_title"
    unfolding tbar_fitted_def using a by (simp add: fitSegments_all sample_title_def tbar_right_def cellWidth_def isWide_def)
  then have "tbar_fitted sample_title \<noteq> []" "length (tbar_fitted sample_title) = 2" by (simp_all add: sample_title_def)
  with titleBar_too_wide [OF a] show ?thesis by (simp add: sample_title_def)
qed

end
