(* ===== verification/JsNumber.thy ===== *)
theory JsNumber
  imports Complex_Main Prelude
begin

text \<open>
  JavaScript numbers where a source can be handed any of them: not a number, the infinities and
  the finite ones, which are rationals. Only what needs no rounding is defined here:
  \<open>Number.isFinite\<close>, \<open>Math.min\<close> and \<open>Math.max\<close>, and the order that a comparator
  \<open>(left, right) => left - right\<close> gives to finite numbers (a difference of doubles is rounded, but
  its sign is exact).
\<close>

datatype js_number = NaN | PosInf | NegInf | Finite rat

definition isFinite :: "js_number \<Rightarrow> bool" where
  "isFinite x = (case x of Finite q \<Rightarrow> True | _ \<Rightarrow> False)"

fun js_min :: "js_number \<Rightarrow> js_number \<Rightarrow> js_number" where
  "js_min NaN y = NaN"
| "js_min x NaN = NaN"
| "js_min NegInf y = NegInf"
| "js_min x NegInf = NegInf"
| "js_min PosInf y = y"
| "js_min x PosInf = x"
| "js_min (Finite p) (Finite q) = Finite (min p q)"

fun js_max :: "js_number \<Rightarrow> js_number \<Rightarrow> js_number" where
  "js_max NaN y = NaN"
| "js_max x NaN = NaN"
| "js_max PosInf y = PosInf"
| "js_max x PosInf = PosInf"
| "js_max NegInf y = y"
| "js_max x NegInf = x"
| "js_max (Finite p) (Finite q) = Finite (max p q)"

text \<open>Whether \<open>left - right\<close> is at most 0.\<close>

fun js_le :: "js_number \<Rightarrow> js_number \<Rightarrow> bool" where
  "js_le (Finite p) (Finite q) = (p \<le> q)"
| "js_le x y = False"

definition in_range :: "rat \<Rightarrow> rat \<Rightarrow> js_number \<Rightarrow> bool" where
  "in_range lo hi x = (case x of Finite q \<Rightarrow> lo \<le> q \<and> q \<le> hi | NaN \<Rightarrow> True | _ \<Rightarrow> False)"

lemma in_range_clamp: "lo \<le> hi \<Longrightarrow> in_range lo hi (js_max (Finite lo) (js_min (Finite hi) x))"
  by (cases x) (auto simp: in_range_def)

lemma isFinite_cases: "isFinite x \<longleftrightarrow> (\<exists>q. x = Finite q)"
  by (cases x) (auto simp: isFinite_def)

lemma js_le_total: "isFinite x \<Longrightarrow> isFinite y \<Longrightarrow> \<not> js_le x y \<Longrightarrow> js_le y x"
  by (auto simp: isFinite_cases)

lemma js_le_trans: "js_le x y \<Longrightarrow> js_le y z \<Longrightarrow> js_le x z"
  by (cases x; cases y; cases z) auto

end
