(* ===== verification/SplitPanes.thy ===== *)
theory SplitPanes
  imports JsNumber
begin

text \<open>
  The split layout of the web terminals: the pane tree of \<open>clients/ui/src/app/terminalSplitLayout.ts\<close>
  and the tabs of \<open>clients/ui/src/app/webTerminalTabs.ts\<close>. A pane key is \<open>'primary'\<close> or
  \<open>'terminal:' + id\<close>, which is a datatype here. The sources return the object they were given
  when nothing changed; as values, which is all a caller can compare after the update, the
  branches are the same, and the model keeps them with equality in place of identity.
\<close>

section \<open>Definitions\<close>

datatype paneKey = Primary | TerminalKey ustr
datatype splitDirection = Columns | Rows
datatype splitPlacement = Before | After

datatype splitNode =
  Pane paneKey
| Split ustr splitDirection js_number splitNode splitNode

definition PRIMARY_TERMINAL_PANE :: splitNode where
  "PRIMARY_TERMINAL_PANE = Pane Primary"

definition terminalPaneKey :: "ustr \<Rightarrow> paneKey" where
  "terminalPaneKey terminalId = TerminalKey terminalId"

definition terminalIdForPane :: "paneKey \<Rightarrow> ustr option \<Rightarrow> ustr option" where
  "terminalIdForPane paneKey primaryTerminalId =
     (case paneKey of Primary \<Rightarrow> primaryTerminalId | TerminalKey i \<Rightarrow> Some i)"

fun terminalPaneKeys :: "splitNode \<Rightarrow> paneKey list" where
  "terminalPaneKeys (Pane k) = [k]"
| "terminalPaneKeys (Split i d r first second) = terminalPaneKeys first @ terminalPaneKeys second"

fun removeTerminalPane :: "splitNode \<Rightarrow> paneKey \<Rightarrow> splitNode option" where
  "removeTerminalPane (Pane k) paneKey = (if paneKey = Primary then Some (Pane k) else if k = paneKey then None else Some (Pane k))"
| "removeTerminalPane (Split i d r first second) paneKey =
     (if paneKey = Primary then Some (Split i d r first second)
      else case removeTerminalPane first paneKey of
        None \<Rightarrow> removeTerminalPane second paneKey
      | Some f \<Rightarrow>
          (case removeTerminalPane second paneKey of
             None \<Rightarrow> Some f
           | Some s \<Rightarrow> if f = first \<and> s = second then Some (Split i d r first second) else Some (Split i d r f s)))"

fun replaceTerminalPane :: "splitNode \<Rightarrow> paneKey \<Rightarrow> splitNode \<Rightarrow> splitNode" where
  "replaceTerminalPane (Pane k) paneKey replacement = (if k = paneKey then replacement else Pane k)"
| "replaceTerminalPane (Split i d r first second) paneKey replacement =
     (let f = replaceTerminalPane first paneKey replacement; s = replaceTerminalPane second paneKey replacement
      in if f = first \<and> s = second then Split i d r first second else Split i d r f s)"

definition or_primary :: "splitNode option \<Rightarrow> splitNode" where
  "or_primary t = (case t of None \<Rightarrow> PRIMARY_TERMINAL_PANE | Some n \<Rightarrow> n)"

definition splitTerminalPane ::
  "splitNode \<Rightarrow> paneKey \<Rightarrow> ustr \<Rightarrow> splitDirection \<Rightarrow> ustr \<Rightarrow> splitPlacement \<Rightarrow> splitNode" where
  "splitTerminalPane tree targetPaneKey terminalId direction splitId placement =
     (let newPaneKey = terminalPaneKey terminalId in
      if newPaneKey = targetPaneKey then tree
      else let withoutExisting = or_primary (removeTerminalPane tree newPaneKey) in
        if targetPaneKey \<notin> set (terminalPaneKeys withoutExisting) then tree
        else replaceTerminalPane withoutExisting targetPaneKey
          (Split splitId direction (Finite 50)
            (Pane (if placement = Before then newPaneKey else targetPaneKey))
            (Pane (if placement = Before then targetPaneKey else newPaneKey))))"

definition clampTerminalSplitRatio :: "js_number \<Rightarrow> js_number" where
  "clampTerminalSplitRatio value = js_max (Finite 20) (js_min (Finite 80) value)"

fun updateTerminalSplitRatio :: "splitNode \<Rightarrow> ustr \<Rightarrow> js_number \<Rightarrow> splitNode" where
  "updateTerminalSplitRatio (Pane k) splitId ratio = Pane k"
| "updateTerminalSplitRatio (Split i d r first second) splitId ratio =
     (if i = splitId then Split i d (clampTerminalSplitRatio ratio) first second
      else let f = updateTerminalSplitRatio first splitId ratio; s = updateTerminalSplitRatio second splitId ratio
        in if f = first \<and> s = second then Split i d r first second else Split i d r f s)"

record tabLayout =
  tab_terminalId :: ustr
  tab_root :: splitNode
  tab_activePaneKey :: paneKey

definition createWebTerminalTab :: "ustr \<Rightarrow> tabLayout" where
  "createWebTerminalTab terminalId =
     \<lparr>tab_terminalId = terminalId, tab_root = PRIMARY_TERMINAL_PANE, tab_activePaneKey = Primary\<rparr>"

definition webTerminalTabPaneKey :: "tabLayout \<Rightarrow> ustr \<Rightarrow> paneKey option" where
  "webTerminalTabPaneKey tab terminalId =
     (if tab_terminalId tab = terminalId then Some Primary
      else let paneKey = terminalPaneKey terminalId
        in if paneKey \<in> set (terminalPaneKeys (tab_root tab)) then Some paneKey else None)"

fun findWebTerminalTab :: "tabLayout list \<Rightarrow> ustr \<Rightarrow> (tabLayout \<times> paneKey) option" where
  "findWebTerminalTab [] terminalId = None"
| "findWebTerminalTab (tab # tabs) terminalId =
     (case webTerminalTabPaneKey tab terminalId of
        Some paneKey \<Rightarrow> Some (tab, paneKey)
      | None \<Rightarrow> findWebTerminalTab tabs terminalId)"

definition updateWebTerminalTab :: "tabLayout list \<Rightarrow> ustr \<Rightarrow> splitNode \<Rightarrow> paneKey \<Rightarrow> tabLayout list" where
  "updateWebTerminalTab tabs terminalId tree activePaneKey =
     map (\<lambda>tab. if tab_terminalId tab \<noteq> terminalId \<or> tab_root tab = tree \<and> tab_activePaneKey tab = activePaneKey
        then tab else tab\<lparr>tab_root := tree, tab_activePaneKey := activePaneKey\<rparr>) tabs"

text \<open>The body of the \<open>reduce\<close> of \<open>sanitizeWebTerminalTabs\<close>, and the \<open>flatMap\<close> around it.\<close>

definition drop_unavailable :: "ustr set \<Rightarrow> splitNode \<Rightarrow> paneKey \<Rightarrow> splitNode" where
  "drop_unavailable available current paneKey =
     (case paneKey of
        Primary \<Rightarrow> current
      | TerminalKey terminalId \<Rightarrow>
          if terminalId \<in> available then current else or_primary (removeTerminalPane current paneKey))"

definition sanitizeTab :: "ustr set \<Rightarrow> tabLayout \<Rightarrow> tabLayout list" where
  "sanitizeTab available tab =
     (if tab_terminalId tab \<notin> available then []
      else let tree = foldl (drop_unavailable available) (tab_root tab) (terminalPaneKeys (tab_root tab));
          activePaneKey = (if tab_activePaneKey tab \<in> set (terminalPaneKeys tree) then tab_activePaneKey tab else Primary)
        in if tree = tab_root tab \<and> activePaneKey = tab_activePaneKey tab then [tab]
           else [tab\<lparr>tab_root := tree, tab_activePaneKey := activePaneKey\<rparr>])"

definition sanitizeWebTerminalTabs :: "tabLayout list \<Rightarrow> ustr set \<Rightarrow> tabLayout list" where
  "sanitizeWebTerminalTabs tabs available = concat (map (sanitizeTab available) tabs)"

section \<open>Panes\<close>

lemma remove_keys:
  assumes "k \<noteq> Primary"
  shows "case removeTerminalPane t k of
      None \<Rightarrow> filter (\<lambda>x. x \<noteq> k) (terminalPaneKeys t) = []
    | Some n \<Rightarrow> terminalPaneKeys n = filter (\<lambda>x. x \<noteq> k) (terminalPaneKeys t)"
  using assms
proof (induction t)
  case (Split i d r f s)
  then show ?case
    by (cases "removeTerminalPane f k"; cases "removeTerminalPane s k") (auto split: if_splits)
qed simp

lemma remove_Some:
  assumes "k \<noteq> Primary" and "Primary \<in> set (terminalPaneKeys t)"
  obtains n where "removeTerminalPane t k = Some n"
    and "terminalPaneKeys n = filter (\<lambda>x. x \<noteq> k) (terminalPaneKeys t)"
  using remove_keys [OF assms(1), of t] assms by (cases "removeTerminalPane t k") (auto simp: filter_empty_conv)

lemma or_primary_keys:
  "k \<noteq> Primary \<Longrightarrow> Primary \<in> set (terminalPaneKeys t) \<Longrightarrow>
    terminalPaneKeys (or_primary (removeTerminalPane t k)) = filter (\<lambda>x. x \<noteq> k) (terminalPaneKeys t)"
  by (erule (1) remove_Some) (simp add: or_primary_def)

lemma replace_keys:
  "terminalPaneKeys (replaceTerminalPane t k n) =
    concat (map (\<lambda>x. if x = k then terminalPaneKeys n else [x]) (terminalPaneKeys t))"
  by (induction t) (auto simp: Let_def)

lemma ratio_keys [simp]: "terminalPaneKeys (updateTerminalSplitRatio t i r) = terminalPaneKeys t"
  by (induction t) (auto simp: Let_def)

text \<open>The panes next to the target once the new one is there.\<close>

definition beside :: "splitPlacement \<Rightarrow> paneKey \<Rightarrow> paneKey \<Rightarrow> paneKey list" where
  "beside placement target new = (if placement = Before then [new, target] else [target, new])"

lemma split_keys:
  assumes "Primary \<in> set (terminalPaneKeys t)"
  shows "terminalPaneKeys (splitTerminalPane t k i d sid p) =
    (if k = TerminalKey i \<or> k \<notin> set (terminalPaneKeys t) then terminalPaneKeys t
     else concat (map (\<lambda>x. if x = k then beside p k (TerminalKey i) else [x])
        (filter (\<lambda>x. x \<noteq> TerminalKey i) (terminalPaneKeys t))))"
proof -
  let ?w = "or_primary (removeTerminalPane t (TerminalKey i))"
  have w: "terminalPaneKeys ?w = filter (\<lambda>x. x \<noteq> TerminalKey i) (terminalPaneKeys t)"
    using or_primary_keys [OF _ assms] by simp
  show ?thesis
    by (auto simp: splitTerminalPane_def terminalPaneKey_def Let_def w replace_keys beside_def cong: if_cong)
qed

lemma mset_beside:
  assumes "distinct ks" and "k \<in> set ks" and "n \<notin> set ks"
  shows "mset (concat (map (\<lambda>x. if x = k then beside p k n else [x]) ks)) = add_mset n (mset ks)"
  using assms
proof (induction ks)
  case (Cons y ys)
  show ?case
  proof (cases "y = k")
    case True
    with Cons.prems have "k \<notin> set ys" by simp
    then have "concat (map (\<lambda>x. if x = k then beside p k n else [x]) ys) = ys" by (induction ys) auto
    with True show ?thesis by (simp add: beside_def add_mset_commute)
  next
    case False
    with Cons show ?thesis by (simp add: add_mset_commute)
  qed
qed simp

section \<open>Layouts\<close>

fun ratios :: "splitNode \<Rightarrow> js_number list" where
  "ratios (Pane k) = []"
| "ratios (Split i d r f s) = r # ratios f @ ratios s"

definition layout_ok :: "splitNode \<Rightarrow> bool" where
  "layout_ok t \<longleftrightarrow> distinct (terminalPaneKeys t) \<and> Primary \<in> set (terminalPaneKeys t) \<and> list_all (in_range 20 80) (ratios t)"

datatype layoutOp =
  DoSplit paneKey ustr splitDirection ustr splitPlacement
| DoRemove paneKey
| DoRatio ustr js_number

definition layoutStep :: "splitNode \<Rightarrow> layoutOp \<Rightarrow> splitNode" where
  "layoutStep t op =
     (case op of
        DoSplit k i d sid p \<Rightarrow> splitTerminalPane t k i d sid p
      | DoRemove k \<Rightarrow> or_primary (removeTerminalPane t k)
      | DoRatio sid r \<Rightarrow> updateTerminalSplitRatio t sid r)"

lemma ratios_remove:
  "list_all P (ratios t) \<Longrightarrow> removeTerminalPane t k = Some n \<Longrightarrow> list_all P (ratios n)"
proof (induction t arbitrary: n)
  case (Split i d r f s)
  have l: "P r" "list_all P (ratios f)" "list_all P (ratios s)" using Split.prems(1) by simp_all
  show ?case
  proof (cases "k = Primary \<or> n = Split i d r f s")
    case True
    with Split.prems show ?thesis by auto
  next
    case False
    with Split.prems(2) consider "removeTerminalPane f k = Some n" | "removeTerminalPane s k = Some n"
      | a b where "removeTerminalPane f k = Some a" "removeTerminalPane s k = Some b" "n = Split i d r a b"
      by (auto split: option.splits if_split_asm)
    then show ?thesis using Split.IH(1) [OF l(2)] Split.IH(2) [OF l(3)] l(1) by cases simp_all
  qed
qed (auto split: if_split_asm)

lemma ratios_or_primary:
  "list_all (in_range 20 80) (ratios t) \<Longrightarrow> list_all (in_range 20 80) (ratios (or_primary (removeTerminalPane t k)))"
  by (cases "removeTerminalPane t k") (auto simp: or_primary_def PRIMARY_TERMINAL_PANE_def ratios_remove)

lemma ratios_replace:
  "list_all (in_range 20 80) (ratios t) \<Longrightarrow> list_all (in_range 20 80) (ratios n) \<Longrightarrow>
    list_all (in_range 20 80) (ratios (replaceTerminalPane t k n))"
  by (induction t) (auto simp: Let_def)

lemma ratios_update:
  "list_all (in_range 20 80) (ratios t) \<Longrightarrow> list_all (in_range 20 80) (ratios (updateTerminalSplitRatio t i r))"
  by (induction t) (auto simp: Let_def clampTerminalSplitRatio_def in_range_clamp)

lemma ratios_split:
  "list_all (in_range 20 80) (ratios t) \<Longrightarrow> list_all (in_range 20 80) (ratios (splitTerminalPane t k i d sid p))"
  by (auto simp: splitTerminalPane_def Let_def ratios_replace ratios_or_primary in_range_def)

lemma layout_ok_split:
  assumes "layout_ok t"
  shows "layout_ok (splitTerminalPane t k i d sid p)"
proof (cases "k = TerminalKey i \<or> k \<notin> set (terminalPaneKeys t)")
  case True
  with assms show ?thesis by (simp add: layout_ok_def ratios_split split_keys)
next
  case False
  let ?ks = "filter (\<lambda>x. x \<noteq> TerminalKey i) (terminalPaneKeys t)"
  let ?c = "concat (map (\<lambda>x. if x = k then beside p k (TerminalKey i) else [x]) ?ks)"
  have "mset ?c = add_mset (TerminalKey i) (mset ?ks)"
    using assms False by (intro mset_beside) (auto simp: layout_ok_def)
  then have m: "mset ?c = mset (TerminalKey i # ?ks)" by simp
  have "distinct ?c"
    using assms mset_eq_imp_distinct_iff [OF m] by (simp add: layout_ok_def)
  moreover have "Primary \<in> set ?c"
    using assms mset_eq_setD [OF m] by (simp add: layout_ok_def)
  ultimately show ?thesis using assms False by (simp add: layout_ok_def split_keys ratios_split)
qed

lemma layout_ok_remove:
  assumes "layout_ok t"
  shows "layout_ok (or_primary (removeTerminalPane t k))"
proof (cases "k = Primary")
  case True
  then show ?thesis using assms by (cases t) (simp_all add: or_primary_def)
next
  case False
  with assms show ?thesis by (simp add: layout_ok_def or_primary_keys ratios_or_primary)
qed

lemma layout_ok_ratio: "layout_ok t \<Longrightarrow> layout_ok (updateTerminalSplitRatio t i r)"
  by (simp add: layout_ok_def ratios_update)

lemma layout_ok_step: "layout_ok t \<Longrightarrow> layout_ok (layoutStep t op)"
  by (cases op) (simp_all add: layoutStep_def layout_ok_split layout_ok_remove layout_ok_ratio)

interpretation tl: machine PRIMARY_TERMINAL_PANE layoutStep layout_ok
  by unfold_locales (simp add: layout_ok_def PRIMARY_TERMINAL_PANE_def, rule layout_ok_step)

text \<open>
  C16: after any sequence of splits, removals and divider moves, starting with the single primary
  pane, a layout shows every terminal at most once and the primary pane exactly once, and every
  divider stands between 20 and 80 percent unless it was moved to a value that is not a number.
  In such a layout a split puts the new pane next to its target, before or after it as asked, moves
  it there if it was shown already, and keeps the order of all other panes; it changes no pane when
  the target is the terminal itself or is not shown.
\<close>

theorem layout_sessions:
  "layout_ok (foldl layoutStep PRIMARY_TERMINAL_PANE ops) \<and>
   terminalPaneKeys (splitTerminalPane (foldl layoutStep PRIMARY_TERMINAL_PANE ops) k i d sid p) =
     (let ks = terminalPaneKeys (foldl layoutStep PRIMARY_TERMINAL_PANE ops) in
      if k \<noteq> TerminalKey i \<and> k \<in> set ks
      then concat (map (\<lambda>x. if x = k then beside p k (TerminalKey i) else [x]) (filter (\<lambda>x. x \<noteq> TerminalKey i) ks))
      else ks)"
proof -
  have ok: "layout_ok (foldl layoutStep PRIMARY_TERMINAL_PANE ops)" by (rule tl.inv_run)
  then have "Primary \<in> set (terminalPaneKeys (foldl layoutStep PRIMARY_TERMINAL_PANE ops))" by (simp add: layout_ok_def)
  from ok split_keys [OF this] show ?thesis unfolding Let_def by simp
qed

section \<open>Tabs\<close>

definition key_available :: "ustr set \<Rightarrow> paneKey \<Rightarrow> bool" where
  "key_available available k = (case k of Primary \<Rightarrow> True | TerminalKey i \<Rightarrow> i \<in> available)"

lemma drop_unavailable_keys:
  assumes "Primary \<in> set (terminalPaneKeys t)"
  shows "terminalPaneKeys (drop_unavailable A t k) =
    filter (\<lambda>x. key_available A x \<or> x \<noteq> k) (terminalPaneKeys t)"
proof (cases "key_available A k")
  case True
  then have "filter (\<lambda>x. key_available A x \<or> x \<noteq> k) (terminalPaneKeys t) = terminalPaneKeys t"
    by (intro filter_True) auto
  with True show ?thesis by (auto simp: drop_unavailable_def key_available_def split: paneKey.splits)
next
  case False
  then have "drop_unavailable A t k = or_primary (removeTerminalPane t k)" "k \<noteq> Primary"
    by (auto simp: drop_unavailable_def key_available_def split: paneKey.splits)
  moreover have "(key_available A x \<or> x \<noteq> k) = (x \<noteq> k)" for x using False by auto
  ultimately show ?thesis using or_primary_keys [OF _ assms] by simp
qed

lemma foldl_drop_keys:
  assumes "Primary \<in> set (terminalPaneKeys t)"
  shows "terminalPaneKeys (foldl (drop_unavailable A) t ks) =
    filter (\<lambda>x. key_available A x \<or> x \<notin> set ks) (terminalPaneKeys t)"
  using assms
proof (induction ks arbitrary: t)
  case (Cons k ks)
  let ?t = "drop_unavailable A t k"
  have "Primary \<in> set (terminalPaneKeys ?t)"
    using Cons.prems by (simp add: drop_unavailable_keys key_available_def)
  from Cons.IH [OF this] have "terminalPaneKeys (foldl (drop_unavailable A) t (k # ks)) =
      filter (\<lambda>x. (key_available A x \<or> x \<noteq> k) \<and> (key_available A x \<or> x \<notin> set ks)) (terminalPaneKeys t)"
    using Cons.prems by (simp add: drop_unavailable_keys)
  then show ?case by (auto intro: filter_cong)
qed simp

text \<open>What a sanitized tab is, in terms of its panes.\<close>

definition tab_sanitized :: "ustr set \<Rightarrow> tabLayout \<Rightarrow> tabLayout \<Rightarrow> bool" where
  "tab_sanitized A tab tab' \<longleftrightarrow>
     tab_terminalId tab' = tab_terminalId tab \<and>
     terminalPaneKeys (tab_root tab') = filter (key_available A) (terminalPaneKeys (tab_root tab)) \<and>
     tab_activePaneKey tab' =
       (if tab_activePaneKey tab \<in> set (terminalPaneKeys (tab_root tab')) then tab_activePaneKey tab else Primary)"

lemma sanitizeTab_spec:
  assumes "Primary \<in> set (terminalPaneKeys (tab_root tab))" and "tab_terminalId tab \<in> A"
  shows "\<exists>tab'. sanitizeTab A tab = [tab'] \<and> tab_sanitized A tab tab'"
proof -
  have "terminalPaneKeys (foldl (drop_unavailable A) (tab_root tab) (terminalPaneKeys (tab_root tab))) =
      filter (key_available A) (terminalPaneKeys (tab_root tab))"
    unfolding foldl_drop_keys [OF assms(1)] by (intro filter_cong) auto
  then show ?thesis using assms(2) by (auto simp: sanitizeTab_def tab_sanitized_def Let_def)
qed

text \<open>
  C32: when every tab shows its primary pane, sanitizing keeps exactly the tabs of available
  terminals, in order; in each of them it keeps exactly the panes of available terminals, in
  order, together with the primary pane, and the focus, which returns to the primary pane when its
  pane is gone. So no lookup finds an unavailable terminal afterwards.
\<close>

theorem tabs_sanitized:
  assumes "list_all (\<lambda>tab. Primary \<in> set (terminalPaneKeys (tab_root tab))) tabs"
  shows "list_all2 (tab_sanitized A) (filter (\<lambda>tab. tab_terminalId tab \<in> A) tabs) (sanitizeWebTerminalTabs tabs A) \<and>
    (findWebTerminalTab (sanitizeWebTerminalTabs tabs A) i \<noteq> None \<longrightarrow> i \<in> A)"
proof -
  have l: "list_all2 (tab_sanitized A) (filter (\<lambda>tab. tab_terminalId tab \<in> A) tabs) (sanitizeWebTerminalTabs tabs A)"
    using assms
  proof (induction tabs)
    case (Cons tab tabs)
    show ?case
    proof (cases "tab_terminalId tab \<in> A")
      case True
      then obtain tab' where "sanitizeTab A tab = [tab']" "tab_sanitized A tab tab'"
        using sanitizeTab_spec Cons.prems by auto
      with True Cons show ?thesis by (simp add: sanitizeWebTerminalTabs_def)
    next
      case False
      with Cons show ?thesis by (simp add: sanitizeWebTerminalTabs_def sanitizeTab_def)
    qed
  qed (simp add: sanitizeWebTerminalTabs_def)
  have "findWebTerminalTab tabs' i \<noteq> None \<longrightarrow> i \<in> A"
    if "list_all2 (tab_sanitized A) ts tabs'" "\<forall>t\<in>set ts. tab_terminalId t \<in> A" for ts tabs'
    using that
    by (induction rule: list_all2_induct)
      (auto simp: webTerminalTabPaneKey_def tab_sanitized_def terminalPaneKey_def key_available_def Let_def split: if_splits)
  from this [OF l] l show ?thesis by simp
qed

definition shell_tab :: tabLayout where
  "shell_tab = (createWebTerminalTab (asc ''shell''))\<lparr>tab_root :=
       splitTerminalPane PRIMARY_TERMINAL_PANE Primary (asc ''logs'') Rows (asc ''s1'') After,
       tab_activePaneKey := terminalPaneKey (asc ''logs'')\<rparr>"

theorem tabs_sanitized_witness:
  "list_all2 (tab_sanitized {asc ''shell''}) [shell_tab]
     (sanitizeWebTerminalTabs [shell_tab, createWebTerminalTab (asc ''server'')] {asc ''shell''})"
proof -
  have "list_all (\<lambda>tab. Primary \<in> set (terminalPaneKeys (tab_root tab))) [shell_tab, createWebTerminalTab (asc ''server'')]"
    by (simp add: shell_tab_def createWebTerminalTab_def splitTerminalPane_def terminalPaneKey_def
        PRIMARY_TERMINAL_PANE_def or_primary_def Let_def del: asc_simps)
  moreover have "filter (\<lambda>tab. tab_terminalId tab \<in> {asc ''shell''}) [shell_tab, createWebTerminalTab (asc ''server'')] = [shell_tab]"
    by (simp add: shell_tab_def createWebTerminalTab_def)
  ultimately show ?thesis using tabs_sanitized by metis
qed

end
