(* ===== verification/ObjectGraph.thy ===== *)
theory ObjectGraph
  imports JsNumber
begin

text \<open>
  JavaScript values as the boundary checks of the user interface see them: \<open>unknown\<close> values that
  may share objects and refer back to themselves. Objects live in a store and a value refers to
  one by its address. \<open>walk\<close> is the traversal that \<open>assertRemoteModelShape\<close> of
  \<open>clients/ui/src/core/model.ts\<close> and \<open>assertNoTransportImplementationLeak\<close> of
  \<open>clients/ui/src/connection/connectionMessageReducer.ts\<close> both contain: depth first, with the set of objects
  seen so far, throwing at the first blocked key. The recursion carries a bound on its depth;
  one more than the number of objects is always enough.
\<close>

section \<open>Definitions\<close>

datatype jsval = Undefined | Null | Bool bool | Num js_number | Str ustr | Opaque | Ref nat
datatype jsobj = Arr "jsval list" | Obj "(ustr \<times> jsval) list"
type_synonym jsheap = "jsobj list"

definition deref :: "jsheap \<Rightarrow> nat \<Rightarrow> jsobj" where
  "deref h a = (if a < length h then h ! a else Obj [])"

text \<open>\<open>for (const x of xs) body(x)\<close>, stopped by an exception (\<open>Inl\<close>) or an exhausted bound (\<open>None\<close>).\<close>

fun each :: "('x \<Rightarrow> 's \<Rightarrow> ('e + 's) option) \<Rightarrow> 'x list \<Rightarrow> 's \<Rightarrow> ('e + 's) option" where
  "each body [] s = Some (Inr s)"
| "each body (x # xs) s = (case body x s of Some (Inr s') \<Rightarrow> each body xs s' | r \<Rightarrow> r)"

definition entry_body ::
  "(ustr \<Rightarrow> bool) \<Rightarrow> (ustr \<Rightarrow> bool) \<Rightarrow> (jsval \<Rightarrow> 's \<Rightarrow> (ustr + 's) option) \<Rightarrow> ustr \<times> jsval \<Rightarrow> 's \<Rightarrow> (ustr + 's) option" where
  "entry_body skip blocked visit e s =
     (if skip (fst e) then Some (Inr s) else if blocked (fst e) then Some (Inl (fst e)) else visit (snd e) s)"

fun walk :: "nat \<Rightarrow> (ustr \<Rightarrow> bool) \<Rightarrow> (ustr \<Rightarrow> bool) \<Rightarrow> jsheap \<Rightarrow> jsval \<Rightarrow> nat set \<Rightarrow> (ustr + nat set) option" where
  "walk 0 skip blocked h current seen = None"
| "walk (Suc n) skip blocked h current seen =
     (case current of
        Ref a \<Rightarrow>
          if a \<in> seen then Some (Inr seen)
          else (case deref h a of
            Arr items \<Rightarrow> each (walk n skip blocked h) items (insert a seen)
          | Obj entries \<Rightarrow> each (entry_body skip blocked (walk n skip blocked h)) entries (insert a seen))
      | _ \<Rightarrow> Some (Inr seen))"

definition walk_all :: "(ustr \<Rightarrow> bool) \<Rightarrow> (ustr \<Rightarrow> bool) \<Rightarrow> jsheap \<Rightarrow> jsval \<Rightarrow> (ustr + nat set) option" where
  "walk_all skip blocked h value = walk (Suc (length h)) skip blocked h value {}"

section \<open>The bound is enough\<close>

definition unseen :: "jsheap \<Rightarrow> nat set \<Rightarrow> nat" where
  "unseen h s = card ({..<length h} - s)"

definition returns :: "'a set \<Rightarrow> ('e + 'a set) option \<Rightarrow> bool" where
  "returns s r \<longleftrightarrow> (\<exists>e. r = Some (Inl e)) \<or> (\<exists>s'. r = Some (Inr s') \<and> s \<subseteq> s')"

lemma each_returns:
  "(\<And>x t. x \<in> set xs \<Longrightarrow> s \<subseteq> t \<Longrightarrow> returns t (body x t)) \<Longrightarrow> returns s (each body xs s)"
proof (induction xs arbitrary: s)
  case (Cons x xs)
  have "returns s (body x s)" using Cons.prems [of x s] by simp
  then consider e where "body x s = Some (Inl e)" | s' where "body x s = Some (Inr s')" "s \<subseteq> s'"
    by (auto simp: returns_def)
  then show ?case
  proof cases
    case 2
    have "returns s' (each body xs s')" using Cons.prems 2 by (intro Cons.IH) auto
    with 2 show ?thesis by (auto simp: returns_def)
  qed (simp add: returns_def)
qed (simp add: returns_def)

lemma unseen_insert: "a < length h \<Longrightarrow> a \<notin> s \<Longrightarrow> insert a s \<subseteq> t \<Longrightarrow> unseen h t < unseen h s"
  unfolding unseen_def by (intro psubset_card_mono) auto

lemma walk_returns: "unseen h s < n \<Longrightarrow> returns s (walk n skip blocked h v s)"
proof (induction n arbitrary: v s)
  case (Suc n)
  have entered: "returns s (walk (Suc n) skip blocked h (Ref a) s)" if a: "a \<notin> s" for a
  proof (cases "a < length h")
    case True
    have visit: "returns t (walk n skip blocked h x t)" if "insert a s \<subseteq> t" for x t
      using unseen_insert [OF True a that] Suc.prems by (intro Suc.IH) simp
    have "returns (insert a s) (walk (Suc n) skip blocked h (Ref a) s)"
      using a visit by (auto intro!: each_returns simp: entry_body_def split: jsobj.split)
        (auto simp: returns_def)
    then show ?thesis by (auto simp: returns_def)
  next
    case False
    with a show ?thesis by (auto simp: deref_def returns_def)
  qed
  show ?case
  proof (cases v)
    case (Ref a)
    show ?thesis
    proof (cases "a \<in> s")
      case True
      with Ref show ?thesis by (simp add: returns_def)
    next
      case False
      with Ref entered show ?thesis by blast
    qed
  qed (simp_all add: returns_def)
qed simp

section \<open>What the walk finds\<close>

definition followed :: "(ustr \<Rightarrow> bool) \<Rightarrow> jsheap \<Rightarrow> nat \<Rightarrow> jsval list" where
  "followed skip h a =
     (case deref h a of Arr items \<Rightarrow> items | Obj entries \<Rightarrow> map snd (filter (\<lambda>e. \<not> skip (fst e)) entries))"

definition has_blocked :: "(ustr \<Rightarrow> bool) \<Rightarrow> (ustr \<Rightarrow> bool) \<Rightarrow> jsheap \<Rightarrow> nat \<Rightarrow> ustr \<Rightarrow> bool" where
  "has_blocked skip blocked h a k =
     (case deref h a of Arr items \<Rightarrow> False | Obj entries \<Rightarrow> k \<in> fst ` set entries \<and> \<not> skip k \<and> blocked k)"

text \<open>The objects a value leads to without passing a skipped key.\<close>

inductive leads_to :: "(ustr \<Rightarrow> bool) \<Rightarrow> jsheap \<Rightarrow> jsval \<Rightarrow> nat \<Rightarrow> bool" for skip h where
  here: "leads_to skip h (Ref a) a"
| into: "x \<in> set (followed skip h a) \<Longrightarrow> leads_to skip h x b \<Longrightarrow> leads_to skip h (Ref a) b"

inductive_cases leads_to_RefE: "leads_to skip h (Ref a) b"
inductive_simps leads_to_primitive [simp]:
  "leads_to skip h Undefined b" "leads_to skip h Null b" "leads_to skip h (Bool c) b" "leads_to skip h (Num q) b"
  "leads_to skip h (Str u) b" "leads_to skip h Opaque b"

lemma each_Inl:
  "each body xs s = Some (Inl e) \<Longrightarrow> \<exists>x\<in>set xs. \<exists>t. body x t = Some (Inl e)"
  by (induction xs arbitrary: s) (fastforce split: option.splits sum.splits)+

lemma each_entry_Inl:
  assumes "each (entry_body skip blocked visit) es s = Some (Inl k)"
  obtains x where "(k, x) \<in> set es" "\<not> skip k" "blocked k"
  | key x t where "(key, x) \<in> set es" "\<not> skip key" "visit x t = Some (Inl k)"
proof -
  obtain e t where e: "e \<in> set es" "entry_body skip blocked visit e t = Some (Inl k)" using each_Inl [OF assms] by blast
  obtain key x where kx: "e = (key, x)" by (cases e)
  show thesis
  proof (cases "blocked key")
    case True
    with e kx have "key = k" "\<not> skip k" by (auto simp: entry_body_def split: if_splits)
    with True e(1) kx that(1) show thesis by blast
  next
    case False
    with e kx have "\<not> skip key" "visit x t = Some (Inl k)" by (auto simp: entry_body_def split: if_splits)
    with e(1) kx that(2) show thesis by blast
  qed
qed

lemma walk_Inl:
  "walk n skip blocked h v s = Some (Inl k) \<Longrightarrow> \<exists>a. leads_to skip h v a \<and> has_blocked skip blocked h a k"
proof (induction n arbitrary: v s)
  case (Suc n)
  from Suc.prems obtain a where v: "v = Ref a" by (cases v) simp_all
  have inside: ?case if x: "x \<in> set (followed skip h a)" and w: "walk n skip blocked h x t = Some (Inl k)" for x t
  proof -
    obtain b where "leads_to skip h x b" "has_blocked skip blocked h b k" using Suc.IH [OF w] by (elim exE conjE)
    then show ?thesis unfolding v using into [OF x] by (intro exI conjI)
  qed
  show ?case
  proof (cases "deref h a")
    case (Arr items)
    with Suc.prems v have "each (walk n skip blocked h) items (insert a s) = Some (Inl k)" by (simp split: if_splits)
    from each_Inl [OF this] obtain x t where x: "x \<in> set items" "walk n skip blocked h x t = Some (Inl k)" by blast
    with Arr show ?thesis by (intro inside [OF _ x(2)]) (simp add: followed_def)
  next
    case (Obj entries)
    with Suc.prems v have "each (entry_body skip blocked (walk n skip blocked h)) entries (insert a s) = Some (Inl k)"
      by (simp split: if_splits)
    then show ?thesis
    proof (cases rule: each_entry_Inl)
      case (1 x)
      then have "has_blocked skip blocked h a k" using Obj imageI [OF 1(1), of fst] by (simp add: has_blocked_def)
      then show ?thesis unfolding v by (intro exI conjI) (rule here)
    next
      case (2 key x t)
      then have "(key, x) \<in> set (filter (\<lambda>e. \<not> skip (fst e)) entries)" by simp
      from imageI [OF this, of snd] have "x \<in> set (followed skip h a)" using Obj by (simp add: followed_def)
      from inside [OF this 2(3)] show ?thesis .
    qed
  qed
qed simp

text \<open>
  What a walk that returns has established of every object it added: no blocked key, and
  everything followed from it was seen.
\<close>

definition settled :: "(ustr \<Rightarrow> bool) \<Rightarrow> (ustr \<Rightarrow> bool) \<Rightarrow> jsheap \<Rightarrow> nat set \<Rightarrow> nat \<Rightarrow> bool" where
  "settled skip blocked h s a \<longleftrightarrow>
     (\<forall>k. \<not> has_blocked skip blocked h a k) \<and> (\<forall>b. Ref b \<in> set (followed skip h a) \<longrightarrow> b \<in> s)"

definition visited :: "(ustr \<Rightarrow> bool) \<Rightarrow> (ustr \<Rightarrow> bool) \<Rightarrow> jsheap \<Rightarrow> jsval list \<Rightarrow> nat set \<Rightarrow> nat set \<Rightarrow> bool" where
  "visited skip blocked h vs s s' \<longleftrightarrow>
     s \<subseteq> s' \<and> (\<forall>b. Ref b \<in> set vs \<longrightarrow> b \<in> s') \<and> (\<forall>a \<in> s' - s. settled skip blocked h s' a)"

lemma visitedD:
  assumes "visited skip blocked h vs s s'"
  shows "s \<subseteq> s'" and "Ref b \<in> set vs \<Longrightarrow> b \<in> s'" and "a \<in> s' \<Longrightarrow> a \<notin> s \<Longrightarrow> settled skip blocked h s' a"
  using assms by (simp_all add: visited_def)

lemma settled_mono: "settled skip blocked h s a \<Longrightarrow> s \<subseteq> t \<Longrightarrow> settled skip blocked h t a"
  by (auto simp only: settled_def)

lemma visited_trans:
  assumes st: "visited skip blocked h vs s t" and tu: "visited skip blocked h ws t u"
  shows "visited skip blocked h (vs @ ws) s u"
  unfolding visited_def
proof (intro conjI allI ballI impI)
  show "s \<subseteq> u" using visitedD(1) [OF st] visitedD(1) [OF tu] by (rule subset_trans)
  show "b \<in> u" if "Ref b \<in> set (vs @ ws)" for b
    using that visitedD(2) [OF st, of b] visitedD(2) [OF tu, of b] visitedD(1) [OF tu] by auto
  show "settled skip blocked h u a" if "a \<in> u - s" for a
  proof (cases "a \<in> t")
    case True
    with that show ?thesis using settled_mono [OF visitedD(3) [OF st] visitedD(1) [OF tu]] by simp
  next
    case False
    with that show ?thesis using visitedD(3) [OF tu] by simp
  qed
qed

lemma each_visited:
  assumes "\<And>x t t'. x \<in> set xs \<Longrightarrow> body x t = Some (Inr t') \<Longrightarrow> visited skip blocked h (f x) t t'"
  shows "each body xs s = Some (Inr s') \<Longrightarrow> visited skip blocked h (concat (map f xs)) s s'"
  using assms
proof (induction xs arbitrary: s)
  case (Cons x xs)
  then obtain t where t: "body x s = Some (Inr t)" "each body xs t = Some (Inr s')"
    by (auto split: option.splits sum.splits)
  have "visited skip blocked h (f x) s t" using Cons.prems(2) [of x s t] t(1) by simp
  moreover have "visited skip blocked h (concat (map f xs)) t s'"
    using Cons.prems(2) by (intro Cons.IH [OF t(2)]) simp
  ultimately have "visited skip blocked h (f x @ concat (map f xs)) s s'" by (rule visited_trans)
  then show ?case by simp
qed (simp add: visited_def)

lemma each_entries:
  assumes "each (entry_body skip blocked visit) es s = Some (Inr s')"
  shows "\<forall>e\<in>set es. skip (fst e) \<or> \<not> blocked (fst e)"
  using assms by (induction es arbitrary: s) (auto simp: entry_body_def split: if_splits option.splits sum.splits)

lemma concat_unskipped:
  "concat (map (\<lambda>e. if p e then [] else [g e]) es) = map g (filter (\<lambda>e. \<not> p e) es)"
  by (induction es) auto

lemma visited_enter:
  assumes v: "visited skip blocked h (followed skip h a) (insert a s) s'" and ok: "\<forall>k. \<not> has_blocked skip blocked h a k"
  shows "visited skip blocked h [Ref a] s s'"
  unfolding visited_def
proof (intro conjI allI ballI impI)
  show "s \<subseteq> s'" using visitedD(1) [OF v] by simp
  show "b \<in> s'" if "Ref b \<in> set [Ref a]" for b using that visitedD(1) [OF v] by simp
  show "settled skip blocked h s' b" if "b \<in> s' - s" for b
  proof (cases "b = a")
    case True
    with ok visitedD(2) [OF v] show ?thesis by (simp add: settled_def)
  next
    case False
    with that show ?thesis using visitedD(3) [OF v] by simp
  qed
qed

lemma walk_visited: "walk n skip blocked h v s = Some (Inr s') \<Longrightarrow> visited skip blocked h [v] s s'"
proof (induction n arbitrary: v s s')
  case (Suc n)
  have primitive: "visited skip blocked h [v] s s'" if "s' = s" "\<And>b. v = Ref b \<Longrightarrow> b \<in> s"
    using that by (auto simp: visited_def)
  show ?case
  proof (cases "\<exists>a. v = Ref a \<and> a \<notin> s")
    case False
    with Suc.prems show ?thesis by (intro primitive) (auto split: jsval.splits)
  next
    case True
    then obtain a where a: "v = Ref a" "a \<notin> s" by blast
    show ?thesis
    proof (cases "deref h a")
      case (Arr items)
      with Suc.prems a have "each (walk n skip blocked h) items (insert a s) = Some (Inr s')" by simp
      then have "visited skip blocked h (concat (map (\<lambda>x. [x]) items)) (insert a s) s'"
        by (intro each_visited [where body = "walk n skip blocked h"] Suc.IH)
      with a Arr show ?thesis by (auto intro!: visited_enter simp: followed_def has_blocked_def)
    next
      case (Obj entries)
      with Suc.prems a have e: "each (entry_body skip blocked (walk n skip blocked h)) entries (insert a s) = Some (Inr s')" by simp
      then have "visited skip blocked h (concat (map (\<lambda>e. if skip (fst e) then [] else [snd e]) entries)) (insert a s) s'"
        by (intro each_visited [where body = "entry_body skip blocked (walk n skip blocked h)"])
          (auto simp: entry_body_def split: if_splits dest: Suc.IH, simp add: visited_def)
      moreover have "concat (map (\<lambda>e. if skip (fst e) then [] else [snd e]) entries) = followed skip h a"
        using Obj by (simp add: followed_def concat_unskipped)
      moreover have "\<forall>k. \<not> has_blocked skip blocked h a k" using each_entries [OF e] Obj by (auto simp: has_blocked_def)
      ultimately show ?thesis using a by (auto intro!: visited_enter)
    qed
  qed
qed simp

lemma leads_to_closed:
  assumes "leads_to skip h v a" and "\<And>b. v = Ref b \<Longrightarrow> b \<in> S"
    and "\<And>b c. b \<in> S \<Longrightarrow> Ref c \<in> set (followed skip h b) \<Longrightarrow> c \<in> S"
  shows "a \<in> S"
  using assms(1,2)
proof (induction rule: leads_to.induct)
  case (into x a b)
  then show ?case using assms(3) [of a] by blast
qed blast

lemma walk_all_decided:
  "\<exists>r. walk_all skip blocked h v = Some r \<and>
    (case r of
       Inl k \<Rightarrow> \<exists>a. leads_to skip h v a \<and> has_blocked skip blocked h a k
     | Inr s \<Rightarrow> \<forall>a k. leads_to skip h v a \<longrightarrow> \<not> has_blocked skip blocked h a k)"
proof -
  have "unseen h {} < Suc (length h)" by (simp add: unseen_def)
  then have "returns {} (walk_all skip blocked h v)" unfolding walk_all_def by (rule walk_returns)
  then consider k where "walk_all skip blocked h v = Some (Inl k)"
    | s where "walk_all skip blocked h v = Some (Inr s)"
    unfolding returns_def by blast
  then show ?thesis
  proof cases
    case 1
    then show ?thesis using walk_Inl [of "Suc (length h)" skip blocked h v "{}" k] unfolding walk_all_def by auto
  next
    case 2
    then have v: "visited skip blocked h [v] {} s" unfolding walk_all_def by (rule walk_visited)
    have "\<not> has_blocked skip blocked h a k" if "leads_to skip h v a" for a k
    proof -
      have "a \<in> s" using that v by (rule_tac leads_to_closed) (auto simp: visited_def settled_def)
      with v show ?thesis by (auto simp: visited_def settled_def)
    qed
    with 2 show ?thesis by simp
  qed
qed

text \<open>
  C8: the boundary walk always returns, on object graphs with sharing and cycles too: a depth of
  one more than the number of objects is enough. It throws only for a blocked key of an object the
  value leads to, and it returns normally only if no object the value leads to, without passing a
  skipped key, has a blocked key.
\<close>

theorem walk_all_decides:
  "\<exists>r. walk_all skip blocked h v = Some r \<and>
    (case r of
       Inl k \<Rightarrow> \<exists>a. leads_to skip h v a \<and> has_blocked skip blocked h a k
     | Inr s \<Rightarrow> \<forall>a k. leads_to skip h v a \<longrightarrow> \<not> has_blocked skip blocked h a k)"
  by (rule walk_all_decided)

theorem walk_all_decides_witness:
  "\<exists>r. walk_all (\<lambda>k. False) (\<lambda>k. k = asc ''tab'') [Obj [(asc ''self'', Ref 0), (asc ''peer'', Ref 1)], Arr [Ref 0, Null]] (Ref 0) = Some r"
  using walk_all_decides [of "\<lambda>k. False" "\<lambda>k. k = asc ''tab''" "[Obj [(asc ''self'', Ref 0), (asc ''peer'', Ref 1)], Arr [Ref 0, Null]]" "Ref 0"]
  by blast

end
