(* ===== verification/RemoteModel.thy ===== *)
theory RemoteModel
  imports ObjectGraph
begin

text \<open>
  The remote model of \<open>clients/ui/src/core/model.ts\<close>: machines and terminals built from untrusted
  objects, with the boundary check that keeps workspace, tab, window and pane keys out. A fallible
  function returns the message of the exception it throws as \<open>Inl\<close>. The objects live in a store
  (theory \<open>ObjectGraph\<close>); an absent property and one that is \<open>undefined\<close> read the same, and
  \<open>cleanOptional\<close> removes the latter from a result, so that an optional property is an \<open>option\<close>.
\<close>

section \<open>Definitions\<close>

type_synonym entries = "(ustr \<times> jsval) list"

datatype machineState = MachineOnline | MachineOffline | MachineUnknown
datatype terminalState = TerminalRunning | TerminalExited | TerminalUnknown
datatype sizeLockMode = LockOff | LockWarn | LockLock

record localRTCInfo =
  signalingUrl :: ustr
  iceTCPUrl :: "ustr option"

record remoteMachine =
  rm_machineId :: ustr
  rm_name :: ustr
  rm_state :: machineState
  rm_terminalCount :: "js_number option"
  rm_lastSeenAt :: "ustr option"
  rm_localRTC :: "localRTCInfo option"

record remoteTerminal =
  rt_terminalId :: ustr
  rt_machineId :: ustr
  rt_title :: ustr
  rt_state :: terminalState
  rt_command :: "ustr option"
  rt_cols :: "js_number option"
  rt_rows :: "js_number option"
  rt_cwd :: "ustr option"
  rt_lastActiveAt :: "ustr option"
  rt_foregroundProcess :: "ustr option"
  rt_lastOutputAt :: "ustr option"
  rt_sizeLocked :: "bool option"
  rt_sizeLockMode :: "sizeLockMode option"
  rt_environment :: "ustr option"
  rt_tags :: "(ustr \<times> ustr) list option"
  rt_resizeOwnerSurfaceId :: "ustr option"
  rt_resizeOwnerViewId :: "ustr option"
  rt_resizeOwnerAttachmentCount :: "js_number option"

definition blockedPublicModelKeys :: "ustr list" where
  "blockedPublicModelKeys = map asc
     [''workspace'', ''workspace_id'', ''workspaceId'', ''workspaces'', ''tab'', ''tab_id'', ''tabId'', ''tabs'',
      ''window'', ''window_id'', ''windowId'', ''windows'', ''pane'', ''pane_id'', ''paneId'', ''panes'']"

definition skip_tags :: "ustr \<Rightarrow> bool" where
  "skip_tags k \<longleftrightarrow> k = asc ''tags''"

definition assertRemoteModelShape :: "jsheap \<Rightarrow> jsval \<Rightarrow> ustr + unit" where
  "assertRemoteModelShape h value =
     (case the (walk_all skip_tags (\<lambda>k. k \<in> set blockedPublicModelKeys) h value) of
        Inl key \<Rightarrow> Inl (asc ''remote public model must not contain '' @ key)
      | Inr _ \<Rightarrow> Inr ())"

text \<open>\<open>record[key]\<close>, and the entries of an object.\<close>

definition get_prop :: "entries \<Rightarrow> ustr \<Rightarrow> jsval" where
  "get_prop record key = (case map_of record key of None \<Rightarrow> Undefined | Some v \<Rightarrow> v)"

definition entries_of :: "jsobj \<Rightarrow> entries" where
  "entries_of v = (case v of Obj es \<Rightarrow> es | Arr _ \<Rightarrow> [])"

text \<open>The loop the getters share: the first key with a value decides, and a value of the wrong kind throws.\<close>

fun getOptional :: "(ustr \<Rightarrow> jsval \<Rightarrow> ustr + 'a) \<Rightarrow> entries \<Rightarrow> ustr list \<Rightarrow> ustr + 'a option" where
  "getOptional convert record [] = Inr None"
| "getOptional convert record (key # keys) =
     (if get_prop record key = Undefined \<or> get_prop record key = Null then getOptional convert record keys
      else andThen (convert key (get_prop record key)) (\<lambda>x. Inr (Some x)))"

definition asString :: "ustr \<Rightarrow> jsval \<Rightarrow> ustr + ustr" where
  "asString key value = (case value of Str s \<Rightarrow> Inr s | _ \<Rightarrow> Inl (key @ asc '' must be a string''))"

definition getOptionalString :: "entries \<Rightarrow> ustr list \<Rightarrow> ustr + ustr option" where
  "getOptionalString = getOptional asString"

definition getRequiredString :: "entries \<Rightarrow> ustr list \<Rightarrow> ustr + ustr" where
  "getRequiredString record keys =
     andThen (getOptionalString record keys) (\<lambda>value.
       case value of
         Some (c # s) \<Rightarrow> Inr (c # s)
       | _ \<Rightarrow> Inl (asc ''missing required string '' @ hd keys))"

definition is_string :: "jsval \<Rightarrow> bool" where
  "is_string v = (case v of Str s \<Rightarrow> True | _ \<Rightarrow> False)"

definition the_string :: "jsval \<Rightarrow> ustr" where
  "the_string v = (case v of Str s \<Rightarrow> s | _ \<Rightarrow> [])"

text \<open>\<open>value.join(' ')\<close>\<close>

fun join_space :: "ustr list \<Rightarrow> ustr" where
  "join_space [] = []"
| "join_space [s] = s"
| "join_space (s # t # ss) = s @ 32 # join_space (t # ss)"

definition asCommand :: "jsheap \<Rightarrow> ustr \<Rightarrow> jsval \<Rightarrow> ustr + ustr" where
  "asCommand h key value =
     (let err = Inl (key @ asc '' must be a string or string array'') in
      case value of
        Str s \<Rightarrow> Inr s
      | Ref a \<Rightarrow> (case deref h a of
            Arr parts \<Rightarrow> if list_all is_string parts then Inr (join_space (map the_string parts)) else err
          | Obj _ \<Rightarrow> err)
      | _ \<Rightarrow> err)"

definition getOptionalCommand :: "jsheap \<Rightarrow> entries \<Rightarrow> ustr list \<Rightarrow> ustr + ustr option" where
  "getOptionalCommand h = getOptional (asCommand h)"

definition asNumber :: "ustr \<Rightarrow> jsval \<Rightarrow> ustr + js_number" where
  "asNumber key value =
     (case value of
        Num q \<Rightarrow> if isFinite q then Inr q else Inl (key @ asc '' must be a finite number'')
      | _ \<Rightarrow> Inl (key @ asc '' must be a finite number''))"

definition getOptionalNumber :: "entries \<Rightarrow> ustr list \<Rightarrow> ustr + js_number option" where
  "getOptionalNumber = getOptional asNumber"

definition asBoolean :: "ustr \<Rightarrow> jsval \<Rightarrow> ustr + bool" where
  "asBoolean key value = (case value of Bool b \<Rightarrow> Inr b | _ \<Rightarrow> Inl (key @ asc '' must be a boolean''))"

definition getOptionalBoolean :: "entries \<Rightarrow> ustr list \<Rightarrow> ustr + bool option" where
  "getOptionalBoolean = getOptional asBoolean"

definition asStringRecord :: "jsheap \<Rightarrow> ustr \<Rightarrow> jsval \<Rightarrow> ustr + (ustr \<times> ustr) list" where
  "asStringRecord h key value =
     (case value of
        Ref a \<Rightarrow> (case deref h a of
            Obj es \<Rightarrow> if list_all (\<lambda>e. is_string (snd e)) es then Inr (map (\<lambda>e. (fst e, the_string (snd e))) es)
              else Inl (key @ asc '' must contain only string values'')
          | Arr _ \<Rightarrow> Inl (key @ asc '' must be an object''))
      | _ \<Rightarrow> Inl (key @ asc '' must be an object''))"

definition getOptionalStringRecord :: "jsheap \<Rightarrow> entries \<Rightarrow> ustr list \<Rightarrow> ustr + (ustr \<times> ustr) list option" where
  "getOptionalStringRecord h = getOptional (asStringRecord h)"

definition getResizeOwnershipString :: "jsheap \<Rightarrow> entries \<Rightarrow> ustr \<Rightarrow> ustr + ustr option" where
  "getResizeOwnershipString h record key =
     andThen (getOptionalString record [key]) (\<lambda>direct.
       if direct \<noteq> None \<and> direct \<noteq> Some [] then Inr direct
       else case get_prop record (asc ''resize_ownership'') of
         Ref a \<Rightarrow> (case deref h a of Obj ownership \<Rightarrow> getOptionalString ownership [key] | Arr _ \<Rightarrow> Inr None)
       | _ \<Rightarrow> Inr None)"

definition normalizeMachineState :: "ustr option \<Rightarrow> machineState" where
  "normalizeMachineState value =
     (if value = Some (asc ''online'') then MachineOnline
      else if value = Some (asc ''offline'') then MachineOffline else MachineUnknown)"

definition normalizeTerminalState :: "ustr option \<Rightarrow> terminalState" where
  "normalizeTerminalState value =
     (if value = Some (asc ''running'') then TerminalRunning
      else if value = Some (asc ''exited'') then TerminalExited else TerminalUnknown)"

definition normalizeSizeLockMode :: "ustr option \<Rightarrow> sizeLockMode option" where
  "normalizeSizeLockMode value =
     (if value = Some (asc ''off'') then Some LockOff
      else if value = Some (asc ''warn'') then Some LockWarn
      else if value = Some (asc ''lock'') then Some LockLock else None)"

definition normalizeLocalRTC :: "jsheap \<Rightarrow> jsval \<Rightarrow> ustr + localRTCInfo option" where
  "normalizeLocalRTC h value =
     (if value = Null \<or> value = Undefined then Inr None
      else case value of
        Ref a \<Rightarrow> (case deref h a of
            Arr _ \<Rightarrow> Inl (asc ''local_rtc must be an object'')
          | Obj record \<Rightarrow>
              andThen (getRequiredString record [asc ''signaling_url'', asc ''signalingUrl'']) (\<lambda>signaling.
              andThen (getOptionalString record [asc ''ice_tcp_url'', asc ''iceTCPUrl'']) (\<lambda>ice.
              Inr (Some \<lparr>signalingUrl = signaling, iceTCPUrl = ice\<rparr>))))
      | _ \<Rightarrow> Inl (asc ''local_rtc must be an object''))"

text \<open>\<open>a ?? b\<close>\<close>

definition nullish :: "jsval \<Rightarrow> jsval \<Rightarrow> jsval" where
  "nullish a b = (if a = Undefined \<or> a = Null then b else a)"

definition default_to :: "'a option \<Rightarrow> 'a \<Rightarrow> 'a" where
  "default_to v d = (case v of None \<Rightarrow> d | Some x \<Rightarrow> x)"

definition normalizeMachine :: "jsheap \<Rightarrow> nat \<Rightarrow> ustr + remoteMachine" where
  "normalizeMachine h a =
     andThen (assertRemoteModelShape h (Ref a)) (\<lambda>_.
     let input = entries_of (deref h a) in
     andThen (getRequiredString input [asc ''machine_id'', asc ''machineId'']) (\<lambda>machineId.
     andThen (getOptionalString input [asc ''name'']) (\<lambda>name.
     andThen (getOptionalString input [asc ''state'']) (\<lambda>state.
     andThen (getOptionalNumber input [asc ''terminal_count'', asc ''terminalCount'']) (\<lambda>terminalCount.
     andThen (getOptionalString input [asc ''last_seen_at'', asc ''lastSeenAt'']) (\<lambda>lastSeenAt.
     andThen (normalizeLocalRTC h (nullish (get_prop input (asc ''local_rtc'')) (get_prop input (asc ''localRTC'')))) (\<lambda>localRTC.
     Inr \<lparr>rm_machineId = machineId, rm_name = default_to name machineId, rm_state = normalizeMachineState state,
       rm_terminalCount = terminalCount, rm_lastSeenAt = lastSeenAt, rm_localRTC = localRTC\<rparr>)))))))"

definition normalizeTerminal :: "jsheap \<Rightarrow> nat \<Rightarrow> ustr + remoteTerminal" where
  "normalizeTerminal h a =
     andThen (assertRemoteModelShape h (Ref a)) (\<lambda>_.
     let input = entries_of (deref h a) in
     andThen (getRequiredString input [asc ''terminal_id'', asc ''terminalId'']) (\<lambda>terminalId.
     andThen (getRequiredString input [asc ''machine_id'', asc ''machineId'']) (\<lambda>machineId.
     andThen (getOptionalString input [asc ''title'', asc ''name'']) (\<lambda>title.
     andThen (getOptionalString input [asc ''state'']) (\<lambda>state.
     andThen (getOptionalCommand h input [asc ''command'']) (\<lambda>command.
     andThen (getOptionalNumber input [asc ''cols'']) (\<lambda>cols.
     andThen (getOptionalNumber input [asc ''rows'']) (\<lambda>rows.
     andThen (getOptionalString input [asc ''cwd'']) (\<lambda>cwd.
     andThen (getOptionalString input [asc ''last_active_at'', asc ''lastActiveAt'']) (\<lambda>lastActiveAt.
     andThen (getOptionalString input [asc ''foreground_process'', asc ''foregroundProcess'']) (\<lambda>foregroundProcess.
     andThen (getOptionalString input [asc ''last_output_at'', asc ''lastOutputAt'']) (\<lambda>lastOutputAt.
     andThen (getOptionalBoolean input [asc ''size_locked'', asc ''sizeLocked'']) (\<lambda>sizeLocked.
     andThen (getOptionalString input [asc ''size_lock_mode'', asc ''sizeLockMode'']) (\<lambda>lockMode.
     andThen (getOptionalString input [asc ''environment'', asc ''env'']) (\<lambda>environment.
     andThen (getOptionalStringRecord h input [asc ''tags'']) (\<lambda>tags.
     andThen (getResizeOwnershipString h input (asc ''owner_surface_id'')) (\<lambda>surfaceId.
     andThen (getResizeOwnershipString h input (asc ''owner_view_id'')) (\<lambda>viewId.
     andThen (getOptionalNumber input [asc ''resize_owner_attachment_count'', asc ''resizeOwnerAttachmentCount'']) (\<lambda>attachments.
     Inr \<lparr>rt_terminalId = terminalId, rt_machineId = machineId, rt_title = default_to title terminalId,
       rt_state = normalizeTerminalState state, rt_command = command, rt_cols = cols, rt_rows = rows, rt_cwd = cwd,
       rt_lastActiveAt = lastActiveAt, rt_foregroundProcess = foregroundProcess, rt_lastOutputAt = lastOutputAt,
       rt_sizeLocked = sizeLocked, rt_sizeLockMode = normalizeSizeLockMode lockMode, rt_environment = environment,
       rt_tags = tags, rt_resizeOwnerSurfaceId = surfaceId, rt_resizeOwnerViewId = viewId,
       rt_resizeOwnerAttachmentCount = attachments\<rparr>)))))))))))))))))))"

definition cleanOptional :: "entries \<Rightarrow> entries" where
  "cleanOptional record = filter (\<lambda>e. snd e \<noteq> Undefined) record"

section \<open>The objects the functions return\<close>

text \<open>The result as the plain object the code returns, for passing it on as an input.\<close>

definition opt_val :: "('a \<Rightarrow> jsval) \<Rightarrow> 'a option \<Rightarrow> jsval" where
  "opt_val f v = (case v of None \<Rightarrow> Undefined | Some x \<Rightarrow> f x)"

fun machineState_string :: "machineState \<Rightarrow> ustr" where
  "machineState_string MachineOnline = asc ''online''"
| "machineState_string MachineOffline = asc ''offline''"
| "machineState_string MachineUnknown = asc ''unknown''"

fun terminalState_string :: "terminalState \<Rightarrow> ustr" where
  "terminalState_string TerminalRunning = asc ''running''"
| "terminalState_string TerminalExited = asc ''exited''"
| "terminalState_string TerminalUnknown = asc ''unknown''"

fun sizeLockMode_string :: "sizeLockMode \<Rightarrow> ustr" where
  "sizeLockMode_string LockOff = asc ''off''"
| "sizeLockMode_string LockWarn = asc ''warn''"
| "sizeLockMode_string LockLock = asc ''lock''"

definition rtc_entries :: "localRTCInfo \<Rightarrow> entries" where
  "rtc_entries r = [(asc ''signalingUrl'', Str (signalingUrl r)), (asc ''iceTCPUrl'', opt_val Str (iceTCPUrl r))]"

definition machine_entries :: "remoteMachine \<Rightarrow> entries" where
  "machine_entries m =
     [(asc ''machineId'', Str (rm_machineId m)), (asc ''name'', Str (rm_name m)),
      (asc ''state'', Str (machineState_string (rm_state m))), (asc ''terminalCount'', opt_val Num (rm_terminalCount m)),
      (asc ''lastSeenAt'', opt_val Str (rm_lastSeenAt m)), (asc ''localRTC'', opt_val (\<lambda>_. Ref 1) (rm_localRTC m))]"

definition machine_heap :: "remoteMachine \<Rightarrow> jsheap" where
  "machine_heap m =
     [Obj (cleanOptional (machine_entries m)),
      Obj (case rm_localRTC m of None \<Rightarrow> [] | Some r \<Rightarrow> cleanOptional (rtc_entries r))]"

definition terminal_entries :: "remoteTerminal \<Rightarrow> entries" where
  "terminal_entries t =
     [(asc ''terminalId'', Str (rt_terminalId t)), (asc ''machineId'', Str (rt_machineId t)), (asc ''title'', Str (rt_title t)),
      (asc ''state'', Str (terminalState_string (rt_state t))), (asc ''command'', opt_val Str (rt_command t)),
      (asc ''cols'', opt_val Num (rt_cols t)), (asc ''rows'', opt_val Num (rt_rows t)), (asc ''cwd'', opt_val Str (rt_cwd t)),
      (asc ''lastActiveAt'', opt_val Str (rt_lastActiveAt t)),
      (asc ''foregroundProcess'', opt_val Str (rt_foregroundProcess t)),
      (asc ''lastOutputAt'', opt_val Str (rt_lastOutputAt t)), (asc ''sizeLocked'', opt_val Bool (rt_sizeLocked t)),
      (asc ''sizeLockMode'', opt_val (\<lambda>m. Str (sizeLockMode_string m)) (rt_sizeLockMode t)),
      (asc ''environment'', opt_val Str (rt_environment t)), (asc ''tags'', opt_val (\<lambda>_. Ref 1) (rt_tags t)),
      (asc ''resizeOwnerSurfaceId'', opt_val Str (rt_resizeOwnerSurfaceId t)),
      (asc ''resizeOwnerViewId'', opt_val Str (rt_resizeOwnerViewId t)),
      (asc ''resizeOwnerAttachmentCount'', opt_val Num (rt_resizeOwnerAttachmentCount t))]"

definition terminal_heap :: "remoteTerminal \<Rightarrow> jsheap" where
  "terminal_heap t =
     [Obj (cleanOptional (terminal_entries t)),
      Obj (case rt_tags t of None \<Rightarrow> [] | Some kvs \<Rightarrow> map (\<lambda>e. (fst e, Str (snd e))) kvs)]"

section \<open>Getters\<close>

lemma asc_inject [simp]: "asc s = asc t \<longleftrightarrow> s = t"
proof -
  have "inj (of_char :: char \<Rightarrow> nat)" by (simp add: inj_on_def)
  then show ?thesis by (simp add: asc_def inj_map_eq_map)
qed

lemma get_prop_Nil [simp]: "get_prop [] k = Undefined"
  by (simp add: get_prop_def)

lemma get_prop_Cons [simp]: "get_prop ((k', v) # es) k = (if k = k' then v else get_prop es k)"
  by (simp add: get_prop_def)

lemma get_prop_absent: "k \<notin> fst ` set es \<Longrightarrow> get_prop es k = Undefined"
  by (induction es) auto

lemma get_prop_cleanOptional [simp]: "distinct (map fst es) \<Longrightarrow> get_prop (cleanOptional es) k = get_prop es k"
proof (induction es)
  case (Cons e es)
  then show ?case by (cases e) (auto simp: cleanOptional_def get_prop_absent)
qed (simp add: cleanOptional_def)

lemma opt_val_simps [simp]: "opt_val f None = Undefined" "opt_val f (Some x) = f x"
  by (simp_all add: opt_val_def)

lemma opt_val_Ref_gen: "(\<And>x. f x \<noteq> Ref c) \<Longrightarrow> Ref c = opt_val f v \<longleftrightarrow> False"
  using not_sym by (cases v) fastforce+

lemma opt_val_Ref [simp]:
  "Ref c = opt_val Str u \<longleftrightarrow> False" "Ref c = opt_val Num q \<longleftrightarrow> False" "Ref c = opt_val Bool b \<longleftrightarrow> False"
  "Ref c = opt_val (\<lambda>m. Str (g m)) w \<longleftrightarrow> False"
  by (rule opt_val_Ref_gen; simp)+

text \<open>Reading back a property that was written from an option.\<close>

lemma getOptional_opt_val:
  assumes "get_prop es k = opt_val f v" and "\<And>x. v = Some x \<Longrightarrow> convert k (f x) = Inr x \<and> f x \<noteq> Undefined \<and> f x \<noteq> Null"
  shows "getOptional convert es [k] = Inr v"
  using assms by (cases v) simp_all

lemma getOptional_skip: "get_prop es k = Undefined \<Longrightarrow> getOptional convert es (k # ks) = getOptional convert es ks"
  by simp

lemma getOptionalString_val: "get_prop es k = opt_val Str v \<Longrightarrow> getOptionalString es [k] = Inr v"
  unfolding getOptionalString_def by (rule getOptional_opt_val [where f = Str]) (simp_all add: asString_def)

lemma getOptionalString_Str: "get_prop es k = Str s \<Longrightarrow> getOptionalString es [k] = Inr (Some s)"
  by (rule getOptionalString_val) simp

lemma getOptionalString_skip: "get_prop es k = Undefined \<Longrightarrow> getOptionalString es (k # ks) = getOptionalString es ks"
  by (simp add: getOptionalString_def)

lemma getOptionalNumber_val:
  "get_prop es k = opt_val Num v \<Longrightarrow> (\<And>q. v = Some q \<Longrightarrow> isFinite q) \<Longrightarrow> getOptionalNumber es [k] = Inr v"
  unfolding getOptionalNumber_def by (rule getOptional_opt_val [where f = Num]) (simp_all add: asNumber_def)

lemma getOptionalNumber_skip: "get_prop es k = Undefined \<Longrightarrow> getOptionalNumber es (k # ks) = getOptionalNumber es ks"
  by (simp add: getOptionalNumber_def)

lemma getOptionalBoolean_val: "get_prop es k = opt_val Bool v \<Longrightarrow> getOptionalBoolean es [k] = Inr v"
  unfolding getOptionalBoolean_def by (rule getOptional_opt_val [where f = Bool]) (simp_all add: asBoolean_def)

lemma getOptionalCommand_val: "get_prop es k = opt_val Str v \<Longrightarrow> getOptionalCommand h es [k] = Inr v"
  unfolding getOptionalCommand_def by (rule getOptional_opt_val [where f = Str]) (simp_all add: asCommand_def Let_def)

lemma getOptionalBoolean_skip: "get_prop es k = Undefined \<Longrightarrow> getOptionalBoolean es (k # ks) = getOptionalBoolean es ks"
  by (simp add: getOptionalBoolean_def)

lemma getRequiredString_val:
  "getOptionalString es ks = Inr (Some s) \<Longrightarrow> s \<noteq> [] \<Longrightarrow> getRequiredString es ks = Inr s"
  by (cases s) (simp_all add: getRequiredString_def)

lemma getRequiredString_nonempty:
  assumes "getRequiredString es ks = Inr s"
  shows "s \<noteq> []"
proof -
  obtain v where v: "(case v of Some (c # s) \<Rightarrow> Inr (c # s) | _ \<Rightarrow> Inl (asc ''missing required string '' @ hd ks)) = Inr s"
    using assms unfolding getRequiredString_def andThen_eq_Inr by blast
  then show ?thesis by (cases v; cases "the v") auto
qed

lemma getOptionalNumber_finite: "getOptionalNumber es ks = Inr (Some q) \<Longrightarrow> isFinite q"
  unfolding getOptionalNumber_def
  by (induction ks) (auto simp: asNumber_def split: if_splits jsval.splits)

section \<open>Normal forms\<close>

definition rtc_ok :: "localRTCInfo \<Rightarrow> bool" where
  "rtc_ok r \<longleftrightarrow> signalingUrl r \<noteq> []"

definition machine_ok :: "remoteMachine \<Rightarrow> bool" where
  "machine_ok m \<longleftrightarrow> rm_machineId m \<noteq> [] \<and> pred_option isFinite (rm_terminalCount m) \<and> pred_option rtc_ok (rm_localRTC m)"

definition terminal_ok :: "remoteTerminal \<Rightarrow> bool" where
  "terminal_ok t \<longleftrightarrow> rt_terminalId t \<noteq> [] \<and> rt_machineId t \<noteq> [] \<and> pred_option isFinite (rt_cols t) \<and>
     pred_option isFinite (rt_rows t) \<and> pred_option isFinite (rt_resizeOwnerAttachmentCount t)"

lemma assertRemoteModelShape_closed:
  assumes "\<And>b. v = Ref b \<Longrightarrow> b \<in> S"
    and "\<And>b c. b \<in> S \<Longrightarrow> Ref c \<in> set (followed skip_tags h b) \<Longrightarrow> c \<in> S"
    and "\<And>b k. b \<in> S \<Longrightarrow> \<not> has_blocked skip_tags (\<lambda>k. k \<in> set blockedPublicModelKeys) h b k"
  shows "assertRemoteModelShape h v = Inr ()"
proof -
  have "\<not> has_blocked skip_tags (\<lambda>k. k \<in> set blockedPublicModelKeys) h a k" if "leads_to skip_tags h v a" for a k
  proof -
    have "a \<in> S" using that assms(1,2) by (rule leads_to_closed)
    then show ?thesis by (rule assms(3))
  qed
  moreover obtain r where r: "walk_all skip_tags (\<lambda>k. k \<in> set blockedPublicModelKeys) h v = Some r"
    "case r of Inl k \<Rightarrow> \<exists>a. leads_to skip_tags h v a \<and> has_blocked skip_tags (\<lambda>k. k \<in> set blockedPublicModelKeys) h a k
       | Inr s \<Rightarrow> \<forall>a k. leads_to skip_tags h v a \<longrightarrow> \<not> has_blocked skip_tags (\<lambda>k. k \<in> set blockedPublicModelKeys) h a k"
    using walk_all_decided [of skip_tags "\<lambda>k. k \<in> set blockedPublicModelKeys" h v] by blast
  ultimately show ?thesis by (cases r) (auto simp: assertRemoteModelShape_def)
qed

lemma normalizeMachine_ok:
  assumes "normalizeMachine h a = Inr m"
  shows "machine_ok m"
proof -
  have rtc: "pred_option rtc_ok r" if "normalizeLocalRTC h v = Inr r" for v r
    using that by (auto simp: normalizeLocalRTC_def rtc_ok_def dest: getRequiredString_nonempty
        split: if_splits jsval.splits jsobj.splits)
  have num: "pred_option isFinite q" if "getOptionalNumber es ks = Inr q" for es ks q
    using that getOptionalNumber_finite by (cases q) auto
  show ?thesis
    using assms by (auto simp: normalizeMachine_def Let_def machine_ok_def dest: getRequiredString_nonempty rtc num)
qed

lemma normalizeTerminal_ok:
  assumes "normalizeTerminal h a = Inr t"
  shows "terminal_ok t"
proof -
  have num: "pred_option isFinite q" if "getOptionalNumber es ks = Inr q" for es ks q
    using that getOptionalNumber_finite by (cases q) auto
  show ?thesis
    using assms by (auto simp: normalizeTerminal_def Let_def terminal_ok_def dest: getRequiredString_nonempty num)
qed

lemma machine_keys:
  "fst ` set (cleanOptional (machine_entries m)) \<subseteq> set (map asc [''machineId'', ''name'', ''state'', ''terminalCount'', ''lastSeenAt'', ''localRTC''])"
  by (auto simp: cleanOptional_def machine_entries_def simp del: asc_simps)

lemma rtc_keys: "fst ` set (cleanOptional (rtc_entries r)) \<subseteq> set (map asc [''signalingUrl'', ''iceTCPUrl''])"
  by (auto simp: cleanOptional_def rtc_entries_def simp del: asc_simps)

lemma unblocked:
  assumes "fst ` set es \<subseteq> set (map asc ks)" and "set ks \<inter> set [''workspace'', ''workspace_id'', ''workspaceId'', ''workspaces'',
      ''tab'', ''tab_id'', ''tabId'', ''tabs'', ''window'', ''window_id'', ''windowId'', ''windows'', ''pane'', ''pane_id'', ''paneId'', ''panes''] = {}" and "k \<in> fst ` set es"
  shows "k \<notin> set blockedPublicModelKeys"
proof
  assume "k \<in> set blockedPublicModelKeys"
  then have "k \<in> asc ` set [''workspace'', ''workspace_id'', ''workspaceId'', ''workspaces'',
      ''tab'', ''tab_id'', ''tabId'', ''tabs'', ''window'', ''window_id'', ''windowId'', ''windows'', ''pane'', ''pane_id'', ''paneId'', ''panes'']"
    unfolding blockedPublicModelKeys_def set_map .
  then obtain t where t: "k = asc t" "t \<in> set [''workspace'', ''workspace_id'', ''workspaceId'', ''workspaces'',
      ''tab'', ''tab_id'', ''tabId'', ''tabs'', ''window'', ''window_id'', ''windowId'', ''windows'', ''pane'', ''pane_id'', ''paneId'', ''panes'']" by (elim imageE)
  have "k \<in> asc ` set ks" using assms(1,3) unfolding set_map by (rule subsetD)
  then obtain s where "k = asc s" "s \<in> set ks" by (elim imageE)
  with t(1) have "t \<in> set ks" by (simp del: asc_simps)
  with t(2) assms(2) show False by blast
qed

lemma machine_refs:
  assumes "Ref c \<in> set (followed skip_tags (machine_heap m) b)" and "b \<in> {0, 1}"
  shows "c \<in> {0, 1}"
proof (cases "b = 0")
  case True
  with assms obtain k where "(k, Ref c) \<in> set (machine_entries m)"
    by (auto simp: followed_def deref_def machine_heap_def cleanOptional_def)
  then have "Ref c = opt_val (\<lambda>_. Ref 1) (rm_localRTC m)" by (simp add: machine_entries_def del: asc_simps)
  then show ?thesis by (cases "rm_localRTC m") auto
next
  case False
  with assms obtain k r where "(k, Ref c) \<in> set (rtc_entries r)"
    by (auto simp: followed_def deref_def machine_heap_def cleanOptional_def split: option.splits)
  then show ?thesis by (simp add: rtc_entries_def del: asc_simps)
qed

lemma machine_shape: "assertRemoteModelShape (machine_heap m) (Ref 0) = Inr ()"
proof (rule assertRemoteModelShape_closed [where S = "{0, 1}"])
  show "c \<in> {0, 1}" if "b \<in> {0, 1}" "Ref c \<in> set (followed skip_tags (machine_heap m) b)" for b c
    using machine_refs that by blast
  show "\<not> has_blocked skip_tags (\<lambda>k. k \<in> set blockedPublicModelKeys) (machine_heap m) b k" if "b \<in> {0, 1}" for b k
    using that unblocked [OF machine_keys [of m], of k] unblocked [OF rtc_keys [of "the (rm_localRTC m)"], of k]
    by (auto simp: has_blocked_def deref_def machine_heap_def simp del: asc_simps split: option.splits)
qed simp

lemma terminal_keys:
  "fst ` set (cleanOptional (terminal_entries t)) \<subseteq> set (map asc [''terminalId'', ''machineId'', ''title'', ''state'', ''command'', ''cols'',
     ''rows'', ''cwd'', ''lastActiveAt'', ''foregroundProcess'', ''lastOutputAt'', ''sizeLocked'', ''sizeLockMode'', ''environment'', ''tags'',
     ''resizeOwnerSurfaceId'', ''resizeOwnerViewId'', ''resizeOwnerAttachmentCount''])"
proof -
  have "fst ` set (cleanOptional (terminal_entries t)) \<subseteq> set (map fst (terminal_entries t))"
    by (auto simp: cleanOptional_def)
  then show ?thesis by (simp add: terminal_entries_def del: asc_simps)
qed

lemma terminal_refs: "Ref c \<notin> set (followed skip_tags (terminal_heap t) 0)"
proof
  assume "Ref c \<in> set (followed skip_tags (terminal_heap t) 0)"
  then obtain k where "(k, Ref c) \<in> set (terminal_entries t)" "k \<noteq> asc ''tags''"
    by (auto simp: followed_def deref_def terminal_heap_def cleanOptional_def skip_tags_def)
  then show False by (simp add: terminal_entries_def del: asc_simps)
qed

lemma terminal_shape: "assertRemoteModelShape (terminal_heap t) (Ref 0) = Inr ()"
proof (rule assertRemoteModelShape_closed [where S = "{0}"])
  show "c \<in> {0}" if "b \<in> {0}" "Ref c \<in> set (followed skip_tags (terminal_heap t) b)" for b c
    using that terminal_refs by auto
  show "\<not> has_blocked skip_tags (\<lambda>k. k \<in> set blockedPublicModelKeys) (terminal_heap t) b k" if "b \<in> {0}" for b k
    using that unblocked [OF terminal_keys [of t], of k]
    by (auto simp: has_blocked_def deref_def terminal_heap_def simp del: asc_simps)
qed simp

lemma distinct_machine_entries [simp]: "distinct (map fst (machine_entries m))"
  by (simp add: machine_entries_def del: asc_simps)

lemma distinct_rtc_entries [simp]: "distinct (map fst (rtc_entries r))"
  by (simp add: rtc_entries_def del: asc_simps)

lemma distinct_terminal_entries [simp]: "distinct (map fst (terminal_entries t))"
  by (simp add: terminal_entries_def del: asc_simps)

lemma machineState_string: "normalizeMachineState (Some (machineState_string s)) = s"
  by (cases s) (simp_all add: normalizeMachineState_def del: asc_simps)

lemma terminalState_string: "normalizeTerminalState (Some (terminalState_string s)) = s"
  by (cases s) (simp_all add: normalizeTerminalState_def del: asc_simps)

lemma sizeLockMode_string: "normalizeSizeLockMode (map_option sizeLockMode_string s) = s"
proof (cases s)
  case (Some m)
  then show ?thesis by (cases m) (simp_all add: normalizeSizeLockMode_def del: asc_simps)
qed (simp add: normalizeSizeLockMode_def)

lemma opt_val_map: "opt_val (\<lambda>m. Str (g m)) v = opt_val Str (map_option g v)"
  by (cases v) simp_all

lemmas getter_rules =
  getRequiredString_val getOptionalString_skip getOptionalNumber_skip getOptionalBoolean_skip
  getOptionalString_val getOptionalString_Str getOptionalNumber_val getOptionalBoolean_val getOptionalCommand_val

lemma normalizeLocalRTC_again:
  assumes "pred_option rtc_ok (rm_localRTC m)"
  shows "normalizeLocalRTC (machine_heap m) (opt_val (\<lambda>_. Ref 1) (rm_localRTC m)) = Inr (rm_localRTC m)"
proof (cases "rm_localRTC m")
  case (Some r)
  let ?es = "cleanOptional (rtc_entries r)"
  have "deref (machine_heap m) 1 = Obj ?es" using Some by (simp add: deref_def machine_heap_def)
  moreover have "getRequiredString ?es [asc ''signaling_url'', asc ''signalingUrl''] = Inr (signalingUrl r)"
    "getOptionalString ?es [asc ''ice_tcp_url'', asc ''iceTCPUrl''] = Inr (iceTCPUrl r)"
    using assms Some by (simp_all add: getter_rules rtc_entries_def rtc_ok_def del: asc_simps)
  ultimately show ?thesis using Some by (simp add: normalizeLocalRTC_def)
qed (simp add: normalizeLocalRTC_def)

lemma normalizeMachine_again:
  assumes "machine_ok m"
  shows "normalizeMachine (machine_heap m) 0 = Inr m"
proof -
  let ?es = "cleanOptional (machine_entries m)"
  have es: "entries_of (deref (machine_heap m) 0) = ?es" by (simp add: entries_of_def deref_def machine_heap_def)
  have fin: "\<And>q. rm_terminalCount m = Some q \<Longrightarrow> isFinite q" and id: "rm_machineId m \<noteq> []"
    and rtc: "pred_option rtc_ok (rm_localRTC m)" using assms by (auto simp: machine_ok_def)
  have "getRequiredString ?es [asc ''machine_id'', asc ''machineId''] = Inr (rm_machineId m)"
    "getOptionalString ?es [asc ''name''] = Inr (Some (rm_name m))"
    "getOptionalString ?es [asc ''state''] = Inr (Some (machineState_string (rm_state m)))"
    "getOptionalNumber ?es [asc ''terminal_count'', asc ''terminalCount''] = Inr (rm_terminalCount m)"
    "getOptionalString ?es [asc ''last_seen_at'', asc ''lastSeenAt''] = Inr (rm_lastSeenAt m)"
    "nullish (get_prop ?es (asc ''local_rtc'')) (get_prop ?es (asc ''localRTC'')) = opt_val (\<lambda>_. Ref 1) (rm_localRTC m)"
    using fin id by (simp_all add: getter_rules machine_entries_def nullish_def del: asc_simps)
  then show ?thesis
    using normalizeLocalRTC_again [OF rtc]
    by (simp add: normalizeMachine_def machine_shape es machineState_string default_to_def del: asc_simps)
qed

lemma terminal_props:
  "get_prop (terminal_entries t) (asc ''terminal_id'') = Undefined"
  "get_prop (terminal_entries t) (asc ''terminalId'') = Str (rt_terminalId t)"
  "get_prop (terminal_entries t) (asc ''machine_id'') = Undefined"
  "get_prop (terminal_entries t) (asc ''machineId'') = Str (rt_machineId t)"
  "get_prop (terminal_entries t) (asc ''title'') = Str (rt_title t)"
  "get_prop (terminal_entries t) (asc ''state'') = Str (terminalState_string (rt_state t))"
  "get_prop (terminal_entries t) (asc ''command'') = opt_val Str (rt_command t)"
  "get_prop (terminal_entries t) (asc ''cols'') = opt_val Num (rt_cols t)"
  "get_prop (terminal_entries t) (asc ''rows'') = opt_val Num (rt_rows t)"
  "get_prop (terminal_entries t) (asc ''cwd'') = opt_val Str (rt_cwd t)"
  "get_prop (terminal_entries t) (asc ''last_active_at'') = Undefined"
  "get_prop (terminal_entries t) (asc ''lastActiveAt'') = opt_val Str (rt_lastActiveAt t)"
  "get_prop (terminal_entries t) (asc ''foreground_process'') = Undefined"
  "get_prop (terminal_entries t) (asc ''foregroundProcess'') = opt_val Str (rt_foregroundProcess t)"
  "get_prop (terminal_entries t) (asc ''last_output_at'') = Undefined"
  "get_prop (terminal_entries t) (asc ''lastOutputAt'') = opt_val Str (rt_lastOutputAt t)"
  "get_prop (terminal_entries t) (asc ''size_locked'') = Undefined"
  "get_prop (terminal_entries t) (asc ''sizeLocked'') = opt_val Bool (rt_sizeLocked t)"
  "get_prop (terminal_entries t) (asc ''size_lock_mode'') = Undefined"
  "get_prop (terminal_entries t) (asc ''sizeLockMode'') = opt_val (\<lambda>m. Str (sizeLockMode_string m)) (rt_sizeLockMode t)"
  "get_prop (terminal_entries t) (asc ''environment'') = opt_val Str (rt_environment t)"
  "get_prop (terminal_entries t) (asc ''env'') = Undefined"
  "get_prop (terminal_entries t) (asc ''tags'') = opt_val (\<lambda>_. Ref 1) (rt_tags t)"
  "get_prop (terminal_entries t) (asc ''owner_surface_id'') = Undefined"
  "get_prop (terminal_entries t) (asc ''owner_view_id'') = Undefined"
  "get_prop (terminal_entries t) (asc ''resize_ownership'') = Undefined"
  "get_prop (terminal_entries t) (asc ''resize_owner_attachment_count'') = Undefined"
  "get_prop (terminal_entries t) (asc ''resizeOwnerAttachmentCount'') = opt_val Num (rt_resizeOwnerAttachmentCount t)"
  by (simp_all add: terminal_entries_def del: asc_simps)

lemma getOptionalStringRecord_again:
  "getOptionalStringRecord (terminal_heap t) (cleanOptional (terminal_entries t)) [asc ''tags''] = Inr (rt_tags t)"
proof (cases "rt_tags t")
  case None
  then show ?thesis by (simp add: getOptionalStringRecord_def terminal_props del: asc_simps)
next
  case (Some kvs)
  then have "deref (terminal_heap t) 1 = Obj (map (\<lambda>e. (fst e, Str (snd e))) kvs)" by (simp add: deref_def terminal_heap_def)
  with Some show ?thesis
    by (simp add: getOptionalStringRecord_def asStringRecord_def terminal_props is_string_def the_string_def comp_def
        list_all_iff del: asc_simps)
qed

lemma normalizeTerminal_again:
  assumes "terminal_ok t"
  shows "normalizeTerminal (terminal_heap t) 0 = Inr (t\<lparr>rt_resizeOwnerSurfaceId := None, rt_resizeOwnerViewId := None\<rparr>)"
proof -
  let ?es = "cleanOptional (terminal_entries t)"
  have es: "entries_of (deref (terminal_heap t) 0) = ?es" by (simp add: entries_of_def deref_def terminal_heap_def)
  have fin: "\<And>q. rt_cols t = Some q \<Longrightarrow> isFinite q" "\<And>q. rt_rows t = Some q \<Longrightarrow> isFinite q"
    "\<And>q. rt_resizeOwnerAttachmentCount t = Some q \<Longrightarrow> isFinite q"
    and id: "rt_terminalId t \<noteq> []" "rt_machineId t \<noteq> []" using assms by (auto simp: terminal_ok_def)
  have "getRequiredString ?es [asc ''terminal_id'', asc ''terminalId''] = Inr (rt_terminalId t)"
    "getRequiredString ?es [asc ''machine_id'', asc ''machineId''] = Inr (rt_machineId t)"
    "getOptionalString ?es [asc ''state''] = Inr (Some (terminalState_string (rt_state t)))"
    "getOptionalCommand (terminal_heap t) ?es [asc ''command''] = Inr (rt_command t)"
    "getOptionalNumber ?es [asc ''cols''] = Inr (rt_cols t)" "getOptionalNumber ?es [asc ''rows''] = Inr (rt_rows t)"
    "getOptionalString ?es [asc ''cwd''] = Inr (rt_cwd t)"
    "getOptionalString ?es [asc ''last_active_at'', asc ''lastActiveAt''] = Inr (rt_lastActiveAt t)"
    "getOptionalString ?es [asc ''foreground_process'', asc ''foregroundProcess''] = Inr (rt_foregroundProcess t)"
    "getOptionalString ?es [asc ''last_output_at'', asc ''lastOutputAt''] = Inr (rt_lastOutputAt t)"
    "getOptionalBoolean ?es [asc ''size_locked'', asc ''sizeLocked''] = Inr (rt_sizeLocked t)"
    "getOptionalString ?es [asc ''size_lock_mode'', asc ''sizeLockMode''] = Inr (map_option sizeLockMode_string (rt_sizeLockMode t))"
    "getOptionalNumber ?es [asc ''resize_owner_attachment_count'', asc ''resizeOwnerAttachmentCount''] = Inr (rt_resizeOwnerAttachmentCount t)"
    using fin id by (simp_all add: getter_rules terminal_props opt_val_map [of sizeLockMode_string] del: asc_simps)
  moreover have "getResizeOwnershipString (terminal_heap t) ?es (asc ''owner_surface_id'') = Inr None"
    "getResizeOwnershipString (terminal_heap t) ?es (asc ''owner_view_id'') = Inr None"
    by (simp_all add: getResizeOwnershipString_def getOptionalString_def terminal_props del: asc_simps)
  moreover have "getOptionalString ?es [asc ''title'', asc ''name''] = Inr (Some (rt_title t))"
    by (simp add: getOptionalString_def asString_def terminal_props del: asc_simps)
  moreover have "getOptionalString ?es [asc ''environment'', asc ''env''] = Inr (rt_environment t)"
    by (cases "rt_environment t") (simp_all add: getOptionalString_def asString_def terminal_props del: asc_simps)
  ultimately show ?thesis
    by (simp add: normalizeTerminal_def terminal_shape es terminalState_string sizeLockMode_string getOptionalStringRecord_again default_to_def
        del: asc_simps)
qed

text \<open>
  C15: every machine and terminal that normalisation lets through is well formed (identifiers are
  not empty, numbers are finite, the local RTC address is present) and in normal form: passed
  through the boundary again as the object the code returns, a machine comes back unchanged, and a
  terminal unchanged except that the owner of its size is lost, which is read under its snake-case
  names only.
\<close>

theorem normalize_normal_forms:
  assumes "normalizeMachine h a = Inr m" and "normalizeTerminal g b = Inr t"
  shows "machine_ok m \<and> normalizeMachine (machine_heap m) 0 = Inr m \<and>
    terminal_ok t \<and> normalizeTerminal (terminal_heap t) 0 = Inr (t\<lparr>rt_resizeOwnerSurfaceId := None, rt_resizeOwnerViewId := None\<rparr>)"
  using normalizeMachine_ok [OF assms(1)] normalizeTerminal_ok [OF assms(2)] normalizeMachine_again normalizeTerminal_again
  by blast

definition sample_machine :: jsheap where
  "sample_machine = [Obj [(asc ''machine_id'', Str (asc ''m1'')), (asc ''state'', Str (asc ''online''))]]"

definition sample_terminal :: jsheap where
  "sample_terminal =
     [Obj [(asc ''terminal_id'', Str (asc ''t1'')), (asc ''machine_id'', Str (asc ''m1'')), (asc ''resize_ownership'', Ref 1)],
      Obj [(asc ''owner_view_id'', Str (asc ''v1''))]]"

lemma sample_machine_read: "case normalizeMachine sample_machine 0 of Inl _ \<Rightarrow> False | Inr m \<Rightarrow> rm_name m = asc ''m1''"
  by code_simp

lemma sample_terminal_read:
  "case normalizeTerminal sample_terminal 0 of Inl _ \<Rightarrow> False | Inr t \<Rightarrow> rt_resizeOwnerViewId t = Some (asc ''v1'')"
  by code_simp

theorem normalize_normal_forms_witness:
  "\<exists>m t. normalizeMachine sample_machine 0 = Inr m \<and> normalizeMachine (machine_heap m) 0 = Inr m \<and>
     normalizeTerminal sample_terminal 0 = Inr t \<and> normalizeTerminal (terminal_heap t) 0 \<noteq> Inr t"
proof -
  obtain m where m: "normalizeMachine sample_machine 0 = Inr m"
    using sample_machine_read by (auto split: sum.splits)
  obtain t where t: "normalizeTerminal sample_terminal 0 = Inr t" and v: "rt_resizeOwnerViewId t = Some (asc ''v1'')"
    using sample_terminal_read by (auto split: sum.splits simp del: asc_simps)
  have "t\<lparr>rt_resizeOwnerSurfaceId := None, rt_resizeOwnerViewId := None\<rparr> \<noteq> t"
    using v by (cases t) simp
  with normalize_normal_forms [OF m t] m t show ?thesis by force
qed

end
