(* ===== verification/Connection.thy ===== *)
theory Connection
  imports RemoteModel
begin

text \<open>
  The connection reducer of \<open>clients/ui/src/connection/connectionMessageReducer.ts\<close>: the snapshot of a
  connection, the messages that change it, one equation of \<open>reduce_body\<close> per \<open>case\<close> of the
  \<open>switch\<close>, and the boundary check in front of it. The check sees a message as an object
  of a store; the reducer proper sees its typed form. A \<open>Record\<close> of channels is a map; assigning to the
  key \<open>__proto__\<close>, as \<open>mapChannelStates\<close> does, makes no entry, whereas an object literal does.
  An optional property that \<open>cleanSnapshot\<close> would delete is \<open>None\<close>.
\<close>

section \<open>Definitions\<close>

datatype connectionPath = PathLocal | PathHub
datatype connectionPhase =
  Idle | Probing | Connecting | Connected | Verifying | Reconnecting | WaitingNetwork | Failed | Released

datatype userIntent = IntentConnect ustr | IntentTerminal ustr ustr | IntentFiles ustr

datatype channelState = ChClosed | ChOpening | ChOpen | ChVerifying | ChFailed

record channelLifecycle =
  ch_state :: channelState
  ch_error :: "ustr option"

datatype surface = Toast | Banner | Modal

record visibleError =
  ve_message :: ustr
  ve_recoverable :: bool
  ve_surface :: surface

type_synonym channels = "ustr \<rightharpoonup> channelLifecycle"

record connectionSnapshot =
  cs_phase :: connectionPhase
  cs_path :: "connectionPath option"
  cs_connectionId :: "ustr option"
  cs_machineId :: "ustr option"
  cs_activeTerminalId :: "ustr option"
  cs_reconnectAttempt :: nat
  cs_resumeVerificationRequired :: bool
  cs_userIntent :: "userIntent option"
  cs_terminalChannels :: channels
  cs_fileManagers :: channels
  cs_visibleError :: "visibleError option"

datatype resumeKind = ResumeQuick | ResumeCold | ResumeFrozen

datatype connectionMessage =
  UserConnectMachine ustr
| UserOpenTerminal ustr ustr
| UserOpenFileManager ustr
| UserRetry
| UserRelease
| ConnectionConnecting connectionPath
| ConnectionConnected connectionPath ustr
| ConnectionDisconnected "ustr option"
| ConnectionFailed ustr bool surface
| ConnectionVerified ustr
| NetworkOffline
| NetworkOnline
| AppResume resumeKind
| TerminalChannelOpen ustr ustr
| TerminalChannelClosed ustr ustr "ustr option"
| FileChannelOpen ustr
| FileChannelClosed ustr "ustr option"

definition initialConnectionSnapshot :: connectionSnapshot where
  "initialConnectionSnapshot =
     \<lparr>cs_phase = Idle, cs_path = None, cs_connectionId = None, cs_machineId = None, cs_activeTerminalId = None,
      cs_reconnectAttempt = 0, cs_resumeVerificationRequired = False, cs_userIntent = None,
      cs_terminalChannels = Map.empty, cs_fileManagers = Map.empty, cs_visibleError = None\<rparr>"

definition channel :: "channelState \<Rightarrow> channelLifecycle" where
  "channel st = \<lparr>ch_state = st, ch_error = None\<rparr>"

definition setChannelState :: "channels \<Rightarrow> ustr \<Rightarrow> channelLifecycle \<Rightarrow> channels" where
  "setChannelState chs channelId st = chs(channelId \<mapsto> st)"

definition mapChannelStates :: "channels \<Rightarrow> (channelLifecycle \<Rightarrow> channelLifecycle) \<Rightarrow> channels" where
  "mapChannelStates chs mapper = (\<lambda>channelId. if channelId = asc ''__proto__'' then None else map_option mapper (chs channelId))"

definition markOpenChannelsVerifying :: "channels \<Rightarrow> channels" where
  "markOpenChannelsVerifying chs = mapChannelStates chs (\<lambda>c. if ch_state c = ChOpen then channel ChVerifying else c)"

definition openVerifyingChannels :: "channels \<Rightarrow> channels" where
  "openVerifyingChannels chs = mapChannelStates chs (\<lambda>c. if ch_state c = ChVerifying then channel ChOpen else c)"

text \<open>\<open>message.reason ? { state: 'failed', error } : { state: 'closed' }\<close>: an empty reason counts as none.\<close>

definition closedChannel :: "ustr option \<Rightarrow> channelLifecycle" where
  "closedChannel reason =
     (case reason of
        Some (c # r) \<Rightarrow> \<lparr>ch_state = ChFailed, ch_error = Some (c # r)\<rparr>
      | _ \<Rightarrow> channel ChClosed)"

fun reduce_body :: "connectionSnapshot \<Rightarrow> connectionMessage \<Rightarrow> connectionSnapshot" where
  "reduce_body s (UserConnectMachine mid) =
     s\<lparr>cs_phase := Probing, cs_machineId := Some mid, cs_userIntent := Some (IntentConnect mid), cs_visibleError := None\<rparr>"
| "reduce_body s (ConnectionConnecting path) = s\<lparr>cs_phase := Connecting, cs_path := Some path\<rparr>"
| "reduce_body s (ConnectionConnected path cid) =
     s\<lparr>cs_phase := Connected, cs_path := Some path, cs_connectionId := Some cid, cs_reconnectAttempt := 0,
       cs_resumeVerificationRequired := False, cs_terminalChannels := openVerifyingChannels (cs_terminalChannels s),
       cs_fileManagers := openVerifyingChannels (cs_fileManagers s), cs_visibleError := None\<rparr>"
| "reduce_body s (UserOpenTerminal mid tid) =
     s\<lparr>cs_machineId := Some mid, cs_activeTerminalId := Some tid, cs_userIntent := Some (IntentTerminal mid tid),
       cs_terminalChannels := (cs_terminalChannels s)(tid \<mapsto> channel ChOpening)\<rparr>"
| "reduce_body s (TerminalChannelOpen mid tid) =
     s\<lparr>cs_machineId := Some mid, cs_activeTerminalId := Some tid, cs_visibleError := None,
       cs_terminalChannels := (cs_terminalChannels s)(tid \<mapsto> channel ChOpen)\<rparr>"
| "reduce_body s (TerminalChannelClosed mid tid reason) =
     s\<lparr>cs_terminalChannels := setChannelState (cs_terminalChannels s) tid (closedChannel reason)\<rparr>"
| "reduce_body s (UserOpenFileManager mid) =
     s\<lparr>cs_machineId := Some mid, cs_userIntent := Some (IntentFiles mid),
       cs_fileManagers := (cs_fileManagers s)(mid \<mapsto> channel ChOpening)\<rparr>"
| "reduce_body s (FileChannelOpen mid) =
     s\<lparr>cs_machineId := Some mid, cs_visibleError := None, cs_fileManagers := (cs_fileManagers s)(mid \<mapsto> channel ChOpen)\<rparr>"
| "reduce_body s (FileChannelClosed mid reason) =
     s\<lparr>cs_fileManagers := setChannelState (cs_fileManagers s) mid (closedChannel reason)\<rparr>"
| "reduce_body s (AppResume kind) =
     (if cs_phase s \<noteq> Connected \<and> cs_phase s \<noteq> Reconnecting \<and> cs_phase s \<noteq> WaitingNetwork then s
      else s\<lparr>cs_phase := Verifying, cs_resumeVerificationRequired := True,
        cs_terminalChannels := markOpenChannelsVerifying (cs_terminalChannels s),
        cs_fileManagers := markOpenChannelsVerifying (cs_fileManagers s)\<rparr>)"
| "reduce_body s (ConnectionVerified cid) =
     s\<lparr>cs_phase := Connected, cs_connectionId := Some cid, cs_resumeVerificationRequired := False,
       cs_terminalChannels := openVerifyingChannels (cs_terminalChannels s),
       cs_fileManagers := openVerifyingChannels (cs_fileManagers s), cs_visibleError := None\<rparr>"
| "reduce_body s NetworkOffline = s\<lparr>cs_phase := WaitingNetwork\<rparr>"
| "reduce_body s NetworkOnline =
     (if cs_phase s \<noteq> WaitingNetwork \<and> cs_phase s \<noteq> Failed then s
      else s\<lparr>cs_phase := Reconnecting, cs_reconnectAttempt := cs_reconnectAttempt s + 1, cs_visibleError := None\<rparr>)"
| "reduce_body s (ConnectionDisconnected reason) =
     s\<lparr>cs_phase := Reconnecting, cs_reconnectAttempt := cs_reconnectAttempt s + 1\<rparr>"
| "reduce_body s (ConnectionFailed reason recoverable sf) =
     s\<lparr>cs_phase := Failed, cs_visibleError := Some \<lparr>ve_message = reason, ve_recoverable = recoverable, ve_surface = sf\<rparr>\<rparr>"
| "reduce_body s UserRetry =
     s\<lparr>cs_phase := Reconnecting, cs_reconnectAttempt := 0, cs_resumeVerificationRequired := False, cs_visibleError := None\<rparr>"
| "reduce_body s UserRelease = s\<lparr>cs_phase := Released, cs_visibleError := None\<rparr>"

definition leakKeys :: "ustr list" where
  "leakKeys = map asc [''peerConnection'', ''rtcDataChannel'', ''nativePlugin'']"

definition assertNoTransportImplementationLeak :: "jsheap \<Rightarrow> jsval \<Rightarrow> ustr + unit" where
  "assertNoTransportImplementationLeak h value =
     (case the (walk_all (\<lambda>k. False) (\<lambda>k. k \<in> set leakKeys) h value) of
        Inl key \<Rightarrow> Inl (asc ''connection message must not contain '' @ key)
      | Inr _ \<Rightarrow> Inr ())"

definition assertMessageBoundary :: "jsheap \<Rightarrow> jsval \<Rightarrow> ustr + unit" where
  "assertMessageBoundary h message =
     andThen (assertRemoteModelShape h message) (\<lambda>_. assertNoTransportImplementationLeak h message)"

text \<open>A message with the object it is: the boundary reads the object, the \<open>switch\<close> the typed form.\<close>

record rawMessage =
  raw_heap :: jsheap
  raw_value :: jsval
  raw_message :: connectionMessage

definition reduceConnectionMessage :: "connectionSnapshot \<Rightarrow> rawMessage \<Rightarrow> ustr + connectionSnapshot" where
  "reduceConnectionMessage s m =
     andThen (assertMessageBoundary (raw_heap m) (raw_value m)) (\<lambda>_. Inr (reduce_body s (raw_message m)))"

section \<open>Channels\<close>

text \<open>A channel has an error exactly when it failed, and the error says something.\<close>

definition channel_ok :: "channelLifecycle \<Rightarrow> bool" where
  "channel_ok c \<longleftrightarrow> (ch_error c \<noteq> None \<longleftrightarrow> ch_state c = ChFailed) \<and> ch_error c \<noteq> Some []"

definition channels_ok :: "channels \<Rightarrow> bool" where
  "channels_ok chs \<longleftrightarrow> (\<forall>k c. chs k = Some c \<longrightarrow> channel_ok c)"

definition none_verifying :: "channels \<Rightarrow> bool" where
  "none_verifying chs \<longleftrightarrow> (\<forall>k c. chs k = Some c \<longrightarrow> ch_state c \<noteq> ChVerifying)"

lemma channel_simps [simp]: "ch_state (channel st) = st" "ch_error (channel st) = None"
  by (simp_all add: channel_def)

lemma channel_ok_channel [simp]: "channel_ok (channel st) \<longleftrightarrow> st \<noteq> ChFailed"
  by (simp add: channel_ok_def)

lemma channel_ok_closed [simp]: "channel_ok (closedChannel reason)"
  by (auto simp: closedChannel_def channel_ok_def split: option.split list.split)

lemma closed_not_verifying [simp]: "ch_state (closedChannel reason) \<noteq> ChVerifying"
  by (auto simp: closedChannel_def split: option.split list.split)

lemma channels_ok_upd: "channels_ok chs \<Longrightarrow> channel_ok c \<Longrightarrow> channels_ok (chs(k \<mapsto> c))"
  by (simp add: channels_ok_def)

lemma none_verifying_upd: "none_verifying chs \<Longrightarrow> ch_state c \<noteq> ChVerifying \<Longrightarrow> none_verifying (chs(k \<mapsto> c))"
  by (simp add: none_verifying_def)

lemma channels_ok_map:
  "channels_ok chs \<Longrightarrow> (\<And>c. channel_ok c \<Longrightarrow> channel_ok (f c)) \<Longrightarrow> channels_ok (mapChannelStates chs f)"
  by (auto simp: channels_ok_def mapChannelStates_def split: if_split_asm simp del: asc_simps)

lemma channels_ok_mark: "channels_ok chs \<Longrightarrow> channels_ok (markOpenChannelsVerifying chs)"
  unfolding markOpenChannelsVerifying_def by (erule channels_ok_map) simp

lemma channels_ok_open: "channels_ok chs \<Longrightarrow> channels_ok (openVerifyingChannels chs)"
  unfolding openVerifyingChannels_def by (erule channels_ok_map) simp

lemma none_verifying_open: "none_verifying (openVerifyingChannels chs)"
  by (auto simp: none_verifying_def openVerifyingChannels_def mapChannelStates_def split: if_split_asm simp del: asc_simps)

lemma dom_map: "dom (mapChannelStates chs f) = dom chs - {asc ''__proto__''}"
  by (auto simp: mapChannelStates_def split: if_split_asm simp del: asc_simps)

lemma dom_mark: "dom (markOpenChannelsVerifying chs) = dom chs - {asc ''__proto__''}"
  by (simp add: markOpenChannelsVerifying_def dom_map del: asc_simps)

lemma dom_open: "dom (openVerifyingChannels chs) = dom chs - {asc ''__proto__''}"
  by (simp add: openVerifyingChannels_def dom_map del: asc_simps)

lemma open_mark:
  assumes "channels_ok chs" and "none_verifying chs" and "asc ''__proto__'' \<notin> dom chs"
  shows "openVerifyingChannels (markOpenChannelsVerifying chs) = chs"
proof
  fix k
  show "openVerifyingChannels (markOpenChannelsVerifying chs) k = chs k"
  proof (cases "chs k")
    case None
    then show ?thesis by (simp add: openVerifyingChannels_def markOpenChannelsVerifying_def mapChannelStates_def del: asc_simps)
  next
    case (Some c)
    then have k: "k \<noteq> asc ''__proto__''" "channel_ok c" "ch_state c \<noteq> ChVerifying"
      using assms by (auto simp: channels_ok_def none_verifying_def)
    then have "ch_state c = ChOpen \<Longrightarrow> channel ChOpen = c" by (cases c) (simp add: channel_ok_def channel_def)
    with Some k show ?thesis
      by (simp add: openVerifyingChannels_def markOpenChannelsVerifying_def mapChannelStates_def del: asc_simps)
  qed
qed

section \<open>Snapshots\<close>

definition known :: "ustr \<Rightarrow> channels \<Rightarrow> bool" where
  "known k chs \<longleftrightarrow> k \<in> dom chs \<union> {asc ''__proto__''}"

definition intent_known :: "userIntent option \<Rightarrow> channels \<Rightarrow> channels \<Rightarrow> bool" where
  "intent_known i terminals files =
     (case i of Some (IntentTerminal m t) \<Rightarrow> known t terminals | Some (IntentFiles m) \<Rightarrow> known m files | _ \<Rightarrow> True)"

definition snapshot_ok :: "connectionSnapshot \<Rightarrow> bool" where
  "snapshot_ok s \<longleftrightarrow>
     channels_ok (cs_terminalChannels s) \<and> channels_ok (cs_fileManagers s) \<and>
     (cs_phase s = Connected \<longrightarrow>
        cs_connectionId s \<noteq> None \<and> \<not> cs_resumeVerificationRequired s \<and>
        none_verifying (cs_terminalChannels s) \<and> none_verifying (cs_fileManagers s)) \<and>
     pred_option (\<lambda>t. known t (cs_terminalChannels s)) (cs_activeTerminalId s) \<and>
     intent_known (cs_userIntent s) (cs_terminalChannels s) (cs_fileManagers s)"

lemma intent_known_simps [simp]:
  "intent_known None ts fs" "intent_known (Some (IntentConnect m)) ts fs"
  "intent_known (Some (IntentTerminal m t)) ts fs \<longleftrightarrow> known t ts" "intent_known (Some (IntentFiles m)) ts fs \<longleftrightarrow> known m fs"
  by (simp_all add: intent_known_def)

lemma known_upd: "known k chs \<Longrightarrow> known k (chs(j \<mapsto> c))" "known j (chs(j \<mapsto> c))"
  by (auto simp: known_def)

lemma known_map: "known k chs \<Longrightarrow> known k (markOpenChannelsVerifying chs)" "known k chs \<Longrightarrow> known k (openVerifyingChannels chs)"
  by (auto simp: known_def dom_mark dom_open simp del: asc_simps)

lemma intent_known_mono:
  "intent_known i ts fs \<Longrightarrow> (\<And>k. known k ts \<Longrightarrow> known k ts') \<Longrightarrow> (\<And>k. known k fs \<Longrightarrow> known k fs') \<Longrightarrow> intent_known i ts' fs'"
  by (auto simp: intent_known_def split: option.splits userIntent.splits)

lemma active_known_mono:
  "pred_option (\<lambda>t. known t ts) a \<Longrightarrow> (\<And>k. known k ts \<Longrightarrow> known k ts') \<Longrightarrow> pred_option (\<lambda>t. known t ts') a"
  by (cases a) auto

lemmas snapshot_rules =
  channels_ok_upd channels_ok_mark channels_ok_open none_verifying_upd none_verifying_open known_upd known_map

lemma snapshot_okI:
  assumes "channels_ok (cs_terminalChannels s)" and "channels_ok (cs_fileManagers s)"
    and "cs_phase s = Connected \<Longrightarrow> cs_connectionId s \<noteq> None \<and> \<not> cs_resumeVerificationRequired s \<and>
        none_verifying (cs_terminalChannels s) \<and> none_verifying (cs_fileManagers s)"
    and "pred_option (\<lambda>t. known t (cs_terminalChannels s)) (cs_activeTerminalId s)"
    and "intent_known (cs_userIntent s) (cs_terminalChannels s) (cs_fileManagers s)"
  shows "snapshot_ok s"
  using assms by (simp add: snapshot_ok_def)

lemma snapshot_ok_reduce:
  assumes "snapshot_ok s"
  shows "snapshot_ok (reduce_body s m)"
proof -
  have ok: "channels_ok (cs_terminalChannels s)" "channels_ok (cs_fileManagers s)"
    and act: "pred_option (\<lambda>t. known t (cs_terminalChannels s)) (cs_activeTerminalId s)"
    and int: "intent_known (cs_userIntent s) (cs_terminalChannels s) (cs_fileManagers s)"
    and conn: "cs_phase s = Connected \<Longrightarrow> cs_connectionId s \<noteq> None \<and> \<not> cs_resumeVerificationRequired s \<and>
        none_verifying (cs_terminalChannels s) \<and> none_verifying (cs_fileManagers s)"
    using assms by (simp_all add: snapshot_ok_def)
  have int_t: "intent_known (cs_userIntent s) ((cs_terminalChannels s)(k \<mapsto> c)) (cs_fileManagers s)"
    and int_f: "intent_known (cs_userIntent s) (cs_terminalChannels s) ((cs_fileManagers s)(k \<mapsto> c))"
    and act_t: "pred_option (\<lambda>t. known t ((cs_terminalChannels s)(k \<mapsto> c))) (cs_activeTerminalId s)" for k c
    by (rule intent_known_mono [OF int] active_known_mono [OF act]; simp add: known_upd)+
  have int_m: "intent_known (cs_userIntent s) (markOpenChannelsVerifying (cs_terminalChannels s)) (markOpenChannelsVerifying (cs_fileManagers s))"
    and int_o: "intent_known (cs_userIntent s) (openVerifyingChannels (cs_terminalChannels s)) (openVerifyingChannels (cs_fileManagers s))"
    and act_m: "pred_option (\<lambda>t. known t (markOpenChannelsVerifying (cs_terminalChannels s))) (cs_activeTerminalId s)"
    and act_o: "pred_option (\<lambda>t. known t (openVerifyingChannels (cs_terminalChannels s))) (cs_activeTerminalId s)"
    by (rule intent_known_mono [OF int] active_known_mono [OF act]; simp add: known_map)+
  show ?thesis
    using ok act int conn
    by (cases m) (auto intro!: snapshot_okI simp: snapshot_rules setChannelState_def int_t int_f act_t int_m int_o act_m act_o
        simp del: asc_simps fun_upd_apply)
qed

section \<open>Sessions\<close>

text \<open>A message that the boundary refuses leaves the snapshot with the caller as it was.\<close>

definition connectionStep :: "connectionSnapshot \<Rightarrow> rawMessage \<Rightarrow> connectionSnapshot" where
  "connectionStep s m = (case reduceConnectionMessage s m of Inl e \<Rightarrow> s | Inr s' \<Rightarrow> s')"

definition accepted :: "rawMessage \<Rightarrow> bool" where
  "accepted m \<longleftrightarrow> assertMessageBoundary (raw_heap m) (raw_value m) = Inr ()"

lemma connectionStep_eq: "connectionStep s m = (if accepted m then reduce_body s (raw_message m) else s)"
  by (cases "assertMessageBoundary (raw_heap m) (raw_value m)")
    (auto simp: connectionStep_def reduceConnectionMessage_def accepted_def)

interpretation cx: machine initialConnectionSnapshot connectionStep snapshot_ok
proof
  show "snapshot_ok initialConnectionSnapshot"
    by (simp add: snapshot_ok_def initialConnectionSnapshot_def channels_ok_def)
  show "snapshot_ok s \<Longrightarrow> snapshot_ok (connectionStep s m)" for s m
    by (simp add: connectionStep_eq snapshot_ok_reduce)
qed






lemma resume_phase: "cs_phase s = Connected \<Longrightarrow> reduce_body s (AppResume k) =
    s\<lparr>cs_phase := Verifying, cs_resumeVerificationRequired := True,
      cs_terminalChannels := markOpenChannelsVerifying (cs_terminalChannels s),
      cs_fileManagers := markOpenChannelsVerifying (cs_fileManagers s)\<rparr>"
  by simp

lemma mark_none_open:
  "markOpenChannelsVerifying chs k = Some c \<Longrightarrow> ch_state c \<noteq> ChOpen"
  by (auto simp: markOpenChannelsVerifying_def mapChannelStates_def split: if_split_asm simp del: asc_simps)

lemma mark_verifying:
  "chs k = Some c \<Longrightarrow> ch_state c = ChOpen \<Longrightarrow> k \<noteq> asc ''__proto__'' \<Longrightarrow>
    markOpenChannelsVerifying chs k = Some (channel ChVerifying)"
  by (simp add: markOpenChannelsVerifying_def mapChannelStates_def del: asc_simps)

text \<open>
  C31: a connected session that the application resumes, with no channel under the key \<open>__proto__\<close>,
  is verified before it counts as connected again. After the resume its phase is \<open>verifying\<close>, the
  verification is marked as required, no terminal channel and no file manager channel is open, and
  each that was open is \<open>verifying\<close>. Once the connection is verified, the snapshot is the one before
  the resume, phase and channels of both kinds included, but for the connection id and a visible
  error, which is gone.
\<close>

theorem resume_then_verified:
  assumes "s = foldl connectionStep initialConnectionSnapshot ms" and "cs_phase s = Connected"
    and "asc ''__proto__'' \<notin> dom (cs_terminalChannels s) \<union> dom (cs_fileManagers s)"
    and "r = reduce_body s (AppResume k)"
  shows "cs_phase r = Verifying \<and> cs_resumeVerificationRequired r \<and>
    (\<forall>t c. cs_terminalChannels r t = Some c \<longrightarrow> ch_state c \<noteq> ChOpen) \<and>
    (\<forall>t c. cs_fileManagers r t = Some c \<longrightarrow> ch_state c \<noteq> ChOpen) \<and>
    (\<forall>t c. cs_terminalChannels s t = Some c \<and> ch_state c = ChOpen \<longrightarrow> cs_terminalChannels r t = Some (channel ChVerifying)) \<and>
    (\<forall>t c. cs_fileManagers s t = Some c \<and> ch_state c = ChOpen \<longrightarrow> cs_fileManagers r t = Some (channel ChVerifying)) \<and>
    reduce_body r (ConnectionVerified cid) = s\<lparr>cs_connectionId := Some cid, cs_visibleError := None\<rparr>"
proof -
  have ok: "snapshot_ok s" unfolding assms(1) by (rule cx.inv_run)
  note r = assms(4) [unfolded resume_phase [OF assms(2)]]
  have "openVerifyingChannels (markOpenChannelsVerifying (cs_terminalChannels s)) = cs_terminalChannels s"
    "openVerifyingChannels (markOpenChannelsVerifying (cs_fileManagers s)) = cs_fileManagers s"
    using ok assms(2,3) by (auto intro!: open_mark simp: snapshot_ok_def simp del: asc_simps)
  moreover have "\<not> cs_resumeVerificationRequired s" using ok assms(2) by (simp add: snapshot_ok_def)
  ultimately have again: "reduce_body r (ConnectionVerified cid) = s\<lparr>cs_connectionId := Some cid, cs_visibleError := None\<rparr>"
    using assms(2) unfolding r by simp
  have key: "t \<noteq> asc ''__proto__''" if "cs_terminalChannels s t = Some c \<or> cs_fileManagers s t = Some c" for t c
    using that assms(3) by blast
  have maps: "cs_phase r = Verifying" "cs_resumeVerificationRequired r"
    "cs_terminalChannels r = markOpenChannelsVerifying (cs_terminalChannels s)"
    "cs_fileManagers r = markOpenChannelsVerifying (cs_fileManagers s)" unfolding r by simp_all
  have "\<forall>t c. cs_terminalChannels r t = Some c \<longrightarrow> ch_state c \<noteq> ChOpen"
    "\<forall>t c. cs_fileManagers r t = Some c \<longrightarrow> ch_state c \<noteq> ChOpen"
    unfolding maps by (intro allI impI, erule mark_none_open)+
  moreover have
    "\<forall>t c. cs_terminalChannels s t = Some c \<and> ch_state c = ChOpen \<longrightarrow> cs_terminalChannels r t = Some (channel ChVerifying)"
    "\<forall>t c. cs_fileManagers s t = Some c \<and> ch_state c = ChOpen \<longrightarrow> cs_fileManagers r t = Some (channel ChVerifying)"
    unfolding maps by (intro allI impI, elim conjE, rule mark_verifying, assumption, assumption, rule key, blast)+
  ultimately show ?thesis using maps(1,2) again by (intro conjI)
qed

definition connected_message :: rawMessage where
  "connected_message =
     \<lparr>raw_heap = [Obj [(asc ''type'', Str (asc ''connection.connected'')), (asc ''path'', Str (asc ''local'')),
        (asc ''connectionId'', Str (asc ''c1''))]],
      raw_value = Ref 0, raw_message = ConnectionConnected PathLocal (asc ''c1'')\<rparr>"

definition opened_message :: rawMessage where
  "opened_message =
     \<lparr>raw_heap = [Obj [(asc ''type'', Str (asc ''terminal.channelOpen'')), (asc ''machineId'', Str (asc ''m1'')),
        (asc ''terminalId'', Str (asc ''t1''))]],
      raw_value = Ref 0, raw_message = TerminalChannelOpen (asc ''m1'') (asc ''t1'')\<rparr>"

definition files_message :: rawMessage where
  "files_message =
     \<lparr>raw_heap = [Obj [(asc ''type'', Str (asc ''file.channelOpen'')), (asc ''machineId'', Str (asc ''m1''))]],
      raw_value = Ref 0, raw_message = FileChannelOpen (asc ''m1'')\<rparr>"

lemma sample_messages_accepted [simp]: "accepted connected_message" "accepted opened_message" "accepted files_message"
  by (simp_all add: accepted_def connected_message_def opened_message_def files_message_def assertMessageBoundary_def assertRemoteModelShape_def
      assertNoTransportImplementationLeak_def walk_all_def deref_def entry_body_def skip_tags_def leakKeys_def
      blockedPublicModelKeys_def del: asc_simps)

lemma sample_messages_body:
  "raw_message connected_message = ConnectionConnected PathLocal (asc ''c1'')"
  "raw_message opened_message = TerminalChannelOpen (asc ''m1'') (asc ''t1'')"
  "raw_message files_message = FileChannelOpen (asc ''m1'')"
  by (simp_all add: connected_message_def opened_message_def files_message_def del: asc_simps)

lemma open_none: "openVerifyingChannels Map.empty = Map.empty"
  by (rule ext) (simp add: openVerifyingChannels_def mapChannelStates_def del: asc_simps)

theorem resume_then_verified_witness:
  "let s = foldl connectionStep initialConnectionSnapshot [connected_message, opened_message, files_message];
       r = reduce_body s (AppResume ResumeCold) in
   cs_phase s = Connected \<and> cs_terminalChannels s (asc ''t1'') = Some (channel ChOpen) \<and>
   cs_fileManagers s (asc ''m1'') = Some (channel ChOpen) \<and> cs_phase r = Verifying \<and>
   cs_terminalChannels r (asc ''t1'') = Some (channel ChVerifying) \<and>
   cs_fileManagers r (asc ''m1'') = Some (channel ChVerifying) \<and>
   reduce_body r (ConnectionVerified (asc ''c2'')) = s\<lparr>cs_connectionId := Some (asc ''c2''), cs_visibleError := None\<rparr>"
proof -
  define s where "s = foldl connectionStep initialConnectionSnapshot [connected_message, opened_message, files_message]"
  define r where "r = reduce_body s (AppResume ResumeCold)"
  have e: "cs_phase s = Connected" "cs_terminalChannels s = [asc ''t1'' \<mapsto> channel ChOpen]"
    "cs_fileManagers s = [asc ''m1'' \<mapsto> channel ChOpen]"
    by (simp_all add: s_def connectionStep_eq initialConnectionSnapshot_def sample_messages_body open_none setChannelState_def
        del: asc_simps fun_upd_apply)
  have p: "asc ''__proto__'' \<notin> dom (cs_terminalChannels s) \<union> dom (cs_fileManagers s)" by (simp add: e)
  have at: "cs_terminalChannels s (asc ''t1'') = Some (channel ChOpen)" "cs_fileManagers s (asc ''m1'') = Some (channel ChOpen)"
    by (simp_all add: e)
  from resume_then_verified [OF s_def e(1) p r_def, of "asc ''c2''"] at
  have "cs_phase r = Verifying" "cs_terminalChannels r (asc ''t1'') = Some (channel ChVerifying)"
    "cs_fileManagers r (asc ''m1'') = Some (channel ChVerifying)"
    "reduce_body r (ConnectionVerified (asc ''c2'')) = s\<lparr>cs_connectionId := Some (asc ''c2''), cs_visibleError := None\<rparr>"
    using channel_simps(1) [of ChOpen] by blast+
  with e(1) at show ?thesis unfolding Let_def s_def [symmetric] r_def [symmetric] by (intro conjI)
qed

end
