(* ===== verification/EventQueue.thy ===== *)
theory EventQueue
  imports Connection
begin

text \<open>
  The queue of connection events of \<open>clients/ui/src/connection/eventQueue.ts\<close>: events ordered by their
  sequence number, duplicates refused by id, and at most \<open>maxSize\<close> of them kept, with connection
  chatter dropped first. \<open>Array.prototype.sort\<close> is stable, as \<open>sort_by\<close> is.
\<close>

section \<open>Definitions\<close>

record queuedEvent =
  qe_id :: ustr
  qe_sequence :: js_number
  qe_message :: rawMessage

record eventQueue =
  eq_maxSize :: nat
  eq_droppedDuplicateCount :: nat
  eq_droppedBackpressureCount :: nat
  eq_seenIds :: "ustr set"
  eq_events :: "queuedEvent list"

text \<open>\<open>Number.isInteger\<close>\<close>

definition isInteger :: "js_number \<Rightarrow> bool" where
  "isInteger x = (case x of Finite q \<Rightarrow> snd (quotient_of q) = 1 | _ \<Rightarrow> False)"

definition newConnectionEventQueue :: "js_number \<Rightarrow> ustr + eventQueue" where
  "newConnectionEventQueue maxSize =
     (case maxSize of
        Finite q \<Rightarrow>
          if \<not> isInteger (Finite q) \<or> q \<le> 0 then Inl (asc ''maxSize must be a positive integer'')
          else Inr \<lparr>eq_maxSize = nat \<lfloor>q\<rfloor>, eq_droppedDuplicateCount = 0, eq_droppedBackpressureCount = 0,
            eq_seenIds = {}, eq_events = []\<rparr>
      | _ \<Rightarrow> Inl (asc ''maxSize must be a positive integer''))"

definition assertQueuedEvent :: "queuedEvent \<Rightarrow> ustr + unit" where
  "assertQueuedEvent event =
     (if qe_id event = [] then Inl (asc ''queued connection event id is required'')
      else if \<not> isFinite (qe_sequence event) then Inl (asc ''queued connection event sequence must be finite'')
      else Inr ())"

definition isConnectionChatter :: "connectionMessage \<Rightarrow> bool" where
  "isConnectionChatter m =
     (case m of
        ConnectionDisconnected _ \<Rightarrow> True
      | ConnectionFailed _ _ _ \<Rightarrow> True
      | TerminalChannelClosed _ _ _ \<Rightarrow> True
      | FileChannelClosed _ _ \<Rightarrow> True
      | _ \<Rightarrow> False)"

definition isUserIntentOrLifecycle :: "connectionMessage \<Rightarrow> bool" where
  "isUserIntentOrLifecycle m =
     (case m of
        UserConnectMachine _ \<Rightarrow> True
      | UserOpenTerminal _ _ \<Rightarrow> True
      | UserOpenFileManager _ \<Rightarrow> True
      | UserRetry \<Rightarrow> True
      | UserRelease \<Rightarrow> True
      | AppResume _ \<Rightarrow> True
      | NetworkOffline \<Rightarrow> True
      | NetworkOnline \<Rightarrow> True
      | _ \<Rightarrow> False)"

definition event_chatter :: "queuedEvent \<Rightarrow> bool" where
  "event_chatter e = isConnectionChatter (raw_message (qe_message e))"

definition event_intent :: "queuedEvent \<Rightarrow> bool" where
  "event_intent e = isUserIntentOrLifecycle (raw_message (qe_message e))"

text \<open>\<open>findIndex\<close>, with \<open>None\<close> for -1, and \<open>splice(i, 1)\<close>.\<close>

fun findIndex :: "('a \<Rightarrow> bool) \<Rightarrow> 'a list \<Rightarrow> nat option" where
  "findIndex p [] = None"
| "findIndex p (x # xs) = (if p x then Some 0 else map_option Suc (findIndex p xs))"

definition spliceOne :: "nat \<Rightarrow> 'a list \<Rightarrow> 'a list" where
  "spliceOne i xs = take i xs @ drop (Suc i) xs"

definition findDropCandidateIndex :: "queuedEvent list \<Rightarrow> nat" where
  "findDropCandidateIndex es =
     (case findIndex event_chatter es of
        Some i \<Rightarrow> i
      | None \<Rightarrow> (case findIndex (\<lambda>e. \<not> event_intent e) es of Some i \<Rightarrow> i | None \<Rightarrow> 0))"

lemma findIndex_less: "findIndex p xs = Some i \<Longrightarrow> i < length xs"
  by (induction xs arbitrary: i) (auto split: if_splits)

lemma candidate_less: "es \<noteq> [] \<Longrightarrow> findDropCandidateIndex es < length es"
  by (auto simp: findDropCandidateIndex_def findIndex_less split: option.split)

lemma length_spliceOne: "i < length xs \<Longrightarrow> length (spliceOne i xs) = length xs - 1"
  by (simp add: spliceOne_def)

lemma splice_shrinks: "n < length es \<Longrightarrow> length (spliceOne (findDropCandidateIndex es) es) < length es"
  using candidate_less [of es] by (cases es) (simp_all add: length_spliceOne)

function applyBackpressure :: "eventQueue \<Rightarrow> eventQueue" where
  "applyBackpressure q =
     (if eq_maxSize q < length (eq_events q)
      then applyBackpressure (q\<lparr>eq_events := spliceOne (findDropCandidateIndex (eq_events q)) (eq_events q),
          eq_droppedBackpressureCount := eq_droppedBackpressureCount q + 1\<rparr>)
      else q)"
  by pat_completeness auto
termination
  by (relation "measure (\<lambda>q. length (eq_events q))") (auto simp: splice_shrinks)

declare applyBackpressure.simps [simp del]

definition bySequence :: "queuedEvent \<Rightarrow> queuedEvent \<Rightarrow> bool" where
  "bySequence l r = js_le (qe_sequence l) (qe_sequence r)"

definition enqueue :: "eventQueue \<Rightarrow> queuedEvent \<Rightarrow> ustr + bool \<times> eventQueue" where
  "enqueue q event =
     andThen (assertQueuedEvent event) (\<lambda>_.
     andThen (assertMessageBoundary (raw_heap (qe_message event)) (raw_value (qe_message event))) (\<lambda>_.
     if qe_id event \<in> eq_seenIds q
     then Inr (False, q\<lparr>eq_droppedDuplicateCount := eq_droppedDuplicateCount q + 1\<rparr>)
     else Inr (True, applyBackpressure
       (q\<lparr>eq_seenIds := insert (qe_id event) (eq_seenIds q), eq_events := sort_by bySequence (eq_events q @ [event])\<rparr>))))"

definition flush :: "eventQueue \<Rightarrow> queuedEvent list \<times> eventQueue" where
  "flush q = (sort_by bySequence (eq_events q), q\<lparr>eq_events := []\<rparr>)"

definition queueSize :: "eventQueue \<Rightarrow> nat" where
  "queueSize q = length (eq_events q)"

section \<open>Order\<close>

lemma sorted_insert_by:
  assumes "sorted_wrt le xs" and "\<And>y. y \<in> set xs \<Longrightarrow> le x y \<or> le y x"
    and "\<And>a b c. le a b \<Longrightarrow> le b c \<Longrightarrow> le a c"
  shows "sorted_wrt le (insert_by le x xs)"
  using assms(1,2)
proof (induction xs)
  case (Cons y ys)
  have in_set: "set (insert_by le x ys) = insert x (set ys)" by (metis mset_insert_by set_mset_add_mset_insert set_mset_mset)
  show ?case
  proof (cases "le x y")
    case True
    with Cons.prems assms(3) show ?thesis by auto
  next
    case False
    with Cons.prems(2) have "le y x" by auto
    with False Cons show ?thesis by (auto simp: in_set)
  qed
qed simp

lemma sorted_sort_by:
  assumes "\<And>x y. x \<in> set xs \<Longrightarrow> y \<in> set xs \<Longrightarrow> le x y \<or> le y x" and "\<And>a b c. le a b \<Longrightarrow> le b c \<Longrightarrow> le a c"
  shows "sorted_wrt le (sort_by le xs)"
  using assms(1)
proof (induction xs)
  case (Cons x xs)
  have "sorted_wrt le (sort_by le xs)" using Cons.prems by (intro Cons.IH) simp
  moreover have "le x y \<or> le y x" if "y \<in> set (sort_by le xs)" for y using that Cons.prems by simp
  ultimately show ?case unfolding sort_by.simps using assms(2) by (rule sorted_insert_by)
qed simp

lemma bySequence_trans: "bySequence a b \<Longrightarrow> bySequence b c \<Longrightarrow> bySequence a c"
  unfolding bySequence_def by (rule js_le_trans)

lemma sorted_bySequence:
  assumes "\<forall>e\<in>set es. isFinite (qe_sequence e)"
  shows "sorted_wrt bySequence (sort_by bySequence es)"
proof (rule sorted_sort_by)
  show "bySequence x y \<or> bySequence y x" if "x \<in> set es" "y \<in> set es" for x y
    using assms that js_le_total unfolding bySequence_def by blast
qed (rule bySequence_trans)

section \<open>Backpressure\<close>

lemma set_spliceOne: "set (spliceOne i xs) \<subseteq> set xs"
  by (auto simp: spliceOne_def dest: in_set_takeD in_set_dropD)

lemma sorted_wrt_spliceOne:
  assumes "sorted_wrt le xs"
  shows "sorted_wrt le (spliceOne i xs)"
proof -
  have "sorted_wrt le (take i xs @ drop i xs)" using assms by simp
  moreover have "set (drop (Suc i) xs) \<subseteq> set (drop i xs)" by (intro set_drop_subset_set_drop) simp
  ultimately show ?thesis unfolding sorted_wrt_append spliceOne_def using assms by (auto simp: sorted_wrt_drop)
qed

lemma distinct_map_spliceOne: "distinct (map f xs) \<Longrightarrow> distinct (map f (spliceOne i xs))"
proof -
  assume "distinct (map f xs)"
  then have "distinct (map f (take i xs) @ map f (drop i xs))" by (metis append_take_drop_id map_append)
  moreover have "set (drop (Suc i) xs) \<subseteq> set (drop i xs)" by (intro set_drop_subset_set_drop) simp
  moreover have "distinct (map f (drop (Suc i) xs))" using \<open>distinct (map f xs)\<close> by (simp add: drop_map [symmetric])
  ultimately show ?thesis by (auto simp: spliceOne_def)
qed

text \<open>An event was added to a queue within its bound, so that the loop runs at most once.\<close>

lemma applyBackpressure_once:
  assumes "length (eq_events q) \<le> Suc (eq_maxSize q)"
  shows "applyBackpressure q =
    (if eq_maxSize q < length (eq_events q)
     then q\<lparr>eq_events := spliceOne (findDropCandidateIndex (eq_events q)) (eq_events q),
        eq_droppedBackpressureCount := eq_droppedBackpressureCount q + 1\<rparr>
     else q)"
proof (cases "eq_maxSize q < length (eq_events q)")
  case True
  let ?q = "q\<lparr>eq_events := spliceOne (findDropCandidateIndex (eq_events q)) (eq_events q),
      eq_droppedBackpressureCount := eq_droppedBackpressureCount q + 1\<rparr>"
  have "eq_events q \<noteq> []" using True by auto
  then have "length (eq_events ?q) \<le> eq_maxSize ?q"
    using assms by (simp add: length_spliceOne candidate_less)
  then have "applyBackpressure ?q = ?q" by (subst applyBackpressure.simps) simp
  with True show ?thesis by (subst applyBackpressure.simps) simp
next
  case False
  then show ?thesis by (subst applyBackpressure.simps) simp
qed

definition queue_ok :: "eventQueue \<Rightarrow> bool" where
  "queue_ok q \<longleftrightarrow> length (eq_events q) \<le> eq_maxSize q \<and> sorted_wrt bySequence (eq_events q) \<and>
     distinct (map qe_id (eq_events q)) \<and> qe_id ` set (eq_events q) \<subseteq> eq_seenIds q \<and>
     (\<forall>e\<in>set (eq_events q). isFinite (qe_sequence e))"

lemma flush_sorted: "queue_ok q \<Longrightarrow> sorted_wrt bySequence (fst (flush q))"
  by (simp add: flush_def queue_ok_def sorted_bySequence)

lemma enqueue_cases:
  assumes "enqueue q e = Inr (b, q')"
  obtains (duplicate) "\<not> b" "qe_id e \<in> eq_seenIds q" "q' = q\<lparr>eq_droppedDuplicateCount := eq_droppedDuplicateCount q + 1\<rparr>"
  | (added) "b" "isFinite (qe_sequence e)" "qe_id e \<notin> eq_seenIds q"
      "q' = applyBackpressure (q\<lparr>eq_seenIds := insert (qe_id e) (eq_seenIds q), eq_events := sort_by bySequence (eq_events q @ [e])\<rparr>)"
  using assms unfolding enqueue_def assertQueuedEvent_def by (auto split: if_splits)

text \<open>Which event goes: the first of the least class, chatter before other reports before intents.\<close>

definition drop_class :: "queuedEvent \<Rightarrow> nat" where
  "drop_class e = (if event_chatter e then 0 else if \<not> event_intent e then 1 else 2)"

lemma findIndex_Some:
  "findIndex p xs = Some i \<Longrightarrow> p (xs ! i) \<and> (\<forall>j<i. \<not> p (xs ! j))"
proof (induction xs arbitrary: i)
  case (Cons x xs)
  show ?case
  proof (cases "p x")
    case False
    with Cons.prems obtain k where k: "findIndex p xs = Some k" "i = Suc k" by auto
    with False Cons.IH [OF k(1)] show ?thesis by (auto simp: less_Suc_eq_0_disj)
  qed (use Cons.prems in auto)
qed simp

lemma findIndex_None: "findIndex p xs = None \<Longrightarrow> j < length xs \<Longrightarrow> \<not> p (xs ! j)"
  by (induction xs arbitrary: j) (auto simp: nth_Cons split: if_splits nat.split)

lemma candidate_least:
  assumes "j < length es"
  shows "drop_class (es ! findDropCandidateIndex es) < drop_class (es ! j) \<or>
    drop_class (es ! findDropCandidateIndex es) = drop_class (es ! j) \<and> findDropCandidateIndex es \<le> j"
proof (cases "findIndex event_chatter es")
  case (Some i)
  then show ?thesis using findIndex_Some [OF Some] by (auto simp: findDropCandidateIndex_def drop_class_def not_less [symmetric])
next
  case None
  note chatter = findIndex_None [OF None]
  show ?thesis
  proof (cases "findIndex (\<lambda>e. \<not> event_intent e) es")
    case (Some i)
    then have "i < length es" by (rule findIndex_less)
    with None Some show ?thesis
      using findIndex_Some [OF Some] chatter [OF assms] chatter [of i]
      by (auto simp: findDropCandidateIndex_def drop_class_def not_less [symmetric])
  next
    case none: None
    have "0 < length es" using assms by linarith
    with None none show ?thesis
      using findIndex_None [OF none assms] findIndex_None [OF none, of 0] chatter [OF assms] chatter [of 0]
      by (simp add: findDropCandidateIndex_def drop_class_def)
  qed
qed

lemma enqueue_added:
  assumes "queue_ok q" and "enqueue q e = Inr (True, q')"
  shows "q' = (let es = sort_by bySequence (eq_events q @ [e]);
      q1 = q\<lparr>eq_seenIds := insert (qe_id e) (eq_seenIds q), eq_events := es\<rparr> in
    if length es \<le> eq_maxSize q then q1
    else q1\<lparr>eq_events := spliceOne (findDropCandidateIndex es) es,
        eq_droppedBackpressureCount := eq_droppedBackpressureCount q + 1\<rparr>)"
  using assms(2)
proof (cases rule: enqueue_cases)
  case added
  have "length (eq_events q) \<le> eq_maxSize q" using assms(1) by (simp add: queue_ok_def)
  with added(4) show ?thesis by (subst (asm) applyBackpressure_once) (auto simp: Let_def)
qed simp

text \<open>
  an event that is not refused is put in its place by sequence number, after those with the
  same number. When the queue is full, exactly one event goes: the oldest piece of connection
  chatter, otherwise the oldest report that is no user intent and no lifecycle event, and only if
  all are intents or lifecycle events the oldest of these.
\<close>

theorem backpressure_drops_least:
  assumes "queue_ok q" and "enqueue q e = Inr (True, q')"
  shows "let es = sort_by bySequence (eq_events q @ [e]) in
    sorted_wrt bySequence es \<and>
    (if length es \<le> eq_maxSize q then eq_events q' = es
     else \<exists>i < length es. eq_events q' = spliceOne i es \<and>
       (\<forall>j < length es. drop_class (es ! i) < drop_class (es ! j) \<or> drop_class (es ! i) = drop_class (es ! j) \<and> i \<le> j))"
proof -
  let ?es = "sort_by bySequence (eq_events q @ [e])"
  have "isFinite (qe_sequence e)" using assms(2) by (cases rule: enqueue_cases) simp
  then have "sorted_wrt bySequence ?es" using assms(1) by (intro sorted_bySequence) (auto simp: queue_ok_def)
  moreover have "?es \<noteq> []" by (metis append_is_Nil_conv length_0_conv length_sort_by list.distinct(1))
  then have "findDropCandidateIndex ?es < length ?es" by (rule candidate_less)
  ultimately show ?thesis
    using candidate_least [of _ ?es] unfolding enqueue_added [OF assms] Let_def by (auto simp del: length_sort_by)
qed

section \<open>Sessions\<close>

record queueSession =
  qs_queue :: eventQueue
  qs_flushed :: "queuedEvent list list"
  qs_accepted :: nat

datatype queueOp = OpEnqueue queuedEvent | OpFlush

definition queueStep :: "queueSession \<Rightarrow> queueOp \<Rightarrow> queueSession" where
  "queueStep s op =
     (case op of
        OpEnqueue e \<Rightarrow>
          (case enqueue (qs_queue s) e of
             Inl err \<Rightarrow> s
           | Inr (b, q) \<Rightarrow> s\<lparr>qs_queue := q, qs_accepted := qs_accepted s + (if b then 1 else 0)\<rparr>)
      | OpFlush \<Rightarrow> (case flush (qs_queue s) of (es, q) \<Rightarrow> s\<lparr>qs_queue := q, qs_flushed := qs_flushed s @ [es]\<rparr>))"

definition session_events :: "queueSession \<Rightarrow> queuedEvent list" where
  "session_events s = concat (qs_flushed s) @ eq_events (qs_queue s)"

definition queue_session_ok :: "nat \<Rightarrow> queueSession \<Rightarrow> bool" where
  "queue_session_ok n s \<longleftrightarrow>
     queue_ok (qs_queue s) \<and> eq_maxSize (qs_queue s) = n \<and>
     list_all (\<lambda>es. sorted_wrt bySequence es \<and> length es \<le> n) (qs_flushed s) \<and>
     distinct (map qe_id (session_events s)) \<and> qe_id ` set (session_events s) \<subseteq> eq_seenIds (qs_queue s) \<and>
     qs_accepted s = length (session_events s) + eq_droppedBackpressureCount (qs_queue s)"

definition startSession :: "eventQueue \<Rightarrow> queueSession" where
  "startSession q = \<lparr>qs_queue = q, qs_flushed = [], qs_accepted = 0\<rparr>"

definition emptyQueue :: "nat \<Rightarrow> eventQueue" where
  "emptyQueue n = \<lparr>eq_maxSize = n, eq_droppedDuplicateCount = 0, eq_droppedBackpressureCount = 0, eq_seenIds = {}, eq_events = []\<rparr>"

lemma sorted_events:
  assumes "queue_ok q" and "isFinite (qe_sequence e)" and "qe_id e \<notin> eq_seenIds q"
  defines "es \<equiv> sort_by bySequence (eq_events q @ [e])"
  shows "sorted_wrt bySequence es" and "distinct (map qe_id es)" and "set es = insert e (set (eq_events q))"
    and "length es = Suc (length (eq_events q))"
proof -
  show "sorted_wrt bySequence es" unfolding es_def using assms(1,2) by (intro sorted_bySequence) (auto simp: queue_ok_def)
  have "mset (map qe_id es) = mset (map qe_id (eq_events q @ [e]))" unfolding es_def mset_map mset_sort_by ..
  moreover have "distinct (map qe_id (eq_events q @ [e]))" using assms(1,3) by (auto simp: queue_ok_def)
  ultimately show "distinct (map qe_id es)" using mset_eq_imp_distinct_iff by blast
  show "set es = insert e (set (eq_events q))" "length es = Suc (length (eq_events q))" unfolding es_def by auto
qed

lemma queue_ok_enqueue:
  assumes "queue_ok q" and "enqueue q e = Inr (True, q')"
  shows "queue_ok q'" and "eq_maxSize q' = eq_maxSize q" and "eq_seenIds q' = insert (qe_id e) (eq_seenIds q)"
    and "qe_id ` set (eq_events q') \<subseteq> insert (qe_id e) (qe_id ` set (eq_events q))"
    and "length (eq_events q') + eq_droppedBackpressureCount q' = Suc (length (eq_events q) + eq_droppedBackpressureCount q)"
    and "qe_id e \<notin> eq_seenIds q"
proof -
  let ?es = "sort_by bySequence (eq_events q @ [e])" and ?i = "findDropCandidateIndex (sort_by bySequence (eq_events q @ [e]))"
  have new: "isFinite (qe_sequence e)" "qe_id e \<notin> eq_seenIds q" using assms(2) by (cases rule: enqueue_cases; simp)+
  note es = sorted_events [OF assms(1) new]
  have "?es \<noteq> []" using es(4) by (metis length_0_conv nat.distinct(1))
  then have i: "?i < length ?es" by (rule candidate_less)
  have len: "length (spliceOne ?i ?es) = length (eq_events q)" using length_spliceOne [OF i] es(4) by simp
  have sub: "set (spliceOne ?i ?es) \<subseteq> insert e (set (eq_events q))" using set_spliceOne es(3) by metis
  have keep: "sorted_wrt bySequence (spliceOne ?i ?es)" "distinct (map qe_id (spliceOne ?i ?es))"
    using es(1,2) by (simp_all add: sorted_wrt_spliceOne distinct_map_spliceOne)
  note q' = enqueue_added [OF assms, unfolded Let_def]
  show "queue_ok q'"
    using assms(1) new es keep len sub unfolding q' queue_ok_def by (auto simp del: length_sort_by set_sort_by)
  show "eq_maxSize q' = eq_maxSize q" "eq_seenIds q' = insert (qe_id e) (eq_seenIds q)" unfolding q' by simp_all
  show "qe_id ` set (eq_events q') \<subseteq> insert (qe_id e) (qe_id ` set (eq_events q))"
    using es(3) sub unfolding q' by (auto simp del: set_sort_by)
  show "length (eq_events q') + eq_droppedBackpressureCount q' = Suc (length (eq_events q) + eq_droppedBackpressureCount q)"
    using es(4) len unfolding q' by (simp del: length_sort_by)
  show "qe_id e \<notin> eq_seenIds q" by (rule new(2))
qed

lemma disjoint_grow: "F \<inter> E = {} \<Longrightarrow> E' \<subseteq> insert x E \<Longrightarrow> F \<subseteq> S \<Longrightarrow> x \<notin> S \<Longrightarrow> F \<inter> E' = {}"
  by blast

lemma session_step_enqueue:
  assumes "queue_session_ok n s"
  shows "queue_session_ok n (queueStep s (OpEnqueue e))"
proof (cases "enqueue (qs_queue s) e")
  case (Inl err)
  with assms show ?thesis by (simp add: queueStep_def)
next
  case (Inr r)
  obtain b q where r: "r = (b, q)" by (cases r)
  have ok: "queue_ok (qs_queue s)" using assms by (simp add: queue_session_ok_def)
  show ?thesis
  proof (cases b)
    case False
    then have "q = (qs_queue s)\<lparr>eq_droppedDuplicateCount := eq_droppedDuplicateCount (qs_queue s) + 1\<rparr>"
      using Inr r by (auto elim: enqueue_cases)
    with False Inr r assms show ?thesis
      by (simp add: queueStep_def queue_session_ok_def session_events_def queue_ok_def)
  next
    case True
    with Inr r have "enqueue (qs_queue s) e = Inr (True, q)" by simp
    note q = queue_ok_enqueue [OF ok this]
    have flushed: "qe_id ` set (concat (qs_flushed s)) \<subseteq> eq_seenIds (qs_queue s)"
      "qe_id ` set (concat (qs_flushed s)) \<inter> qe_id ` set (eq_events (qs_queue s)) = {}"
      "distinct (map qe_id (concat (qs_flushed s)))"
      using assms by (simp_all add: queue_session_ok_def session_events_def image_Un)
    have "qe_id ` set (concat (qs_flushed s)) \<inter> qe_id ` set (eq_events q) = {}"
      using flushed(2) q(4) flushed(1) q(6) by (rule disjoint_grow)
    moreover have "distinct (map qe_id (eq_events q))" "qe_id ` set (eq_events q) \<subseteq> eq_seenIds q"
      using q(1) by (simp_all add: queue_ok_def)
    moreover have "qe_id ` set (concat (qs_flushed s)) \<subseteq> eq_seenIds q" using flushed(1) unfolding q(3) by (rule subset_insertI2)
    ultimately have events: "distinct (map qe_id (concat (qs_flushed s) @ eq_events q))"
      "qe_id ` set (concat (qs_flushed s) @ eq_events q) \<subseteq> eq_seenIds q"
      using flushed(3) unfolding map_append distinct_append set_append image_Un set_map by simp_all
    have step: "queueStep s (OpEnqueue e) = s\<lparr>qs_queue := q, qs_accepted := qs_accepted s + 1\<rparr>"
      using True Inr r by (simp add: queueStep_def)
    show ?thesis
      unfolding step queue_session_ok_def session_events_def
      using assms q(1,2,5) events by (simp add: queue_session_ok_def session_events_def)
  qed
qed

lemma session_step_flush:
  assumes "queue_session_ok n s"
  shows "queue_session_ok n (queueStep s OpFlush)"
proof -
  let ?q = "qs_queue s"
  let ?es = "sort_by bySequence (eq_events ?q)"
  have ok: "queue_ok ?q" "eq_maxSize ?q = n" using assms by (simp_all add: queue_session_ok_def)
  then have "sorted_wrt bySequence ?es" "length ?es \<le> n" using flush_sorted [OF ok(1)] by (simp_all add: flush_def queue_ok_def)
  moreover have "mset (map qe_id ?es) = mset (map qe_id (eq_events ?q))" unfolding mset_map mset_sort_by ..
  then have "distinct (map qe_id ?es) = distinct (map qe_id (eq_events ?q))" by (rule mset_eq_imp_distinct_iff)
  ultimately show ?thesis
    using assms ok by (auto simp: queueStep_def flush_def queue_session_ok_def session_events_def queue_ok_def)
qed

interpretation qx: machine "startSession (emptyQueue n)" queueStep "queue_session_ok n" for n
proof
  show "queue_session_ok n (startSession (emptyQueue n))"
    by (simp add: queue_session_ok_def startSession_def emptyQueue_def queue_ok_def session_events_def)
  show "queue_session_ok n s \<Longrightarrow> queue_session_ok n (queueStep s op)" for s op
    by (cases op) (simp_all add: session_step_enqueue session_step_flush)
qed

lemma newConnectionEventQueue_empty:
  "newConnectionEventQueue m = Inr q \<Longrightarrow> q = emptyQueue (eq_maxSize q)"
  by (auto simp: newConnectionEventQueue_def emptyQueue_def split: js_number.splits if_splits)

text \<open>
  C10: through any sequence of events offered and flushes, the queue never holds more than its
  bound, each flush hands out events in the order of their sequence numbers, no id is handed out or
  kept twice, also across flushes, and no event is lost without being counted: the accepted events
  are those handed out, those still queued and those counted as dropped.
\<close>

theorem queue_sessions:
  assumes "newConnectionEventQueue m = Inr q"
  shows "let s = foldl queueStep (startSession q) ops in
    length (eq_events (qs_queue s)) \<le> eq_maxSize q \<and>
    list_all (sorted_wrt bySequence) (qs_flushed s) \<and>
    distinct (map qe_id (concat (qs_flushed s) @ eq_events (qs_queue s))) \<and>
    qs_accepted s = length (concat (qs_flushed s)) + length (eq_events (qs_queue s)) + eq_droppedBackpressureCount (qs_queue s)"
proof -
  have "queue_session_ok (eq_maxSize q) (foldl queueStep (startSession q) ops)"
    using qx.inv_run [of "eq_maxSize q" ops] newConnectionEventQueue_empty [OF assms] by simp
  then show ?thesis
    by (auto simp: queue_session_ok_def queue_ok_def session_events_def Let_def list_all_iff)
qed

definition sample_event :: "string \<Rightarrow> rat \<Rightarrow> rawMessage \<Rightarrow> queuedEvent" where
  "sample_event i n m = \<lparr>qe_id = asc i, qe_sequence = Finite n, qe_message = m\<rparr>"

theorem queue_sessions_witness:
  "let s = foldl queueStep (startSession (emptyQueue 1))
       [OpEnqueue (sample_event ''a'' 2 connected_message), OpEnqueue (sample_event ''b'' 1 opened_message), OpFlush] in
    length (eq_events (qs_queue s)) \<le> 1 \<and> list_all (sorted_wrt bySequence) (qs_flushed s)"
proof -
  have "newConnectionEventQueue (Finite 1) = Inr (emptyQueue 1)"
    by (simp add: newConnectionEventQueue_def isInteger_def emptyQueue_def)
  from queue_sessions [OF this] show ?thesis unfolding Let_def by (simp add: emptyQueue_def del: foldl_Cons)
qed

theorem backpressure_drops_least_witness:
  "\<exists>q'. enqueue ((emptyQueue 1)\<lparr>eq_events := [sample_event ''a'' 2 connected_message], eq_seenIds := {asc ''a''}\<rparr>)
      (sample_event ''b'' 1 opened_message) = Inr (True, q') \<and>
    sorted_wrt bySequence (sort_by bySequence [sample_event ''a'' 2 connected_message, sample_event ''b'' 1 opened_message])"
proof -
  let ?q = "(emptyQueue 1)\<lparr>eq_events := [sample_event ''a'' 2 connected_message], eq_seenIds := {asc ''a''}\<rparr>"
  have ok: "queue_ok ?q" by (simp add: queue_ok_def emptyQueue_def sample_event_def isFinite_def)
  obtain q' where q': "enqueue ?q (sample_event ''b'' 1 opened_message) = Inr (True, q')"
    using sample_messages_accepted(2)
    by (simp add: enqueue_def assertQueuedEvent_def sample_event_def emptyQueue_def isFinite_def accepted_def)
  with backpressure_drops_least [OF ok q'] show ?thesis by (simp add: Let_def emptyQueue_def)
qed

end
