(* ===== verification/LiveScreen.thy ===== *)
theory LiveScreen
  imports Prelude
begin

text \<open>
  The merge of live screen updates of \<open>clients/ui/src/terminal/liveScreenCache.ts\<close>: an update is a full
  screen or a delta against the revision on display, made of row copies, which all read from the
  screen before the update, and row replacements after them. \<open>create\<close> of the protobuf library
  is a parameter: the record \<open>creators\<close> has one function per message type the source creates.
  An entry of a JavaScript array that was never written is \<open>None\<close>.
\<close>

section \<open>Definitions\<close>

record terminalRef =
  tr_endpointId :: ustr
  tr_terminalId :: ustr

record rowCopy =
  rc_sourceRow :: int
  rc_destinationRow :: int
  rc_count :: int

record 'r rowReplace =
  rr_rowIndex :: int
  rr_row :: "'r option"

record terminalSize =
  ts_cols :: int
  ts_rows :: int

record ('r, 'c, 'm) nativeScreenResult =
  ns_terminal :: "terminalRef option"
  ns_liveRevision :: nat
  ns_size :: "terminalSize option"
  ns_rowReplacements :: "'r rowReplace list"
  ns_alternateScreen :: bool
  ns_cursor :: "'c option"
  ns_modes :: "'m option"
  ns_timestampUnixNano :: int
  ns_baseRevision :: nat
  ns_rowCopies :: "rowCopy list"
  ns_fullReplace :: bool

record ('r, 'c, 'm) canonicalLiveScreen =
  ls_terminal :: terminalRef
  ls_generation :: int
  ls_revision :: nat
  ls_cols :: int
  ls_rows :: int
  ls_screenRows :: "'r option list"
  ls_alternateScreen :: bool
  ls_cursor :: "'c option"
  ls_modes :: "'m option"
  ls_timestampUnixNano :: int

record liveScreenDamage =
  dm_fullReplace :: bool
  dm_changedRows :: "nat list"

record ('r, 'c, 'm) creators =
  create_emptyRow :: 'r
  create_row :: "'r \<Rightarrow> 'r"
  create_terminal :: "terminalRef \<Rightarrow> terminalRef"
  create_cursor :: "'c \<Rightarrow> 'c"
  create_modes :: "'m \<Rightarrow> 'm"

text \<open>\<open>array[i] = v\<close>, which extends the array past its end.\<close>

definition array_put :: "nat \<Rightarrow> 'a option \<Rightarrow> 'a option list \<Rightarrow> 'a option list" where
  "array_put i v xs = (xs @ replicate (Suc i - length xs) None)[i := v]"

text \<open>\<open>array.slice(from, from + n)\<close>\<close>

definition slice :: "nat \<Rightarrow> nat \<Rightarrow> 'a list \<Rightarrow> 'a list" where
  "slice i n xs = take n (drop i xs)"

text \<open>The inner loop of a row copy: it writes the copied rows one by one and notes each index.\<close>

fun writeRows :: "'r option list \<Rightarrow> nat \<Rightarrow> 'r option list \<times> nat set \<Rightarrow> 'r option list \<times> nat set" where
  "writeRows [] rowIndex st = st"
| "writeRows (r # rs) rowIndex st = writeRows rs (Suc rowIndex) (array_put rowIndex r (fst st), insert rowIndex (snd st))"

definition copy_in_range :: "int \<Rightarrow> rowCopy \<Rightarrow> bool" where
  "copy_in_range rows c \<longleftrightarrow> \<not> (rc_count c < 0 \<or> rc_sourceRow c < 0 \<or> rc_destinationRow c < 0 \<or>
     rows < rc_sourceRow c + rc_count c \<or> rows < rc_destinationRow c + rc_count c)"

fun applyCopies :: "int \<Rightarrow> 'r option list \<Rightarrow> rowCopy list \<Rightarrow> 'r option list \<times> nat set \<Rightarrow> ('r option list \<times> nat set) option" where
  "applyCopies rows base [] st = Some st"
| "applyCopies rows base (c # cs) st =
     (if \<not> copy_in_range rows c then None
      else applyCopies rows base cs
        (writeRows (slice (nat (rc_sourceRow c)) (nat (rc_count c)) base) (nat (rc_destinationRow c)) st))"

fun applyReplacements ::
  "('r \<Rightarrow> 'r) \<Rightarrow> int \<Rightarrow> 'r rowReplace list \<Rightarrow> 'r option list \<times> nat set \<Rightarrow> ('r option list \<times> nat set) option" where
  "applyReplacements mk rows [] st = Some st"
| "applyReplacements mk rows (r # rs) st =
     (case rr_row r of
        None \<Rightarrow> None
      | Some row \<Rightarrow>
          if rr_rowIndex r < 0 \<or> rows \<le> rr_rowIndex r then None
          else applyReplacements mk rows rs
            (array_put (nat (rr_rowIndex r)) (Some (mk row)) (fst st), insert (nat (rr_rowIndex r)) (snd st)))"

definition base_matches ::
  "('r, 'c, 'm) canonicalLiveScreen option \<Rightarrow> ('r, 'c, 'm) nativeScreenResult \<Rightarrow> int \<Rightarrow> int \<Rightarrow> int \<Rightarrow> bool" where
  "base_matches current incoming generation cols rows =
     (case current of
        None \<Rightarrow> False
      | Some cur \<Rightarrow> ls_generation cur = generation \<and> ns_baseRevision incoming = ls_revision cur \<and>
          ls_cols cur = cols \<and> ls_rows cur = rows)"

definition mergeLiveScreenResult ::
  "('r, 'c, 'm) creators \<Rightarrow> ('r, 'c, 'm) canonicalLiveScreen option \<Rightarrow> ('r, 'c, 'm) nativeScreenResult \<Rightarrow> int \<Rightarrow> terminalRef \<Rightarrow>
   (('r, 'c, 'm) canonicalLiveScreen \<times> liveScreenDamage) option" where
  "mergeLiveScreenResult create current incoming generation expectedTerminal =
     (let terminal = (case ns_terminal incoming of None \<Rightarrow> expectedTerminal | Some t \<Rightarrow> t);
        cols = (case ns_size incoming of None \<Rightarrow> 0 | Some z \<Rightarrow> ts_cols z);
        rows = (case ns_size incoming of None \<Rightarrow> 0 | Some z \<Rightarrow> ts_rows z)
      in
      if tr_endpointId terminal \<noteq> tr_endpointId expectedTerminal \<or> tr_terminalId terminal \<noteq> tr_terminalId expectedTerminal then None
      else if cols < 0 \<or> rows < 0 then None
      else if \<not> ns_fullReplace incoming \<and> \<not> base_matches current incoming generation cols rows then None
      else
        let baseRows = (if ns_fullReplace incoming then replicate (nat rows) (Some (create_emptyRow create))
              else ls_screenRows (the current))
        in case applyCopies rows baseRows (ns_rowCopies incoming) (baseRows, {}) of
          None \<Rightarrow> None
        | Some st \<Rightarrow>
            (case applyReplacements (create_row create) rows (ns_rowReplacements incoming) st of
               None \<Rightarrow> None
             | Some (nextRows, changedRows) \<Rightarrow>
                 Some (\<lparr>ls_terminal = create_terminal create terminal, ls_generation = generation,
                     ls_revision = ns_liveRevision incoming, ls_cols = cols, ls_rows = rows, ls_screenRows = nextRows,
                     ls_alternateScreen = ns_alternateScreen incoming,
                     ls_cursor = map_option (create_cursor create) (ns_cursor incoming),
                     ls_modes = map_option (create_modes create) (ns_modes incoming),
                     ls_timestampUnixNano = ns_timestampUnixNano incoming\<rparr>,
                   \<lparr>dm_fullReplace = ns_fullReplace incoming,
                     dm_changedRows = (if ns_fullReplace incoming then [0..<nat rows] else sorted_list_of_set changedRows)\<rparr>)))"

section \<open>Copies and replacements as functions of the row index\<close>

text \<open>
  The reference: the row at index \<open>i\<close> after a list of copies is the one the last copy covering \<open>i\<close>
  takes from the base; after a list of replacements it is the last replacement at \<open>i\<close>.
\<close>

definition covers :: "rowCopy \<Rightarrow> nat \<Rightarrow> bool" where
  "covers c i \<longleftrightarrow> rc_destinationRow c \<le> int i \<and> int i < rc_destinationRow c + rc_count c"

definition source_of :: "rowCopy \<Rightarrow> nat \<Rightarrow> nat" where
  "source_of c i = nat (rc_sourceRow c + int i - rc_destinationRow c)"

fun copied_row :: "'r option list \<Rightarrow> rowCopy list \<Rightarrow> nat \<Rightarrow> 'r option \<Rightarrow> 'r option" where
  "copied_row base [] i r = r"
| "copied_row base (c # cs) i r = copied_row base cs i (if covers c i then base ! source_of c i else r)"

fun replaced_row :: "('r \<Rightarrow> 'r) \<Rightarrow> 'r rowReplace list \<Rightarrow> nat \<Rightarrow> 'r option \<Rightarrow> 'r option" where
  "replaced_row mk [] i r = r"
| "replaced_row mk (p # ps) i r = replaced_row mk ps i (if rr_rowIndex p = int i then map_option mk (rr_row p) else r)"

lemma array_put_in [simp]: "i < length xs \<Longrightarrow> array_put i v xs = xs[i := v]"
  by (simp add: array_put_def)

lemma writeRows_spec:
  "k + length rs \<le> length xs \<Longrightarrow>
    writeRows rs k (xs, ch) = (take k xs @ rs @ drop (k + length rs) xs, ch \<union> {k..<k + length rs})"
proof (induction rs arbitrary: k xs ch)
  case (Cons r rs)
  then have k: "k < length xs" by simp
  have "take (Suc k) (xs[k := r]) = take k xs @ [r]" using k by (simp add: take_Suc_conv_app_nth)
  moreover have "drop (Suc k + length rs) (xs[k := r]) = drop (Suc k + length rs) xs" by simp
  moreover have "insert k (ch \<union> {Suc k..<Suc k + length rs}) = ch \<union> {k..<k + length (r # rs)}" by auto
  ultimately show ?case using Cons k by (simp del: drop_update_cancel)
qed simp

lemma writeRows_nth:
  assumes "k + length rs \<le> length xs" and "i < length xs"
  shows "fst (writeRows rs k (xs, ch)) ! i = (if k \<le> i \<and> i < k + length rs then rs ! (i - k) else xs ! i)"
  using assms by (auto simp: writeRows_spec nth_append min_def)

text \<open>The state of the two loops: as many rows as the screen has, and the set of rows written.\<close>

lemma copy_step:
  fixes ch :: "nat set"
  assumes "copy_in_range (int (length base)) c" and "length xs = length base"
  defines "st \<equiv> writeRows (slice (nat (rc_sourceRow c)) (nat (rc_count c)) base) (nat (rc_destinationRow c)) (xs, ch)"
  shows "length (fst st) = length base" and "snd st = ch \<union> {i. covers c i}"
    and "i < length base \<Longrightarrow> fst st ! i = (if covers c i then base ! source_of c i else xs ! i)"
proof -
  let ?rs = "slice (nat (rc_sourceRow c)) (nat (rc_count c)) base" and ?k = "nat (rc_destinationRow c)"
  have r: "0 \<le> rc_count c" "0 \<le> rc_sourceRow c" "0 \<le> rc_destinationRow c"
    "rc_sourceRow c + rc_count c \<le> int (length base)" "rc_destinationRow c + rc_count c \<le> int (length base)"
    using assms(1) by (simp_all add: copy_in_range_def)
  have len: "length ?rs = nat (rc_count c)" using r by (simp add: slice_def)
  have fit: "?k + length ?rs \<le> length xs" using r assms(2) by (simp add: len)
  have cov: "covers c i \<longleftrightarrow> ?k \<le> i \<and> i < ?k + length ?rs" for i using r by (auto simp: covers_def len)
  show "length (fst st) = length base" using fit assms(2) by (simp add: st_def writeRows_spec)
  show "snd st = ch \<union> {i. covers c i}" using fit by (auto simp: st_def writeRows_spec cov)
  show "fst st ! i = (if covers c i then base ! source_of c i else xs ! i)" if "i < length base"
  proof (cases "covers c i")
    case True
    have "fst st ! i = ?rs ! (i - ?k)" using True that fit assms(2) cov by (simp add: st_def writeRows_nth)
    moreover have "i - ?k < nat (rc_count c)" using True cov [of i] len by linarith
    then have "?rs ! (i - ?k) = base ! (nat (rc_sourceRow c) + (i - ?k))" using r unfolding slice_def by (simp only: nth_take) (intro nth_drop, simp)
    moreover have "nat (rc_sourceRow c) + (i - ?k) = source_of c i" using True r unfolding source_of_def covers_def by arith
    ultimately show ?thesis using True by simp
  next
    case False
    then have "\<not> (?k \<le> i \<and> i < ?k + length ?rs)" using cov by blast
    with False show ?thesis unfolding st_def using that fit assms(2) by (subst writeRows_nth) (auto simp del: not_less not_le)
  qed
qed

lemma applyCopies_spec:
  assumes "length xs = length base"
  shows "case applyCopies (int (length base)) base cs (xs, ch) of
      None \<Rightarrow> \<not> list_all (copy_in_range (int (length base))) cs
    | Some (ys, ch') \<Rightarrow> list_all (copy_in_range (int (length base))) cs \<and> length ys = length base \<and>
        (\<forall>i < length base. ys ! i = copied_row base cs i (xs ! i)) \<and> ch' = ch \<union> {i. \<exists>c\<in>set cs. covers c i}"
  using assms
proof (induction cs arbitrary: xs ch)
  case (Cons c cs)
  show ?case
  proof (cases "copy_in_range (int (length base)) c")
    case True
    let ?st = "writeRows (slice (nat (rc_sourceRow c)) (nat (rc_count c)) base) (nat (rc_destinationRow c)) (xs, ch)"
    note st = copy_step [OF True Cons.prems, where ch = ch]
    obtain ys ch1 where eq: "?st = (ys, ch1)" by (cases ?st)
    have "length ys = length base" using st(1) eq by simp
    from Cons.IH [OF this, of ch1] True st eq show ?thesis
      by (auto split: option.splits)
  qed simp
qed simp

lemma applyReplacements_spec:
  assumes "length xs = n"
  shows "case applyReplacements mk (int n) ps (xs, ch) of
      None \<Rightarrow> \<not> list_all (\<lambda>p. 0 \<le> rr_rowIndex p \<and> rr_rowIndex p < int n \<and> rr_row p \<noteq> None) ps
    | Some (ys, ch') \<Rightarrow> list_all (\<lambda>p. 0 \<le> rr_rowIndex p \<and> rr_rowIndex p < int n \<and> rr_row p \<noteq> None) ps \<and> length ys = n \<and>
        (\<forall>i < n. ys ! i = replaced_row mk ps i (xs ! i)) \<and> ch' = ch \<union> {i. int i \<in> rr_rowIndex ` set ps}"
  using assms
proof (induction ps arbitrary: xs ch)
  case (Cons p ps)
  show ?case
  proof (cases "0 \<le> rr_rowIndex p \<and> rr_rowIndex p < int n \<and> rr_row p \<noteq> None")
    case True
    then obtain row where row: "rr_row p = Some row" by auto
    define k where "k = nat (rr_rowIndex p)"
    have k: "rr_rowIndex p = int k" "k < n" using True by (auto simp: k_def nat_less_iff)
    have "length (xs[k := Some (mk row)]) = n" using Cons.prems by simp
    from Cons.IH [OF this, of "insert k ch"] show ?thesis
      using row k Cons.prems
      by (auto split: option.splits simp: nth_list_update image_iff)
  next
    case False
    then show ?thesis by (auto split: option.splits)
  qed
qed simp

section \<open>Merging\<close>

definition screen_ok :: "('r, 'c, 'm) canonicalLiveScreen \<Rightarrow> bool" where
  "screen_ok s \<longleftrightarrow> 0 \<le> ls_rows s \<and> int (length (ls_screenRows s)) = ls_rows s"

definition merge_base :: "('r, 'c, 'm) creators \<Rightarrow> ('r, 'c, 'm) canonicalLiveScreen option \<Rightarrow> ('r, 'c, 'm) nativeScreenResult \<Rightarrow> 'r option list" where
  "merge_base create current incoming =
     (if ns_fullReplace incoming
      then replicate (nat (case ns_size incoming of None \<Rightarrow> 0 | Some z \<Rightarrow> ts_rows z)) (Some (create_emptyRow create))
      else ls_screenRows (the current))"

lemma merge_Some:
  assumes "mergeLiveScreenResult create current incoming generation expected = Some (screen, damage)"
    and "pred_option screen_ok current"
  shows "\<exists>ch. applyCopies (ls_rows screen) (merge_base create current incoming) (ns_rowCopies incoming) (merge_base create current incoming, {}) = Some ch \<and>
      (\<exists>ch'. applyReplacements (create_row create) (ls_rows screen) (ns_rowReplacements incoming) ch = Some (ls_screenRows screen, ch') \<and>
        dm_changedRows damage = (if ns_fullReplace incoming then [0..<nat (ls_rows screen)] else sorted_list_of_set ch'))"
    and "ls_rows screen = int (length (merge_base create current incoming))"
    and "ls_revision screen = ns_liveRevision incoming" and "ls_generation screen = generation"
    and "\<not> ns_fullReplace incoming \<Longrightarrow> base_matches current incoming generation (ls_cols screen) (ls_rows screen)"
proof -
  let ?cols = "case ns_size incoming of None \<Rightarrow> 0 | Some z \<Rightarrow> ts_cols z" and ?rows = "case ns_size incoming of None \<Rightarrow> 0 | Some z \<Rightarrow> ts_rows z"
  have g: "0 \<le> ?rows" "\<not> ns_fullReplace incoming \<Longrightarrow> base_matches current incoming generation ?cols ?rows"
    using assms(1) unfolding mergeLiveScreenResult_def Let_def by (auto split: if_split_asm simp: not_less)
  have len: "?rows = int (length (merge_base create current incoming))"
  proof (cases "ns_fullReplace incoming")
    case True
    with g(1) show ?thesis by (simp add: merge_base_def)
  next
    case False
    with g(2) obtain s where "current = Some s" "ls_rows s = ?rows" by (auto simp: base_matches_def split: option.splits)
    with assms(2) False show ?thesis by (simp add: merge_base_def screen_ok_def)
  qed
  note m = assms(1) [unfolded mergeLiveScreenResult_def Let_def, folded merge_base_def]
  show "ls_rows screen = int (length (merge_base create current incoming))"
    and "ls_revision screen = ns_liveRevision incoming" and "ls_generation screen = generation"
    using m len by (auto split: if_split_asm option.split_asm)
  show "\<not> ns_fullReplace incoming \<Longrightarrow> base_matches current incoming generation (ls_cols screen) (ls_rows screen)"
    using m g(2) by (auto split: if_split_asm option.split_asm)
  show "\<exists>ch. applyCopies (ls_rows screen) (merge_base create current incoming) (ns_rowCopies incoming) (merge_base create current incoming, {}) = Some ch \<and>
      (\<exists>ch'. applyReplacements (create_row create) (ls_rows screen) (ns_rowReplacements incoming) ch = Some (ls_screenRows screen, ch') \<and>
        dm_changedRows damage = (if ns_fullReplace incoming then [0..<nat (ls_rows screen)] else sorted_list_of_set ch'))"
    using m by (auto split: if_split_asm option.split_asm)
qed

lemma copied_row_uncovered: "(\<And>c. c \<in> set cs \<Longrightarrow> \<not> covers c i) \<Longrightarrow> copied_row base cs i r = r"
  by (induction cs arbitrary: r) simp_all

lemma replaced_row_unnamed: "int i \<notin> rr_rowIndex ` set ps \<Longrightarrow> replaced_row mk ps i r = r"
  by (induction ps arbitrary: r) auto

lemma covers_in_range: "copy_in_range rows c \<Longrightarrow> covers c i \<Longrightarrow> int i < rows"
  by (auto simp: copy_in_range_def covers_def)

text \<open>
  C11: a merged screen is the screen the update describes. Starting from the screen on display (or
  from empty rows for a full replacement), each row is the last replacement for it, or else the row
  that the last copy covering it takes from the screen \<^emph>\<open>before\<close> the update, or else
  the row it was. The screen has exactly its number of rows, a delta is applied only to the
  revision it was computed from, and the damage lists every changed row once, in order: a row it
  does not list is as before.
\<close>

theorem merge_screen:
  assumes "pred_option screen_ok current"
    and "mergeLiveScreenResult create current incoming generation expected = Some (screen, damage)"
  shows "screen_ok screen \<and>
    (ns_fullReplace incoming \<or> (\<exists>s. current = Some s \<and> ls_revision s = ns_baseRevision incoming)) \<and>
    (let base = merge_base create current incoming in
      sorted_wrt (<) (dm_changedRows damage) \<and> set (dm_changedRows damage) \<subseteq> {..<length base} \<and>
      (\<forall>i < length base.
        ls_screenRows screen ! i = replaced_row (create_row create) (ns_rowReplacements incoming) i
          (copied_row base (ns_rowCopies incoming) i (base ! i)) \<and>
        (i \<in> set (dm_changedRows damage) \<or> ls_screenRows screen ! i = base ! i)))"
proof -
  let ?base = "merge_base create current incoming" and ?cs = "ns_rowCopies incoming" and ?ps = "ns_rowReplacements incoming"
  note m = merge_Some [OF assms(2,1)]
  have nat_rows: "nat (ls_rows screen) = length ?base" using m(2) by simp
  from m(1) obtain xs ch ch' where
    copies: "applyCopies (int (length ?base)) ?base ?cs (?base, {}) = Some (xs, ch)"
    and repl: "applyReplacements (create_row create) (int (length ?base)) ?ps (xs, ch) = Some (ls_screenRows screen, ch')"
    and dm: "dm_changedRows damage = (if ns_fullReplace incoming then [0..<length ?base] else sorted_list_of_set ch')"
    unfolding nat_rows unfolding m(2) by (elim exE conjE) (metis surj_pair)
  have xs: "list_all (copy_in_range (int (length ?base))) ?cs" "length xs = length ?base"
    "\<forall>i < length ?base. xs ! i = copied_row ?base ?cs i (?base ! i)" "ch = {i. \<exists>c\<in>set ?cs. covers c i}"
    using applyCopies_spec [of ?base ?base, where cs = ?cs and ch = "{}"] copies by simp_all
  have rows: "length (ls_screenRows screen) = length ?base"
    "list_all (\<lambda>p. 0 \<le> rr_rowIndex p \<and> rr_rowIndex p < int (length ?base) \<and> rr_row p \<noteq> None) ?ps"
    "\<forall>i < length ?base. ls_screenRows screen ! i = replaced_row (create_row create) ?ps i (xs ! i)"
    "ch' = ch \<union> {i. int i \<in> rr_rowIndex ` set ?ps}"
    using applyReplacements_spec [OF xs(2), where mk = "create_row create" and ps = ?ps and ch = ch] repl by simp_all
  have sub: "ch' \<subseteq> {..<length ?base}"
    using xs(1,4) rows(2,4) covers_in_range by (fastforce simp: list_all_iff)
  then have fin: "finite ch'" by (rule finite_subset) simp
  have ok: "screen_ok screen" using rows(1) m(2) by (simp add: screen_ok_def)
  have delta: "ns_fullReplace incoming \<or> (\<exists>s. current = Some s \<and> ls_revision s = ns_baseRevision incoming)"
    using m(5) by (cases current; cases "ns_fullReplace incoming") (auto simp: base_matches_def)
  have order: "sorted_wrt (<) (dm_changedRows damage)" "set (dm_changedRows damage) \<subseteq> {..<length ?base}"
    using dm sub fin by auto
  have same: "i \<in> set (dm_changedRows damage) \<or> ls_screenRows screen ! i = ?base ! i" if "i < length ?base" for i
  proof (cases "i \<in> ch'")
    case True
    with that dm fin show ?thesis by simp
  next
    case False
    then show ?thesis
      using that rows xs(3,4) by (simp add: copied_row_uncovered replaced_row_unnamed)
  qed
  show ?thesis using ok delta order same rows(3) xs(3) unfolding Let_def by simp
qed

definition plain_creators :: "(nat, unit, unit) creators" where
  "plain_creators = \<lparr>create_emptyRow = 0, create_row = id, create_terminal = id, create_cursor = id, create_modes = id\<rparr>"

definition abc_screen :: "(nat, unit, unit) canonicalLiveScreen" where
  "abc_screen = \<lparr>ls_terminal = \<lparr>tr_endpointId = [1], tr_terminalId = [2]\<rparr>, ls_generation = 1, ls_revision = 1, ls_cols = 1,
     ls_rows = 3, ls_screenRows = [Some 65, Some 66, Some 67], ls_alternateScreen = False, ls_cursor = None, ls_modes = None,
     ls_timestampUnixNano = 0\<rparr>"

definition scroll_update :: "(nat, unit, unit) nativeScreenResult" where
  "scroll_update = \<lparr>ns_terminal = None, ns_liveRevision = 2, ns_size = Some \<lparr>ts_cols = 1, ts_rows = 3\<rparr>,
     ns_rowReplacements = [\<lparr>rr_rowIndex = 1, rr_row = Some 88\<rparr>], ns_alternateScreen = False, ns_cursor = None, ns_modes = None,
     ns_timestampUnixNano = 0, ns_baseRevision = 1,
     ns_rowCopies = [\<lparr>rc_sourceRow = 0, rc_destinationRow = 1, rc_count = 2\<rparr>], ns_fullReplace = False\<rparr>"

theorem merge_screen_witness:
  "\<exists>screen damage. mergeLiveScreenResult plain_creators (Some abc_screen) scroll_update 1 (ls_terminal abc_screen) = Some (screen, damage) \<and>
     ls_screenRows screen = [Some 65, Some 88, Some 66] \<and> sorted_wrt (<) (dm_changedRows damage)"
proof -
  obtain screen damage where r: "mergeLiveScreenResult plain_creators (Some abc_screen) scroll_update 1 (ls_terminal abc_screen) = Some (screen, damage)"
    and s: "ls_screenRows screen = [Some 65, Some 88, Some 66]"
    by (simp add: mergeLiveScreenResult_def abc_screen_def scroll_update_def plain_creators_def base_matches_def copy_in_range_def
        slice_def Let_def numeral_2_eq_2)
  have "pred_option screen_ok (Some abc_screen)" by (simp add: screen_ok_def abc_screen_def)
  from merge_screen [OF this r] have "sorted_wrt (<) (dm_changedRows damage)" by (simp add: Let_def)
  with r s show ?thesis by blast
qed

end
