(* ===== verification/HistoryRows.thy ===== *)
theory HistoryRows
  imports Complex_Main Decimal
begin

text \<open>
  The rows of the scroll-back history (\<open>clients/ui/src/terminal/coreV2HistoryANSI.ts\<close>, types from
  \<open>coreV2TerminalProtocol.ts\<close>): reflow of logical lines into rows of the local width and their
  replay as ANSI text, and the two searches in reflowed rows that \<open>coreV2ScrollbackPager.ts\<close> makes, for
  the columns of a match and for the row at the top of the viewport.

  Column counts are rational numbers, because a cell is split by dividing its width. \<open>Intl.Segmenter\<close>
  cuts text into graphemes by tables that belong to the engine; it is the parameter \<open>segment\<close>.
\<close>

section \<open>Definitions\<close>

record historyCellStyle =
  hs_fg :: "ustr option"
  hs_bg :: "ustr option"
  hs_bold :: "bool option"
  hs_italic :: "bool option"
  hs_underline :: "bool option"
  hs_blink :: "bool option"
  hs_reverse :: "bool option"
  hs_strikethrough :: "bool option"

record historyCell =
  hc_text :: ustr
  hc_width :: rat
  hc_style :: "historyCellStyle option"
  hc_linkUrl :: "ustr option"
  hc_linkParams :: "ustr option"

record historyRow =
  hr_index :: nat
  hr_cells :: "historyCell list"
  hr_tailFillStyle :: "historyCellStyle option"
  hr_kind :: "ustr option"
  hr_wrapped :: "bool option"
  hr_ownership :: "ustr option"
  hr_timestampUnixMs :: "int option"
  hr_fixedGrid :: "bool option"
  hr_screenCols :: "int option"
  hr_screenRow :: "int option"
  hr_screenRowSet :: "bool option"
  hr_logicalLineId :: "ustr option"
  hr_rowInLine :: "int option"
  hr_logicalStartCol :: "rat option"

type_synonym segmenter = "ustr \<Rightarrow> ustr list"

text \<open>\<open>Math.max(1, cell.width)\<close>, and its sum over the cells of a row.\<close>

definition cell_cols :: "historyCell \<Rightarrow> rat" where
  "cell_cols cell = max 1 (hc_width cell)"

definition cells_width :: "historyCell list \<Rightarrow> rat" where
  "cells_width cells = sum_list (map cell_cols cells)"

text \<open>
  Widths are exact rationals where the code divides doubles; the two agree when the quotient is a
  whole number, as it is for a cell whose graphemes have the same width in columns.
\<close>

definition splitHistoryCell :: "segmenter \<Rightarrow> historyCell \<Rightarrow> historyCell list" where
  "splitHistoryCell segment cell =
     (let width = max 1 (hc_width cell) in
      if hc_text cell = []
      then replicate (nat \<lfloor>width\<rfloor>) (cell\<lparr>hc_text := [32], hc_width := 1, hc_linkUrl := None, hc_linkParams := None\<rparr>)
      else let graphemes = segment (hc_text cell) in
        if length graphemes \<le> 1 then [cell\<lparr>hc_width := width\<rparr>]
        else map (\<lambda>t. cell\<lparr>hc_text := t, hc_width := width / of_nat (length graphemes)\<rparr>) graphemes)"

text \<open>The loop that crops a row of a fixed grid.\<close>

fun crop_cells :: "rat \<Rightarrow> rat \<Rightarrow> historyCell list \<Rightarrow> historyCell list" where
  "crop_cells cols width [] = []"
| "crop_cells cols width (cell # cells) =
     (if cols < width + cell_cols cell then [] else cell # crop_cells cols (width + cell_cols cell) cells)"

text \<open>The variables of the reflow loop, its local function \<open>flush\<close> and its body.\<close>

record reflow =
  rf_rows :: "historyRow list"
  rf_current :: "historyCell list"
  rf_width :: rat
  rf_start :: rat

definition reflow_flush :: "historyRow \<Rightarrow> reflow \<Rightarrow> reflow" where
  "reflow_flush row s =
     \<lparr>rf_rows = rf_rows s @ [row\<lparr>hr_cells := rf_current s, hr_tailFillStyle := None, hr_rowInLine := Some (int (length (rf_rows s))),
        hr_logicalStartCol := Some (rf_start s), hr_wrapped := Some True\<rparr>],
      rf_current = [], rf_width = 0, rf_start = rf_start s + rf_width s\<rparr>"

definition reflow_cell :: "historyRow \<Rightarrow> rat \<Rightarrow> reflow \<Rightarrow> historyCell \<Rightarrow> reflow" where
  "reflow_cell row cols s cell =
     (let s = (if 0 < rf_width s \<and> cols < rf_width s + cell_cols cell then reflow_flush row s else s);
        s = s\<lparr>rf_current := rf_current s @ [cell], rf_width := rf_width s + cell_cols cell\<rparr>
      in if cols \<le> rf_width s then reflow_flush row s else s)"

definition reflowHistoryRow :: "segmenter \<Rightarrow> rat \<Rightarrow> historyRow \<Rightarrow> historyRow list" where
  "reflowHistoryRow segment cols row =
     (let cells = concat (map (splitHistoryCell segment) (hr_cells row)) in
      if hr_fixedGrid row = Some True
      then [row\<lparr>hr_cells := crop_cells cols 0 cells, hr_logicalStartCol := Some 0, hr_wrapped := Some False\<rparr>]
      else if cells = [] then [row\<lparr>hr_rowInLine := Some 0, hr_logicalStartCol := Some 0, hr_cells := []\<rparr>]
      else
        let s = foldl (reflow_cell row cols) \<lparr>rf_rows = [], rf_current = [], rf_width = 0, rf_start = 0\<rparr> cells;
          s = (if rf_current s \<noteq> [] \<or> rf_rows s = [] then reflow_flush row s else s);
          visualRows = rf_rows s
        in butlast visualRows @ [(last visualRows)\<lparr>hr_tailFillStyle := hr_tailFillStyle row, hr_wrapped := hr_wrapped row\<rparr>])"

definition coreV2ReflowHistoryRows :: "segmenter \<Rightarrow> historyRow list \<Rightarrow> rat \<Rightarrow> historyRow list" where
  "coreV2ReflowHistoryRows segment rows cols =
     (let width = (if 0 < cols then of_int \<lfloor>cols\<rfloor> else 80);
        visualRows = concat (map (reflowHistoryRow segment width) rows)
      in map (\<lambda>(i, row). row\<lparr>hr_index := i\<rparr>) (enumerate 0 visualRows))"

section \<open>ANSI replay\<close>

definition lower_ascii :: "nat \<Rightarrow> nat" where
  "lower_ascii c = (if 65 \<le> c \<and> c \<le> 90 then c + 32 else c)"

definition strip_index_prefix :: "ustr \<Rightarrow> ustr" where
  "strip_index_prefix token =
     (if map lower_ascii (take 5 token) = asc ''ansi:'' then drop 5 token
      else if map lower_ascii (take 4 token) = asc ''idx:'' then drop 4 token
      else token)"

definition hex_digit :: "nat \<Rightarrow> bool" where
  "hex_digit c \<longleftrightarrow> is_digit c \<or> 97 \<le> lower_ascii c \<and> lower_ascii c \<le> 102"

definition hex_value :: "nat \<Rightarrow> nat" where
  "hex_value c = (if is_digit c then c - 48 else lower_ascii c - 87)"

definition hex_byte :: "ustr \<Rightarrow> ustr" where
  "hex_byte s = show_nat (16 * hex_value (s ! 0) + hex_value (s ! 1))"

definition colorANSI :: "ustr option \<Rightarrow> bool \<Rightarrow> ustr" where
  "colorANSI value foreground =
     (let token = (case value of None \<Rightarrow> [] | Some v \<Rightarrow> trim v);
        digits = strip_index_prefix token;
        layer = (if foreground then asc ''38'' else asc ''48'')
      in if token = [] then []
         else if list_all is_digit digits \<and> 1 \<le> length digits \<and> length digits \<le> 3
         then layer @ asc '';5;'' @ show_nat (min 255 (parse_nat digits))
         else if length token = 7 \<and> hd token = 35 \<and> list_all hex_digit (tl token)
         then layer @ asc '';2;'' @ hex_byte (drop 1 token) @ asc '';'' @ hex_byte (drop 3 token) @ asc '';'' @ hex_byte (drop 5 token)
         else [])"

fun join_semi :: "ustr list \<Rightarrow> ustr" where
  "join_semi [] = []"
| "join_semi [s] = s"
| "join_semi (s # t # ss) = s @ 59 # join_semi (t # ss)"

definition styleANSI :: "historyCellStyle option \<Rightarrow> ustr" where
  "styleANSI style =
     (case style of
        None \<Rightarrow> []
      | Some st \<Rightarrow>
          let flag = (\<lambda>b c. if b = Some True then [asc c] else []);
            codes = flag (hs_bold st) ''1'' @ flag (hs_italic st) ''3'' @ flag (hs_underline st) ''4'' @ flag (hs_blink st) ''5'' @
              flag (hs_reverse st) ''7'' @ flag (hs_strikethrough st) ''9'';
            foreground = colorANSI (hs_fg st) True; background = colorANSI (hs_bg st) False;
            codes = codes @ (if foreground \<noteq> [] then [foreground] else []) @ (if background \<noteq> [] then [background] else [])
          in if codes \<noteq> [] then [27, 91] @ join_semi codes @ [109] else [])"

definition RESET :: ustr where
  "RESET = [27, 91, 48, 109]"

definition blanks :: "rat \<Rightarrow> ustr" where
  "blanks w = replicate (nat \<lfloor>w\<rfloor>) 32"

text \<open>The loop over the cells of a row, with the style in effect.\<close>

fun cells_ANSI :: "ustr \<Rightarrow> historyCell list \<Rightarrow> ustr" where
  "cells_ANSI currentStyle [] = []"
| "cells_ANSI currentStyle (cell # cells) =
     (let style = styleANSI (hc_style cell) in
      (if style \<noteq> currentStyle then RESET @ style else []) @
      (if hc_text cell \<noteq> [] then hc_text cell else blanks (cell_cols cell)) @ cells_ANSI style cells)"

definition row_ANSI :: "rat \<Rightarrow> bool \<Rightarrow> historyRow \<Rightarrow> ustr" where
  "row_ANSI cols is_last row =
     (let width = cells_width (hr_cells row) in
      cells_ANSI [] (hr_cells row) @
      (if width < cols then RESET @ styleANSI (hr_tailFillStyle row) @ blanks (cols - width) else []) @
      RESET @ (if is_last \<or> hr_wrapped row = Some True then [] else [13, 10]))"

definition coreV2HistoryRowsANSI :: "historyRow list \<Rightarrow> rat \<Rightarrow> ustr" where
  "coreV2HistoryRowsANSI rows cols =
     concat (map (\<lambda>(i, row). row_ANSI cols (Suc i = length rows) row) (enumerate 0 rows))"

section \<open>Positions in reflowed rows\<close>

record historyRange =
  hg_startLineId :: ustr
  hg_startCol :: rat
  hg_endLineId :: ustr
  hg_endCol :: rat

text \<open>The loop over the rows: the row's index and whether the first line of the match was seen.\<close>

fun match_ranges :: "historyRange \<Rightarrow> nat \<Rightarrow> bool \<Rightarrow> historyRow list \<Rightarrow> (nat \<times> rat \<times> rat) list" where
  "match_ranges m i started [] = []"
| "match_ranges m i started (row # rows) =
     (let lineId = (case hr_logicalLineId row of None \<Rightarrow> [] | Some l \<Rightarrow> l) in
      if lineId = [] then match_ranges m (Suc i) started rows
      else if \<not> started \<and> lineId \<noteq> hg_startLineId m then match_ranges m (Suc i) started rows
      else if lineId \<noteq> hg_startLineId m \<and> lineId \<noteq> hg_endLineId m \<and> hg_startLineId m = hg_endLineId m then []
      else
        let rowStart = max 0 (case hr_logicalStartCol row of None \<Rightarrow> 0 | Some c \<Rightarrow> c);
          rowEnd = rowStart + cells_width (hr_cells row);
          matchStart = (if lineId = hg_startLineId m then max 0 (hg_startCol m) else rowStart);
          matchEnd = (if lineId = hg_endLineId m then max matchStart (hg_endCol m) else rowEnd);
          startCol = max rowStart matchStart - rowStart;
          endCol = min rowEnd matchEnd - rowStart
        in (if startCol < endCol then [(i, startCol, endCol)] else []) @
           (if lineId = hg_endLineId m \<and> matchEnd \<le> rowEnd then [] else match_ranges m (Suc i) True rows))"

definition historyMatchVisualRanges :: "historyRow list \<Rightarrow> historyRange \<Rightarrow> (nat \<times> rat \<times> rat) list" where
  "historyMatchVisualRanges rows m = match_ranges m 0 False rows"

record viewportAnchor =
  va_topLineId :: ustr
  va_topCellOffset :: rat
  va_atEnd :: bool
  va_screenCols :: nat
  va_screenRows :: nat

text \<open>The loop of \<open>historyViewportTop\<close>: the cells that remain, and whether the line was reached.\<close>

fun viewport_row :: "ustr \<Rightarrow> rat \<Rightarrow> bool \<Rightarrow> nat \<Rightarrow> historyRow list \<Rightarrow> nat option" where
  "viewport_row line remaining found i [] = None"
| "viewport_row line remaining found i (row # rows) =
     (if hr_logicalLineId row \<noteq> Some line
      then if found then None else viewport_row line remaining found (Suc i) rows
      else if remaining = 0 then Some i
      else let width = cells_width (hr_cells row) in
        if remaining < width then Some i else viewport_row line (remaining - width) True (Suc i) rows)"

definition js_trunc :: "rat \<Rightarrow> rat" where
  "js_trunc x = (if 0 \<le> x then of_int \<lfloor>x\<rfloor> else of_int \<lceil>x\<rceil>)"

definition historyViewportTop :: "viewportAnchor option \<Rightarrow> historyRow list \<Rightarrow> nat option" where
  "historyViewportTop viewport visualRows =
     (case viewport of
        None \<Rightarrow> None
      | Some anchor \<Rightarrow>
          if va_atEnd anchor then Some (length visualRows)
          else viewport_row (va_topLineId anchor) (max 0 (js_trunc (va_topCellOffset anchor))) False 0 visualRows)"

section \<open>Windows\<close>

record historyCursor =
  hcu_lineId :: ustr
  hcu_rowInLine :: int

datatype windowOp = OpReplace | OpPrepend | OpAppend

record historyLineSpan =
  hl_startRow :: int
  hl_endRow :: int
  hl_rowKind :: "ustr option"
  hl_logicalLineId :: ustr
  hl_timestampStartUnixMs :: "int option"
  hl_timestampEndUnixMs :: "int option"
  hl_clippedBefore :: bool
  hl_clippedAfter :: bool

record historyWindow =
  hw_terminalId :: ustr
  hw_token :: ustr
  hw_op :: windowOp
  hw_cols :: rat
  hw_renderRows :: "historyRow list"
  hw_lines :: "historyLineSpan list"
  hw_totalRows :: int
  hw_logicalTotal :: int
  hw_hasMore :: bool
  hw_generation :: ustr
  hw_viewportAnchor :: "viewportAnchor option"
  hw_firstRowId :: "ustr option"
  hw_lastRowId :: "ustr option"
  hw_firstLineId :: "ustr option"
  hw_lastLineId :: "ustr option"

definition cursorFromRow :: "historyRow option \<Rightarrow> historyCursor option" where
  "cursorFromRow row =
     (case row of
        None \<Rightarrow> None
      | Some r \<Rightarrow>
          (case (hr_logicalLineId r, hr_rowInLine r) of
             (Some (c # cs), Some n) \<Rightarrow> Some \<lparr>hcu_lineId = c # cs, hcu_rowInLine = n\<rparr>
           | _ \<Rightarrow> None))"

definition first_row :: "'a list \<Rightarrow> 'a option" where
  "first_row rows = (case rows of [] \<Rightarrow> None | r # _ \<Rightarrow> Some r)"

section \<open>Reflow\<close>

lemma cells_width_simps [simp]:
  "cells_width [] = 0" "cells_width (c # cs) = cell_cols c + cells_width cs" "cells_width (cs @ ds) = cells_width cs + cells_width ds"
  by (simp_all add: cells_width_def)

lemma cell_cols_ge_1 [simp]: "1 \<le> cell_cols c" "0 < cell_cols c"
  by (simp_all add: cell_cols_def)

lemma less_add_cols: "a \<le> b \<Longrightarrow> a < b + cell_cols c"
  by (rule order_le_less_trans [of _ b]) simp_all

lemma cells_width_nonneg [simp]: "0 \<le> cells_width cs"
proof (induction cs)
  case (Cons c cs)
  then show ?case using add_nonneg_nonneg [OF less_imp_le [OF cell_cols_ge_1(2)] Cons.IH] by simp
qed simp

lemma cells_width_pos [simp]: "0 < cells_width cs \<longleftrightarrow> cs \<noteq> []"
proof (cases cs)
  case (Cons c ds)
  then show ?thesis using add_pos_nonneg [OF cell_cols_ge_1(2) [of c] cells_width_nonneg [of ds]] by simp
qed simp

definition row_width :: "historyRow \<Rightarrow> rat" where
  "row_width r = cells_width (hr_cells r)"

text \<open>The rows cut from a line so far: numbered, each starting where the one before ends, none too
  wide unless it is a single cell, none with room for the first cell of the next.\<close>

definition cut_row :: "historyRow \<Rightarrow> historyRow list \<Rightarrow> nat \<Rightarrow> historyRow" where
  "cut_row row rows i = row\<lparr>hr_cells := hr_cells (rows ! i), hr_tailFillStyle := None, hr_rowInLine := Some (int i),
     hr_logicalStartCol := Some (cells_width (concat (map hr_cells (take i rows)))), hr_wrapped := Some True\<rparr>"

definition full_rows :: "rat \<Rightarrow> historyRow list \<Rightarrow> bool" where
  "full_rows cols rows \<longleftrightarrow>
     (\<forall>i < length rows. hr_cells (rows ! i) \<noteq> [] \<and> (row_width (rows ! i) \<le> cols \<or> length (hr_cells (rows ! i)) = 1)) \<and>
     (\<forall>i. Suc i < length rows \<longrightarrow> cols < row_width (rows ! i) + cell_cols (hd (hr_cells (rows ! Suc i))))"

definition no_room :: "rat \<Rightarrow> historyRow list \<Rightarrow> historyCell list \<Rightarrow> bool" where
  "no_room cols rows cur \<longleftrightarrow> rows = [] \<or>
     (if cur = [] then cols \<le> row_width (last rows) else cols < row_width (last rows) + cell_cols (hd cur))"

definition reflow_ok :: "historyRow \<Rightarrow> rat \<Rightarrow> historyCell list \<Rightarrow> reflow \<Rightarrow> bool" where
  "reflow_ok row cols seen s \<longleftrightarrow>
     (\<forall>i < length (rf_rows s). rf_rows s ! i = cut_row row (rf_rows s) i) \<and> full_rows cols (rf_rows s) \<and>
     concat (map hr_cells (rf_rows s)) @ rf_current s = seen \<and> rf_width s = cells_width (rf_current s) \<and>
     rf_start s = cells_width (concat (map hr_cells (rf_rows s))) \<and> no_room cols (rf_rows s) (rf_current s)"

lemma full_rows_snoc:
  assumes "full_rows cols rows" and "no_room cols rows (hr_cells r)" and "hr_cells r \<noteq> []"
    and "row_width r \<le> cols \<or> length (hr_cells r) = 1"
  shows "full_rows cols (rows @ [r])"
proof -
  have l: "rows ! i = last rows" if "Suc i = length rows" for i using that by (cases rows rule: rev_cases) auto
  show ?thesis using assms by (auto simp: full_rows_def no_room_def nth_append less_Suc_eq l)
qed

lemma flush_ok:
  assumes "reflow_ok row cols seen s" and "rf_current s \<noteq> []"
    and "rf_width s \<le> cols \<or> length (rf_current s) = 1"
  shows "\<forall>i < length (rf_rows (reflow_flush row s)). rf_rows (reflow_flush row s) ! i = cut_row row (rf_rows (reflow_flush row s)) i"
    and "full_rows cols (rf_rows (reflow_flush row s))"
    and "concat (map hr_cells (rf_rows (reflow_flush row s))) = seen"
    and "rf_start (reflow_flush row s) = cells_width seen"
    and "row_width (last (rf_rows (reflow_flush row s))) = rf_width s"
proof -
  have o: "\<And>i. i < length (rf_rows s) \<Longrightarrow> rf_rows s ! i = cut_row row (rf_rows s) i"
    "full_rows cols (rf_rows s)" "concat (map hr_cells (rf_rows s)) @ rf_current s = seen"
    "rf_width s = cells_width (rf_current s)" "rf_start s = cells_width (concat (map hr_cells (rf_rows s)))"
    "no_room cols (rf_rows s) (rf_current s)"
    using assms(1) by (auto simp: reflow_ok_def)
  show "\<forall>i < length (rf_rows (reflow_flush row s)). rf_rows (reflow_flush row s) ! i = cut_row row (rf_rows (reflow_flush row s)) i"
  proof (intro allI impI)
    fix i assume i: "i < length (rf_rows (reflow_flush row s))"
    show "rf_rows (reflow_flush row s) ! i = cut_row row (rf_rows (reflow_flush row s)) i"
    proof (cases "i < length (rf_rows s)")
      case True
      with o(1) [OF True] show ?thesis by (simp add: reflow_flush_def cut_row_def nth_append)
    next
      case False
      with i have "i = length (rf_rows s)" by (simp add: reflow_flush_def)
      then show ?thesis by (simp add: reflow_flush_def cut_row_def o(5))
    qed
  qed
  show "full_rows cols (rf_rows (reflow_flush row s))"
    using full_rows_snoc [OF o(2)] o(4,6) assms(2,3) by (simp add: reflow_flush_def row_width_def)
  show "concat (map hr_cells (rf_rows (reflow_flush row s))) = seen" using o(3) by (simp add: reflow_flush_def)
  show "rf_start (reflow_flush row s) = cells_width seen" using o(3) [symmetric] o(4,5) by (simp add: reflow_flush_def)
  show "row_width (last (rf_rows (reflow_flush row s))) = rf_width s" using o(4) by (simp add: reflow_flush_def row_width_def)
qed

lemma reflow_flush_rest [simp]: "rf_current (reflow_flush row s) = []" "rf_width (reflow_flush row s) = 0"
  by (simp_all add: reflow_flush_def)

lemma reflow_cell_ok:
  assumes ok: "reflow_ok row cols seen s" and small: "rf_current s = [] \<or> rf_width s < cols"
  shows "reflow_ok row cols (seen @ [cell]) (reflow_cell row cols s cell) \<and>
    (rf_current (reflow_cell row cols s cell) = [] \<or> rf_width (reflow_cell row cols s cell) < cols)"
proof -
  define s1 where "s1 = (if 0 < rf_width s \<and> cols < rf_width s + cell_cols cell then reflow_flush row s else s)"
  define s2 where "s2 = s1\<lparr>rf_current := rf_current s1 @ [cell], rf_width := rf_width s1 + cell_cols cell\<rparr>"
  have w: "rf_width s = cells_width (rf_current s)" using ok by (simp add: reflow_ok_def)
  have two: "reflow_ok row cols (seen @ [cell]) s2 \<and> (rf_width s2 \<le> cols \<or> length (rf_current s2) = 1)"
  proof (cases "0 < rf_width s \<and> cols < rf_width s + cell_cols cell")
    case True
    then have ne: "rf_current s \<noteq> []" using w by simp
    with small have "rf_width s \<le> cols \<or> length (rf_current s) = 1" by simp
    note f = flush_ok [OF ok ne this]
    have "no_room cols (rf_rows s2) (rf_current s2)" using True f(5) by (simp add: s2_def s1_def no_room_def)
    then show ?thesis using True f by (simp add: s2_def s1_def reflow_ok_def)
  next
    case False
    then have s1: "s1 = s" by (auto simp: s1_def)
    have "no_room cols (rf_rows s2) (rf_current s2)"
      using ok less_add_cols [of cols _ cell]
      by (cases "rf_current s") (auto simp: s2_def s1 reflow_ok_def no_room_def)
    moreover have "rf_width s2 \<le> cols \<or> length (rf_current s2) = 1"
      using False w cells_width_pos [of "rf_current s"] by (cases "rf_current s = []") (auto simp: s2_def s1)
    ultimately show ?thesis using ok by (auto simp: s2_def s1 reflow_ok_def)
  qed
  have r: "reflow_cell row cols s cell = (if cols \<le> rf_width s2 then reflow_flush row s2 else s2)"
    by (simp add: reflow_cell_def Let_def s1_def s2_def)
  show ?thesis
  proof (cases "cols \<le> rf_width s2")
    case True
    have "rf_current s2 \<noteq> []" by (simp add: s2_def)
    note f = flush_ok [OF conjunct1 [OF two] this conjunct2 [OF two]]
    then show ?thesis using True by (simp add: r reflow_ok_def no_room_def)
  next
    case False
    then show ?thesis using two by (simp add: r)
  qed
qed

lemma reflow_cells_ok:
  assumes "reflow_ok row cols seen s" and "rf_current s = [] \<or> rf_width s < cols"
  shows "reflow_ok row cols (seen @ cells) (foldl (reflow_cell row cols) s cells) \<and>
    (rf_current (foldl (reflow_cell row cols) s cells) = [] \<or> rf_width (foldl (reflow_cell row cols) s cells) < cols)"
  using assms
proof (induction cells arbitrary: s seen)
  case (Cons cell cells)
  note c = reflow_cell_ok [OF Cons.prems, of cell]
  from Cons.IH [OF conjunct1 [OF c] conjunct2 [OF c]] show ?case by simp
qed simp

lemma reflow_row_ok:
  assumes "concat (map (splitHistoryCell segment) (hr_cells row)) = cells" and "cells \<noteq> []" and "hr_fixedGrid row \<noteq> Some True"
  obtains rows where "reflowHistoryRow segment cols row =
      butlast rows @ [(last rows)\<lparr>hr_tailFillStyle := hr_tailFillStyle row, hr_wrapped := hr_wrapped row\<rparr>]"
    and "rows \<noteq> []" and "\<And>i. i < length rows \<Longrightarrow> rows ! i = cut_row row rows i"
    and "full_rows cols rows" and "concat (map hr_cells rows) = cells"
proof -
  let ?i = "\<lparr>rf_rows = [], rf_current = [], rf_width = 0, rf_start = 0\<rparr>"
  define s where "s = foldl (reflow_cell row cols) ?i cells"
  have "reflow_ok row cols [] ?i" by (simp add: reflow_ok_def full_rows_def no_room_def)
  from reflow_cells_ok [OF this, of cells]
  have ok: "reflow_ok row cols cells s" and small: "rf_current s = [] \<or> rf_width s < cols" by (simp_all add: s_def)
  define rows where "rows = rf_rows (if rf_current s \<noteq> [] \<or> rf_rows s = [] then reflow_flush row s else s)"
  have e: "rf_current s \<noteq> []" if "rf_rows s = []" using ok that assms(2) by (auto simp: reflow_ok_def)
  have "rows \<noteq> [] \<and> (\<forall>i < length rows. rows ! i = cut_row row rows i) \<and> full_rows cols rows \<and> concat (map hr_cells rows) = cells"
  proof (cases "rf_current s = []")
    case True
    then show ?thesis using ok e by (auto simp: rows_def reflow_ok_def)
  next
    case False
    with small have "rf_width s \<le> cols \<or> length (rf_current s) = 1" by simp
    note f = flush_ok [OF ok False this]
    have "rf_rows (reflow_flush row s) \<noteq> []" by (simp add: reflow_flush_def)
    then show ?thesis using f False by (simp add: rows_def)
  qed
  moreover have "reflowHistoryRow segment cols row =
      butlast rows @ [(last rows)\<lparr>hr_tailFillStyle := hr_tailFillStyle row, hr_wrapped := hr_wrapped row\<rparr>]"
    using assms by (simp add: reflowHistoryRow_def Let_def rows_def s_def)
  ultimately show ?thesis using that by blast
qed

text \<open>
  What holds of the rows of a line after the last one has got the tail and the wrap mark of the line.
\<close>

definition line_rows :: "historyRow \<Rightarrow> rat \<Rightarrow> historyCell list \<Rightarrow> historyRow list \<Rightarrow> bool" where
  "line_rows row cols cells rows \<longleftrightarrow>
     rows \<noteq> [] \<and> concat (map hr_cells rows) = cells \<and>
     (\<forall>i < length rows.
        rows ! i = row\<lparr>hr_cells := hr_cells (rows ! i), hr_rowInLine := Some (int i),
          hr_logicalStartCol := Some (cells_width (concat (map hr_cells (take i rows)))),
          hr_tailFillStyle := (if Suc i = length rows then hr_tailFillStyle row else None),
          hr_wrapped := (if Suc i = length rows then hr_wrapped row else Some True)\<rparr> \<and>
        (row_width (rows ! i) \<le> cols \<or> length (hr_cells (rows ! i)) \<le> 1) \<and> (cells \<noteq> [] \<longrightarrow> hr_cells (rows ! i) \<noteq> [])) \<and>
     (\<forall>i. Suc i < length rows \<longrightarrow> cols < row_width (rows ! i) + cell_cols (hd (hr_cells (rows ! Suc i))))"

lemma butlast_last_nth:
  assumes "i < length rows"
  shows "(butlast rows @ [f (last rows)]) ! i = (if Suc i = length rows then f (rows ! i) else rows ! i)"
  using assms by (cases rows rule: rev_cases) (auto simp: nth_append less_Suc_eq)

lemma map_butlast_last:
  assumes "rows \<noteq> []" and "g (f (last rows)) = g (last rows)"
  shows "map g (butlast rows @ [f (last rows)]) = map g rows"
  using assms by (cases rows rule: rev_cases) auto

lemma reflow_line_rows:
  assumes "hr_fixedGrid row \<noteq> Some True"
  shows "line_rows row cols (concat (map (splitHistoryCell segment) (hr_cells row))) (reflowHistoryRow segment cols row)"
proof (cases "concat (map (splitHistoryCell segment) (hr_cells row)) = []")
  case True
  then show ?thesis using assms by (simp add: reflowHistoryRow_def line_rows_def del: concat_eq_Nil_conv)
next
  case False
  from reflow_row_ok [OF refl this assms, of cols]
  obtain rows where r: "reflowHistoryRow segment cols row =
      butlast rows @ [(last rows)\<lparr>hr_tailFillStyle := hr_tailFillStyle row, hr_wrapped := hr_wrapped row\<rparr>]" (is "?out = _")
    "rows \<noteq> []" "\<And>i. i < length rows \<Longrightarrow> rows ! i = cut_row row rows i"
    "full_rows cols rows" "concat (map hr_cells rows) = concat (map (splitHistoryCell segment) (hr_cells row))" by blast
  have l: "length ?out = length rows" using r(1,2) by simp
  have c: "map hr_cells ?out = map hr_cells rows" unfolding r(1) using r(2) by (intro map_butlast_last) simp_all
  have ci: "hr_cells (?out ! i) = hr_cells (rows ! i)" if "i < length rows" for i
    using arg_cong [OF c, of "\<lambda>xs. xs ! i"] that l by simp
  have n: "?out ! i = (if Suc i = length rows then (rows ! i)\<lparr>hr_tailFillStyle := hr_tailFillStyle row, hr_wrapped := hr_wrapped row\<rparr> else rows ! i)"
    if "i < length rows" for i
    unfolding r(1) using butlast_last_nth [OF that] .
  have "?out ! i = row\<lparr>hr_cells := hr_cells (?out ! i), hr_rowInLine := Some (int i),
          hr_logicalStartCol := Some (cells_width (concat (map hr_cells (take i ?out)))),
          hr_tailFillStyle := (if Suc i = length ?out then hr_tailFillStyle row else None),
          hr_wrapped := (if Suc i = length ?out then hr_wrapped row else Some True)\<rparr>" if "i < length ?out" for i
  proof -
    have i: "i < length rows" using that l by simp
    obtain cs where cs: "hr_cells (rows ! i) = cs" by simp
    have t: "map hr_cells (take i rows) = map hr_cells (take i ?out)" by (simp add: take_map [symmetric] c)
    have x: "rows ! i = row\<lparr>hr_cells := cs, hr_tailFillStyle := None, hr_rowInLine := Some (int i),
        hr_logicalStartCol := Some (cells_width (concat (map hr_cells (take i ?out)))), hr_wrapped := Some True\<rparr>"
      using r(3) [OF i] unfolding cut_row_def cs t .
    show ?thesis unfolding ci [OF i] cs n [OF i] x l by simp
  qed
  moreover have "?out \<noteq> []" using r(1) by simp
  moreover have "concat (map hr_cells ?out) = concat (map (splitHistoryCell segment) (hr_cells row))" using c r(5) by simp
  moreover have "(row_width (?out ! i) \<le> cols \<or> length (hr_cells (?out ! i)) \<le> 1) \<and> hr_cells (?out ! i) \<noteq> []" if "i < length ?out" for i
    using that r(4) l ci [of i] by (auto simp: full_rows_def row_width_def)
  moreover have "cols < row_width (?out ! i) + cell_cols (hd (hr_cells (?out ! Suc i)))"
    if "Suc i < length ?out" for i
    using that r(4) l ci [of i] ci [of "Suc i"] by (auto simp: full_rows_def row_width_def)
  ultimately show ?thesis unfolding line_rows_def by blast
qed

definition longest_fitting :: "rat \<Rightarrow> historyCell list \<Rightarrow> historyCell list \<Rightarrow> bool" where
  "longest_fitting cols cells front \<longleftrightarrow>
     (\<exists>rest. cells = front @ rest \<and> (front = [] \<or> cells_width front \<le> cols) \<and>
        (rest = [] \<or> cols < cells_width front + cell_cols (hd rest)))"

lemma crop_cells_split:
  "\<exists>rest. cells = crop_cells cols w cells @ rest \<and>
     (crop_cells cols w cells = [] \<or> w + cells_width (crop_cells cols w cells) \<le> cols) \<and>
     (rest = [] \<or> cols < w + cells_width (crop_cells cols w cells) + cell_cols (hd rest))"
proof (induction cells arbitrary: w)
  case (Cons c cells)
  from Cons.IH [of "w + cell_cols c"] obtain rest where r:
    "cells = crop_cells cols (w + cell_cols c) cells @ rest"
    "crop_cells cols (w + cell_cols c) cells = [] \<or> w + cell_cols c + cells_width (crop_cells cols (w + cell_cols c) cells) \<le> cols"
    "rest = [] \<or> cols < w + cell_cols c + cells_width (crop_cells cols (w + cell_cols c) cells) + cell_cols (hd rest)" by blast
  show ?case
  proof (cases "cols < w + cell_cols c")
    case False
    then show ?thesis using r by (intro exI [of _ rest]) (auto simp: add.assoc)
  qed simp
qed simp

text \<open>The text of a cell before the reflow: one blank per whole column where there is none.\<close>

definition shown_text :: "historyCell \<Rightarrow> ustr" where
  "shown_text cell = (if hc_text cell = [] then replicate (nat \<lfloor>cell_cols cell\<rfloor>) 32 else hc_text cell)"

lemma split_text:
  assumes "concat (segment (hc_text cell)) = hc_text cell"
  shows "concat (map hc_text (splitHistoryCell segment cell)) = shown_text cell"
  using assms by (auto simp: splitHistoryCell_def shown_text_def cell_cols_def Let_def comp_def concat_replicate_single)

text \<open>
  C12: reflow loses nothing. Let the cells of a line be those \<open>splitHistoryCell\<close> makes of it, which hold
  the text of the line in order whenever the segmenter only cuts text into pieces. The rows of the
  line hold these cells in order; they are numbered, each starts at the column where the one before
  ends, none is wider than the screen unless it is a single cell, and none has room for the first
  cell of the next. All but the last are marked as wrapped; the last has the mark and the tail of the
  line. A row of a fixed grid becomes one row with the longest part of its cells that fits.
\<close>

theorem reflow_rows:
  "let cells = concat (map (splitHistoryCell segment) (hr_cells row)) in
   (list_all (\<lambda>cell. concat (segment (hc_text cell)) = hc_text cell) (hr_cells row) \<longrightarrow>
      concat (map hc_text cells) = concat (map shown_text (hr_cells row))) \<and>
   (if hr_fixedGrid row = Some True
    then \<exists>front. longest_fitting cols cells front \<and>
       reflowHistoryRow segment cols row = [row\<lparr>hr_cells := front, hr_logicalStartCol := Some 0, hr_wrapped := Some False\<rparr>]
    else line_rows row cols cells (reflowHistoryRow segment cols row))"
proof -
  let ?cells = "concat (map (splitHistoryCell segment) (hr_cells row))"
  have same: "concat (map hc_text (concat (map (splitHistoryCell segment) cs))) = concat (map shown_text cs)"
    if "list_all (\<lambda>cell. concat (segment (hc_text cell)) = hc_text cell) cs" for cs
    using that by (induction cs) (simp_all add: split_text)
  show ?thesis
  proof (cases "hr_fixedGrid row = Some True")
    case True
    have "longest_fitting cols ?cells (crop_cells cols 0 ?cells)"
      using crop_cells_split [of ?cells cols 0] by (simp add: longest_fitting_def)
    then show ?thesis using True same by (auto simp: Let_def reflowHistoryRow_def)
  next
    case False
    then show ?thesis using reflow_line_rows [OF False, of cols segment] same by (simp add: Let_def)
  qed
qed

section \<open>Positions\<close>

fun starts_from :: "rat \<Rightarrow> historyRow list \<Rightarrow> bool" where
  "starts_from b [] = True"
| "starts_from b (r # rs) = (hr_logicalStartCol r = Some b \<and> starts_from (b + cells_width (hr_cells r)) rs)"

definition row_start :: "historyRow list \<Rightarrow> nat \<Rightarrow> rat" where
  "row_start rows i = cells_width (concat (map hr_cells (take i rows)))"

lemma starts_from_nth:
  assumes "\<And>i. i < length rows \<Longrightarrow> hr_logicalStartCol (rows ! i) = Some (b + row_start rows i)"
  shows "starts_from b rows"
  using assms
proof (induction rows arbitrary: b)
  case (Cons r rs)
  have "starts_from (b + cells_width (hr_cells r)) rs"
    using Cons.prems [of "Suc _"] by (intro Cons.IH) (simp add: row_start_def add.assoc)
  then show ?case using Cons.prems [of 0] by (simp add: row_start_def)
qed simp

definition hit_of :: "rat \<Rightarrow> rat \<Rightarrow> nat \<Rightarrow> rat \<Rightarrow> historyRow \<Rightarrow> (nat \<times> rat \<times> rat) list" where
  "hit_of s e i b row =
     (let a = max b s - b; z = min (b + cells_width (hr_cells row)) e - b in if a < z then [(i, a, z)] else [])"

fun hits :: "rat \<Rightarrow> rat \<Rightarrow> nat \<Rightarrow> rat \<Rightarrow> historyRow list \<Rightarrow> (nat \<times> rat \<times> rat) list" where
  "hits s e i b [] = []"
| "hits s e i b (r # rs) = hit_of s e i b r @ hits s e (Suc i) (b + cells_width (hr_cells r)) rs"

lemma hits_beyond: "e \<le> b \<Longrightarrow> hits s e i b rs = []"
proof (induction rs arbitrary: i b)
  case (Cons r rs)
  have "e \<le> b + cells_width (hr_cells r)" using Cons.prems by (simp add: add_increasing2)
  then show ?case using Cons by (simp add: hit_of_def Let_def)
qed simp

lemma match_ranges_other:
  assumes "list_all (\<lambda>r. hr_logicalLineId r \<noteq> Some (hg_startLineId m)) rows" and "hg_startLineId m \<noteq> []"
  shows "match_ranges m i False (rows @ rest) = match_ranges m (i + length rows) False rest"
    and "hg_startLineId m = hg_endLineId m \<Longrightarrow> match_ranges m i True rows = []"
  using assms by (induction rows arbitrary: i) (auto split: option.splits)

lemma match_ranges_line:
  assumes m: "hg_startLineId m = line" "hg_endLineId m = line" "line \<noteq> []"
    and "list_all (\<lambda>r. hr_logicalLineId r = Some line) rows" and "starts_from b rows" and "0 \<le> b"
    and post: "list_all (\<lambda>r. hr_logicalLineId r \<noteq> Some line) post"
    and "started \<or> rows \<noteq> []"
  shows "match_ranges m i started (rows @ post) =
    hits (max 0 (hg_startCol m)) (max (max 0 (hg_startCol m)) (hg_endCol m)) i b rows"
  using assms(4-6,8)
proof (induction rows arbitrary: i b started)
  case Nil
  then show ?case using match_ranges_other(2) [of m post i] post m by simp
next
  case (Cons r rs)
  let ?s = "max 0 (hg_startCol m)" and ?e = "max (max 0 (hg_startCol m)) (hg_endCol m)"
  let ?b = "b + cells_width (hr_cells r)"
  have "0 \<le> ?b" using Cons.prems(3) by simp
  then have "match_ranges m (Suc i) True (rs @ post) = hits ?s ?e (Suc i) ?b rs" using Cons by simp
  moreover have "max 0 b = b" using Cons.prems(3) by simp
  ultimately show ?case using Cons.prems hits_beyond [of ?e ?b ?s "Suc i" rs] m
    by (simp add: Let_def hit_of_def)
qed

lemma hits_in:
  "(k, a, z) \<in> set (hits s e i b rows) \<longleftrightarrow>
     (\<exists>j < length rows. k = i + j \<and> (k, a, z) \<in> set (hit_of s e k (b + row_start rows j) (rows ! j)))"
proof (induction rows arbitrary: i b)
  case (Cons r rs)
  have "(k, a, z) \<in> set (hit_of s e i b r) \<Longrightarrow> k = i" by (auto simp: hit_of_def Let_def split: if_splits)
  then show ?case
    by (auto simp: Cons.IH row_start_def add.assoc Ex_less_Suc2)
qed simp

lemma hit_of_inside: "(k, a, z) \<in> set (hit_of s e i b row) \<Longrightarrow> 0 \<le> a \<and> a < z \<and> z \<le> cells_width (hr_cells row)"
  by (simp add: hit_of_def Let_def split: if_splits)

lemma hit_of_covers:
  assumes "0 \<le> b" and "0 \<le> x" and "x < cells_width (hr_cells row)"
  shows "(\<exists>a z. (i, a, z) \<in> set (hit_of (max 0 s) (max (max 0 s) e) i b row) \<and> a \<le> x \<and> x < z) \<longleftrightarrow> s \<le> b + x \<and> b + x < e"
  using assms by (auto simp: hit_of_def Let_def max_def min_def split: if_splits)

lemma viewport_row_other:
  assumes "list_all (\<lambda>r. hr_logicalLineId r \<noteq> Some line) rows"
  shows "viewport_row line c False i (rows @ rest) = viewport_row line c False (i + length rows) rest"
    and "viewport_row line c True i rows = None" and "viewport_row line c False i rows = None"
  using assms by (induction rows arbitrary: i) simp_all

lemma row_start_simps [simp]: "row_start rows 0 = 0" "row_start (r # rs) (Suc j) = cells_width (hr_cells r) + row_start rs j"
  by (simp_all add: row_start_def)

lemma row_start_nonneg [simp]: "0 \<le> row_start rows j"
  by (simp add: row_start_def)

lemma viewport_row_line:
  assumes "list_all (\<lambda>r. hr_logicalLineId r = Some line \<and> hr_cells r \<noteq> []) rows"
    and "list_all (\<lambda>r. hr_logicalLineId r \<noteq> Some line) post" and "0 \<le> c"
  shows "viewport_row line c found i (rows @ post) = Some k \<longleftrightarrow>
    (\<exists>j < length rows. k = i + j \<and> row_start rows j \<le> c \<and> c < row_start rows j + cells_width (hr_cells (rows ! j)))"
  using assms(1,3)
proof (induction rows arbitrary: c i found)
  case Nil
  then show ?case using viewport_row_other(2,3) [OF assms(2)] by (cases found) simp_all
next
  case (Cons r rs)
  let ?w = "cells_width (hr_cells r)"
  have w: "0 < ?w" using Cons.prems by simp
  show ?case
  proof (cases "c < ?w")
    case True
    then have "viewport_row line c found i ((r # rs) @ post) = Some i" using Cons.prems by simp
    moreover have "\<not> ?w + row_start rs j \<le> c" for j using True add_increasing2 [OF row_start_nonneg, of ?w ?w] by (meson leD order_refl order_trans row_start_nonneg le_add_same_cancel1)
    ultimately show ?thesis using True Cons.prems by (auto simp: Ex_less_Suc2)
  next
    case False
    then have "viewport_row line c found i ((r # rs) @ post) = viewport_row line (c - ?w) True (Suc i) (rs @ post)"
      using Cons.prems w by auto
    moreover have "0 \<le> c - ?w" using False by simp
    note Cons.IH [OF _ this, of True "Suc i"]
    ultimately show ?thesis using False Cons.prems by (auto simp: Ex_less_Suc2 le_diff_eq diff_less_eq algebra_simps)
  qed
qed

lemma line_rows_positions:
  assumes "line_rows row cols cells rows" and "hr_logicalLineId row = Some line"
  shows "starts_from 0 rows" and "list_all (\<lambda>r. hr_logicalLineId r = Some line) rows"
    and "cells \<noteq> [] \<Longrightarrow> list_all (\<lambda>r. hr_logicalLineId r = Some line \<and> hr_cells r \<noteq> []) rows"
proof -
  have r: "\<exists>cs t w. rows ! i = row\<lparr>hr_cells := cs, hr_rowInLine := Some (int i),
      hr_logicalStartCol := Some (row_start rows i), hr_tailFillStyle := t, hr_wrapped := w\<rparr>" if "i < length rows" for i
    using assms(1) that unfolding line_rows_def row_start_def by blast
  have st: "hr_logicalStartCol (rows ! i) = Some (0 + row_start rows i) \<and> hr_logicalLineId (rows ! i) = Some line"
    if "i < length rows" for i using r [OF that] assms(2) by auto
  show "starts_from 0 rows" using st by (intro starts_from_nth) blast
  show a: "list_all (\<lambda>r. hr_logicalLineId r = Some line) rows" using st by (simp add: list_all_length)
  show "list_all (\<lambda>r. hr_logicalLineId r = Some line \<and> hr_cells r \<noteq> []) rows" if "cells \<noteq> []"
    using assms(1) a that unfolding line_rows_def list_all_length by blast
qed

text \<open>
  C24: positions in a reflowed line, wherever its rows stand among those of other lines. The ranges of a
  match within the line cover exactly the columns of the match, row by row, and stay inside their
  rows; and the top of the viewport is the row that holds the anchored column, if the line has it.
\<close>

theorem history_positions:
  assumes "hr_fixedGrid row \<noteq> Some True" and line: "hr_logicalLineId row = Some line" "line \<noteq> []"
    and other: "list_all (\<lambda>r. hr_logicalLineId r \<noteq> Some line) (pre @ post)"
    and m: "hg_startLineId m = line" "hg_endLineId m = line"
    and anchor: "va_topLineId anchor = line" "\<not> va_atEnd anchor"
    and cells: "concat (map (splitHistoryCell segment) (hr_cells row)) \<noteq> []"
  shows "let rows = reflowHistoryRow segment cols row; ranges = historyMatchVisualRanges (pre @ rows @ post) m;
       width = (\<lambda>i. cells_width (hr_cells (rows ! i))); c = max 0 (js_trunc (va_topCellOffset anchor)) in
     (\<forall>(k, a, z) \<in> set ranges. \<exists>i < length rows. k = length pre + i \<and> 0 \<le> a \<and> a < z \<and> z \<le> width i) \<and>
     (\<forall>i < length rows. \<forall>x. 0 \<le> x \<and> x < width i \<longrightarrow>
        ((\<exists>a z. (length pre + i, a, z) \<in> set ranges \<and> a \<le> x \<and> x < z) \<longleftrightarrow>
         hg_startCol m \<le> row_start rows i + x \<and> row_start rows i + x < hg_endCol m)) \<and>
     (historyViewportTop (Some anchor) (pre @ rows @ post) = Some k \<longleftrightarrow>
        (\<exists>i < length rows. k = length pre + i \<and> row_start rows i \<le> c \<and> c < row_start rows i + width i))"
proof -
  define rows where "rows = reflowHistoryRow segment cols row"
  let ?s = "max 0 (hg_startCol m)" and ?e = "max (max 0 (hg_startCol m)) (hg_endCol m)"
  let ?rs = "historyMatchVisualRanges (pre @ rows @ post) m"
  have lr: "line_rows row cols (concat (map (splitHistoryCell segment) (hr_cells row))) rows"
    unfolding rows_def by (rule reflow_line_rows [OF assms(1)])
  note p = line_rows_positions [OF lr line(1)]
  have ne: "rows \<noteq> []" using lr by (simp add: line_rows_def)
  have "?rs = match_ranges m (length pre) False (rows @ post)"
    using match_ranges_other(1) [of m pre 0 "rows @ post"] other line(2) m by (simp add: historyMatchVisualRanges_def)
  also have "\<dots> = hits ?s ?e (length pre) 0 rows"
    using match_ranges_line [OF m line(2) p(2,1)] other ne by simp
  finally have rs: "(k, a, z) \<in> set ?rs \<longleftrightarrow> (\<exists>j < length rows. k = length pre + j \<and>
      (k, a, z) \<in> set (hit_of ?s ?e k (row_start rows j) (rows ! j)))" for k a z
    by (simp add: hits_in)
  have "\<exists>i < length rows. k = length pre + i \<and> 0 \<le> a \<and> a < z \<and> z \<le> cells_width (hr_cells (rows ! i))" if "(k, a, z) \<in> set ?rs" for k a z
    using that hit_of_inside unfolding rs by blast
  moreover have "(\<exists>a z. (length pre + i, a, z) \<in> set ?rs \<and> a \<le> x \<and> x < z) \<longleftrightarrow>
      hg_startCol m \<le> row_start rows i + x \<and> row_start rows i + x < hg_endCol m"
    if i: "i < length rows" and x: "0 \<le> x" "x < cells_width (hr_cells (rows ! i))" for i x
    using i hit_of_covers [OF row_start_nonneg x, where i = "length pre + i" and s = "hg_startCol m" and e = "hg_endCol m"]
    unfolding rs by simp
  moreover have "historyViewportTop (Some anchor) (pre @ rows @ post) = Some k \<longleftrightarrow>
      (\<exists>i < length rows. k = length pre + i \<and> row_start rows i \<le> max 0 (js_trunc (va_topCellOffset anchor)) \<and>
         max 0 (js_trunc (va_topCellOffset anchor)) < row_start rows i + cells_width (hr_cells (rows ! i)))"
    using viewport_row_line [OF p(3) [OF cells], of post] viewport_row_other(1) [of line pre _ 0 "rows @ post"] other anchor
    by (simp add: historyViewportTop_def)
  ultimately show ?thesis unfolding Let_def rows_def [symmetric] by blast
qed

definition sample_row :: "ustr \<Rightarrow> ustr \<Rightarrow> historyRow" where
  "sample_row line txt = \<lparr>hr_index = 0,
     hr_cells = map (\<lambda>c. \<lparr>hc_text = [c], hc_width = 1, hc_style = None, hc_linkUrl = None, hc_linkParams = None\<rparr>) txt,
     hr_tailFillStyle = None, hr_kind = None, hr_wrapped = Some False, hr_ownership = None, hr_timestampUnixMs = None,
     hr_fixedGrid = None, hr_screenCols = None, hr_screenRow = None, hr_screenRowSet = None, hr_logicalLineId = Some line,
     hr_rowInLine = Some 0, hr_logicalStartCol = None\<rparr>"

theorem reflow_rows_witness:
  "concat (map hc_text (concat (map (splitHistoryCell (map (\<lambda>c. [c]))) (hr_cells (sample_row (asc ''7'') (asc ''abc'')))))) = asc ''abc'' \<and>
   line_rows (sample_row (asc ''7'') (asc ''abc'')) 2
     (concat (map (splitHistoryCell (map (\<lambda>c. [c]))) (hr_cells (sample_row (asc ''7'') (asc ''abc'')))))
     (reflowHistoryRow (map (\<lambda>c. [c])) 2 (sample_row (asc ''7'') (asc ''abc'')))"
proof -
  have "concat (map shown_text (hr_cells (sample_row (asc ''7'') (asc ''abc'')))) = asc ''abc''"
    "list_all (\<lambda>cell. concat (map (\<lambda>c. [c]) (hc_text cell)) = hc_text cell) (hr_cells (sample_row (asc ''7'') (asc ''abc'')))"
    "hr_fixedGrid (sample_row (asc ''7'') (asc ''abc'')) \<noteq> Some True"
    by (simp_all add: sample_row_def shown_text_def)
  with reflow_rows [of "map (\<lambda>c. [c])" "sample_row (asc ''7'') (asc ''abc'')" 2] show ?thesis unfolding Let_def by argo
qed

definition sample_rows :: "historyRow list" where
  "sample_rows = reflowHistoryRow (\<lambda>s. [s]) 4 (sample_row (asc ''7'') (asc ''abcdefgh''))"

lemma sample_rows_facts:
  "map (\<lambda>r. cells_width (hr_cells r)) sample_rows = [4, 4] \<and> row_start sample_rows 1 = 4"
  by code_simp

theorem history_positions_witness:
  "historyViewportTop (Some \<lparr>va_topLineId = asc ''7'', va_topCellOffset = 5, va_atEnd = False, va_screenCols = 80, va_screenRows = 24\<rparr>)
      ([sample_row (asc ''6'') (asc ''ab'')] @ sample_rows @ []) = Some 2"
proof -
  let ?row = "sample_row (asc ''7'') (asc ''abcdefgh'')"
  have l: "length sample_rows = 2" using arg_cong [OF conjunct1 [OF sample_rows_facts], of length] by simp
  have "cells_width (hr_cells (sample_rows ! 1)) = 4"
    using arg_cong [OF conjunct1 [OF sample_rows_facts], of "\<lambda>xs. xs ! 1"] l by simp
  with l sample_rows_facts have i: "\<exists>i < length sample_rows. 2 = length [sample_row (asc ''6'') (asc ''ab'')] + i \<and>
      row_start sample_rows i \<le> max 0 (js_trunc 5) \<and> max 0 (js_trunc 5) < row_start sample_rows i + cells_width (hr_cells (sample_rows ! i))"
    by (intro exI [of _ 1]) (simp add: js_trunc_def)
  have a: "hr_fixedGrid ?row \<noteq> Some True" "hr_logicalLineId ?row = Some (asc ''7'')" "asc ''7'' \<noteq> []"
    "list_all (\<lambda>r. hr_logicalLineId r \<noteq> Some (asc ''7'')) ([sample_row (asc ''6'') (asc ''ab'')] @ [])"
    "hg_startLineId \<lparr>hg_startLineId = asc ''7'', hg_startCol = 2, hg_endLineId = asc ''7'', hg_endCol = 6\<rparr> = asc ''7''"
    "hg_endLineId \<lparr>hg_startLineId = asc ''7'', hg_startCol = 2, hg_endLineId = asc ''7'', hg_endCol = 6\<rparr> = asc ''7''"
    "va_topLineId \<lparr>va_topLineId = asc ''7'', va_topCellOffset = 5, va_atEnd = False, va_screenCols = 80, va_screenRows = 24\<rparr> = asc ''7''"
    "\<not> va_atEnd \<lparr>va_topLineId = asc ''7'', va_topCellOffset = 5, va_atEnd = False, va_screenCols = 80, va_screenRows = 24\<rparr>"
    "concat (map (splitHistoryCell (\<lambda>s. [s])) (hr_cells ?row)) \<noteq> []"
    by (simp_all add: sample_row_def splitHistoryCell_def)
  from history_positions [OF a, of 4 2] i show ?thesis
    unfolding Let_def sample_rows_def [symmetric] by simp
qed

section \<open>Replay\<close>

text \<open>What a terminal shows of an output that contains only SGR sequences.\<close>

fun strip_sgr :: "bool \<Rightarrow> ustr \<Rightarrow> ustr" where
  "strip_sgr inside [] = []"
| "strip_sgr True (c # s) = strip_sgr (c \<noteq> 109) s"
| "strip_sgr False (c # s) = (if c = 27 then strip_sgr True s else c # strip_sgr False s)"

definition plain_cell :: "historyCell \<Rightarrow> ustr" where
  "plain_cell cell = (if hc_text cell \<noteq> [] then hc_text cell else blanks (cell_cols cell))"

definition plain_row :: "rat \<Rightarrow> bool \<Rightarrow> historyRow \<Rightarrow> ustr" where
  "plain_row cols is_last row = concat (map plain_cell (hr_cells row)) @ blanks (cols - cells_width (hr_cells row)) @
     (if is_last \<or> hr_wrapped row = Some True then [] else [13, 10])"

lemma strip_inside: "109 \<notin> set s \<Longrightarrow> strip_sgr True (s @ 109 # rest) = strip_sgr False rest"
  by (induction s) auto

lemma strip_plain: "27 \<notin> set s \<Longrightarrow> strip_sgr False (s @ rest) = s @ strip_sgr False rest"
  by (induction s) auto

lemma strip_RESET [simp]: "strip_sgr False (RESET @ rest) = strip_sgr False rest"
  by (simp add: RESET_def)

lemma set_blanks [simp]: "set (blanks w) \<subseteq> {32}" "27 \<notin> set (blanks w)"
  by (auto simp: blanks_def)

lemma show_nat_no_m: "109 \<notin> set (show_nat n)"
  using show_nat_digits [of n] by (auto simp: list_all_iff is_digit_def)

lemma colorANSI_no_m: "109 \<notin> set (colorANSI v fore)"
  by (simp add: colorANSI_def Let_def hex_byte_def show_nat_no_m split: option.splits)

lemma join_semi_no_m: "list_all (\<lambda>s. 109 \<notin> set s) ss \<Longrightarrow> 109 \<notin> set (join_semi ss)"
  by (induction ss rule: join_semi.induct) simp_all

lemma strip_styleANSI [simp]: "strip_sgr False (styleANSI st @ rest) = strip_sgr False rest"
proof (cases st)
  case (Some x)
  let ?f = "\<lambda>b c. if b = Some True then [asc c] else ([] :: ustr list)"
  let ?c = "(?f (hs_bold x) ''1'' @ ?f (hs_italic x) ''3'' @ ?f (hs_underline x) ''4'' @ ?f (hs_blink x) ''5'' @
      ?f (hs_reverse x) ''7'' @ ?f (hs_strikethrough x) ''9'') @ (if colorANSI (hs_fg x) True \<noteq> [] then [colorANSI (hs_fg x) True] else []) @
      (if colorANSI (hs_bg x) False \<noteq> [] then [colorANSI (hs_bg x) False] else [])"
  have "109 \<notin> set (join_semi ?c)" by (rule join_semi_no_m) (simp add: colorANSI_no_m)
  moreover have "styleANSI st = (if ?c \<noteq> [] then [27, 91] @ join_semi ?c @ [109] else [])"
    unfolding styleANSI_def Some Let_def by simp
  ultimately show ?thesis by (simp add: strip_inside del: append_eq_append_conv)
qed (simp add: styleANSI_def)

lemma strip_cells_ANSI:
  assumes "list_all (\<lambda>c. 27 \<notin> set (hc_text c)) cells"
  shows "strip_sgr False (cells_ANSI st cells @ rest) = concat (map plain_cell cells) @ strip_sgr False rest"
  using assms by (induction cells arbitrary: st) (simp_all add: Let_def plain_cell_def strip_plain)

text \<open>
  C27: replaying rows whose cells hold no escape character shows exactly their text. Whatever styles
  the cells have, the output without its
  SGR sequences is the text of the cells, blanks for cells without text, blanks up to the
  width of the screen, and a line break after each row that is neither wrapped nor the last.
\<close>

theorem replay_shows_text:
  assumes "list_all (\<lambda>row. list_all (\<lambda>c. 27 \<notin> set (hc_text c)) (hr_cells row)) rows"
  shows "strip_sgr False (coreV2HistoryRowsANSI rows cols) =
    concat (map (\<lambda>(i, row). plain_row cols (Suc i = length rows) row) (enumerate 0 rows))"
proof -
  have row: "strip_sgr False (row_ANSI cols l row @ rest) = plain_row cols l row @ strip_sgr False rest"
    if "list_all (\<lambda>c. 27 \<notin> set (hc_text c)) (hr_cells row)" for l row rest
    using that by (simp add: row_ANSI_def Let_def strip_cells_ANSI strip_plain plain_row_def blanks_def)
  have "strip_sgr False (concat (map (\<lambda>(i, row). row_ANSI cols (Suc i = n) row) (enumerate k rows))) =
      concat (map (\<lambda>(i, row). plain_row cols (Suc i = n) row) (enumerate k rows))" for n k
    using assms by (induction rows arbitrary: k) (simp_all add: row)
  then show ?thesis by (simp add: coreV2HistoryRowsANSI_def)
qed

theorem replay_shows_text_witness:
  "strip_sgr False (coreV2HistoryRowsANSI [sample_row (asc ''6'') (asc ''ab''), sample_row (asc ''7'') (asc ''c'')] 3) =
     asc ''ab '' @ [13, 10] @ asc ''c  ''"
  using replay_shows_text [of "[sample_row (asc ''6'') (asc ''ab''), sample_row (asc ''7'') (asc ''c'')]" 3]
  by (simp add: sample_row_def plain_row_def plain_cell_def blanks_def cell_cols_def numeral_2_eq_2)

end
