(* ===== verification/ScrollbackPager.thy ===== *)
theory ScrollbackPager
  imports HistoryRows
begin

text \<open>
  The pager of the scroll-back history, \<open>clients/ui/src/terminal/coreV2ScrollbackPager.ts\<close>.

  A server freezes the history of a terminal under a token and a generation; the pager keeps one such
  handle per terminal, loads pages with it and releases it when it takes another. Every operation
  awaits the source once (\<open>scan\<close> several times), so it is modelled by what it does up to the request and
  what it does with the reply; between the two other operations may run. Calls of \<open>source.release\<close> are
  a log.
\<close>

section \<open>Data\<close>

record scrollbackState =
  sb_cols :: rat
  sb_token :: ustr
  sb_generation :: ustr
  sb_firstCursor :: "historyCursor option"
  sb_firstLineId :: "ustr option"
  sb_lastLineId :: "ustr option"
  sb_totalLoadedRows :: nat
  sb_viewportTop :: "nat option"
  sb_hasMore :: bool

record scrollbackPage =
  sp_rows :: "historyRow list"
  sp_operation :: windowOp
  sp_loadedRows :: nat
  sp_totalLoadedRows :: nat
  sp_committedTotalRows :: int
  sp_logicalTotalRows :: int
  sp_historyGeneration :: ustr
  sp_firstRowId :: "ustr option"
  sp_lastRowId :: "ustr option"
  sp_viewportTop :: "nat option"
  sp_hasMore :: bool

text \<open>What a promise of the source is rejected with: an \<open>Error\<close> with its \<open>code\<close>, if any, or another value.\<close>

datatype jsError = JsError "ustr option" ustr | OtherThrown

datatype windowMode = ModeLatest | ModeOlder

record windowRequest =
  wq_terminalId :: ustr
  wq_mode :: windowMode
  wq_limit :: int
  wq_cols :: rat
  wq_token :: "ustr option"
  wq_generation :: "ustr option"
  wq_beforeCursor :: "historyCursor option"
  wq_boundaryFirstLineId :: "ustr option"
  wq_boundaryLastLineId :: "ustr option"

record loadInput =
  ld_terminalId :: ustr
  ld_offset :: int
  ld_limit :: int
  ld_cols :: rat

record searchInput =
  si_terminalId :: ustr
  si_query :: ustr
  si_forward :: bool
  si_mode :: "ustr option"
  si_cols :: rat
  si_limit :: int
  si_start :: "(ustr \<times> int) option"

record searchRequest =
  sq_terminalId :: ustr
  sq_token :: ustr
  sq_generation :: ustr
  sq_query :: ustr
  sq_mode :: ustr
  sq_forward :: bool
  sq_cols :: rat
  sq_limit :: int
  sq_start :: "(ustr \<times> int) option"

datatype searchResult = NotFound | Found historyRange historyWindow bool

record searchPage =
  sr_wrapped :: bool
  sr_page :: scrollbackPage
  sr_match :: historyRange
  sr_matchRow :: nat
  sr_matchRanges :: "(nat \<times> rat \<times> rat) list"

record scanInput =
  sc_terminalId :: ustr
  sc_query :: ustr
  sc_mode :: "ustr option"
  sc_cols :: rat
  sc_batchSize :: "int option"

record scanRequest =
  nq_terminalId :: ustr
  nq_token :: ustr
  nq_generation :: ustr
  nq_query :: ustr
  nq_mode :: ustr
  nq_cols :: rat
  nq_maxMatches :: int
  nq_start :: "(ustr \<times> int) option"

record scanResult =
  sn_matches :: "historyRange list"
  sn_next :: "(ustr \<times> int) option"
  sn_done :: bool

record copyRequest =
  cq_terminalId :: ustr
  cq_token :: ustr
  cq_generation :: ustr
  cq_cols :: rat
  cq_boundaryFirstLineId :: "ustr option"
  cq_boundaryLastLineId :: "ustr option"
  cq_range :: historyRange

type_synonym handle = "ustr \<times> ustr \<times> ustr"

record pager =
  pg_states :: "ustr \<rightharpoonup> scrollbackState"
  pg_released :: "handle list"

section \<open>Pages\<close>

definition or_else :: "'a option \<Rightarrow> 'a option \<Rightarrow> 'a option" where
  "or_else a b = (case a of None \<Rightarrow> b | Some x \<Rightarrow> Some x)"

definition stateFromWindow ::
  "historyWindow \<Rightarrow> historyRow list \<Rightarrow> rat \<Rightarrow> scrollbackState option \<Rightarrow> scrollbackState" where
  "stateFromWindow window visualRows cols previous =
     \<lparr>sb_cols = cols, sb_token = hw_token window, sb_generation = hw_generation window,
      sb_firstCursor = cursorFromRow (first_row (hw_renderRows window)),
      sb_firstLineId = or_else (hw_firstLineId window) (Option.bind (first_row (hw_renderRows window)) hr_logicalLineId),
      sb_lastLineId = or_else (hw_lastLineId window) (Option.bind (first_row (rev (hw_renderRows window))) hr_logicalLineId),
      sb_totalLoadedRows = (case previous of None \<Rightarrow> 0 | Some p \<Rightarrow> sb_totalLoadedRows p) + length visualRows,
      sb_viewportTop = (case Option.bind previous sb_viewportTop of
          None \<Rightarrow> historyViewportTop (hw_viewportAnchor window) visualRows
        | Some row \<Rightarrow> Some (row + length visualRows)),
      sb_hasMore = hw_hasMore window\<rparr>"

definition pageFromWindow :: "historyWindow \<Rightarrow> historyRow list \<Rightarrow> scrollbackState \<Rightarrow> scrollbackPage" where
  "pageFromWindow window visualRows state =
     \<lparr>sp_rows = visualRows, sp_operation = (if hw_op window = OpPrepend then OpPrepend else OpReplace),
      sp_loadedRows = length visualRows, sp_totalLoadedRows = sb_totalLoadedRows state,
      sp_committedTotalRows = hw_totalRows window, sp_logicalTotalRows = hw_logicalTotal window,
      sp_historyGeneration = hw_generation window, sp_firstRowId = hw_firstRowId window, sp_lastRowId = hw_lastRowId window,
      sp_viewportTop = sb_viewportTop state, sp_hasMore = hw_hasMore window\<rparr>"

definition emptyPage :: "scrollbackState \<Rightarrow> scrollbackPage" where
  "emptyPage state =
     \<lparr>sp_rows = [], sp_operation = OpPrepend, sp_loadedRows = 0, sp_totalLoadedRows = sb_totalLoadedRows state,
      sp_committedTotalRows = int (sb_totalLoadedRows state), sp_logicalTotalRows = int (sb_totalLoadedRows state),
      sp_historyGeneration = sb_generation state, sp_firstRowId = None, sp_lastRowId = None,
      sp_viewportTop = sb_viewportTop state, sp_hasMore = False\<rparr>"

definition isTerminalHistoryControlError :: "jsError \<Rightarrow> bool" where
  "isTerminalHistoryControlError e =
     (case e of OtherThrown \<Rightarrow> False | JsError code _ \<Rightarrow> code = Some (asc ''stale_resource'') \<or> code = Some (asc ''resource_exhausted''))"

section \<open>Operations\<close>

definition pg_release :: "ustr \<Rightarrow> scrollbackState \<Rightarrow> pager \<Rightarrow> pager" where
  "pg_release tid state pg = pg\<lparr>pg_released := pg_released pg @ [(tid, sb_token state, sb_generation state)]\<rparr>"

definition pg_delete :: "ustr \<Rightarrow> pager \<Rightarrow> pager" where
  "pg_delete tid pg = pg\<lparr>pg_states := (pg_states pg)(tid := None)\<rparr>"

definition pg_set :: "ustr \<Rightarrow> scrollbackState \<Rightarrow> pager \<Rightarrow> pager" where
  "pg_set tid state pg = pg\<lparr>pg_states := (pg_states pg)(tid \<mapsto> state)\<rparr>"

text \<open>The \<open>catch\<close> blocks: a control error gives the handle up.\<close>

definition after_failure :: "ustr \<Rightarrow> scrollbackState \<Rightarrow> jsError \<Rightarrow> pager \<Rightarrow> pager" where
  "after_failure tid current e pg =
     (if isTerminalHistoryControlError e then pg_release tid current (pg_delete tid pg) else pg)"

definition loadLatest :: "loadInput \<Rightarrow> scrollbackState option \<Rightarrow> bool" where
  "loadLatest inp current \<longleftrightarrow> ld_offset inp \<le> 0 \<or> (case current of None \<Rightarrow> True | Some c \<Rightarrow> sb_cols c \<noteq> ld_cols inp)"

definition load_start :: "loadInput \<Rightarrow> scrollbackState option \<Rightarrow> (jsError + scrollbackPage) + windowRequest" where
  "load_start inp current =
     (if loadLatest inp current
      then Inr \<lparr>wq_terminalId = ld_terminalId inp, wq_mode = ModeLatest, wq_limit = ld_limit inp, wq_cols = ld_cols inp,
             wq_token = None, wq_generation = None, wq_beforeCursor = None, wq_boundaryFirstLineId = None, wq_boundaryLastLineId = None\<rparr>
      else let c = the current in
        if \<not> sb_hasMore c then Inl (Inr (emptyPage c))
        else case sb_firstCursor c of
          None \<Rightarrow> Inl (Inl (JsError None (asc ''older history scrollback requires a logical first cursor'')))
        | Some cursor \<Rightarrow>
            Inr \<lparr>wq_terminalId = ld_terminalId inp, wq_mode = ModeOlder, wq_limit = ld_limit inp, wq_cols = ld_cols inp,
              wq_token = Some (sb_token c), wq_generation = Some (sb_generation c), wq_beforeCursor = Some cursor,
              wq_boundaryFirstLineId = sb_firstLineId c, wq_boundaryLastLineId = sb_lastLineId c\<rparr>)"

definition load_finish ::
  "segmenter \<Rightarrow> loadInput \<Rightarrow> scrollbackState option \<Rightarrow> jsError + historyWindow \<Rightarrow> pager \<Rightarrow> (jsError + scrollbackPage) \<times> pager" where
  "load_finish segment inp current reply pg =
     (let tid = ld_terminalId inp; latest = loadLatest inp current in
      case reply of
        Inl e \<Rightarrow> (Inl e, case current of None \<Rightarrow> pg | Some c \<Rightarrow> after_failure tid c e pg)
      | Inr window \<Rightarrow>
          if trim (hw_token window) = [] \<or> trim (hw_generation window) = []
          then (Inl (JsError None (asc ''history scrollback requires a frozen token and generation'')), pg)
          else if \<not> latest \<and> (hw_token window \<noteq> sb_token (the current) \<or> hw_generation window \<noteq> sb_generation (the current))
          then (Inl (JsError None (asc ''history scrollback window changed token or generation'')), pg_delete tid pg)
          else
            let visualRows = coreV2ReflowHistoryRows segment (hw_renderRows window) (ld_cols inp);
              next = stateFromWindow window visualRows (ld_cols inp) (if latest then None else current);
              pg = pg_set tid next pg;
              pg = (case current of
                  Some c \<Rightarrow> if latest \<and> sb_token c \<noteq> sb_token next then pg_release tid c pg else pg
                | None \<Rightarrow> pg)
            in (Inr (pageFromWindow window visualRows next), pg))"

definition search_start :: "searchInput \<Rightarrow> scrollbackState option \<Rightarrow> jsError + searchRequest" where
  "search_start inp current =
     (case current of
        None \<Rightarrow> Inl (JsError None (asc ''history search requires a loaded frozen window''))
      | Some c \<Rightarrow>
          if sb_cols c \<noteq> si_cols inp then Inl (JsError None (asc ''history search requires a loaded frozen window''))
          else Inr \<lparr>sq_terminalId = si_terminalId inp, sq_token = sb_token c, sq_generation = sb_generation c, sq_query = si_query inp,
            sq_mode = (case si_mode inp of None \<Rightarrow> asc ''text'' | Some m \<Rightarrow> m), sq_forward = si_forward inp, sq_cols = si_cols inp,
            sq_limit = si_limit inp, sq_start = si_start inp\<rparr>)"

definition search_finish ::
  "segmenter \<Rightarrow> searchInput \<Rightarrow> scrollbackState \<Rightarrow> jsError + searchResult \<Rightarrow> pager \<Rightarrow> (jsError + searchPage option) \<times> pager" where
  "search_finish segment inp current reply pg =
     (let tid = si_terminalId inp in
      case reply of
        Inl e \<Rightarrow> (Inl e, after_failure tid current e pg)
      | Inr NotFound \<Rightarrow> (Inr None, pg)
      | Inr (Found match window wrapped) \<Rightarrow>
          if hw_token window \<noteq> sb_token current \<or> hw_generation window \<noteq> sb_generation current
          then (Inl (JsError None (asc ''history search window changed token or generation'')),
                pg_release tid current (pg_delete tid pg))
          else
            let visualRows = coreV2ReflowHistoryRows segment (hw_renderRows window) (si_cols inp);
              next = stateFromWindow window visualRows (si_cols inp) None;
              matchRanges = historyMatchVisualRanges visualRows match
            in (Inr (Some \<lparr>sr_wrapped = wrapped, sr_page = pageFromWindow window visualRows next, sr_match = match,
                  sr_matchRow = (case matchRanges of [] \<Rightarrow> 0 | r # _ \<Rightarrow> fst r), sr_matchRanges = matchRanges\<rparr>),
                pg_set tid next pg))"

definition scan_start :: "scanInput \<Rightarrow> scrollbackState option \<Rightarrow> jsError + scrollbackState" where
  "scan_start inp current =
     (case current of
        None \<Rightarrow> Inl (JsError None (asc ''history search scan requires a loaded frozen window''))
      | Some c \<Rightarrow>
          if sb_cols c \<noteq> sc_cols inp then Inl (JsError None (asc ''history search scan requires a loaded frozen window''))
          else Inr c)"

definition scan_request :: "scanInput \<Rightarrow> scrollbackState \<Rightarrow> (ustr \<times> int) option \<Rightarrow> scanRequest" where
  "scan_request inp current start =
     \<lparr>nq_terminalId = sc_terminalId inp, nq_token = sb_token current, nq_generation = sb_generation current, nq_query = sc_query inp,
      nq_mode = (case sc_mode inp of None \<Rightarrow> asc ''text'' | Some m \<Rightarrow> m), nq_cols = sc_cols inp,
      nq_maxMatches = max 1 (min 256 (case sc_batchSize inp of None \<Rightarrow> 64 | Some n \<Rightarrow> n)), nq_start = start\<rparr>"

text \<open>
  One turn of the loop of \<open>scan\<close>, after a reply: the batch handed out, if any, and either the result or
  the position to go on from.
\<close>

definition scan_turn ::
  "(ustr \<times> int) option \<Rightarrow> jsError + scanResult \<Rightarrow> (historyRange list \<times> bool) list \<times> ((jsError + unit) + (ustr \<times> int) option)" where
  "scan_turn start reply =
     (case reply of
        Inl e \<Rightarrow> ([], Inl (Inl e))
      | Inr r \<Rightarrow>
          ([(sn_matches r, sn_done r)],
           if sn_done r then Inl (Inr ())
           else if sn_next r = None \<or> sn_next r = start
           then Inl (Inl (JsError None (asc ''history search scan continuation did not advance'')))
           else Inr (sn_next r)))"

definition scan_failed :: "scanInput \<Rightarrow> scrollbackState \<Rightarrow> jsError + scanResult \<Rightarrow> pager \<Rightarrow> pager" where
  "scan_failed inp current reply pg =
     (case reply of Inl e \<Rightarrow> after_failure (sc_terminalId inp) current e pg | Inr _ \<Rightarrow> pg)"

definition copy_start :: "ustr \<Rightarrow> rat \<Rightarrow> historyRange \<Rightarrow> scrollbackState option \<Rightarrow> jsError + copyRequest" where
  "copy_start tid cols rg current =
     (case current of
        None \<Rightarrow> Inl (JsError None (asc ''history copy requires a loaded frozen window''))
      | Some c \<Rightarrow>
          if sb_cols c \<noteq> cols then Inl (JsError None (asc ''history copy requires a loaded frozen window''))
          else Inr \<lparr>cq_terminalId = tid, cq_token = sb_token c, cq_generation = sb_generation c, cq_cols = cols,
            cq_boundaryFirstLineId = sb_firstLineId c, cq_boundaryLastLineId = sb_lastLineId c, cq_range = rg\<rparr>)"

definition copy_finish :: "ustr \<Rightarrow> scrollbackState \<Rightarrow> jsError + ustr \<Rightarrow> pager \<Rightarrow> (jsError + ustr) \<times> pager" where
  "copy_finish tid current reply pg =
     (case reply of Inl e \<Rightarrow> (Inl e, after_failure tid current e pg) | Inr txt \<Rightarrow> (Inr txt, pg))"

definition forget :: "ustr \<Rightarrow> pager \<Rightarrow> pager" where
  "forget tid pg =
     (case pg_states pg tid of None \<Rightarrow> pg_delete tid pg | Some state \<Rightarrow> pg_release tid state (pg_delete tid pg))"

definition newPager :: pager where
  "newPager = \<lparr>pg_states = Map.empty, pg_released = []\<rparr>"

text \<open>The whole of \<open>scan\<close> over the replies it gets: the requests sent, the batches handed out and, once it
  has one, the result.\<close>

fun scan_run ::
  "scanInput \<Rightarrow> scrollbackState \<Rightarrow> (ustr \<times> int) option \<Rightarrow> (jsError + scanResult) list \<Rightarrow> pager \<Rightarrow>
   scanRequest list \<times> (historyRange list \<times> bool) list \<times> (jsError + unit) option \<times> pager" where
  "scan_run inp current start [] pg = ([scan_request inp current start], [], None, pg)"
| "scan_run inp current start (reply # replies) pg =
     (case scan_turn start reply of
        (batch, Inl result) \<Rightarrow> ([scan_request inp current start], batch, Some result, scan_failed inp current reply pg)
      | (batch, Inr start') \<Rightarrow>
          (case scan_run inp current start' replies pg of
             (requests, batches, result, pg') \<Rightarrow> (scan_request inp current start # requests, batch @ batches, result, pg')))"

section \<open>Overlapping calls\<close>

text \<open>
  Calls that await the source, with what they captured, and the events of a pager: a call starts, or the
  source answers one. The handles granted by the source and those sent in requests are recorded.
\<close>

datatype pgCall =
  PendingLoad loadInput "scrollbackState option"
| PendingSearch searchInput scrollbackState
| PendingScan scanInput scrollbackState "(ustr \<times> int) option"
| PendingCopy ustr scrollbackState

datatype pgEvent =
  CallLoad nat loadInput
| CallSearch nat searchInput
| CallScan nat scanInput
| CallCopy nat ustr rat historyRange
| CallForget ustr
| WindowReply nat "jsError + historyWindow"
| SearchReply nat "jsError + searchResult"
| ScanReply nat "jsError + scanResult"
| CopyReply nat "jsError + ustr"

record pagerSystem =
  ps_pager :: pager
  ps_calls :: "nat \<rightharpoonup> pgCall"
  ps_granted :: "handle set"
  ps_requested :: "handle list"

definition newSystem :: pagerSystem where
  "newSystem = \<lparr>ps_pager = newPager, ps_calls = Map.empty, ps_granted = {}, ps_requested = []\<rparr>"

definition handle_of :: "ustr \<Rightarrow> scrollbackState \<Rightarrow> handle" where
  "handle_of tid s = (tid, sb_token s, sb_generation s)"

definition request_handle :: "windowRequest \<Rightarrow> handle list" where
  "request_handle rq =
     (case (wq_token rq, wq_generation rq) of (Some t, Some g) \<Rightarrow> [(wq_terminalId rq, t, g)] | _ \<Rightarrow> [])"

definition grants :: "loadInput \<Rightarrow> scrollbackState option \<Rightarrow> jsError + historyWindow \<Rightarrow> handle set" where
  "grants inp current reply =
     (case reply of Inl _ \<Rightarrow> {} | Inr w \<Rightarrow> if loadLatest inp current then {(ld_terminalId inp, hw_token w, hw_generation w)} else {})"

fun system_step :: "segmenter \<Rightarrow> pagerSystem \<Rightarrow> pgEvent \<Rightarrow> pagerSystem" where
  "system_step segment sy (CallLoad i inp) =
     (let current = pg_states (ps_pager sy) (ld_terminalId inp) in
      case load_start inp current of
        Inl _ \<Rightarrow> sy
      | Inr rq \<Rightarrow> sy\<lparr>ps_calls := (ps_calls sy)(i \<mapsto> PendingLoad inp current), ps_requested := ps_requested sy @ request_handle rq\<rparr>)"
| "system_step segment sy (CallSearch i inp) =
     (let current = pg_states (ps_pager sy) (si_terminalId inp) in
      case search_start inp current of
        Inl _ \<Rightarrow> sy
      | Inr rq \<Rightarrow> sy\<lparr>ps_calls := (ps_calls sy)(i \<mapsto> PendingSearch inp (the current)),
          ps_requested := ps_requested sy @ [(sq_terminalId rq, sq_token rq, sq_generation rq)]\<rparr>)"
| "system_step segment sy (CallScan i inp) =
     (case scan_start inp (pg_states (ps_pager sy) (sc_terminalId inp)) of
        Inl _ \<Rightarrow> sy
      | Inr c \<Rightarrow> let rq = scan_request inp c None in
          sy\<lparr>ps_calls := (ps_calls sy)(i \<mapsto> PendingScan inp c None),
            ps_requested := ps_requested sy @ [(nq_terminalId rq, nq_token rq, nq_generation rq)]\<rparr>)"
| "system_step segment sy (CallCopy i tid cols rg) =
     (let current = pg_states (ps_pager sy) tid in
      case copy_start tid cols rg current of
        Inl _ \<Rightarrow> sy
      | Inr rq \<Rightarrow> sy\<lparr>ps_calls := (ps_calls sy)(i \<mapsto> PendingCopy tid (the current)),
          ps_requested := ps_requested sy @ [(cq_terminalId rq, cq_token rq, cq_generation rq)]\<rparr>)"
| "system_step segment sy (CallForget tid) = sy\<lparr>ps_pager := forget tid (ps_pager sy)\<rparr>"
| "system_step segment sy (WindowReply i reply) =
     (case ps_calls sy i of
        Some (PendingLoad inp current) \<Rightarrow>
          sy\<lparr>ps_pager := snd (load_finish segment inp current reply (ps_pager sy)), ps_calls := (ps_calls sy)(i := None),
            ps_granted := ps_granted sy \<union> grants inp current reply\<rparr>
      | _ \<Rightarrow> sy)"
| "system_step segment sy (SearchReply i reply) =
     (case ps_calls sy i of
        Some (PendingSearch inp c) \<Rightarrow>
          sy\<lparr>ps_pager := snd (search_finish segment inp c reply (ps_pager sy)), ps_calls := (ps_calls sy)(i := None)\<rparr>
      | _ \<Rightarrow> sy)"
| "system_step segment sy (ScanReply i reply) =
     (case ps_calls sy i of
        Some (PendingScan inp c start) \<Rightarrow>
          (case snd (scan_turn start reply) of
             Inl _ \<Rightarrow> sy\<lparr>ps_pager := scan_failed inp c reply (ps_pager sy), ps_calls := (ps_calls sy)(i := None)\<rparr>
           | Inr start' \<Rightarrow> let rq = scan_request inp c start' in
               sy\<lparr>ps_calls := (ps_calls sy)(i \<mapsto> PendingScan inp c start'),
                 ps_requested := ps_requested sy @ [(nq_terminalId rq, nq_token rq, nq_generation rq)]\<rparr>)
      | _ \<Rightarrow> sy)"
| "system_step segment sy (CopyReply i reply) =
     (case ps_calls sy i of
        Some (PendingCopy tid c) \<Rightarrow>
          sy\<lparr>ps_pager := snd (copy_finish tid c reply (ps_pager sy)), ps_calls := (ps_calls sy)(i := None)\<rparr>
      | _ \<Rightarrow> sy)"

section \<open>Handles\<close>

lemmas pager_defs = pg_release_def pg_delete_def pg_set_def

lemma pager_simps [simp]:
  "pg_states (pg_release t s pg) = pg_states pg" "pg_states (pg_delete t pg) = (pg_states pg)(t := None)"
  "pg_states (pg_set t s pg) = (pg_states pg)(t \<mapsto> s)"
  "pg_released (pg_release t s pg) = pg_released pg @ [handle_of t s]" "pg_released (pg_delete t pg) = pg_released pg"
  "pg_released (pg_set t s pg) = pg_released pg"
  by (simp_all add: pager_defs handle_of_def)

lemma stateFromWindow_handle [simp]: "handle_of t (stateFromWindow w rows cols prev) = (t, hw_token w, hw_generation w)"
  by (simp add: handle_of_def stateFromWindow_def)

text \<open>All handles a pager holds or has released are among the granted ones.\<close>

definition holds :: "handle set \<Rightarrow> pager \<Rightarrow> bool" where
  "holds G pg \<longleftrightarrow> (\<forall>t s. pg_states pg t = Some s \<longrightarrow> handle_of t s \<in> G) \<and> set (pg_released pg) \<subseteq> G"

lemma holds_ops [intro]:
  "holds G pg \<Longrightarrow> handle_of t s \<in> G \<Longrightarrow> holds G (pg_release t s pg)"
  "holds G pg \<Longrightarrow> holds G (pg_delete t pg)"
  "holds G pg \<Longrightarrow> handle_of t s \<in> G \<Longrightarrow> holds G (pg_set t s pg)"
  by (auto simp: holds_def)

lemma holds_mono: "holds G pg \<Longrightarrow> G \<subseteq> H \<Longrightarrow> holds H pg"
  by (auto simp: holds_def)

lemma holds_after_failure: "holds G pg \<Longrightarrow> handle_of t c \<in> G \<Longrightarrow> holds G (after_failure t c e pg)"
  by (auto simp: after_failure_def)

lemma holds_load_finish:
  assumes "holds G pg" and "pred_option (\<lambda>c. handle_of (ld_terminalId inp) c \<in> G) current"
  shows "holds (G \<union> grants inp current reply) (snd (load_finish segment inp current reply pg))"
proof (cases reply)
  case (Inl e)
  then show ?thesis using assms by (auto simp: load_finish_def grants_def holds_after_failure split: option.splits)
next
  case (Inr w)
  let ?t = "ld_terminalId inp" and ?G = "G \<union> grants inp current reply"
  have G: "holds ?G pg" using assms(1) by (rule holds_mono) simp
  have c: "handle_of ?t c \<in> ?G" if "current = Some c" for c using assms(2) that by simp
  have n: "handle_of ?t (stateFromWindow w rows cols prev) \<in> ?G"
    if "loadLatest inp current \<or> (hw_token w = sb_token (the current) \<and> hw_generation w = sb_generation (the current))" for rows cols prev
  proof (cases "loadLatest inp current")
    case True
    then show ?thesis by (simp add: grants_def Inr)
  next
    case False
    then obtain c where "current = Some c" by (auto simp: loadLatest_def split: option.splits)
    then show ?thesis using False that c by (simp add: handle_of_def stateFromWindow_def)
  qed
  show ?thesis
    using G c n holds_ops(2) [OF G]
    by (auto simp: load_finish_def Inr Let_def split: option.splits intro!: holds_ops)
qed

lemma holds_search_finish:
  assumes "holds G pg" and "handle_of (si_terminalId inp) c \<in> G"
  shows "holds G (snd (search_finish segment inp c reply pg))"
  using assms by (auto simp: search_finish_def Let_def holds_after_failure handle_of_def [of _ c] stateFromWindow_handle [unfolded handle_of_def]
      split: sum.splits searchResult.splits intro!: holds_ops)

fun call_ok :: "handle set \<Rightarrow> pgCall \<Rightarrow> bool" where
  "call_ok G (PendingLoad inp current) = pred_option (\<lambda>c. handle_of (ld_terminalId inp) c \<in> G) current"
| "call_ok G (PendingSearch inp c) = (handle_of (si_terminalId inp) c \<in> G)"
| "call_ok G (PendingScan inp c start) = (handle_of (sc_terminalId inp) c \<in> G)"
| "call_ok G (PendingCopy tid c) = (handle_of tid c \<in> G)"

definition system_ok :: "pagerSystem \<Rightarrow> bool" where
  "system_ok sy \<longleftrightarrow> holds (ps_granted sy) (ps_pager sy) \<and> (\<forall>c \<in> ran (ps_calls sy). call_ok (ps_granted sy) c) \<and>
     set (ps_requested sy) \<subseteq> ps_granted sy"

lemma call_ok_mono: "call_ok G c \<Longrightarrow> G \<subseteq> H \<Longrightarrow> call_ok H c"
  by (cases c) (auto simp: option.pred_set)

lemma holds_state: "holds G pg \<Longrightarrow> pg_states pg t = Some s \<Longrightarrow> handle_of t s \<in> G"
  by (simp add: holds_def)

lemma holds_forget: "holds G pg \<Longrightarrow> holds G (forget t pg)"
  by (auto simp: forget_def split: option.splits dest: holds_state)

lemma system_started:
  assumes "system_ok sy" and "call_ok (ps_granted sy) c" and "set hs \<subseteq> ps_granted sy"
  shows "system_ok (sy\<lparr>ps_calls := (ps_calls sy)(i \<mapsto> c), ps_requested := ps_requested sy @ hs\<rparr>)"
  using assms by (auto simp: system_ok_def ran_def)

lemma system_answered:
  assumes "system_ok sy" and "holds G pg" and "ps_granted sy \<subseteq> G"
  shows "system_ok (sy\<lparr>ps_pager := pg, ps_calls := (ps_calls sy)(i := None), ps_granted := G\<rparr>)"
  using assms call_ok_mono [of "ps_granted sy" _ G] by (fastforce simp: system_ok_def ran_def)

lemma system_answered_same:
  assumes "system_ok sy" and "holds (ps_granted sy) pg"
  shows "system_ok (sy\<lparr>ps_pager := pg, ps_calls := (ps_calls sy)(i := None)\<rparr>)"
  using system_answered [OF assms order_refl] by simp

lemma system_ended: "system_ok sy \<Longrightarrow> system_ok (sy\<lparr>ps_calls := (ps_calls sy)(i := None)\<rparr>)"
  by (auto simp: system_ok_def ran_def)

lemma pending_ok: "system_ok sy \<Longrightarrow> ps_calls sy i = Some c \<Longrightarrow> call_ok (ps_granted sy) c"
  by (auto simp: system_ok_def ran_def)

lemma system_holds: "system_ok sy \<Longrightarrow> holds (ps_granted sy) (ps_pager sy)"
  by (simp add: system_ok_def)

lemma request_handle_ok:
  assumes "load_start inp current = Inr rq" and "pred_option (\<lambda>c. handle_of (ld_terminalId inp) c \<in> G) current"
  shows "set (request_handle rq) \<subseteq> G"
  using assms by (auto simp: load_start_def request_handle_def handle_of_def Let_def loadLatest_def split: if_splits option.splits)

lemma system_step_ok:
  assumes ok: "system_ok sy"
  shows "system_ok (system_step segment sy ev)"
proof (cases ev)
  case (CallLoad i inp)
  let ?c = "pg_states (ps_pager sy) (ld_terminalId inp)"
  have c: "pred_option (\<lambda>c. handle_of (ld_terminalId inp) c \<in> ps_granted sy) ?c"
    using holds_state [OF system_holds [OF ok]] by (cases ?c) auto
  show ?thesis
  proof (cases "load_start inp ?c")
    case (Inr rq)
    with c show ?thesis using system_started [OF ok _ request_handle_ok [OF Inr c], of "PendingLoad inp ?c"] CallLoad by simp
  qed (use CallLoad ok in simp)
next
  case (CallSearch i inp)
  then show ?thesis using ok holds_state [OF system_holds [OF ok]]
    by (auto simp: Let_def search_start_def handle_of_def intro!: system_started split: sum.splits option.splits if_splits)
next
  case (CallScan i inp)
  then show ?thesis using ok holds_state [OF system_holds [OF ok]]
    by (auto simp: Let_def scan_start_def scan_request_def handle_of_def intro!: system_started split: sum.splits option.splits if_splits)
next
  case (CallCopy i tid cols rg)
  then show ?thesis using ok holds_state [OF system_holds [OF ok]]
    by (auto simp: Let_def copy_start_def handle_of_def intro!: system_started split: sum.splits option.splits if_splits)
next
  case (CallForget tid)
  then show ?thesis using ok holds_forget by (simp add: system_ok_def)
next
  case (WindowReply i reply)
  show ?thesis
  proof (cases "ps_calls sy i")
    case (Some c)
    then show ?thesis using WindowReply ok pending_ok [OF ok Some] holds_load_finish [OF system_holds [OF ok]]
      by (cases c) (auto intro!: system_answered)
  qed (use WindowReply ok in simp)
next
  case (SearchReply i reply)
  show ?thesis
  proof (cases "ps_calls sy i")
    case (Some c)
    then show ?thesis using SearchReply ok pending_ok [OF ok Some] holds_search_finish [OF system_holds [OF ok]]
      by (cases c) (auto intro!: system_answered_same)
  qed (use SearchReply ok in simp)
next
  case (ScanReply i reply)
  show ?thesis
  proof (cases "ps_calls sy i")
    case (Some c)
    then show ?thesis using ScanReply ok pending_ok [OF ok Some] holds_after_failure [OF system_holds [OF ok]] system_holds [OF ok]
      by (cases c) (auto simp: scan_failed_def Let_def scan_request_def handle_of_def
          intro!: system_answered_same system_started system_ended split: sum.splits)
  qed (use ScanReply ok in simp)
next
  case (CopyReply i reply)
  show ?thesis
  proof (cases "ps_calls sy i")
    case (Some c)
    then show ?thesis using CopyReply ok pending_ok [OF ok Some] holds_after_failure [OF system_holds [OF ok]] system_holds [OF ok]
      by (cases c) (auto simp: copy_finish_def intro!: system_answered_same system_ended split: sum.splits)
  qed (use CopyReply ok in simp)
qed

interpretation px: machine newSystem "system_step segment" system_ok for segment
proof
  show "system_ok newSystem" by (simp add: system_ok_def newSystem_def newPager_def holds_def)
qed (rule system_step_ok)

text \<open>
  C18: however calls and replies of the source overlap, the pager sends and releases only handles (token
  and generation) that the source has granted for that terminal with a latest page, and every
  handle it keeps is such a one.
\<close>

theorem pager_uses_granted_handles:
  "let sy = foldl (system_step segment) newSystem evs in
   set (ps_requested sy) \<union> set (pg_released (ps_pager sy)) \<union> {handle_of t s | t s. pg_states (ps_pager sy) t = Some s}
     \<subseteq> ps_granted sy"
  using px.inv_run [of segment evs] by (auto simp: Let_def system_ok_def holds_def)

section \<open>Calls one after the other\<close>

text \<open>
  A session in which each call is answered before the next one starts. Recorded are the tokens the
  pager was granted and took, and those it dropped without releasing them.
\<close>

datatype seqCall =
  DoLoad loadInput "jsError + historyWindow"
| DoSearch searchInput "jsError + searchResult"
| DoScan scanInput "(jsError + scanResult) list"
| DoCopy ustr rat historyRange "jsError + ustr"
| DoForget ustr

record ledger =
  lg_pager :: pager
  lg_taken :: "(ustr \<times> ustr) list"
  lg_dropped :: "(ustr \<times> ustr) list"

definition frozen :: "historyWindow \<Rightarrow> bool" where
  "frozen w \<longleftrightarrow> trim (hw_token w) \<noteq> [] \<and> trim (hw_generation w) \<noteq> []"

definition taken_by :: "loadInput \<Rightarrow> scrollbackState option \<Rightarrow> jsError + historyWindow \<Rightarrow> (ustr \<times> ustr) list" where
  "taken_by inp current reply =
     (case reply of
        Inl _ \<Rightarrow> []
      | Inr w \<Rightarrow> if frozen w \<and> loadLatest inp current \<and> map_option sb_token current \<noteq> Some (hw_token w)
          then [(ld_terminalId inp, hw_token w)] else [])"

definition dropped_by :: "loadInput \<Rightarrow> scrollbackState option \<Rightarrow> jsError + historyWindow \<Rightarrow> (ustr \<times> ustr) list" where
  "dropped_by inp current reply =
     (case (reply, current) of
        (Inr w, Some c) \<Rightarrow>
          if frozen w \<and> \<not> loadLatest inp current \<and> (hw_token w \<noteq> sb_token c \<or> hw_generation w \<noteq> sb_generation c)
          then [(ld_terminalId inp, sb_token c)] else []
      | _ \<Rightarrow> [])"

fun ledger_step :: "segmenter \<Rightarrow> ledger \<Rightarrow> seqCall \<Rightarrow> ledger" where
  "ledger_step segment lg (DoLoad inp reply) =
     (let current = pg_states (lg_pager lg) (ld_terminalId inp) in
      case load_start inp current of
        Inl _ \<Rightarrow> lg
      | Inr _ \<Rightarrow> lg\<lparr>lg_pager := snd (load_finish segment inp current reply (lg_pager lg)),
          lg_taken := lg_taken lg @ taken_by inp current reply, lg_dropped := lg_dropped lg @ dropped_by inp current reply\<rparr>)"
| "ledger_step segment lg (DoSearch inp reply) =
     (let current = pg_states (lg_pager lg) (si_terminalId inp) in
      case search_start inp current of
        Inl _ \<Rightarrow> lg
      | Inr _ \<Rightarrow> lg\<lparr>lg_pager := snd (search_finish segment inp (the current) reply (lg_pager lg))\<rparr>)"
| "ledger_step segment lg (DoScan inp replies) =
     (case scan_start inp (pg_states (lg_pager lg) (sc_terminalId inp)) of
        Inl _ \<Rightarrow> lg
      | Inr c \<Rightarrow> lg\<lparr>lg_pager := snd (snd (snd (scan_run inp c None replies (lg_pager lg))))\<rparr>)"
| "ledger_step segment lg (DoCopy tid cols rg reply) =
     (let current = pg_states (lg_pager lg) tid in
      case copy_start tid cols rg current of
        Inl _ \<Rightarrow> lg
      | Inr _ \<Rightarrow> lg\<lparr>lg_pager := snd (copy_finish tid (the current) reply (lg_pager lg))\<rparr>)"
| "ledger_step segment lg (DoForget tid) = lg\<lparr>lg_pager := forget tid (lg_pager lg)\<rparr>"

definition held :: "pager \<Rightarrow> (ustr \<times> ustr) multiset" where
  "held pg = image_mset (\<lambda>t. (t, sb_token (the (pg_states pg t)))) (mset_set (dom (pg_states pg)))"

definition released_tokens :: "pager \<Rightarrow> (ustr \<times> ustr) multiset" where
  "released_tokens pg = image_mset (\<lambda>(t, k, g). (t, k)) (mset (pg_released pg))"

definition kept_token :: "ustr \<Rightarrow> scrollbackState option \<Rightarrow> (ustr \<times> ustr) multiset" where
  "kept_token t current = (case current of None \<Rightarrow> {#} | Some s \<Rightarrow> {#(t, sb_token s)#})"

lemma kept_token_simps [simp]: "kept_token t None = {#}" "kept_token t (Some s) = {#(t, sb_token s)#}"
  by (simp_all add: kept_token_def)

definition held_rest :: "ustr \<Rightarrow> pager \<Rightarrow> (ustr \<times> ustr) multiset" where
  "held_rest t pg = image_mset (\<lambda>u. (u, sb_token (the (pg_states pg u)))) (mset_set (dom (pg_states pg) - {t}))"

lemma held_split:
  assumes "finite (dom (pg_states pg))"
  shows "held pg = held_rest t pg + kept_token t (pg_states pg t)"
proof (cases "pg_states pg t")
  case None
  then have "dom (pg_states pg) - {t} = dom (pg_states pg)" by auto
  then show ?thesis by (simp add: held_def held_rest_def None)
next
  case (Some s)
  then have "mset_set (dom (pg_states pg)) = add_mset t (mset_set (dom (pg_states pg) - {t}))"
    using assms by (intro mset_set.remove) auto
  then show ?thesis by (simp add: held_def held_rest_def Some)
qed

lemma not_in_mset_set_diff [simp]: "t \<notin># mset_set (A - {t})"
  by (cases "finite A") simp_all

lemma held_rest_ops [simp]:
  "held_rest t (pg_release u s pg) = held_rest t pg" "held_rest t (pg_delete t pg) = held_rest t pg"
  "held_rest t (pg_set t s pg) = held_rest t pg"
  by (auto simp: held_rest_def intro!: image_mset_cong)

lemma released_ops [simp]:
  "released_tokens (pg_release t s pg) = released_tokens pg + {#(t, sb_token s)#}"
  "released_tokens (pg_delete t pg) = released_tokens pg" "released_tokens (pg_set t s pg) = released_tokens pg"
  by (simp_all add: released_tokens_def handle_of_def)

text \<open>What an operation on one terminal does to the tokens: none is lost or invented but those listed.\<close>

definition moves :: "ustr \<Rightarrow> (ustr \<times> ustr) list \<Rightarrow> (ustr \<times> ustr) list \<Rightarrow> pager \<Rightarrow> pager \<Rightarrow> bool" where
  "moves t tk dr pg pg' \<longleftrightarrow> held_rest t pg' = held_rest t pg \<and> finite (dom (pg_states pg')) \<and>
     kept_token t (pg_states pg' t) + released_tokens pg' + mset dr = kept_token t (pg_states pg t) + released_tokens pg + mset tk"

lemma moves_refl: "finite (dom (pg_states pg)) \<Longrightarrow> moves t [] [] pg pg"
  by (simp add: moves_def)

lemma moves_after_failure:
  "finite (dom (pg_states pg)) \<Longrightarrow> pg_states pg t = Some c \<Longrightarrow> moves t [] [] pg (after_failure t c e pg)"
  by (simp add: moves_def after_failure_def)

lemma moves_forget: "finite (dom (pg_states pg)) \<Longrightarrow> moves t [] [] pg (forget t pg)"
  by (simp add: moves_def forget_def split: option.split)

lemma moves_load_finish:
  assumes "finite (dom (pg_states pg))" and "pg_states pg (ld_terminalId inp) = current"
  shows "moves (ld_terminalId inp) (taken_by inp current reply) (dropped_by inp current reply) pg
    (snd (load_finish segment inp current reply pg))"
proof (cases reply)
  case (Inl e)
  then show ?thesis using assms
    by (auto simp: load_finish_def taken_by_def dropped_by_def moves_after_failure moves_refl Let_def split: option.splits)
next
  case (Inr w)
  have tok: "sb_token (stateFromWindow w rows cols prev) = hw_token w" for rows cols prev by (simp add: stateFromWindow_def)
  have l: "loadLatest inp None" by (simp add: loadLatest_def)
  show ?thesis using assms
    by (cases current)
      (simp_all add: Inr load_finish_def taken_by_def dropped_by_def frozen_def moves_def Let_def tok l)
qed

lemma moves_search_finish:
  assumes "finite (dom (pg_states pg))" and "pg_states pg (si_terminalId inp) = Some c"
  shows "moves (si_terminalId inp) [] [] pg (snd (search_finish segment inp c reply pg))"
  using assms moves_after_failure moves_refl
  by (auto simp: search_finish_def Let_def moves_def stateFromWindow_def split: sum.splits searchResult.splits)

lemma moves_scan_run:
  assumes "finite (dom (pg_states pg))" and "pg_states pg (sc_terminalId inp) = Some c"
  shows "moves (sc_terminalId inp) [] [] pg (snd (snd (snd (scan_run inp c start replies pg))))"
proof (induction replies arbitrary: start)
  case (Cons reply replies)
  show ?case
  proof (cases "scan_turn start reply")
    case (Pair batch res)
    show ?thesis
    proof (cases res)
      case (Inl r)
      with Pair show ?thesis using assms by (auto simp: scan_failed_def moves_after_failure moves_refl split: sum.splits)
    next
      case (Inr start')
      with Pair show ?thesis using Cons.IH [of start'] by (cases "scan_run inp c start' replies pg") simp
    qed
  qed
qed (simp add: moves_refl assms)

definition ledger_ok :: "ledger \<Rightarrow> bool" where
  "ledger_ok lg \<longleftrightarrow> finite (dom (pg_states (lg_pager lg))) \<and>
     mset (lg_taken lg) = held (lg_pager lg) + released_tokens (lg_pager lg) + mset (lg_dropped lg)"

lemma ledger_moves:
  assumes "ledger_ok lg" and m: "moves t tk dr (lg_pager lg) pg"
  shows "ledger_ok (lg\<lparr>lg_pager := pg, lg_taken := lg_taken lg @ tk, lg_dropped := lg_dropped lg @ dr\<rparr>)"
proof -
  have f: "finite (dom (pg_states (lg_pager lg)))" and e: "mset (lg_taken lg) = held (lg_pager lg) + released_tokens (lg_pager lg) + mset (lg_dropped lg)"
    using assms(1) by (simp_all add: ledger_ok_def)
  have "held pg + released_tokens pg + mset dr = held (lg_pager lg) + released_tokens (lg_pager lg) + mset tk"
    using m held_split [OF f, of t] held_split [of pg t] by (simp add: moves_def add_ac)
  then show ?thesis using e m by (simp add: ledger_ok_def moves_def add_ac)
qed

lemma ledger_moves_only: "ledger_ok lg \<Longrightarrow> moves t [] [] (lg_pager lg) pg \<Longrightarrow> ledger_ok (lg\<lparr>lg_pager := pg\<rparr>)"
  using ledger_moves [of lg t "[]" "[]" pg] by simp

lemma ledger_step_ok:
  assumes ok: "ledger_ok lg"
  shows "ledger_ok (ledger_step segment lg call)"
proof -
  have f: "finite (dom (pg_states (lg_pager lg)))" using ok by (simp add: ledger_ok_def)
  show ?thesis
  proof (cases call)
    case (DoLoad inp reply)
    then show ?thesis using ok ledger_moves [OF ok moves_load_finish [OF f refl]] by (simp add: Let_def split: sum.split)
  next
    case (DoSearch inp reply)
    then show ?thesis using ok ledger_moves_only [OF ok moves_search_finish [OF f]]
      by (auto simp: Let_def search_start_def split: sum.splits option.splits)
  next
    case (DoScan inp replies)
    then show ?thesis using ok ledger_moves_only [OF ok moves_scan_run [OF f]]
      by (auto simp: scan_start_def split: sum.splits option.splits if_splits)
  next
    case (DoCopy tid cols rg reply)
    then show ?thesis using ok ledger_moves_only [OF ok moves_after_failure [OF f]]
      by (auto simp: Let_def copy_start_def copy_finish_def split: sum.splits option.splits)
  next
    case (DoForget tid)
    then show ?thesis using ledger_moves_only [OF ok moves_forget [OF f]] by simp
  qed
qed

definition newLedger :: ledger where
  "newLedger = \<lparr>lg_pager = newPager, lg_taken = [], lg_dropped = []\<rparr>"

interpretation pl: machine newLedger "ledger_step segment" ledger_ok for segment
proof
  show "ledger_ok newLedger" by (simp add: ledger_ok_def newLedger_def newPager_def held_def released_tokens_def)
qed (rule ledger_step_ok)

text \<open>
  C14: when calls do not overlap, every token the pager takes is accounted for: it is the one held for its
  terminal, or it was released, once. The only exception are the tokens dropped when the source answers
  a request for an older page with a window of another token or generation: they are never released.
\<close>

theorem pager_accounts_tokens:
  "let lg = foldl (ledger_step segment) newLedger calls in
   mset (lg_taken lg) = held (lg_pager lg) + released_tokens (lg_pager lg) + mset (lg_dropped lg)"
  using pl.inv_run [of segment calls] by (simp add: ledger_ok_def Let_def)

text \<open>
  C39: two loads of the latest page that overlap. Both captured the handle held before; the replies are
  stored one after the other, the old handle is released twice, and the handle of the first reply
  is neither held nor ever released.
\<close>

theorem overlapping_loads_leak:
  assumes "pg_states pg (ld_terminalId inp) = Some c" and "ld_offset inp \<le> 0"
    and "frozen w1" and "frozen w2" and "distinct [sb_token c, hw_token w1, hw_token w2]"
  shows "let pg2 = snd (load_finish segment inp (Some c) (Inr w2) (snd (load_finish segment inp (Some c) (Inr w1) pg))) in
    pg_released pg2 = pg_released pg @ [handle_of (ld_terminalId inp) c, handle_of (ld_terminalId inp) c] \<and>
    map_option sb_token (pg_states pg2 (ld_terminalId inp)) = Some (hw_token w2)"
  using assms by (simp add: load_finish_def frozen_def loadLatest_def Let_def stateFromWindow_def)

definition sample_window :: "ustr \<Rightarrow> historyWindow" where
  "sample_window token = \<lparr>hw_terminalId = asc ''t'', hw_token = token, hw_op = OpReplace, hw_cols = 80, hw_renderRows = [], hw_lines = [], hw_totalRows = 0, hw_logicalTotal = 0, hw_hasMore = False,
     hw_generation = asc ''1'', hw_viewportAnchor = None, hw_firstRowId = None, hw_lastRowId = None, hw_firstLineId = None, hw_lastLineId = None\<rparr>"

definition sample_load :: loadInput where
  "sample_load = \<lparr>ld_terminalId = asc ''t'', ld_offset = 0, ld_limit = 10, ld_cols = 80\<rparr>"

theorem overlapping_loads_leak_witness:
  "let pg = pg_set (asc ''t'') (stateFromWindow (sample_window (asc ''a'')) [] 80 None) newPager;
     c = pg_states pg (asc ''t'');
     pg2 = snd (load_finish (\<lambda>s. [s]) sample_load c (Inr (sample_window (asc ''c'')))
       (snd (load_finish (\<lambda>s. [s]) sample_load c (Inr (sample_window (asc ''b''))) pg)))
   in pg_released pg2 = [(asc ''t'', asc ''a'', asc ''1''), (asc ''t'', asc ''a'', asc ''1'')]"
  using overlapping_loads_leak
    [of "pg_set (asc ''t'') (stateFromWindow (sample_window (asc ''a'')) [] 80 None) newPager" sample_load
      "stateFromWindow (sample_window (asc ''a'')) [] 80 None" "sample_window (asc ''b'')" "sample_window (asc ''c'')" "\<lambda>s. [s]"]
  by (simp add: Let_def sample_load_def sample_window_def frozen_def stateFromWindow_def trim_def js_space_def newPager_def handle_of_def)

end
