(* ===== verification/Mouse.thy ===== *)
theory Mouse
  imports ListWindow Table
begin

text \<open>
  The mouse helpers of \<open>clients/tui/sdk/ts/src/widgets/mouse.js\<close>: hit regions of lists and tables, the
  wheel, drag rectangles, ranges of rows, and the classification of clicks. Regions, positions and
  times are integers.
\<close>

section \<open>Hit regions\<close>

definition DEFAULT_ROW_HEIGHT :: int where "DEFAULT_ROW_HEIGHT = 1"
definition DEFAULT_CLICK_THRESHOLD :: int where "DEFAULT_CLICK_THRESHOLD = 400"

record 'd hitRegion =
  ht_id :: ustr
  ht_x :: int
  ht_y :: int
  ht_w :: int
  ht_h :: int
  ht_data :: 'd

definition contains :: "'d hitRegion \<Rightarrow> int \<Rightarrow> int \<Rightarrow> bool" where
  "contains r x y \<longleftrightarrow>
     \<not> (0 < ht_w r \<and> (x < ht_x r \<or> ht_x r + ht_w r \<le> x)) \<and> \<not> (0 < ht_h r \<and> (y < ht_y r \<or> ht_y r + ht_h r \<le> y))"

text \<open>The loop runs from the last region to the first.\<close>

definition hit :: "'d hitRegion list \<Rightarrow> int \<Rightarrow> int \<Rightarrow> 'd hitRegion option" where
  "hit regions x y = find (\<lambda>r. contains r x y) (rev regions)"

definition hitId :: "'d hitRegion list \<Rightarrow> int \<Rightarrow> int \<Rightarrow> ustr \<times> bool" where
  "hitId regions x y = (case hit regions x y of None \<Rightarrow> ([], False) | Some r \<Rightarrow> (ht_id r, True))"

text \<open>The regions of the rows \<open>start\<close> to \<open>end' - 1\<close> below an optional header, one line each.\<close>

definition rowRegions :: "ustr \<Rightarrow> int \<times> int \<Rightarrow> (int \<Rightarrow> ustr) \<Rightarrow> int \<Rightarrow> int \<Rightarrow> int \<Rightarrow> int hitRegion list" where
  "rowRegions header rg rowId originX originY width =
     (case rg of (start, end') \<Rightarrow>
        if end' \<le> start then []
        else let top = (if header \<noteq> [] then originY + 1 else originY) in
          map (\<lambda>row. \<lparr>ht_id = rowId row, ht_x = originX, ht_y = top + (row - start), ht_w = width, ht_h = DEFAULT_ROW_HEIGHT, ht_data = row\<rparr>)
            [start..end' - 1])"

definition listRegions :: "list_widget \<Rightarrow> int \<Rightarrow> int \<Rightarrow> int \<Rightarrow> int hitRegion list" where
  "listRegions l originX originY width =
     rowRegions (lw_header l) (li_visibleRange l) (\<lambda>row. case li_rowId l of None \<Rightarrow> [] | Some f \<Rightarrow> f row) originX originY width"

definition virtualListRegions :: "virtual_list \<Rightarrow> int \<Rightarrow> int \<Rightarrow> int \<Rightarrow> int hitRegion list" where
  "virtualListRegions l originX originY width =
     rowRegions (lw_header l) (vl_visibleRange l) (\<lambda>row. vr_id (vl_rows l ! nat row)) originX originY width"

text \<open>The loop that lays out the columns.\<close>

fun column_xs :: "int \<Rightarrow> int \<Rightarrow> int list \<Rightarrow> int list" where
  "column_xs sep x [] = []"
| "column_xs sep x (w # ws) = x # column_xs sep (x + w + sep) ws"

definition tableRegions :: "table \<Rightarrow> int \<Rightarrow> int \<Rightarrow> (int \<times> nat) hitRegion list" where
  "tableRegions t originX originY =
     (if tb_columns t = [] then []
      else
        let widths = columnWidths t;
          top = (if \<not> tb_hideHeader t then if tb_rule t then originY + 2 else originY + 1 else originY);
          xs = column_xs (sepWidth t) originX widths
        in concat (map (\<lambda>row.
             let cellId = (case tb_rowId t of None \<Rightarrow> [] | Some f \<Rightarrow> f (int row)) in
             map (\<lambda>col. \<lparr>ht_id = cellId, ht_x = xs ! col, ht_y = top + int row, ht_w = widths ! col, ht_h = DEFAULT_ROW_HEIGHT,
                 ht_data = (int row, col)\<rparr>) [0..<length widths]) [0..<rowCount t]))"

section \<open>Wheel, drag, ranges and clicks\<close>

definition mo_clampOffset :: "int \<Rightarrow> int \<Rightarrow> int \<Rightarrow> int" where
  "mo_clampOffset offset sz n = (if sz \<le> 0 then 0 else if offset < 0 then 0 else if n - sz < offset then n - sz else offset)"

definition mo_applyWheel :: "int \<Rightarrow> int \<Rightarrow> int \<Rightarrow> int \<Rightarrow> int" where
  "mo_applyWheel offset tot visible delta =
     (if visible \<le> 0 \<or> tot \<le> visible then 0 else mo_clampOffset (offset + delta) visible tot)"

definition tableScroll :: "int \<Rightarrow> int \<Rightarrow> int \<Rightarrow> int \<Rightarrow> int" where
  "tableScroll offset tot visible delta = mo_applyWheel offset tot visible delta"

record drag =
  dr_active :: bool
  dr_startX :: int
  dr_startY :: int
  dr_x :: int
  dr_y :: int
  dr_button :: ustr
  dr_thresholdPx :: int

definition drag_begin :: "int \<Rightarrow> int \<Rightarrow> ustr \<Rightarrow> drag \<Rightarrow> drag" where
  "drag_begin x y button d = d\<lparr>dr_active := True, dr_startX := x, dr_startY := y, dr_x := x, dr_y := y, dr_button := button\<rparr>"

definition drag_update :: "int \<Rightarrow> int \<Rightarrow> drag \<Rightarrow> drag" where
  "drag_update x y d = (if \<not> dr_active d then d else d\<lparr>dr_x := x, dr_y := y\<rparr>)"

definition drag_rect :: "drag \<Rightarrow> int \<times> int \<times> int \<times> int" where
  "drag_rect d =
     (let (minX, maxX) = (if dr_x d < dr_startX d then (dr_x d, dr_startX d) else (dr_startX d, dr_x d));
        (minY, maxY) = (if dr_y d < dr_startY d then (dr_y d, dr_startY d) else (dr_startY d, dr_y d))
      in (minX, minY, maxX - minX + 1, maxY - minY + 1))"

definition drag_end :: "drag \<Rightarrow> (int \<times> int \<times> int \<times> int) option \<times> drag" where
  "drag_end d = (if \<not> dr_active d then (None, d) else let d = d\<lparr>dr_active := False\<rparr> in (Some (drag_rect d), d))"

definition selectRange :: "int \<Rightarrow> int \<Rightarrow> int \<times> int" where
  "selectRange a b = (if b < a then (b, a) else (a, b))"

text \<open>The two functions have the same body, over the \<open>rowAt\<close> of their list.\<close>

definition rowSelectRange :: "(int \<Rightarrow> int option) \<Rightarrow> int \<Rightarrow> int \<Rightarrow> (int \<times> int) option" where
  "rowSelectRange rowAt y0 y1 =
     (case selectRange y0 y1 of (lo, hi) \<Rightarrow>
        case (case rowAt lo of None \<Rightarrow> rowAt hi | Some r \<Rightarrow> Some r) of
          None \<Rightarrow> None
        | Some a \<Rightarrow> let b = (case rowAt hi of None \<Rightarrow> a | Some r \<Rightarrow> r) in Some (if b < a then (b, a) else (a, b)))"

definition listSelectRange :: "list_widget \<Rightarrow> int \<Rightarrow> int \<Rightarrow> (int \<times> int) option" where
  "listSelectRange l y0 y1 = rowSelectRange (\<lambda>y. li_rowAt y l) y0 y1"

definition virtualListSelectRange :: "virtual_list \<Rightarrow> int \<Rightarrow> int \<Rightarrow> (int \<times> int) option" where
  "virtualListSelectRange l y0 y1 = rowSelectRange (\<lambda>y. vl_rowAt y l) y0 y1"

record clickTracker =
  ct_lastAt :: "int option"
  ct_lastX :: int
  ct_lastY :: int
  ct_threshold :: int
  ct_count :: int

definition newClickTracker :: "int \<Rightarrow> clickTracker" where
  "newClickTracker threshold = \<lparr>ct_lastAt = None, ct_lastX = 0, ct_lastY = 0, ct_threshold = threshold, ct_count = 0\<rparr>"

definition click_threshold :: "clickTracker \<Rightarrow> int" where
  "click_threshold t = (if ct_threshold t \<le> 0 then DEFAULT_CLICK_THRESHOLD else ct_threshold t)"

definition click :: "clickTracker \<Rightarrow> int \<times> int \<times> int \<Rightarrow> clickTracker" where
  "click t ev =
     (case ev of (x, y, at) \<Rightarrow>
        let sameCell = (ct_lastX t = x \<and> ct_lastY t = y);
          close = (case ct_lastAt t of None \<Rightarrow> False | Some la \<Rightarrow> at - la \<le> click_threshold t)
        in t\<lparr>ct_count := (if close \<and> sameCell \<and> 1 \<le> ct_count t \<and> ct_count t < 3 then ct_count t + 1 else 1),
             ct_lastAt := Some at, ct_lastX := x, ct_lastY := y\<rparr>)"

section \<open>Pointer and rows\<close>

lemma hit_SomeD: "hit regions x y = Some q \<Longrightarrow> q \<in> set regions \<and> contains q x y"
  unfolding hit_def find_Some_iff by (metis length_rev nth_mem set_rev)

lemma hit_eq_Some:
  assumes "r \<in> set regions" and "contains r x y" and "\<And>q. q \<in> set regions \<Longrightarrow> contains q x y \<Longrightarrow> q = r"
  shows "hit regions x y = Some r"
proof -
  have "hit regions x y \<noteq> None" using assms(1,2) by (auto simp: hit_def find_None_iff)
  then obtain q where q: "hit regions x y = Some q" by auto
  with hit_SomeD [OF q] assms(3) show ?thesis by simp
qed

lemma hit_eq_None: "hit regions x y = None \<longleftrightarrow> (\<forall>r \<in> set regions. \<not> contains r x y)"
  by (auto simp: hit_def find_None_iff)

lemma rowRegions_hit:
  assumes "0 < width" and "0 \<le> n"
  shows "map_option ht_data (hit (rowRegions (lw_header l) (lw_visibleRange n l) rowId originX originY width) x y) =
    (if originX \<le> x \<and> x < originX + width then lw_rowAt n (y - originY) l else None)"
proof (cases "0 < lw_size n l")
  case False
  then show ?thesis by (simp add: lw_visibleRange_def lw_rowAt_def rowRegions_def hit_def Let_def)
next
  case True
  then obtain a where a: "lw_visibleRange n l = (a, a + lw_size n l)" "0 \<le> a" "a + lw_size n l \<le> n"
    using lw_visibleRange_spec assms(2) by metis
  define t where "t = (if lw_header l \<noteq> [] then 1 else 0 :: int)"
  define g where "g = (\<lambda>row. \<lparr>ht_id = rowId row, ht_x = originX, ht_y = originY + t + (row - a), ht_w = width, ht_h = DEFAULT_ROW_HEIGHT, ht_data = row\<rparr>)"
  have r: "rowRegions (lw_header l) (lw_visibleRange n l) rowId originX originY width = map g [a..a + lw_size n l - 1]"
    using True by (simp add: rowRegions_def a(1) g_def t_def Let_def)
  have c: "contains (g row) x y \<longleftrightarrow> originX \<le> x \<and> x < originX + width \<and> row = a + (y - originY - t)" for row
    using assms(1) by (auto simp: contains_def g_def DEFAULT_ROW_HEIGHT_def)
  have at: "lw_rowAt n (y - originY) l = (if t \<le> y - originY \<and> y - originY < t + lw_size n l then Some (a + (y - originY - t)) else None)"
    using True a by (auto simp: lw_rowAt_def Let_def t_def)
  show ?thesis
  proof (cases "originX \<le> x \<and> x < originX + width \<and> t \<le> y - originY \<and> y - originY < t + lw_size n l")
    case True
    let ?row = "a + (y - originY - t)"
    have "hit (map g [a..a + lw_size n l - 1]) x y = Some (g ?row)"
      using True c by (intro hit_eq_Some) auto
    then show ?thesis using True at by (simp add: r g_def)
  next
    case False
    then have "hit (map g [a..a + lw_size n l - 1]) x y = None" unfolding hit_eq_None using c by auto
    then show ?thesis using False at by (auto simp: r)
  qed
qed

lemma column_xs_simps [simp]: "length (column_xs sep x ws) = length ws"
  by (induction ws arbitrary: x) simp_all

lemma column_xs_nth: "c < length ws \<Longrightarrow> column_xs sep x ws ! c = x + sum_list (take c ws) + sep * int c"
proof (induction ws arbitrary: x c)
  case (Cons w ws)
  then show ?case by (cases c) (simp_all add: algebra_simps)
qed simp

lemma column_xs_apart:
  assumes "list_all (\<lambda>w. 1 \<le> w) ws" and "0 \<le> sep" and "c < d" and "d < length ws"
  shows "column_xs sep x ws ! c + ws ! c \<le> column_xs sep x ws ! d"
proof -
  have "take d ws = take (Suc c) ws @ take (d - Suc c) (drop (Suc c) ws)"
    using assms(3,4) by (metis Suc_leI le_add_diff_inverse take_add)
  moreover have "0 \<le> sum_list (take (d - Suc c) (drop (Suc c) ws))"
    using assms(1) by (intro sum_list_nonneg) (auto simp: list_all_iff dest!: in_set_takeD in_set_dropD)
  moreover have "sum_list (take (Suc c) ws) = sum_list (take c ws) + ws ! c" using assms(3,4) by (simp add: take_Suc_conv_app_nth)
  moreover have "sep * int c \<le> sep * int d" using assms(2,3) by (intro mult_left_mono) auto
  ultimately show ?thesis using assms(3,4) by (simp add: column_xs_nth)
qed

definition in_column :: "table \<Rightarrow> int \<Rightarrow> int \<Rightarrow> nat \<Rightarrow> bool" where
  "in_column t originX x c \<longleftrightarrow> c < length (columnWidths t) \<and>
     (let left = originX + sum_list (take c (columnWidths t)) + sepWidth t * int c in left \<le> x \<and> x < left + columnWidths t ! c)"

lemma in_column_unique:
  assumes "in_column t originX x c" and "in_column t originX x d"
  shows "c = d"
proof -
  have "0 \<le> sepWidth t" by (simp add: sepWidth_def)
  then have "\<not> e < f" if "in_column t originX x e" "in_column t originX x f" for e f
    using column_xs_apart [OF columnWidths_pos, of "sepWidth t" e f t originX] that
    by (auto simp: in_column_def Let_def column_xs_nth)
  with assms show ?thesis by (metis linorder_neqE_nat)
qed

lemma tableRegions_hit:
  "map_option ht_data (hit (tableRegions t originX originY) x y) = Some (r, c) \<longleftrightarrow>
     tb_rowAt (y - originY) t = Some r \<and> in_column t originX x c"
proof (cases "tb_columns t = []")
  case True
  then show ?thesis by (simp add: tableRegions_def tb_rowAt_def hit_def)
next
  case False
  define h where "h = (if tb_hideHeader t then 0 else if tb_rule t then 2 else 1 :: int)"
  define g where "g = (\<lambda>row col. \<lparr>ht_id = (case tb_rowId t of None \<Rightarrow> [] | Some f \<Rightarrow> f (int row)),
    ht_x = column_xs (sepWidth t) originX (columnWidths t) ! col, ht_y = originY + h + int row, ht_w = columnWidths t ! col,
    ht_h = DEFAULT_ROW_HEIGHT, ht_data = (int row, col)\<rparr>)"
  have regs: "set (tableRegions t originX originY) = {g row col | row col. row < rowCount t \<and> col < length (columnWidths t)}"
    using False by (auto simp: tableRegions_def Let_def g_def h_def)
  have cont: "contains (g row col) x y \<longleftrightarrow> in_column t originX x col \<and> y = originY + h + int row" if "col < length (columnWidths t)" for row col
    using columnWidths_pos [of t] that
    by (auto simp: contains_def g_def DEFAULT_ROW_HEIGHT_def in_column_def Let_def column_xs_nth list_all_length)
  have at: "tb_rowAt (y - originY) t = Some r \<longleftrightarrow> (\<exists>row < rowCount t. r = int row \<and> y = originY + h + int row)"
    using False by (auto simp: tb_rowAt_def Let_def h_def intro!: exI [of _ "nat r"])
  show ?thesis
  proof
    assume "map_option ht_data (hit (tableRegions t originX originY) x y) = Some (r, c)"
    then obtain q where q: "hit (tableRegions t originX originY) x y = Some q" "ht_data q = (r, c)" by auto
    from hit_SomeD [OF q(1)] obtain row col where "q = g row col" "row < rowCount t" "col < length (columnWidths t)" "contains (g row col) x y"
      unfolding regs by auto
    then show "tb_rowAt (y - originY) t = Some r \<and> in_column t originX x c" using q(2) cont at by (auto simp: g_def)
  next
    assume a: "tb_rowAt (y - originY) t = Some r \<and> in_column t originX x c"
    then obtain row where row: "row < rowCount t" "r = int row" "y = originY + h + int row" using at by auto
    have c: "c < length (columnWidths t)" using a by (simp add: in_column_def)
    have "hit (tableRegions t originX originY) x y = Some (g row c)"
    proof (rule hit_eq_Some)
      show "g row c \<in> set (tableRegions t originX originY)" using row c by (auto simp: regs)
      show "contains (g row c) x y" using row c a cont by simp
      fix q assume q: "q \<in> set (tableRegions t originX originY)" "contains q x y"
      then obtain row' col where g: "q = g row' col" "col < length (columnWidths t)" by (auto simp: regs)
      with q cont have k: "in_column t originX x col" "y = originY + h + int row'" by auto
      with in_column_unique [OF k(1) conjunct2 [OF a]] g row show "q = g row c" by simp
    qed
    then show "map_option ht_data (hit (tableRegions t originX originY) x y) = Some (r, c)" by (simp add: g_def row)
  qed
qed

lemma tableRegions_none:
  assumes "tb_rowAt (y - originY) t = None"
  shows "hit (tableRegions t originX originY) x y = None"
proof (rule ccontr)
  assume "hit (tableRegions t originX originY) x y \<noteq> None"
  then obtain r c where "map_option ht_data (hit (tableRegions t originX originY) x y) = Some (r, c)" by force
  with tableRegions_hit assms show False by simp
qed

lemma tb_rowAt_drawn:
  assumes "tb_rowAt y t = Some r"
  shows "0 \<le> r \<and> r < int (rowCount t) \<and> 0 \<le> y \<and> y < int (length (children (tb_build t))) \<and>
    children (tb_build t) ! nat y = tb_dataRow t (columnWidths t) (nat r)"
proof -
  define h where "h = (if tb_hideHeader t then [] else
    [rowBox t (headerCells t) (columnWidths t) (tb_headerStyle t) []] @
      (if tb_rule t then [n_height 1 (n_style (tb_headerStyle t) (text_node (replicate (nat (totalWidth t (columnWidths t))) 0x2500)))] else []))"
  have c: "tb_columns t \<noteq> []" and r: "0 \<le> r" "r < int (rowCount t)" "y = int (length h) + r"
    using assms by (auto simp: tb_rowAt_def h_def Let_def split: if_splits)
  define ft where "ft = (if tb_footer t \<noteq> [] then [rowBox t (tb_footer t) (columnWidths t) (tb_footerStyle t) []] else [])"
  have ch: "children (tb_build t) = h @ map (tb_dataRow t (columnWidths t)) [0..<rowCount t] @ ft"
    using c unfolding tb_build_def Let_def h_def [symmetric] ft_def [symmetric] by simp
  have y: "nat y = length h + nat r" "nat r < rowCount t" using r by linarith+
  then have "children (tb_build t) ! nat y = tb_dataRow t (columnWidths t) (nat r)" unfolding ch y(1) by (simp add: nth_append)
  moreover have "y < int (length (children (tb_build t)))" unfolding ch using y r by simp
  ultimately show ?thesis using r by simp
qed

text \<open>
  C23: the pointer hits what is drawn under it. For a \<open>List\<close> and for a \<open>VirtualList\<close> the region hit at a
  position inside the regions' width is the row \<open>rowAt\<close> gives for its line, elsewhere no region is hit,
  and \<open>build\<close> draws that entry as that line. In a \<open>Table\<close> the region hit is the cell of the row \<open>rowAt\<close>
  gives and of the column the position lies in, the separators between columns belonging to none, and
  \<open>build\<close> draws that row as that line. The lines of the header, its rule and the footer hit no region,
  although the comment above \<open>tableRegions\<close> speaks of rows -1 and -2 for them.
\<close>

theorem pointer_hits_drawn:
  assumes "0 < width"
  shows "map_option ht_data (hit (listRegions l originX originY width) x y) =
      (if originX \<le> x \<and> x < originX + width then li_rowAt (y - originY) l else None) \<and>
    map_option ht_data (hit (virtualListRegions v originX originY width) x y) =
      (if originX \<le> x \<and> x < originX + width then vl_rowAt (y - originY) v else None) \<and>
    (li_rowAt (y - originY) l = Some i \<longrightarrow>
      0 \<le> i \<and> i < li_count l \<and> 0 \<le> y - originY \<and> y - originY < int (length (children (li_build l))) \<and>
      children (li_build l) ! nat (y - originY) = li_row l i) \<and>
    (vl_rowAt (y - originY) v = Some j \<longrightarrow>
      0 \<le> j \<and> j < vl_count v \<and> 0 \<le> y - originY \<and> y - originY < int (length (children (vl_build v))) \<and>
      children (vl_build v) ! nat (y - originY) = vl_row v j) \<and>
    (map_option ht_data (hit (tableRegions t originX originY) x y) = Some (r, c) \<longleftrightarrow>
      tb_rowAt (y - originY) t = Some r \<and> in_column t originX x c) \<and>
    (tb_rowAt (y - originY) t = None \<longrightarrow> hit (tableRegions t originX originY) x y = None) \<and>
    (tb_rowAt (y - originY) t = Some r \<longrightarrow>
      0 \<le> r \<and> r < int (rowCount t) \<and> 0 \<le> y - originY \<and> y - originY < int (length (children (tb_build t))) \<and>
      children (tb_build t) ! nat (y - originY) = tb_dataRow t (columnWidths t) (nat r))"
proof -
  have n: "0 \<le> li_count l" "0 \<le> vl_count v" by (simp_all add: li_count_def vl_count_def)
  note lists = rowRegions_hit [OF assms n(1)] rowRegions_hit [OF assms n(2)]
  show ?thesis
    using lw_rowAt_drawn [OF n(1), of "y - originY" l i] lw_rowAt_drawn [OF n(2), of "y - originY" v j]
    by (intro conjI impI tableRegions_hit tableRegions_none tb_rowAt_drawn; (assumption)?)
      (simp_all add: lists listRegions_def virtualListRegions_def li_visibleRange_def vl_visibleRange_def li_rowAt_def
        vl_rowAt_def li_build_def vl_build_def)
qed

definition sample_vrows :: virtual_list where
  "sample_vrows = new_VirtualList (empty_window\<lparr>lw_height := 2, lw_selected := 2, lw_follow := True, lw_width := 4\<rparr>)
     (replicate 3 \<lparr>vr_text = None, vr_style = [], vr_disabled = False, vr_id = []\<rparr>) []"

definition sample_grid :: table where
  "sample_grid = sample_table\<lparr>tb_rows := [[asc ''a'', asc ''b'']], tb_columns := [sample_column\<lparr>co_width := 3\<rparr>]\<rparr>"

theorem pointer_hits_drawn_witness:
  "map_option ht_data (hit (listRegions sample_list 10 5 4) 12 6) = Some 2 \<and> children (li_build sample_list) ! 1 = li_row sample_list 2 \<and>
   map_option ht_data (hit (virtualListRegions sample_vrows 10 5 4) 12 6) = Some 2 \<and>
   children (vl_build sample_vrows) ! 1 = vl_row sample_vrows 2 \<and> tb_rowAt 1 sample_grid = Some 0 \<and>
   children (tb_build sample_grid) ! 1 = tb_dataRow sample_grid (columnWidths sample_grid) 0"
proof -
  have "li_rowAt 1 sample_list = Some 2"
    by (simp add: li_rowAt_def lw_rowAt_def lw_visibleRange_def sample_list_fields clampIndex_def followOffset_def clampOffset_def)
  moreover have "vl_rowAt 1 sample_vrows = Some 2"
    by (simp add: vl_rowAt_def lw_rowAt_def lw_visibleRange_def sample_vrows_def new_VirtualList_def empty_window_def vl_count_def
        lw_size_def windowSize_def chromeRows_def window.defs virtual_list.defs clampIndex_def followOffset_def clampOffset_def)
  moreover have "tb_rowAt 1 sample_grid = Some 0"
    by (simp add: tb_rowAt_def sample_grid_def sample_table_def rowCount_def)
  ultimately show ?thesis using pointer_hits_drawn [of 4 sample_list 10 5 12 6 sample_vrows 2 2 sample_grid 0 0] by simp
qed

section \<open>Ranges, clicks and drags\<close>

lemma rowAt_affine:
  assumes "0 \<le> n" and "lw_rowAt n y l = Some a"
  shows "lw_rowAt n z l = Some b \<longleftrightarrow> b = a + (z - y) \<and> lw_rowAt n z l \<noteq> None"
  using assms by (auto simp: lw_rowAt_def Let_def split: if_splits)

lemma rowAt_between:
  assumes "0 \<le> n" and "lw_rowAt n y l = Some a" and "lw_rowAt n z l = Some b" and "y \<le> u" and "u \<le> z"
  shows "lw_rowAt n u l = Some (a + (u - y))"
  using assms by (auto simp: lw_rowAt_def Let_def split: if_splits)

text \<open>
  the rows a drag over a list selects. With both ends on rows these are the rows between them, exactly
  those \<open>rowAt\<close> finds on the lines in between, in whichever direction the drag went. With one end
  outside the rows it is the single row under the other end, and nothing when both are outside.
\<close>

theorem select_range_rows:
  "case (li_rowAt y0 l, li_rowAt y1 l) of
     (Some a, Some b) \<Rightarrow> listSelectRange l y0 y1 = Some (min a b, max a b) \<and>
        (\<forall>r. (min a b \<le> r \<and> r \<le> max a b) = (\<exists>y. min y0 y1 \<le> y \<and> y \<le> max y0 y1 \<and> li_rowAt y l = Some r))
   | (Some a, None) \<Rightarrow> listSelectRange l y0 y1 = Some (a, a)
   | (None, Some b) \<Rightarrow> listSelectRange l y0 y1 = Some (b, b)
   | (None, None) \<Rightarrow> listSelectRange l y0 y1 = None"
proof -
  have n: "0 \<le> li_count l" by (simp add: li_count_def)
  have span: "(a \<le> r \<and> r \<le> b) = (\<exists>y. u \<le> y \<and> y \<le> z \<and> li_rowAt y l = Some r)"
    if "u \<le> z" and a: "li_rowAt u l = Some a" and b: "li_rowAt z l = Some b" for u z a b r
  proof -
    have e: "b = a + (z - u)" using rowAt_affine [OF n, of u l a z b] a b by (simp add: li_rowAt_def)
    have "li_rowAt y l = Some (a + (y - u))" if "u \<le> y" "y \<le> z" for y
      using rowAt_between [OF n] a b that unfolding li_rowAt_def by blast
    then show ?thesis using e that(1) by (auto intro!: exI [of _ "u + (r - a)"])
  qed
  have mono: "a \<le> b" if "u \<le> z" "li_rowAt u l = Some a" "li_rowAt z l = Some b" for u z a b
    using rowAt_affine [OF n, of u l a z b] that by (simp add: li_rowAt_def)
  show ?thesis
  proof (cases "li_rowAt y0 l"; cases "li_rowAt y1 l")
    fix a b assume ab: "li_rowAt y0 l = Some a" "li_rowAt y1 l = Some b"
    show ?thesis
    proof (cases "y0 \<le> y1")
      case True
      then show ?thesis using ab mono [OF True ab] span [OF True ab]
        by (simp add: listSelectRange_def rowSelectRange_def selectRange_def)
    next
      case False
      then have le: "y1 \<le> y0" by simp
      then show ?thesis using False ab mono [OF le ab(2,1)] span [OF le ab(2,1)]
        by (simp add: listSelectRange_def rowSelectRange_def selectRange_def)
    qed
  qed (simp_all add: listSelectRange_def rowSelectRange_def selectRange_def)
qed

lemma click_threshold_update [simp]:
  "click_threshold (t\<lparr>ct_count := c\<rparr>) = click_threshold t" "click_threshold (t\<lparr>ct_lastAt := a\<rparr>) = click_threshold t"
  "click_threshold (t\<lparr>ct_lastX := x\<rparr>) = click_threshold t" "click_threshold (t\<lparr>ct_lastY := y\<rparr>) = click_threshold t"
  by (simp_all add: click_threshold_def)

lemma drag_rect_cells:
  "case drag_rect d of (rx, ry, rw, rh) \<Rightarrow>
     (rx \<le> u \<and> u < rx + rw \<and> ry \<le> v \<and> v < ry + rh) =
     (min (dr_startX d) (dr_x d) \<le> u \<and> u \<le> max (dr_startX d) (dr_x d) \<and> min (dr_startY d) (dr_y d) \<le> v \<and> v \<le> max (dr_startY d) (dr_y d))"
  by (auto simp: drag_rect_def Let_def)

lemma click_series:
  assumes "successively (\<lambda>a b. b - a \<le> click_threshold t) ats" and "ats \<noteq> []" and "ct_count t = 0"
  shows "foldl click t (map (\<lambda>at. (x, y, at)) ats) =
    t\<lparr>ct_count := int ((length ats - 1) mod 3) + 1, ct_lastAt := Some (last ats), ct_lastX := x, ct_lastY := y\<rparr>"
  using assms(1,2)
proof (induction ats rule: rev_induct)
  case (snoc a ats)
  show ?case
  proof (cases "ats = []")
    case True
    then show ?thesis using assms(3) by (simp add: click_def Let_def)
  next
    case False
    then have s: "successively (\<lambda>a b. b - a \<le> click_threshold t) ats" "a - last ats \<le> click_threshold t"
      using snoc.prems(1) by (simp_all add: successively_append_iff)
    obtain k where k: "length ats = Suc k" using False by (cases ats) auto
    have m: "int (Suc k mod 3) = (if k mod 3 = 2 then 0 else int (k mod 3) + 1)" by (simp add: mod_Suc)
    have "k mod 3 = 0 \<or> k mod 3 = 1 \<or> k mod 3 = 2" by arith
    then show ?thesis using snoc.IH [OF s(1) False] s(2) k m
      by (elim disjE) (simp_all add: click_def Let_def)
  qed
qed simp

text \<open>
  clicks and drags. Clicks on one cell, each within the threshold of the one before, count 1, 2, 3, 1,
  2, 3 and so on. A drag that begins at one cell and was last at another ends with the rectangle of
  the cells between them, both included, and is over.
\<close>

theorem clicks_and_drags:
  assumes "successively (\<lambda>a b. b - a \<le> click_threshold (newClickTracker threshold)) ats" and "ats \<noteq> []"
  shows "ct_count (foldl click (newClickTracker threshold) (map (\<lambda>at. (x, y, at)) ats)) = int ((length ats - 1) mod 3) + 1 \<and>
    (case drag_end (drag_update x1 y1 (foldl (\<lambda>d (u, v). drag_update u v d) (drag_begin x0 y0 button d) moves)) of
       (Some (rx, ry, rw, rh), d') \<Rightarrow> \<not> dr_active d' \<and>
         (\<forall>u v. (rx \<le> u \<and> u < rx + rw \<and> ry \<le> v \<and> v < ry + rh) =
            (min x0 x1 \<le> u \<and> u \<le> max x0 x1 \<and> min y0 y1 \<le> v \<and> v \<le> max y0 y1))
     | (None, _) \<Rightarrow> False)"
proof -
  have m: "\<exists>u v. foldl (\<lambda>d (u, v). drag_update u v d) e moves = e\<lparr>dr_x := u, dr_y := v\<rparr>" if "dr_active e" for e
    using that
  proof (induction moves arbitrary: e)
    case Nil
    show ?case by (intro exI [of _ "dr_x e"] exI [of _ "dr_y e"]) simp
  next
    case (Cons p ps)
    obtain u v where p: "p = (u, v)" by (cases p)
    have "dr_active (e\<lparr>dr_x := u, dr_y := v\<rparr>)" using Cons.prems by simp
    from Cons.IH [OF this] show ?case using Cons.prems by (simp add: p drag_update_def)
  qed
  obtain u v where "foldl (\<lambda>d (u, v). drag_update u v d) (drag_begin x0 y0 button d) moves = (drag_begin x0 y0 button d)\<lparr>dr_x := u, dr_y := v\<rparr>"
    using m [of "drag_begin x0 y0 button d"] by (auto simp: drag_begin_def)
  then obtain d' where e: "drag_end (drag_update x1 y1 (foldl (\<lambda>d (u, v). drag_update u v d) (drag_begin x0 y0 button d) moves)) =
      (Some (drag_rect d'), d')" and d': "\<not> dr_active d'" "dr_startX d' = x0" "dr_startY d' = y0" "dr_x d' = x1" "dr_y d' = y1"
    by (simp add: drag_end_def drag_update_def [of x1] drag_begin_def Let_def)
  obtain rx ry rw rh where r: "drag_rect d' = (rx, ry, rw, rh)" by (cases "drag_rect d'")
  have c: "ct_count (newClickTracker threshold) = 0" by (simp add: newClickTracker_def)
  have "(rx \<le> u \<and> u < rx + rw \<and> ry \<le> v \<and> v < ry + rh) =
      (min x0 x1 \<le> u \<and> u \<le> max x0 x1 \<and> min y0 y1 \<le> v \<and> v \<le> max y0 y1)" for u v
    using drag_rect_cells [where d = d' and u = u and v = v] unfolding r d' by simp
  with d'(1) show ?thesis unfolding e r click_series [OF assms c] by simp
qed

theorem clicks_and_drags_witness:
  "ct_count (foldl click (newClickTracker 0) (map (\<lambda>at. (3, 4, at)) [100, 400, 750, 900])) = 1"
  using clicks_and_drags [of 0 "[100, 400, 750, 900]" 3 4]
  by (simp add: click_threshold_def newClickTracker_def DEFAULT_CLICK_THRESHOLD_def)

end
