(* ===== verification/HistorySurface.thy ===== *)
theory HistorySurface
  imports HistoryRows JsNumber
begin

text \<open>
  The cached history surface of a terminal, \<open>clients/ui/src/terminal/coreV2HistorySurface.ts\<close>: rows around a
  viewport, loaded page by page from a frozen window, and trimmed when they are far from what is shown.
  A load awaits the source once: it is modelled by what it does up to the request, with the values it
  captures, and what it does with the reply. Counts and row numbers are integers; arguments that the code
  tests with \<open>Number.isFinite\<close> are any JavaScript number.

  \<open>rowKey\<close> throws for a row without a cursor; it is only called on rows that \<open>assertWindowShape\<close> has let
  through, which have one.
\<close>

section \<open>State\<close>

datatype surfaceError = SurfaceError ustr | StaleError ustr | SourceFailed ustr

record cachedLineSpan =
  cs_line :: historyLineSpan
  cs_startKey :: "ustr option"
  cs_endKey :: "ustr option"

record surface =
  sf_terminalId :: ustr
  sf_requestRows :: int
  sf_renderOverscanRows :: int
  sf_edgePrefetchRows :: int
  sf_cacheRetainRows :: int
  sf_pending :: "ustr set"
  sf_rows :: "historyRow list"
  sf_lines :: "(ustr \<times> cachedLineSpan) list"
  sf_cols :: int
  sf_viewportRows :: int
  sf_viewportStartIndex :: int
  sf_revision :: int
  sf_token :: "ustr option"
  sf_generation :: "ustr option"
  sf_totalRows :: int
  sf_logicalTotal :: int
  sf_hasOlder :: bool
  sf_hasNewer :: bool
  sf_stale :: bool
  sf_staleReason :: "ustr option"

record renderWindow =
  rw_startIndex :: int
  rw_endIndex :: int
  rw_viewportStartIndex :: int
  rw_viewportEndIndex :: int
  rw_viewportOffsetRows :: int
  rw_overscanRows :: int
  rw_edgePrefetchRows :: int
  rw_shouldPrefetchOlder :: bool
  rw_shouldPrefetchNewer :: bool

record surfaceSnapshot =
  ss_state :: surface
  ss_rows :: "historyRow list"
  ss_renderRows :: "historyRow list"
  ss_lines :: "historyLineSpan list"
  ss_renderWindow :: renderWindow
  ss_firstCursor :: "historyCursor option"
  ss_lastCursor :: "historyCursor option"
  ss_firstLineId :: "ustr option"
  ss_lastLineId :: "ustr option"

definition positiveInt :: "js_number \<Rightarrow> ustr \<Rightarrow> surfaceError + int" where
  "positiveInt value message =
     (case value of Finite q \<Rightarrow> if q \<le> 0 then Inl (SurfaceError message) else Inr (max 1 \<lfloor>q\<rfloor>) | _ \<Rightarrow> Inl (SurfaceError message))"

definition nonNegativeInt :: "js_number \<Rightarrow> int" where
  "nonNegativeInt value = (case value of Finite q \<Rightarrow> if q \<le> 0 then 0 else \<lfloor>q\<rfloor> | _ \<Rightarrow> 0)"

definition rowKey :: "historyRow \<Rightarrow> ustr option" where
  "rowKey row = map_option (\<lambda>c. hcu_lineId c @ 58 # show_int (hcu_rowInLine c)) (cursorFromRow (Some row))"

definition cloneRow :: "historyRow \<Rightarrow> nat \<Rightarrow> historyRow" where
  "cloneRow row index = row\<lparr>hr_index := index\<rparr>"

definition clone_rows :: "historyRow list \<Rightarrow> historyRow list" where
  "clone_rows rows = map (\<lambda>(i, row). cloneRow row i) (enumerate 0 rows)"

definition normalizeWindowRows :: "historyWindow \<Rightarrow> historyRow list" where
  "normalizeWindowRows window = clone_rows (hw_renderRows window)"

definition sf_firstLineId :: "surface \<Rightarrow> ustr option" where
  "sf_firstLineId s = map_option hcu_lineId (cursorFromRow (first_row (sf_rows s)))"

definition sf_lastLineId :: "surface \<Rightarrow> ustr option" where
  "sf_lastLineId s = map_option hcu_lineId (cursorFromRow (first_row (rev (sf_rows s))))"

definition maxViewportStart :: "surface \<Rightarrow> int" where
  "maxViewportStart s = max 0 (int (length (sf_rows s)) - sf_viewportRows s)"

definition clampViewportStart :: "int \<Rightarrow> surface \<Rightarrow> int" where
  "clampViewportStart value s = min (maxViewportStart s) (max 0 value)"

definition clearCache :: "ustr \<Rightarrow> surface \<Rightarrow> surface" where
  "clearCache reason s =
     s\<lparr>sf_rows := [], sf_lines := [], sf_viewportStartIndex := 0, sf_token := None, sf_generation := None, sf_totalRows := 0,
       sf_logicalTotal := 0, sf_hasOlder := False, sf_hasNewer := False, sf_staleReason := Some reason\<rparr>"

section \<open>Cache\<close>

definition dropOrphanLines :: "surface \<Rightarrow> surface" where
  "dropOrphanLines s =
     (let keys = set (map rowKey (sf_rows s)) in
      s\<lparr>sf_lines := filter (\<lambda>(i, l). cs_startKey l \<in> keys \<and> cs_endKey l \<in> keys) (sf_lines s)\<rparr>)"

definition trimCacheAroundViewport :: "surface \<Rightarrow> surface" where
  "trimCacheAroundViewport s =
     (if sf_cacheRetainRows s \<le> 0 \<or> sf_rows s = [] then s
      else
        let n = int (length (sf_rows s));
          viewportEnd = min n (sf_viewportStartIndex s + sf_viewportRows s);
          keepStart = max 0 (sf_viewportStartIndex s - sf_cacheRetainRows s);
          keepEnd = min n (viewportEnd + sf_cacheRetainRows s)
        in if keepStart = 0 \<and> keepEnd = n then s
           else
             let s1 = s\<lparr>sf_rows := take (nat (keepEnd - keepStart)) (drop (nat keepStart) (sf_rows s))\<rparr>;
               s2 = s1\<lparr>sf_viewportStartIndex := clampViewportStart (sf_viewportStartIndex s - keepStart) s1\<rparr>;
               s3 = (if 0 < keepStart then s2\<lparr>sf_hasOlder := True\<rparr> else s2);
               s4 = (if keepEnd < n then s3\<lparr>sf_hasNewer := True\<rparr> else s3)
             in dropOrphanLines s4)"

definition js_at :: "'a list \<Rightarrow> int \<Rightarrow> 'a option" where
  "js_at xs i = (if 0 \<le> i \<and> i < int (length xs) then Some (xs ! nat i) else None)"

text \<open>The line spans of the rows of a window: first and last row of each line, in order of appearance.\<close>

fun row_spans :: "(nat \<times> historyRow) list \<Rightarrow> (ustr \<times> nat \<times> nat) list \<Rightarrow> (ustr \<times> nat \<times> nat) list" where
  "row_spans [] spans = spans"
| "row_spans ((i, row) # rows) spans =
     (case cursorFromRow (Some row) of
        None \<Rightarrow> row_spans rows spans
      | Some c \<Rightarrow>
          (case map_of spans (hcu_lineId c) of
             Some (a, b) \<Rightarrow> row_spans rows (obj_put (hcu_lineId c) (a, i) spans)
           | None \<Rightarrow> row_spans rows (obj_put (hcu_lineId c) (i, i) spans)))"

definition registerMissingLineSpans :: "historyWindow \<Rightarrow> (ustr \<times> cachedLineSpan) list \<Rightarrow> (ustr \<times> cachedLineSpan) list" where
  "registerMissingLineSpans window known =
     foldl (\<lambda>ls (lineId, a, b).
         if map_of ls lineId \<noteq> None then ls
         else obj_put lineId
           \<lparr>cs_line = \<lparr>hl_startRow = int a, hl_endRow = int b, hl_rowKind = None, hl_logicalLineId = lineId,
              hl_timestampStartUnixMs = None, hl_timestampEndUnixMs = None, hl_clippedBefore = False, hl_clippedAfter = False\<rparr>,
            cs_startKey = rowKey (hw_renderRows window ! a), cs_endKey = rowKey (hw_renderRows window ! b)\<rparr> ls)
       known (row_spans (enumerate 0 (hw_renderRows window)) [])"

definition registerWindowLines :: "historyWindow \<Rightarrow> (ustr \<times> cachedLineSpan) list \<Rightarrow> (ustr \<times> cachedLineSpan) list" where
  "registerWindowLines window known =
     registerMissingLineSpans window
       (foldl (\<lambda>ls line.
          case (js_at (hw_renderRows window) (hl_startRow line), js_at (hw_renderRows window) (hl_endRow line)) of
            (Some a, Some b) \<Rightarrow> obj_put (hl_logicalLineId line) \<lparr>cs_line = line, cs_startKey = rowKey a, cs_endKey = rowKey b\<rparr> ls
          | _ \<Rightarrow> ls)
        known (hw_lines window))"

definition finishWindowUpdate :: "historyWindow \<Rightarrow> surface \<Rightarrow> surface" where
  "finishWindowUpdate window s =
     (let s1 = s\<lparr>sf_totalRows := max (sf_totalRows s) (hw_totalRows window), sf_logicalTotal := max (sf_logicalTotal s) (hw_logicalTotal window)\<rparr>;
        s2 = s1\<lparr>sf_viewportStartIndex := clampViewportStart (sf_viewportStartIndex s1) s1\<rparr>;
        s3 = trimCacheAroundViewport s2
      in s3\<lparr>sf_revision := sf_revision s3 + 1\<rparr>)"

text \<open>The message about the columns is given without its two numbers.\<close>

definition assertWindowShape :: "historyWindow \<Rightarrow> surface \<Rightarrow> surfaceError + unit" where
  "assertWindowShape window s =
     (if hw_terminalId window \<noteq> sf_terminalId s then Inl (SurfaceError (asc ''history surface terminal mismatch: '' @ hw_terminalId window @ asc '' !== '' @ sf_terminalId s))
      else if hw_cols window \<noteq> of_int (sf_cols s) then Inl (SurfaceError (asc ''history surface cols mismatch''))
      else if \<not> list_all (\<lambda>row. cursorFromRow (Some row) \<noteq> None) (hw_renderRows window)
      then Inl (SurfaceError (asc ''history surface rows must carry logical line cursor metadata''))
      else Inr ())"

definition applyReplace :: "historyWindow \<Rightarrow> surface \<Rightarrow> (surfaceError + unit) \<times> surface" where
  "applyReplace window s =
     (case assertWindowShape window s of
        Inl e \<Rightarrow> (Inl e, s)
      | Inr _ \<Rightarrow>
          if trim (hw_token window) = [] then (Inl (SurfaceError (asc ''history surface requires a frozen core-v2 history token'')), s)
          else if trim (hw_generation window) = [] then (Inl (SurfaceError (asc ''history surface requires core-v2 history generation'')), s)
          else
            let s1 = s\<lparr>sf_rows := normalizeWindowRows window, sf_lines := registerWindowLines window [], sf_token := Some (hw_token window),
                sf_generation := Some (hw_generation window), sf_totalRows := hw_totalRows window, sf_logicalTotal := hw_logicalTotal window,
                sf_hasOlder := hw_hasMore window, sf_hasNewer := False, sf_stale := False, sf_staleReason := None\<rparr>;
              s2 = s1\<lparr>sf_viewportStartIndex := maxViewportStart s1\<rparr>
            in (Inr (), finishWindowUpdate window s2))"

definition assertCompatibleWindow :: "historyWindow \<Rightarrow> ustr \<Rightarrow> surface \<Rightarrow> (surfaceError + unit) \<times> surface" where
  "assertCompatibleWindow window mode s =
     (case assertWindowShape window s of
        Inl e \<Rightarrow> (Inl e, s)
      | Inr _ \<Rightarrow>
          if Some (hw_token window) \<noteq> sf_token s \<or> Some (hw_generation window) \<noteq> sf_generation s
          then let reason = mode @ asc '' history window changed token/generation; App cache must be reloaded'';
              s1 = clearCache reason s
            in (Inl (StaleError reason), s1\<lparr>sf_stale := True, sf_staleReason := Some reason, sf_revision := sf_revision s1 + 1\<rparr>)
          else (Inr (), s))"

definition mergeWindow :: "historyWindow \<Rightarrow> bool \<Rightarrow> ustr option set \<Rightarrow> surface \<Rightarrow> int \<times> surface" where
  "mergeWindow window prepend previousKeys s =
     (let incoming = normalizeWindowRows window;
        incomingKeys = set (map rowKey incoming);
        remaining = filter (\<lambda>row. rowKey row \<notin> incomingKeys) (sf_rows s)
      in (int (length (filter (\<lambda>row. rowKey row \<notin> previousKeys) incoming)),
          s\<lparr>sf_rows := (if prepend then incoming @ remaining else remaining @ incoming),
            sf_lines := registerWindowLines window (sf_lines s)\<rparr>))"

section \<open>Snapshots\<close>

definition sf_renderWindow :: "int \<Rightarrow> surface \<Rightarrow> renderWindow" where
  "sf_renderWindow rowCount s =
     (let viewportStart = clampViewportStart (sf_viewportStartIndex s) s;
        viewportEnd = min rowCount (viewportStart + sf_viewportRows s);
        startIndex = max 0 (viewportStart - sf_renderOverscanRows s);
        endIndex = min rowCount (viewportEnd + sf_renderOverscanRows s)
      in \<lparr>rw_startIndex = startIndex, rw_endIndex = endIndex, rw_viewportStartIndex = viewportStart, rw_viewportEndIndex = viewportEnd,
          rw_viewportOffsetRows = viewportStart - startIndex, rw_overscanRows = sf_renderOverscanRows s,
          rw_edgePrefetchRows = sf_edgePrefetchRows s,
          rw_shouldPrefetchOlder = (sf_hasOlder s \<and> viewportStart - startIndex \<le> sf_edgePrefetchRows s),
          rw_shouldPrefetchNewer = (sf_hasNewer s \<and> endIndex - viewportEnd \<le> sf_edgePrefetchRows s)\<rparr>)"

definition snapshotLines :: "historyRow list \<Rightarrow> surface \<Rightarrow> historyLineSpan list" where
  "snapshotLines rows s =
     (let keyToIndex = map_of (rev (map (\<lambda>(i, row). (rowKey row, i)) (enumerate 0 rows)));
        found = concat (map (\<lambda>(i, cached).
          case (keyToIndex (cs_startKey cached), keyToIndex (cs_endKey cached)) of
            (Some a, Some b) \<Rightarrow> [(cs_line cached)\<lparr>hl_startRow := int a, hl_endRow := int b\<rparr>]
          | _ \<Rightarrow> []) (sf_lines s))
      in sort_by (\<lambda>a b. hl_startRow a \<le> hl_startRow b) found)"

definition snapshot :: "surface \<Rightarrow> surfaceSnapshot \<times> surface" where
  "snapshot s =
     (let s = s\<lparr>sf_viewportStartIndex := clampViewportStart (sf_viewportStartIndex s) s\<rparr>;
        rows = clone_rows (sf_rows s);
        rw = sf_renderWindow (int (length rows)) s
      in (\<lparr>ss_state = s, ss_rows = rows,
           ss_renderRows = take (nat (rw_endIndex rw - rw_startIndex rw)) (drop (nat (rw_startIndex rw)) rows),
           ss_lines = snapshotLines rows s, ss_renderWindow = rw, ss_firstCursor = cursorFromRow (first_row rows),
           ss_lastCursor = cursorFromRow (first_row (rev rows)), ss_firstLineId = sf_firstLineId s, ss_lastLineId = sf_lastLineId s\<rparr>, s))"

definition returning :: "surface \<Rightarrow> (surfaceError + surfaceSnapshot) \<times> surface" where
  "returning s = (case snapshot s of (r, s') \<Rightarrow> (Inr r, s'))"

section \<open>Operations\<close>

text \<open>Scroll distances and row numbers are finite numbers; \<open>NaN\<close> and the infinities are not modelled.\<close>

definition scrollByRows :: "rat \<Rightarrow> surface \<Rightarrow> (surfaceError + surfaceSnapshot) \<times> surface" where
  "scrollByRows deltaRows s =
     returning (trimCacheAroundViewport
       (s\<lparr>sf_viewportStartIndex := clampViewportStart (sf_viewportStartIndex s + \<lfloor>js_trunc deltaRows\<rfloor>) s\<rparr>))"

definition scrollToCachedRow :: "rat \<Rightarrow> surface \<Rightarrow> (surfaceError + surfaceSnapshot) \<times> surface" where
  "scrollToCachedRow rowIndex s =
     returning (trimCacheAroundViewport (s\<lparr>sf_viewportStartIndex := clampViewportStart \<lfloor>js_trunc rowIndex\<rfloor> s\<rparr>))"

definition setViewportRows :: "js_number \<Rightarrow> surface \<Rightarrow> (surfaceError + surfaceSnapshot) \<times> surface" where
  "setViewportRows rows s =
     (case positiveInt rows (asc ''history surface requires positive viewportRows'') of
        Inl e \<Rightarrow> (Inl e, s)
      | Inr n \<Rightarrow>
          let s1 = s\<lparr>sf_viewportRows := n\<rparr>; s2 = s1\<lparr>sf_viewportStartIndex := clampViewportStart (sf_viewportStartIndex s1) s1\<rparr>
          in returning (trimCacheAroundViewport s2))"

definition sf_invalidate :: "ustr \<Rightarrow> surface \<Rightarrow> (surfaceError + surfaceSnapshot) \<times> surface" where
  "sf_invalidate reason s =
     (let s1 = clearCache reason s
      in returning (s1\<lparr>sf_stale := True, sf_staleReason := Some reason, sf_revision := sf_revision s1 + 1\<rparr>))"

definition resetForCols :: "js_number \<Rightarrow> surface \<Rightarrow> (surfaceError + surfaceSnapshot) \<times> surface" where
  "resetForCols cols s =
     (case positiveInt cols (asc ''history surface requires positive cols'') of
        Inl e \<Rightarrow> (Inl e, s)
      | Inr n \<Rightarrow> returning (if n \<noteq> sf_cols s then snd (sf_invalidate (asc ''history surface cols changed'') (s\<lparr>sf_cols := n\<rparr>)) else s))"

record surfaceRequest =
  fq_mode :: ustr
  fq_limit :: int
  fq_cols :: int
  fq_token :: "ustr option"
  fq_generation :: "ustr option"
  fq_beforeCursor :: "historyCursor option"
  fq_afterCursor :: "historyCursor option"
  fq_boundaryFirstLineId :: "ustr option"
  fq_boundaryLastLineId :: "ustr option"

text \<open>What a load that awaits the source has captured.\<close>

datatype surfaceCall =
  LatestCall ustr
| OlderCall ustr int "ustr option set"
| NewerCall ustr int bool

text \<open>
  The part of a load before its \<open>await\<close>: an error, or the request it sends, with what it captures. Nothing is
  sent while a load with the same key is pending; the caller shares its promise.
\<close>

type_synonym surfaceStart = "(surfaceError + (surfaceRequest \<times> surfaceCall) option) \<times> surface"

definition withPending :: "ustr \<Rightarrow> surfaceRequest \<Rightarrow> surfaceCall \<Rightarrow> surface \<Rightarrow> surfaceStart" where
  "withPending key rq call s =
     (if key \<in> sf_pending s then (Inr None, s) else (Inr (Some (rq, call)), s\<lparr>sf_pending := insert key (sf_pending s)\<rparr>))"

definition loadLatest_start :: "js_number option \<Rightarrow> js_number option \<Rightarrow> js_number option \<Rightarrow> surface \<Rightarrow> surfaceStart" where
  "loadLatest_start limit cols viewportRows s =
     (case (case viewportRows of None \<Rightarrow> Inr (sf_viewportRows s) | Some v \<Rightarrow> positiveInt v (asc ''history surface requires positive viewportRows'')) of
        Inl e \<Rightarrow> (Inl e, s)
      | Inr vr \<Rightarrow>
          let s = s\<lparr>sf_viewportRows := vr\<rparr> in
          case (case cols of None \<Rightarrow> Inr (sf_cols s) | Some c \<Rightarrow> positiveInt c (asc ''history surface requires positive cols'')) of
            Inl e \<Rightarrow> (Inl e, s)
          | Inr c \<Rightarrow>
              let s = (if c \<noteq> sf_cols s then clearCache (asc ''history surface cols changed'') (s\<lparr>sf_cols := c\<rparr>) else s) in
              case (case limit of None \<Rightarrow> Inr (max 1 (sf_requestRows s)) | Some n \<Rightarrow> positiveInt n (asc ''history surface latest requires positive limit'')) of
                Inl e \<Rightarrow> (Inl e, s)
              | Inr n \<Rightarrow>
                  let key = asc ''latest:'' @ sf_terminalId s @ 58 # show_int (sf_cols s) @ 58 # show_int n in
                  withPending key
                    \<lparr>fq_mode = asc ''latest'', fq_limit = n, fq_cols = sf_cols s, fq_token = None, fq_generation = None, fq_beforeCursor = None,
                     fq_afterCursor = None, fq_boundaryFirstLineId = None, fq_boundaryLastLineId = None\<rparr>
                    (LatestCall key) s)"

definition pageKey :: "ustr \<Rightarrow> surface \<Rightarrow> historyCursor \<Rightarrow> int \<Rightarrow> ustr" where
  "pageKey mode s cursor n =
     mode @ 58 # the (sf_token s) @ 58 # (case sf_generation s of None \<Rightarrow> [] | Some g \<Rightarrow> g) @ 58 # hcu_lineId cursor @
     58 # show_int (hcu_rowInLine cursor) @ 58 # show_int n"

text \<open>The checks of \<open>loadOlder\<close> and \<open>loadNewer\<close>: a token, a cursor, a limit.\<close>

definition page_limit :: "ustr \<Rightarrow> ustr \<Rightarrow> historyCursor option \<Rightarrow> js_number option \<Rightarrow> surface \<Rightarrow> surfaceError + historyCursor \<times> int" where
  "page_limit mode which cursor limit s =
     (if sf_token s = None \<or> sf_token s = Some [] then Inl (SurfaceError (mode @ asc '' history window requires a loaded core-v2 history token''))
      else case cursor of
        None \<Rightarrow> Inl (SurfaceError (mode @ asc '' history window requires a logical '' @ which @ asc '' cursor''))
      | Some c \<Rightarrow>
          (case (case limit of None \<Rightarrow> Inr (max 1 (sf_requestRows s)) | Some n \<Rightarrow> positiveInt n (mode @ asc '' history window requires positive limit'')) of
             Inl e \<Rightarrow> Inl e
           | Inr n \<Rightarrow> Inr (c, n)))"

definition loadOlder_start :: "js_number option \<Rightarrow> surface \<Rightarrow> surfaceStart" where
  "loadOlder_start limit s =
     (case page_limit (asc ''older'') (asc ''first'') (cursorFromRow (first_row (sf_rows s))) limit s of
        Inl e \<Rightarrow> (Inl e, s)
      | Inr (cursor, n) \<Rightarrow>
          let key = pageKey (asc ''older'') s cursor n in
          withPending key
            \<lparr>fq_mode = asc ''older'', fq_limit = n, fq_cols = sf_cols s, fq_token = sf_token s, fq_generation = sf_generation s,
             fq_beforeCursor = Some cursor, fq_afterCursor = None, fq_boundaryFirstLineId = sf_firstLineId s, fq_boundaryLastLineId = sf_lastLineId s\<rparr>
            (OlderCall key (sf_viewportStartIndex s) (set (map rowKey (sf_rows s)))) s)"

definition loadNewer_start :: "js_number option \<Rightarrow> surface \<Rightarrow> surfaceStart" where
  "loadNewer_start limit s =
     (case page_limit (asc ''newer'') (asc ''last'') (cursorFromRow (first_row (rev (sf_rows s)))) limit s of
        Inl e \<Rightarrow> (Inl e, s)
      | Inr (cursor, n) \<Rightarrow>
          let key = pageKey (asc ''newer'') s cursor n in
          withPending key
            \<lparr>fq_mode = asc ''newer'', fq_limit = n, fq_cols = sf_cols s, fq_token = sf_token s, fq_generation = sf_generation s,
             fq_beforeCursor = None, fq_afterCursor = Some cursor, fq_boundaryFirstLineId = sf_firstLineId s, fq_boundaryLastLineId = sf_lastLineId s\<rparr>
            (NewerCall key (sf_viewportStartIndex s) (maxViewportStart s \<le> sf_viewportStartIndex s)) s)"

definition loadLatest_finish :: "historyWindow \<Rightarrow> surface \<Rightarrow> (surfaceError + surfaceSnapshot) \<times> surface" where
  "loadLatest_finish window s = (case applyReplace window s of (Inl e, s') \<Rightarrow> (Inl e, s') | (Inr _, s') \<Rightarrow> returning s')"

definition loadOlder_finish ::
  "int \<Rightarrow> ustr option set \<Rightarrow> historyWindow \<Rightarrow> surface \<Rightarrow> (surfaceError + surfaceSnapshot) \<times> surface" where
  "loadOlder_finish previousViewportStart previousKeys window s =
     (case assertCompatibleWindow window (asc ''older'') s of
        (Inl e, s') \<Rightarrow> (Inl e, s')
      | (Inr _, s') \<Rightarrow>
          (case mergeWindow window True previousKeys s' of (inserted, m) \<Rightarrow>
             returning (finishWindowUpdate window
               (m\<lparr>sf_viewportStartIndex := previousViewportStart + inserted, sf_hasOlder := hw_hasMore window\<rparr>))))"

definition loadNewer_finish ::
  "int \<Rightarrow> bool \<Rightarrow> historyWindow \<Rightarrow> surface \<Rightarrow> (surfaceError + surfaceSnapshot) \<times> surface" where
  "loadNewer_finish previousViewportStart wasPinnedToBottom window s =
     (case assertCompatibleWindow window (asc ''newer'') s of
        (Inl e, s') \<Rightarrow> (Inl e, s')
      | (Inr _, s') \<Rightarrow>
          (case mergeWindow window False {} s' of (inserted, m) \<Rightarrow>
             returning (finishWindowUpdate window
               (m\<lparr>sf_viewportStartIndex := (if wasPinnedToBottom then maxViewportStart m else previousViewportStart),
                 sf_hasNewer := hw_hasMore window\<rparr>))))"

definition call_key :: "surfaceCall \<Rightarrow> ustr" where
  "call_key call = (case call of LatestCall k \<Rightarrow> k | OlderCall k _ _ \<Rightarrow> k | NewerCall k _ _ \<Rightarrow> k)"

text \<open>The reply of the source, and the \<open>finally\<close> that removes the key.\<close>

definition surface_reply ::
  "surfaceCall \<Rightarrow> surfaceError + historyWindow \<Rightarrow> surface \<Rightarrow> (surfaceError + surfaceSnapshot) \<times> surface" where
  "surface_reply call reply s =
     (case (case reply of
         Inl e \<Rightarrow> (Inl e, s)
       | Inr w \<Rightarrow>
           (case call of
              LatestCall _ \<Rightarrow> loadLatest_finish w s
            | OlderCall _ vs keys \<Rightarrow> loadOlder_finish vs keys w s
            | NewerCall _ vs pinned \<Rightarrow> loadNewer_finish vs pinned w s)) of
       (r, s') \<Rightarrow> (r, s'\<lparr>sf_pending := sf_pending s' - {call_key call}\<rparr>))"

record surfaceOptions =
  so_terminalId :: ustr
  so_cols :: js_number
  so_viewportRows :: js_number
  so_requestRows :: "js_number option"
  so_renderOverscanRows :: "js_number option"
  so_edgePrefetchRows :: "js_number option"
  so_cacheRetainRows :: "js_number option"

definition or_default :: "js_number option \<Rightarrow> rat \<Rightarrow> js_number" where
  "or_default v d = (case v of None \<Rightarrow> Finite d | Some x \<Rightarrow> x)"

definition new_surface :: "surfaceOptions \<Rightarrow> surfaceError + surface" where
  "new_surface options =
     (if trim (so_terminalId options) = [] then Inl (SurfaceError (asc ''history surface requires terminalId''))
      else andThen (positiveInt (so_cols options) (asc ''history surface requires positive cols'')) (\<lambda>cols.
        andThen (positiveInt (so_viewportRows options) (asc ''history surface requires positive viewportRows'')) (\<lambda>viewportRows.
        andThen (positiveInt (or_default (so_requestRows options) 160) (asc ''history surface requires positive requestRows'')) (\<lambda>requestRows.
        Inr \<lparr>sf_terminalId = so_terminalId options, sf_requestRows = requestRows,
          sf_renderOverscanRows = nonNegativeInt (or_default (so_renderOverscanRows options) 80),
          sf_edgePrefetchRows = nonNegativeInt (or_default (so_edgePrefetchRows options) 32),
          sf_cacheRetainRows = nonNegativeInt (or_default (so_cacheRetainRows options) 2400),
          sf_pending = {}, sf_rows = [], sf_lines = [], sf_cols = cols, sf_viewportRows = viewportRows, sf_viewportStartIndex = 0,
          sf_revision = 0, sf_token = None, sf_generation = None, sf_totalRows = 0, sf_logicalTotal = 0, sf_hasOlder = False,
          sf_hasNewer = False, sf_stale = False, sf_staleReason = None\<rparr>))))"

section \<open>Invariant\<close>

definition has_cursor :: "historyRow \<Rightarrow> bool" where
  "has_cursor row \<longleftrightarrow> cursorFromRow (Some row) \<noteq> None"

definition surface_ok :: "surface \<Rightarrow> bool" where
  "surface_ok s \<longleftrightarrow> 0 \<le> sf_renderOverscanRows s \<and> 1 \<le> sf_viewportRows s \<and> 1 \<le> sf_cols s \<and> 0 \<le> sf_viewportStartIndex s \<and> sf_viewportStartIndex s \<le> maxViewportStart s \<and>
     list_all has_cursor (sf_rows s) \<and> sf_token s \<noteq> Some [] \<and> (sf_token s = None \<longrightarrow> sf_rows s = [] \<and> sf_lines s = [])"

text \<open>The part of the invariant that does not mention the viewport's position.\<close>

definition rows_ok :: "surface \<Rightarrow> bool" where
  "rows_ok s \<longleftrightarrow> 0 \<le> sf_renderOverscanRows s \<and> 1 \<le> sf_viewportRows s \<and> 1 \<le> sf_cols s \<and> list_all has_cursor (sf_rows s) \<and> sf_token s \<noteq> Some [] \<and>
     (sf_token s = None \<longrightarrow> sf_rows s = [] \<and> sf_lines s = [])"

lemma surface_ok_rows: "surface_ok s \<longleftrightarrow> rows_ok s \<and> 0 \<le> sf_viewportStartIndex s \<and> sf_viewportStartIndex s \<le> maxViewportStart s"
  by (auto simp: surface_ok_def rows_ok_def)

lemma maxViewportStart_nonneg [simp]: "0 \<le> maxViewportStart s"
  by (simp add: maxViewportStart_def)

lemma clampViewportStart_bounds [simp]: "0 \<le> clampViewportStart v s" "clampViewportStart v s \<le> maxViewportStart s"
  by (simp_all add: clampViewportStart_def)

lemma clampViewportStart_id: "0 \<le> v \<Longrightarrow> v \<le> maxViewportStart s \<Longrightarrow> clampViewportStart v s = v"
  by (simp add: clampViewportStart_def)

lemma maxViewportStart_update [simp]:
  "maxViewportStart (s\<lparr>sf_viewportStartIndex := v\<rparr>) = maxViewportStart s" "maxViewportStart (s\<lparr>sf_revision := r\<rparr>) = maxViewportStart s"
  "maxViewportStart (s\<lparr>sf_hasOlder := b\<rparr>) = maxViewportStart s" "maxViewportStart (s\<lparr>sf_hasNewer := b\<rparr>) = maxViewportStart s"
  "maxViewportStart (s\<lparr>sf_totalRows := i\<rparr>) = maxViewportStart s" "maxViewportStart (s\<lparr>sf_logicalTotal := i\<rparr>) = maxViewportStart s"
  "maxViewportStart (s\<lparr>sf_lines := ls\<rparr>) = maxViewportStart s" "maxViewportStart (s\<lparr>sf_pending := p\<rparr>) = maxViewportStart s"
  by (simp_all add: maxViewportStart_def)

lemma clampViewportStart_update [simp]:
  "clampViewportStart v (s\<lparr>sf_viewportStartIndex := u\<rparr>) = clampViewportStart v s"
  "clampViewportStart v (s\<lparr>sf_totalRows := i\<rparr>) = clampViewportStart v s" "clampViewportStart v (s\<lparr>sf_logicalTotal := i\<rparr>) = clampViewportStart v s"
  by (simp_all add: clampViewportStart_def)

text \<open>The rows on display.\<close>

definition visible :: "surface \<Rightarrow> historyRow list" where
  "visible s = take (nat (sf_viewportRows s)) (drop (nat (sf_viewportStartIndex s)) (sf_rows s))"

lemma trim_cases:
  obtains "trimCacheAroundViewport s = s"
  | a b hO hN where "0 \<le> a" and "a \<le> sf_viewportStartIndex s" and "a \<le> b" and "b \<le> int (length (sf_rows s))"
    and "sf_viewportStartIndex s + sf_viewportRows s \<le> b"
    and "trimCacheAroundViewport s = dropOrphanLines
      (s\<lparr>sf_rows := take (nat (b - a)) (drop (nat a) (sf_rows s)), sf_viewportStartIndex := sf_viewportStartIndex s - a,
        sf_hasOlder := hO, sf_hasNewer := hN\<rparr>)"
  | "\<not> surface_ok s"
proof (cases "surface_ok s \<and> trimCacheAroundViewport s \<noteq> s")
  case True
  define n where "n = int (length (sf_rows s))"
  define e where "e = min n (sf_viewportStartIndex s + sf_viewportRows s)"
  define a where "a = max 0 (sf_viewportStartIndex s - sf_cacheRetainRows s)"
  define b where "b = min n (e + sf_cacheRetainRows s)"
  have ok: "1 \<le> sf_viewportRows s" "0 \<le> sf_viewportStartIndex s" "sf_viewportStartIndex s \<le> max 0 (n - sf_viewportRows s)"
    using True by (simp_all add: surface_ok_def maxViewportStart_def n_def)
  have c: "0 < sf_cacheRetainRows s" "sf_rows s \<noteq> []" "\<not> (a = 0 \<and> b = n)"
    using True by (auto simp: trimCacheAroundViewport_def Let_def n_def e_def a_def b_def split: if_splits)
  have full: "sf_viewportStartIndex s + sf_viewportRows s \<le> n"
  proof (rule ccontr)
    assume "\<not> ?thesis"
    then have "sf_viewportStartIndex s = 0" "e = n" using ok by (auto simp: e_def)
    then have "a = 0 \<and> b = n" using c(1) by (simp add: a_def b_def n_def)
    with c(3) show False by simp
  qed
  then have ab: "0 \<le> a" "a \<le> sf_viewportStartIndex s" "b \<le> n" "sf_viewportStartIndex s + sf_viewportRows s \<le> b"
    using ok c(1) by (auto simp: a_def b_def e_def)
  then have le: "a \<le> b" using ok by linarith
  define rows where "rows = take (nat (b - a)) (drop (nat a) (sf_rows s))"
  have len: "int (length rows) = b - a" using ab le by (simp add: n_def rows_def)
  have cl: "clampViewportStart (sf_viewportStartIndex s - a) (s\<lparr>sf_rows := rows\<rparr>) = sf_viewportStartIndex s - a"
    using ab len by (intro clampViewportStart_id) (simp_all add: maxViewportStart_def)
  have "trimCacheAroundViewport s = dropOrphanLines
      (s\<lparr>sf_rows := rows, sf_viewportStartIndex := sf_viewportStartIndex s - a,
        sf_hasOlder := (if 0 < a then True else sf_hasOlder s), sf_hasNewer := (if b < n then True else sf_hasNewer s)\<rparr>)"
    unfolding trimCacheAroundViewport_def Let_def n_def [symmetric] e_def [symmetric] a_def [symmetric] b_def [symmetric] rows_def [symmetric] cl
    using c by auto
  with that(2) ab le show ?thesis unfolding n_def rows_def by blast
qed (use that in blast)

lemma dropOrphanLines_simps [simp]:
  "sf_rows (dropOrphanLines s) = sf_rows s" "sf_viewportStartIndex (dropOrphanLines s) = sf_viewportStartIndex s"
  "sf_viewportRows (dropOrphanLines s) = sf_viewportRows s" "sf_cols (dropOrphanLines s) = sf_cols s"
  "sf_token (dropOrphanLines s) = sf_token s" "sf_renderOverscanRows (dropOrphanLines s) = sf_renderOverscanRows s" "maxViewportStart (dropOrphanLines s) = maxViewportStart s"
  by (simp_all add: dropOrphanLines_def Let_def maxViewportStart_def)

lemma trim_keeps:
  assumes "surface_ok s"
  shows "surface_ok (trimCacheAroundViewport s)" and "visible (trimCacheAroundViewport s) = visible s"
proof -
  have "surface_ok (trimCacheAroundViewport s) \<and> visible (trimCacheAroundViewport s) = visible s"
  proof (rule trim_cases [of s])
    fix a b hO hN
    assume ab: "0 \<le> a" "a \<le> sf_viewportStartIndex s" "a \<le> b" "b \<le> int (length (sf_rows s))" "sf_viewportStartIndex s + sf_viewportRows s \<le> b"
      and t: "trimCacheAroundViewport s = dropOrphanLines (s\<lparr>sf_rows := take (nat (b - a)) (drop (nat a) (sf_rows s)),
        sf_viewportStartIndex := sf_viewportStartIndex s - a, sf_hasOlder := hO, sf_hasNewer := hN\<rparr>)"
    have "list_all has_cursor (take (nat (b - a)) (drop (nat a) (sf_rows s)))"
      using assms by (auto simp: surface_ok_def list_all_iff dest!: in_set_takeD in_set_dropD)
    moreover have "int (length (take (nat (b - a)) (drop (nat a) (sf_rows s)))) = b - a" using ab by simp
    moreover have "take (nat (sf_viewportRows s)) (drop (nat (sf_viewportStartIndex s - a)) (take (nat (b - a)) (drop (nat a) (sf_rows s)))) =
        take (nat (sf_viewportRows s)) (drop (nat (sf_viewportStartIndex s)) (sf_rows s))"
    proof -
      have "nat (sf_viewportStartIndex s - a) + nat a = nat (sf_viewportStartIndex s)" using ab by simp
      moreover have "min (nat (sf_viewportRows s)) (nat (b - a) - nat (sf_viewportStartIndex s - a)) = nat (sf_viewportRows s)" using ab by simp
      ultimately show ?thesis by (simp add: drop_take)
    qed
    ultimately show ?thesis using assms ab unfolding t
      by (simp add: surface_ok_def visible_def maxViewportStart_def) (simp add: dropOrphanLines_def)
  qed (use assms in auto)
  then show "surface_ok (trimCacheAroundViewport s)" "visible (trimCacheAroundViewport s) = visible s" by simp_all
qed

lemma rows_ok_update [simp]:
  "rows_ok (s\<lparr>sf_viewportStartIndex := v\<rparr>) = rows_ok s" "rows_ok (s\<lparr>sf_totalRows := i\<rparr>) = rows_ok s"
  "rows_ok (s\<lparr>sf_logicalTotal := i\<rparr>) = rows_ok s" "rows_ok (s\<lparr>sf_revision := i\<rparr>) = rows_ok s"
  "rows_ok (s\<lparr>sf_hasOlder := b\<rparr>) = rows_ok s" "rows_ok (s\<lparr>sf_hasNewer := b\<rparr>) = rows_ok s"
  "rows_ok (s\<lparr>sf_stale := b\<rparr>) = rows_ok s" "rows_ok (s\<lparr>sf_staleReason := r\<rparr>) = rows_ok s" "rows_ok (s\<lparr>sf_pending := p\<rparr>) = rows_ok s"
  by (simp_all add: rows_ok_def)

lemma visible_update [simp]:
  "visible (s\<lparr>sf_totalRows := i\<rparr>) = visible s" "visible (s\<lparr>sf_logicalTotal := i\<rparr>) = visible s" "visible (s\<lparr>sf_revision := i\<rparr>) = visible s"
  "visible (s\<lparr>sf_pending := p\<rparr>) = visible s"
  by (simp_all add: visible_def)

lemma surface_ok_update [simp]: "surface_ok (s\<lparr>sf_revision := i\<rparr>) = surface_ok s" "surface_ok (s\<lparr>sf_pending := p\<rparr>) = surface_ok s"
  by (simp_all add: surface_ok_rows)

lemma clamped_surface_ok: "rows_ok s \<Longrightarrow> surface_ok (s\<lparr>sf_viewportStartIndex := clampViewportStart v s\<rparr>)"
  by (simp add: surface_ok_rows)

lemma finish_keeps:
  assumes "rows_ok s"
  shows "surface_ok (finishWindowUpdate w s)"
    and "0 \<le> sf_viewportStartIndex s \<Longrightarrow> sf_viewportStartIndex s \<le> maxViewportStart s \<Longrightarrow> visible (finishWindowUpdate w s) = visible s"
proof -
  let ?s = "s\<lparr>sf_totalRows := max (sf_totalRows s) (hw_totalRows w), sf_logicalTotal := max (sf_logicalTotal s) (hw_logicalTotal w)\<rparr>"
  let ?t = "?s\<lparr>sf_viewportStartIndex := clampViewportStart (sf_viewportStartIndex s) s\<rparr>"
  have ok: "surface_ok ?t" using clamped_surface_ok [of ?s] assms by simp
  have e: "finishWindowUpdate w s = (trimCacheAroundViewport ?t)\<lparr>sf_revision := sf_revision (trimCacheAroundViewport ?t) + 1\<rparr>"
    by (simp add: finishWindowUpdate_def Let_def)
  show "surface_ok (finishWindowUpdate w s)" unfolding e using trim_keeps(1) [OF ok] by simp
  show "visible (finishWindowUpdate w s) = visible s" if "0 \<le> sf_viewportStartIndex s" "sf_viewportStartIndex s \<le> maxViewportStart s"
    unfolding e using trim_keeps(2) [OF ok] clampViewportStart_id [OF that] by (simp add: visible_def)
qed

text \<open>
  Between two operations the position may be past the last one, when a load of the latest page has set a
  larger viewport; a snapshot clamps it. So an operation keeps the rows well formed, and one that
  returns a snapshot leaves a well-formed surface, that of the snapshot.
\<close>

definition base_ok :: "surface \<Rightarrow> bool" where
  "base_ok s \<longleftrightarrow> rows_ok s \<and> 0 \<le> sf_viewportStartIndex s"

definition outcome_ok :: "(surfaceError + surfaceSnapshot) \<times> surface \<Rightarrow> bool" where
  "outcome_ok out \<longleftrightarrow> base_ok (snd out) \<and> (\<forall>r. fst out = Inr r \<longrightarrow> surface_ok (snd out) \<and> ss_state r = snd out)"

lemma surface_base_ok: "surface_ok s \<Longrightarrow> base_ok s"
  by (simp add: base_ok_def surface_ok_rows)

lemma returning_ok: "rows_ok s \<Longrightarrow> outcome_ok (returning s)"
  using clamped_surface_ok [of s] by (simp add: returning_def snapshot_def Let_def outcome_ok_def surface_base_ok)

lemma returning_same: "surface_ok s \<Longrightarrow> snd (returning s) = s"
  by (simp add: returning_def snapshot_def Let_def surface_ok_def clampViewportStart_id)

lemma failed_ok: "base_ok s \<Longrightarrow> outcome_ok (Inl e, s)"
  by (simp add: outcome_ok_def)

lemma has_cursor_clone [simp]: "has_cursor (cloneRow row i) = has_cursor row" "rowKey (cloneRow row i) = rowKey row"
  by (simp_all add: has_cursor_def cloneRow_def cursorFromRow_def rowKey_def)

lemma clone_rows_simps [simp]: "length (clone_rows rows) = length rows" "list_all has_cursor (clone_rows rows) = list_all has_cursor rows"
  "map rowKey (clone_rows rows) = map rowKey rows"
  by (auto simp: clone_rows_def list_all_length nth_enumerate_eq intro: nth_equalityI)

lemma assertWindowShape_ok:
  assumes "assertWindowShape w s = Inr u"
  shows "list_all has_cursor (normalizeWindowRows w)"
proof -
  have "list_all has_cursor (hw_renderRows w)"
    using assms unfolding assertWindowShape_def has_cursor_def [abs_def] by (simp split: if_splits)
  then show ?thesis by (simp add: normalizeWindowRows_def)
qed

lemma clearCache_ok: "rows_ok s \<Longrightarrow> surface_ok (clearCache reason s)"
  by (simp add: surface_ok_def rows_ok_def clearCache_def)

lemma stale_ok: "surface_ok s \<Longrightarrow> surface_ok (s\<lparr>sf_stale := True, sf_staleReason := r, sf_revision := i\<rparr>)"
  by (simp add: surface_ok_rows maxViewportStart_def)

lemma applyReplace_ok:
  assumes "base_ok s"
  shows "base_ok (snd (applyReplace w s))"
proof (cases "assertWindowShape w s")
  case (Inr u)
  have "trim [] = []" by (simp add: trim_def)
  then have "rows_ok (s\<lparr>sf_rows := normalizeWindowRows w, sf_lines := ls, sf_token := Some (hw_token w), sf_generation := g, sf_totalRows := a,
      sf_logicalTotal := b, sf_hasOlder := c, sf_hasNewer := d, sf_stale := e, sf_staleReason := f, sf_viewportStartIndex := v\<rparr>)"
    if "trim (hw_token w) \<noteq> []" for ls g a b c d e f v
    using assms assertWindowShape_ok [OF Inr] that by (auto simp: rows_ok_def base_ok_def)
  then show ?thesis using assms surface_base_ok [OF finish_keeps(1)] by (simp add: applyReplace_def Inr Let_def)
qed (use assms in \<open>simp add: applyReplace_def\<close>)

lemma assertCompatible_ok:
  assumes "base_ok s" and "assertCompatibleWindow w m s = (r, t)"
  shows "base_ok t" and "r = Inr u \<Longrightarrow> t = s \<and> sf_token s = Some (hw_token w) \<and> list_all has_cursor (normalizeWindowRows w)"
proof -
  have c: "base_ok ((clearCache reason s)\<lparr>sf_stale := True, sf_staleReason := x, sf_revision := i\<rparr>)" for reason x i
    using assms(1) by (intro surface_base_ok stale_ok clearCache_ok) (simp add: base_ok_def)
  show "base_ok t" "r = Inr u \<Longrightarrow> t = s \<and> sf_token s = Some (hw_token w) \<and> list_all has_cursor (normalizeWindowRows w)"
    using assms c assertWindowShape_ok [of w s]
    by (auto simp: assertCompatibleWindow_def Let_def split: sum.splits if_splits)
qed

lemma mergeWindow_ok:
  assumes "base_ok s" and "list_all has_cursor (normalizeWindowRows w)" and "sf_token s = Some t" and "mergeWindow w pre ks s = (n, m)"
  shows "rows_ok m"
  using assms by (cases pre) (auto simp: mergeWindow_def Let_def base_ok_def rows_ok_def list_all_iff)

lemma merged_outcome:
  assumes "base_ok s" and "list_all has_cursor (normalizeWindowRows w)" and "sf_token s = Some t" and "mergeWindow w pre ks s = (n, m)"
  shows "outcome_ok (returning (finishWindowUpdate w (m\<lparr>sf_viewportStartIndex := v, sf_hasOlder := a\<rparr>)))"
    and "outcome_ok (returning (finishWindowUpdate w (m\<lparr>sf_viewportStartIndex := v, sf_hasNewer := a\<rparr>)))"
  using mergeWindow_ok [OF assms] surface_base_ok [OF finish_keeps(1)]
  by (auto simp: base_ok_def intro!: returning_ok)

lemma loadPage_ok:
  assumes "base_ok s"
  shows "outcome_ok (loadOlder_finish vs ks w s)" and "outcome_ok (loadNewer_finish vs pin w s)"
proof -
  show "outcome_ok (loadOlder_finish vs ks w s)"
  proof (cases "assertCompatibleWindow w (asc ''older'') s")
    case (Pair r t)
    note c = assertCompatible_ok [OF assms Pair]
    show ?thesis
    proof (cases r)
      case (Inr u)
      obtain n m where m: "mergeWindow w True ks s = (n, m)" by (cases "mergeWindow w True ks s")
      show ?thesis using Pair Inr c(2) [OF Inr] m merged_outcome(1) [OF assms _ _ m] by (simp add: loadOlder_finish_def)
    qed (use Pair c in \<open>simp add: loadOlder_finish_def failed_ok\<close>)
  qed
  show "outcome_ok (loadNewer_finish vs pin w s)"
  proof (cases "assertCompatibleWindow w (asc ''newer'') s")
    case (Pair r t)
    note c = assertCompatible_ok [OF assms Pair]
    show ?thesis
    proof (cases r)
      case (Inr u)
      obtain n m where m: "mergeWindow w False {} s = (n, m)" by (cases "mergeWindow w False {} s")
      show ?thesis using Pair Inr c(2) [OF Inr] m merged_outcome(2) [OF assms _ _ m] by (simp add: loadNewer_finish_def)
    qed (use Pair c in \<open>simp add: loadNewer_finish_def failed_ok\<close>)
  qed
qed

lemma loadLatest_finish_ok:
  assumes "base_ok s"
  shows "outcome_ok (loadLatest_finish w s)"
proof (cases "applyReplace w s")
  case (Pair r t)
  then have "base_ok t" using applyReplace_ok [OF assms, of w] by simp
  then show ?thesis using Pair returning_ok by (cases r) (auto simp: loadLatest_finish_def failed_ok base_ok_def)
qed

lemma surface_reply_ok:
  assumes "base_ok s"
  shows "base_ok (snd (surface_reply call reply s))"
proof -
  have "base_ok (t\<lparr>sf_pending := p\<rparr>) = base_ok t" for t p by (simp add: base_ok_def)
  then show ?thesis using assms loadLatest_finish_ok [OF assms] loadPage_ok [OF assms]
    by (cases reply; cases call) (simp_all add: surface_reply_def split_beta outcome_ok_def)
qed

section \<open>Sessions\<close>

datatype surfaceEvent =
  CallLatest nat "js_number option" "js_number option" "js_number option"
| CallOlder nat "js_number option"
| CallNewer nat "js_number option"
| ScrollBy rat
| ScrollTo rat
| SetRows js_number
| ResetCols js_number
| Invalidate ustr
| WindowArrives nat "surfaceError + historyWindow"

type_synonym surfaceSystem = "surface \<times> (nat \<rightharpoonup> surfaceCall)"

definition start_call :: "nat \<Rightarrow> surfaceStart \<Rightarrow> (nat \<rightharpoonup> surfaceCall) \<Rightarrow> surfaceSystem" where
  "start_call i start calls =
     (case start of
        (Inr (Some (rq, call)), s) \<Rightarrow> (s, calls(i \<mapsto> call))
      | (_, s) \<Rightarrow> (s, calls))"

fun surface_step :: "surfaceSystem \<Rightarrow> surfaceEvent \<Rightarrow> surfaceSystem" where
  "surface_step (s, calls) (CallLatest i limit cols rows) = start_call i (loadLatest_start limit cols rows s) calls"
| "surface_step (s, calls) (CallOlder i limit) = start_call i (loadOlder_start limit s) calls"
| "surface_step (s, calls) (CallNewer i limit) = start_call i (loadNewer_start limit s) calls"
| "surface_step (s, calls) (ScrollBy d) = (snd (scrollByRows d s), calls)"
| "surface_step (s, calls) (ScrollTo r) = (snd (scrollToCachedRow r s), calls)"
| "surface_step (s, calls) (SetRows r) = (snd (setViewportRows r s), calls)"
| "surface_step (s, calls) (ResetCols c) = (snd (resetForCols c s), calls)"
| "surface_step (s, calls) (Invalidate reason) = (snd (sf_invalidate reason s), calls)"
| "surface_step (s, calls) (WindowArrives i reply) =
     (case calls i of None \<Rightarrow> (s, calls) | Some call \<Rightarrow> (snd (surface_reply call reply s), calls(i := None)))"

lemma positiveInt_ge_1: "positiveInt v m = Inr n \<Longrightarrow> 1 \<le> n"
  by (auto simp: positiveInt_def split: js_number.splits if_splits)

lemma scrolled_ok:
  assumes "rows_ok s"
  shows "outcome_ok (returning (trimCacheAroundViewport (s\<lparr>sf_viewportStartIndex := clampViewportStart v s\<rparr>)))"
  using trim_keeps(1) [OF clamped_surface_ok [OF assms]] by (intro returning_ok) (simp add: surface_ok_rows)

lemma invalidate_ok: "rows_ok s \<Longrightarrow> outcome_ok (sf_invalidate reason s)"
  using clearCache_ok [of s reason] by (simp add: sf_invalidate_def Let_def returning_ok surface_ok_rows)

lemma setViewportRows_ok: "base_ok s \<Longrightarrow> outcome_ok (setViewportRows rows s)"
  by (auto simp: setViewportRows_def Let_def failed_ok base_ok_def rows_ok_def dest!: positiveInt_ge_1 intro!: scrolled_ok split: sum.splits)

lemma resetForCols_ok:
  assumes "base_ok s"
  shows "outcome_ok (resetForCols cols s)"
proof (cases "positiveInt cols (asc ''history surface requires positive cols'')")
  case (Inr n)
  have "rows_ok (s\<lparr>sf_cols := n\<rparr>)" using assms positiveInt_ge_1 [OF Inr] by (simp add: base_ok_def rows_ok_def)
  then have "rows_ok (snd (sf_invalidate reason (s\<lparr>sf_cols := n\<rparr>)))" for reason
    using invalidate_ok [of "s\<lparr>sf_cols := n\<rparr>" reason] by (simp add: outcome_ok_def base_ok_def)
  then show ?thesis using assms Inr by (auto simp: resetForCols_def base_ok_def intro!: returning_ok simp del: asc_simps)
qed (use assms in \<open>simp add: resetForCols_def failed_ok\<close>)

lemma withPending_ok: "base_ok s \<Longrightarrow> base_ok (snd (withPending key rq call s))"
  by (simp add: withPending_def base_ok_def)

lemma loadLatest_start_ok:
  assumes "base_ok s"
  shows "base_ok (snd (loadLatest_start limit cols rows s))"
proof -
  have c: "base_ok (clearCache r (t\<lparr>sf_cols := c\<rparr>))" if "base_ok t" "1 \<le> c" for t r c
    using that by (intro surface_base_ok clearCache_ok) (simp add: base_ok_def rows_ok_def)
  have v: "base_ok (s\<lparr>sf_viewportRows := n\<rparr>)" if "1 \<le> n" for n using assms that by (simp add: base_ok_def rows_ok_def)
  have r: "1 \<le> sf_viewportRows s" using assms by (simp add: base_ok_def rows_ok_def)
  show ?thesis using assms v r
    by (auto simp: loadLatest_start_def Let_def dest!: positiveInt_ge_1 intro!: withPending_ok c split: sum.splits option.splits)
qed

lemma start_call_ok: "base_ok (snd st) \<Longrightarrow> base_ok (fst (start_call i st calls))"
  by (auto simp: start_call_def split: prod.splits sum.splits option.splits)

lemma surface_step_ok:
  assumes "base_ok (fst sy)"
  shows "base_ok (fst (surface_step sy ev))"
proof -
  obtain s calls where sy: "sy = (s, calls)" by (cases sy)
  have s: "base_ok s" "rows_ok s" using assms by (simp_all add: sy base_ok_def)
  have p: "base_ok (snd (loadOlder_start limit s))" "base_ok (snd (loadNewer_start limit s))" for limit
    using s(1) by (simp_all add: loadOlder_start_def loadNewer_start_def Let_def withPending_ok split: sum.split prod.split)
  note o = scrolled_ok [OF s(2)] setViewportRows_ok [OF s(1)] resetForCols_ok [OF s(1)] invalidate_ok [OF s(2)]
  show ?thesis using s p o [unfolded outcome_ok_def] loadLatest_start_ok [OF s(1)] surface_reply_ok [OF s(1)]
    by (cases ev) (simp_all add: sy start_call_ok scrollByRows_def scrollToCachedRow_def split: option.split)
qed

lemma surface_run_ok: "base_ok (fst sy) \<Longrightarrow> base_ok (fst (foldl surface_step sy evs))"
  by (induction evs arbitrary: sy) (simp_all add: surface_step_ok)

lemma nonNegativeInt_nonneg [simp]: "0 \<le> nonNegativeInt v"
  by (simp add: nonNegativeInt_def split: js_number.split)

lemma new_surface_ok: "new_surface options = Inr s \<Longrightarrow> surface_ok s"
  by (auto simp: new_surface_def surface_ok_def maxViewportStart_def dest!: positiveInt_ge_1 split: if_splits)

section \<open>Properties\<close>

lemma visible_keys: "map rowKey (visible s) = take (nat (sf_viewportRows s)) (drop (nat (sf_viewportStartIndex s)) (map rowKey (sf_rows s)))"
  by (simp add: visible_def take_map drop_map)

text \<open>
  A page of older rows whose last rows may be the first ones of the cache: with \<open>n\<close> new rows, what was at
  position \<open>p\<close> is at \<open>n + p\<close>.
\<close>

lemma mergeWindow_older:
  assumes "map rowKey (hw_renderRows w) = new @ take k keys" and "keys = map rowKey (sf_rows s)" and "distinct (new @ keys)"
  shows "fst (mergeWindow w True (set keys) s) = int (length new)"
    and "map rowKey (sf_rows (snd (mergeWindow w True (set keys) s))) = new @ keys"
proof -
  have f: "map rowKey (filter (\<lambda>row. rowKey row \<notin> X) rows) = filter (\<lambda>x. x \<notin> X) (map rowKey rows)"
    "length (filter (\<lambda>row. rowKey row \<notin> X) rows) = length (filter (\<lambda>x. x \<notin> X) (map rowKey rows))" for X rows
    by (simp_all add: filter_map o_def)
  have d: "set (take k keys) \<inter> set (drop k keys) = {}" "set new \<inter> set keys = {}"
    using assms(3) by (simp_all add: set_take_disj_set_drop_if_distinct)
  have "filter (\<lambda>x. x \<notin> set (new @ take k keys)) (take k keys @ drop k keys) = drop k keys"
    using d by (auto simp: filter_empty_conv filter_id_conv simp del: append_take_drop_id dest: in_set_dropD)
  then have r: "filter (\<lambda>x. x \<notin> set (new @ take k keys)) keys = drop k keys" by simp
  have "filter (\<lambda>x. x \<notin> set keys) (take k keys) = []" by (auto simp: filter_empty_conv dest: in_set_takeD)
  moreover have "filter (\<lambda>x. x \<notin> set keys) new = new" using d(2) by (auto simp: filter_id_conv)
  ultimately have "filter (\<lambda>x. x \<notin> set keys) (new @ take k keys) = new" by simp
  then show "fst (mergeWindow w True (set keys) s) = int (length new)"
    by (simp only: mergeWindow_def Let_def normalizeWindowRows_def fst_conv f(2) clone_rows_simps assms(1))
  show "map rowKey (sf_rows (snd (mergeWindow w True (set keys) s))) = new @ keys"
    using r by (simp add: mergeWindow_def Let_def normalizeWindowRows_def f(1) assms(1) assms(2) [symmetric] del: filter_append set_append set_map)
qed

lemma older_page_view:
  assumes "rows_ok s" and "0 \<le> vs" and "vs + sf_viewportRows s \<le> int (length (sf_rows s))"
    and "assertWindowShape w s = Inr u" and "sf_token s = Some (hw_token w)" and "sf_generation s = Some (hw_generation w)"
    and "map rowKey (hw_renderRows w) = new @ take k (map rowKey (sf_rows s))" and "distinct (new @ map rowKey (sf_rows s))"
    and "loadOlder_finish vs (set (map rowKey (sf_rows s))) w s = (r, t)"
  shows "(\<exists>snap. r = Inr snap) \<and> surface_ok t \<and> map rowKey (visible t) = map rowKey (visible (s\<lparr>sf_viewportStartIndex := vs\<rparr>))"
proof -
  define keys where "keys = map rowKey (sf_rows s)"
  have b: "base_ok (s\<lparr>sf_viewportStartIndex := vs\<rparr>)" using assms(1,2) by (simp add: base_ok_def)
  obtain n m where m: "mergeWindow w True (set keys) s = (n, m)" by (cases "mergeWindow w True (set keys) s")
  have n: "n = int (length new)" and ks: "map rowKey (sf_rows m) = new @ keys"
    using mergeWindow_older [OF assms(7) refl assms(8)] m by (simp_all add: keys_def)
  have v: "sf_viewportRows m = sf_viewportRows s" using m by (auto simp: mergeWindow_def Let_def)
  have len: "length (sf_rows m) = length new + length (sf_rows s)" using arg_cong [OF ks, of length] by (simp add: keys_def)
  have "rows_ok m"
  proof -
    have "list_all has_cursor (normalizeWindowRows w)" by (rule assertWindowShape_ok [OF assms(4)])
    then show ?thesis using m assms(1,5) by (auto simp: mergeWindow_def Let_def rows_ok_def list_all_iff)
  qed
  define m' where "m' = m\<lparr>sf_viewportStartIndex := vs + n, sf_hasOlder := hw_hasMore w\<rparr>"
  have m': "rows_ok m'" "0 \<le> sf_viewportStartIndex m'" "sf_viewportStartIndex m' \<le> maxViewportStart m'"
    using \<open>rows_ok m\<close> assms(2,3) len by (simp_all add: m'_def n v maxViewportStart_def)
  have ok: "surface_ok (finishWindowUpdate w m')" using finish_keeps(1) [OF m'(1)] .
  have e: "loadOlder_finish vs (set keys) w s = returning (finishWindowUpdate w m')"
    by (simp add: loadOlder_finish_def assertCompatibleWindow_def assms(4,5,6) m m'_def)
  have rt: "returning (finishWindowUpdate w m') = (r, t)" using assms(9) e by (simp add: keys_def)
  have "t = finishWindowUpdate w m'" using returning_same [OF ok] by (simp add: rt)
  moreover have "\<exists>snap. r = Inr snap" using rt by (auto simp: returning_def split: prod.splits)
  moreover have "map rowKey (visible m') = map rowKey (visible (s\<lparr>sf_viewportStartIndex := vs\<rparr>))"
  proof -
    have "nat (vs + n) = length new + nat vs" using assms(2) by (simp add: n nat_add_distrib)
    moreover have "sf_rows m' = sf_rows m" "sf_viewportRows m' = sf_viewportRows s" "sf_viewportStartIndex m' = vs + n"
      by (simp_all add: m'_def v)
    ultimately show ?thesis unfolding visible_keys by (simp add: ks keys_def)
  qed
  ultimately show ?thesis using ok finish_keeps(2) [OF m'] by simp
qed

lemma assertWindowShape_pending [simp]: "assertWindowShape w (s\<lparr>sf_pending := p\<rparr>) = assertWindowShape w s"
  by (simp add: assertWindowShape_def)

lemma loadOlder_started:
  assumes "loadOlder_start limit s = (Inr (Some (rq, call)), s1)"
  shows "\<exists>key. s1 = s\<lparr>sf_pending := insert key (sf_pending s)\<rparr> \<and> call = OlderCall key (sf_viewportStartIndex s) (set (map rowKey (sf_rows s)))"
  using assms by (auto simp: loadOlder_start_def withPending_def Let_def split: sum.splits prod.splits if_splits)

lemma snapshot_consistent:
  assumes "rows_ok s" and "snapshot s = (snap, t)"
  shows "0 \<le> rw_startIndex (ss_renderWindow snap) \<and> rw_startIndex (ss_renderWindow snap) \<le> rw_viewportStartIndex (ss_renderWindow snap) \<and>
      rw_viewportStartIndex (ss_renderWindow snap) \<le> rw_viewportEndIndex (ss_renderWindow snap) \<and>
      rw_viewportEndIndex (ss_renderWindow snap) \<le> rw_endIndex (ss_renderWindow snap) \<and>
      rw_endIndex (ss_renderWindow snap) \<le> int (length (ss_rows snap)) \<and>
      rw_viewportEndIndex (ss_renderWindow snap) - rw_viewportStartIndex (ss_renderWindow snap) = min (sf_viewportRows t) (int (length (ss_rows snap))) \<and>
      take (nat (sf_viewportRows t)) (drop (nat (rw_viewportOffsetRows (ss_renderWindow snap))) (ss_renderRows snap)) =
        take (nat (sf_viewportRows t)) (drop (nat (rw_viewportStartIndex (ss_renderWindow snap))) (ss_rows snap)) \<and>
      list_all has_cursor (ss_rows snap) \<and> (sf_token t = None \<longrightarrow> ss_rows snap = [])"
proof -
  define v where "v = clampViewportStart (sf_viewportStartIndex s) s"
  define n where "n = int (length (sf_rows s))"
  define q where "q = sf_renderOverscanRows s"
  define p where "p = sf_viewportRows s"
  define rows where "rows = clone_rows (sf_rows s)"
  have ok: "0 \<le> q" "1 \<le> p" "0 \<le> v" "v \<le> max 0 (n - p)" "0 \<le> n"
    using assms(1) by (simp_all add: rows_ok_def v_def q_def p_def n_def clampViewportStart_def maxViewportStart_def)
  have t: "t = s\<lparr>sf_viewportStartIndex := v\<rparr>" "ss_rows snap = rows" "int (length rows) = n"
    using assms(2) by (auto simp: snapshot_def Let_def v_def rows_def n_def)
  have "clampViewportStart v s = v" unfolding v_def by (intro clampViewportStart_id) simp_all
  then have w: "rw_startIndex (ss_renderWindow snap) = max 0 (v - q)" "rw_viewportStartIndex (ss_renderWindow snap) = v"
    "rw_viewportEndIndex (ss_renderWindow snap) = min n (v + p)" "rw_endIndex (ss_renderWindow snap) = min n (min n (v + p) + q)"
    "rw_viewportOffsetRows (ss_renderWindow snap) = v - max 0 (v - q)"
    "ss_renderRows snap = take (nat (min n (min n (v + p) + q) - max 0 (v - q))) (drop (nat (max 0 (v - q))) rows)"
    using assms(2) by (auto simp: snapshot_def sf_renderWindow_def Let_def v_def [symmetric] n_def p_def q_def rows_def)
  define a where "a = max 0 (v - q)"
  define e where "e = min n (min n (v + p) + q)"
  have c: "v + p \<le> n \<or> v = 0 \<and> n < p" using ok(2-5) by linarith
  have a: "0 \<le> a" "a \<le> v" using ok by (simp_all add: a_def)
  have e: "e \<le> n" "min n (v + p) \<le> e" using ok by (simp_all add: e_def)
  have "nat (v - a) + nat a = nat v" "nat (e - a) - nat (v - a) = nat (e - v)" using a by simp_all
  moreover have "min (nat p) (nat (e - v)) = min (nat p) (nat (n - v))" using c
  proof
    assume "v + p \<le> n"
    then have "nat p \<le> nat (e - v)" "nat p \<le> nat (n - v)" using e by simp_all
    then show ?thesis by simp
  next
    assume "v = 0 \<and> n < p"
    then show ?thesis using e by simp
  qed
  moreover have "length (drop (nat v) rows) = nat (n - v)" using t(3) ok by simp
  then have "take (min (nat p) (nat (n - v))) (drop (nat v) rows) = take (nat p) (drop (nat v) rows)"
    by (simp add: take_take [symmetric])
  ultimately have "take (nat p) (drop (nat (v - a)) (ss_renderRows snap)) = take (nat p) (drop (nat v) rows)"
    unfolding w a_def [symmetric] e_def [symmetric] by (simp add: drop_take)
  moreover have "sf_viewportRows t = p" "sf_token t = sf_token s" by (simp_all add: t p_def)
  moreover have "list_all has_cursor rows" using assms(1) by (simp add: rows_def rows_ok_def)
  moreover have "sf_token s = None \<longrightarrow> rows = []" using assms(1) by (simp add: rows_def rows_ok_def clone_rows_def)
  moreover have "min n (v + p) - v = min p n" "v \<le> min n (v + p)" using c ok by auto
  ultimately show ?thesis unfolding w t(2,3) a_def [symmetric] e_def [symmetric] using a e by simp
qed

text \<open>
  C13: Whatever calls, scrolls by finite distances and replies a surface has seen, in whatever order, its
  snapshot is consistent. The viewport is within the rendered rows, and the rendered rows within the cached ones; the viewport is
  filled whenever the cache has enough rows, and the rendered rows at the given offset are the rows of
  the viewport. Every cached row has a cursor, so a page can be asked for at both ends, and there are no
  rows without a token.
\<close>

theorem surface_snapshot_consistent:
  assumes "new_surface options = Inr s0" and "snapshot (fst (foldl surface_step (s0, Map.empty) evs)) = (snap, t)" and "rw = ss_renderWindow snap"
  shows "0 \<le> rw_startIndex rw \<and> rw_startIndex rw \<le> rw_viewportStartIndex rw \<and> rw_viewportStartIndex rw \<le> rw_viewportEndIndex rw \<and>
      rw_viewportEndIndex rw \<le> rw_endIndex rw \<and> rw_endIndex rw \<le> int (length (ss_rows snap)) \<and>
      rw_viewportEndIndex rw - rw_viewportStartIndex rw = min (sf_viewportRows t) (int (length (ss_rows snap))) \<and>
      take (nat (sf_viewportRows t)) (drop (nat (rw_viewportOffsetRows rw)) (ss_renderRows snap)) =
        take (nat (sf_viewportRows t)) (drop (nat (rw_viewportStartIndex rw)) (ss_rows snap)) \<and>
      list_all has_cursor (ss_rows snap) \<and> (sf_token t = None \<longrightarrow> ss_rows snap = [])"
proof -
  have "base_ok (fst (foldl surface_step (s0, Map.empty) evs))"
    by (rule surface_run_ok) (simp add: surface_base_ok [OF new_surface_ok [OF assms(1)]])
  then show ?thesis using snapshot_consistent [OF _ assms(2)] by (simp add: base_ok_def assms(3))
qed

definition sample_options :: surfaceOptions where
  "sample_options = \<lparr>so_terminalId = asc ''t'', so_cols = Finite 80, so_viewportRows = Finite 2, so_requestRows = None,
     so_renderOverscanRows = Some (Finite 1), so_edgePrefetchRows = None, so_cacheRetainRows = None\<rparr>"

definition sample_surface :: surface where
  "sample_surface = (case new_surface sample_options of Inr s \<Rightarrow> s)"

definition surface_window :: "ustr \<Rightarrow> historyWindow" where
  "surface_window ids = \<lparr>hw_terminalId = asc ''t'', hw_token = asc ''k'', hw_op = OpReplace, hw_cols = 80,
     hw_renderRows = map (\<lambda>i. sample_row [i] (asc ''x'')) ids, hw_lines = [], hw_totalRows = 9, hw_logicalTotal = 9, hw_hasMore = True,
     hw_generation = asc ''g'', hw_viewportAnchor = None, hw_firstRowId = None, hw_lastRowId = None, hw_firstLineId = None, hw_lastLineId = None\<rparr>"

definition sample_loaded :: surface where
  "sample_loaded = fst (foldl surface_step (sample_surface, Map.empty)
     [CallLatest 0 None None None, WindowArrives 0 (Inr (surface_window (asc ''cdefg''))), ScrollBy (- 2)])"

lemma sample_surface_eq:
  "new_surface sample_options = Inr \<lparr>sf_terminalId = asc ''t'', sf_requestRows = 160, sf_renderOverscanRows = 1, sf_edgePrefetchRows = 32,
     sf_cacheRetainRows = 2400, sf_pending = {}, sf_rows = [], sf_lines = [], sf_cols = 80, sf_viewportRows = 2, sf_viewportStartIndex = 0,
     sf_revision = 0, sf_token = None, sf_generation = None, sf_totalRows = 0, sf_logicalTotal = 0, sf_hasOlder = False,
     sf_hasNewer = False, sf_stale = False, sf_staleReason = None\<rparr>"
  by (simp add: new_surface_def sample_options_def positiveInt_def nonNegativeInt_def or_default_def trim_def js_space_def)

lemma sample_surface_created: "new_surface sample_options = Inr sample_surface"
  by (simp add: sample_surface_def sample_surface_eq)

lemmas sample_simps = sample_loaded_def sample_surface_def sample_surface_eq start_call_def loadLatest_start_def withPending_def positiveInt_def
  surface_reply_def loadLatest_finish_def applyReplace_def assertWindowShape_def surface_window_def sample_row_def cursorFromRow_def trim_def
  js_space_def normalizeWindowRows_def cloneRow_def clone_rows_def enumerate_eq_zip registerWindowLines_def registerMissingLineSpans_def
  finishWindowUpdate_def trimCacheAroundViewport_def Let_def maxViewportStart_def clampViewportStart_def returning_def snapshot_def
  scrollByRows_def js_trunc_def call_key_def

lemma sample_loaded_facts:
  "sf_terminalId sample_loaded = asc ''t''" "sf_cols sample_loaded = 80" "sf_viewportRows sample_loaded = 2" "sf_viewportStartIndex sample_loaded = 1"
  "sf_token sample_loaded = Some (asc ''k'')" "sf_generation sample_loaded = Some (asc ''g'')" "sf_pending sample_loaded = {}"
  "map rowKey (sf_rows sample_loaded) = map (\<lambda>i. Some (i # 58 # show_int 0)) (asc ''cdefg'')"
  "sf_requestRows sample_loaded = 160" "sf_cacheRetainRows sample_loaded = 2400"
  by (simp_all add: sample_simps rowKey_def)

lemma sample_loaded_length: "length (sf_rows sample_loaded) = 5"
  using arg_cong [OF sample_loaded_facts(8), of length] by simp

lemma sample_loaded_ok: "surface_ok sample_loaded"
proof -
  have "base_ok sample_loaded" unfolding sample_loaded_def
    by (rule surface_run_ok) (simp add: surface_base_ok [OF new_surface_ok [OF sample_surface_created]])
  then show ?thesis by (simp add: sample_loaded_length surface_ok_rows base_ok_def maxViewportStart_def sample_loaded_facts)
qed

theorem surface_snapshot_consistent_witness:
  "let snap = fst (snapshot sample_loaded); rw = ss_renderWindow snap in
     rw_viewportStartIndex rw = 1 \<and>
     take 2 (drop (nat (rw_viewportOffsetRows rw)) (ss_renderRows snap)) = take 2 (drop (nat (rw_viewportStartIndex rw)) (ss_rows snap))"
proof -
  obtain snap t where st: "snapshot sample_loaded = (snap, t)" by (cases "snapshot sample_loaded")
  have "sf_viewportRows t = 2" "rw_viewportStartIndex (ss_renderWindow snap) = 1"
    using st sample_loaded_ok by (auto simp: snapshot_def Let_def sf_renderWindow_def surface_ok_def clampViewportStart_id sample_loaded_facts)
  then show ?thesis using surface_snapshot_consistent [OF sample_surface_created st [unfolded sample_loaded_def] refl] st by (simp add: Let_def)
qed


lemma trim_fields [simp]:
  "sf_viewportRows (trimCacheAroundViewport s) = sf_viewportRows s" "sf_token (trimCacheAroundViewport s) = sf_token s"
  "sf_generation (trimCacheAroundViewport s) = sf_generation s" "sf_terminalId (trimCacheAroundViewport s) = sf_terminalId s"
  "sf_cols (trimCacheAroundViewport s) = sf_cols s" "sf_stale (trimCacheAroundViewport s) = sf_stale s"
  by (simp_all add: trimCacheAroundViewport_def dropOrphanLines_def Let_def)

lemma scroll_fields:
  assumes "scrollByRows d s = (q, t)"
  shows "sf_viewportRows t = sf_viewportRows s" and "sf_token t = sf_token s" and "sf_generation t = sf_generation s"
    and "sf_terminalId t = sf_terminalId s" and "sf_cols t = sf_cols s"
  using assms by (auto simp: scrollByRows_def returning_def snapshot_def Let_def)

text \<open>The reply to a request for older rows, in a surface that has the rows of the request and perhaps another position.\<close>

lemma older_reply_view:
  assumes "surface_ok s" and "sf_viewportStartIndex s + sf_viewportRows s \<le> int (length (sf_rows s))"
    and "loadOlder_start limit s = (Inr (Some (rq, call)), s1)"
    and "rows_ok s2" and "sf_rows s2 = sf_rows s" and "sf_viewportRows s2 = sf_viewportRows s"
    and "assertWindowShape w s2 = Inr u" and "sf_token s2 = Some (hw_token w)" and "sf_generation s2 = Some (hw_generation w)"
    and "map rowKey (hw_renderRows w) = new @ take k (map rowKey (sf_rows s))" and "distinct (new @ map rowKey (sf_rows s))"
    and "surface_reply call (Inr w) s2 = (r, t)"
  shows "(\<exists>snap. r = Inr snap) \<and> surface_ok t \<and> map rowKey (visible t) = map rowKey (visible s)"
proof -
  obtain key where c: "call = OlderCall key (sf_viewportStartIndex s) (set (map rowKey (sf_rows s2)))"
    using loadOlder_started [OF assms(3)] assms(5) by auto
  obtain t' where t: "loadOlder_finish (sf_viewportStartIndex s) (set (map rowKey (sf_rows s2))) w s2 = (r, t')"
      "t = t'\<lparr>sf_pending := sf_pending t' - {key}\<rparr>"
    using assms(12) by (auto simp: c surface_reply_def call_key_def split: prod.splits)
  have "(\<exists>snap. r = Inr snap) \<and> surface_ok t' \<and> map rowKey (visible t') = map rowKey (visible (s2\<lparr>sf_viewportStartIndex := sf_viewportStartIndex s\<rparr>))"
    by (rule older_page_view [OF assms(4) _ _ assms(7-9) _ _ t(1), of new k]) (use assms in \<open>simp_all add: surface_ok_def\<close>)
  moreover have "visible (s2\<lparr>sf_viewportStartIndex := sf_viewportStartIndex s\<rparr>) = visible s" by (simp add: visible_def assms(5,6))
  ultimately show ?thesis by (simp add: t(2) surface_ok_rows)
qed

text \<open>
  C17: An older page leaves the view alone: with the viewport full, and a page of the same frozen window whose last
  rows may repeat the first cached ones, the load succeeds and the rows on display are the same after
  it, although rows were put before them and the cache may have been trimmed.
\<close>

theorem older_page_keeps_view:
  assumes "surface_ok s" and "sf_viewportStartIndex s + sf_viewportRows s \<le> int (length (sf_rows s))"
    and "loadOlder_start limit s = (Inr (Some (rq, call)), s1)"
    and "assertWindowShape w s = Inr u" and "sf_token s = Some (hw_token w)" and "sf_generation s = Some (hw_generation w)"
    and "map rowKey (hw_renderRows w) = new @ take k (map rowKey (sf_rows s))" and "distinct (new @ map rowKey (sf_rows s))"
    and "surface_reply call (Inr w) s1 = (r, t)"
  shows "(\<exists>snap. r = Inr snap) \<and> surface_ok t \<and> map rowKey (visible t) = map rowKey (visible s)"
proof -
  obtain key where "s1 = s\<lparr>sf_pending := insert key (sf_pending s)\<rparr>" using loadOlder_started [OF assms(3)] by blast
  then show ?thesis using assms(1,4-8) by (intro older_reply_view [OF assms(1-3) _ _ _ _ _ _ assms(7-9)]) (simp_all add: surface_ok_rows)
qed

lemma assertWindowShape_cong:
  "sf_terminalId t = sf_terminalId s \<Longrightarrow> sf_cols t = sf_cols s \<Longrightarrow> assertWindowShape w t = assertWindowShape w s"
  by (simp add: assertWindowShape_def)

lemma visible_moves:
  assumes "sf_rows t = sf_rows s" and "sf_viewportRows t = sf_viewportRows s" and "distinct (map rowKey (sf_rows s))" and "1 \<le> sf_viewportRows s"
    and "0 \<le> sf_viewportStartIndex s" and "sf_viewportStartIndex s + sf_viewportRows s \<le> int (length (sf_rows s))"
    and "0 \<le> sf_viewportStartIndex t" and "sf_viewportStartIndex t + sf_viewportRows s \<le> int (length (sf_rows s))"
    and "sf_viewportStartIndex t \<noteq> sf_viewportStartIndex s"
  shows "map rowKey (visible t) \<noteq> map rowKey (visible s)"
proof
  assume e: "map rowKey (visible t) = map rowKey (visible s)"
  have h: "hd (take (nat (sf_viewportRows s)) (drop (nat i) (map rowKey (sf_rows s)))) = map rowKey (sf_rows s) ! nat i"
    if "0 \<le> i" "i + sf_viewportRows s \<le> int (length (sf_rows s))" for i
    using that assms(4) by (simp add: hd_take hd_drop_conv_nth)
  have "map rowKey (sf_rows s) ! nat (sf_viewportStartIndex t) = map rowKey (sf_rows s) ! nat (sf_viewportStartIndex s)"
    using arg_cong [OF e, of hd] h assms(5-8) by (simp only: visible_keys assms(1,2))
  then have "nat (sf_viewportStartIndex t) = nat (sf_viewportStartIndex s)"
    using assms(4-8) by (subst (asm) nth_eq_iff_index_eq [OF assms(3)]) simp_all
  then show False using assms(5,7,9) by simp
qed

lemma sample_older:
  "\<exists>rq call s1. loadOlder_start None sample_loaded = (Inr (Some (rq, call)), s1)"
  "assertWindowShape (surface_window (asc ''abc'')) sample_loaded = Inr ()"
  "map rowKey (hw_renderRows (surface_window (asc ''abc''))) = map (\<lambda>i. Some (i # 58 # show_int 0)) (asc ''ab'') @ take 1 (map rowKey (sf_rows sample_loaded))"
  "distinct (map (\<lambda>i. Some (i # 58 # show_int 0)) (asc ''ab'') @ map rowKey (sf_rows sample_loaded))"
  "sf_viewportStartIndex sample_loaded + sf_viewportRows sample_loaded \<le> int (length (sf_rows sample_loaded))"
  "sf_token sample_loaded = Some (hw_token (surface_window (asc ''abc'')))" "sf_generation sample_loaded = Some (hw_generation (surface_window (asc ''abc'')))"
proof -
  obtain row rows where r: "sf_rows sample_loaded = row # rows" using sample_loaded_length by (cases "sf_rows sample_loaded") auto
  have "has_cursor row" using sample_loaded_ok r by (simp add: surface_ok_def)
  then show "\<exists>rq call s1. loadOlder_start None sample_loaded = (Inr (Some (rq, call)), s1)"
    by (auto simp: loadOlder_start_def page_limit_def withPending_def Let_def sample_loaded_facts r first_row_def has_cursor_def split: prod.split)
qed (simp_all add: sample_loaded_facts sample_loaded_length assertWindowShape_def surface_window_def sample_row_def cursorFromRow_def rowKey_def)

theorem older_page_keeps_view_witness:
  "case loadOlder_start None sample_loaded of
     (Inr (Some (rq, call)), s1) \<Rightarrow>
       map rowKey (visible (snd (surface_reply call (Inr (surface_window (asc ''abc''))) s1))) = map rowKey (visible sample_loaded)
   | _ \<Rightarrow> False"
proof -
  obtain rq call s1 where st: "loadOlder_start None sample_loaded = (Inr (Some (rq, call)), s1)" using sample_older(1) by blast
  show ?thesis using older_page_keeps_view [OF sample_loaded_ok sample_older(5) st sample_older(2,6,7,3,4) surjective_pairing] by (simp add: st)
qed

text \<open>
  C40: A scroll made while an older page is being loaded is lost: when no row is trimmed meanwhile, the rows on display
  after the reply are those from before the scroll, and not those the scroll had shown.
\<close>

theorem scroll_during_load_lost:
  assumes "surface_ok s" and "sf_viewportStartIndex s + sf_viewportRows s \<le> int (length (sf_rows s))"
    and "loadOlder_start limit s = (Inr (Some (rq, call)), s1)"
    and "scrollByRows d s1 = (q, s2)" and "sf_rows s2 = sf_rows s" and "sf_viewportStartIndex s2 \<noteq> sf_viewportStartIndex s"
    and "assertWindowShape w s = Inr u" and "sf_token s = Some (hw_token w)" and "sf_generation s = Some (hw_generation w)"
    and "map rowKey (hw_renderRows w) = new @ take k (map rowKey (sf_rows s))" and "distinct (new @ map rowKey (sf_rows s))"
    and "surface_reply call (Inr w) s2 = (r, t)"
  shows "map rowKey (visible t) = map rowKey (visible s) \<and> map rowKey (visible t) \<noteq> map rowKey (visible s2)"
proof -
  obtain key where s1: "s1 = s\<lparr>sf_pending := insert key (sf_pending s)\<rparr>" using loadOlder_started [OF assms(3)] by blast
  note f = scroll_fields [OF assms(4)]
  have ok: "surface_ok s2"
    using scrolled_ok [of s1 "sf_viewportStartIndex s1 + \<lfloor>js_trunc d\<rfloor>"] assms(1,4)
    by (auto simp: s1 surface_ok_rows outcome_ok_def scrollByRows_def returning_def split: prod.splits)
  have "assertWindowShape w s2 = Inr u" using assms(7) f(4,5) by (simp add: assertWindowShape_cong [of s2 s] s1)
  moreover have "rows_ok s2" using ok by (simp add: surface_ok_rows)
  moreover have "sf_viewportRows s2 = sf_viewportRows s" "sf_token s2 = Some (hw_token w)" "sf_generation s2 = Some (hw_generation w)"
    using assms(8,9) by (simp_all add: f s1)
  ultimately have v: "map rowKey (visible t) = map rowKey (visible s)"
    using older_reply_view [OF assms(1-3) _ assms(5) _ _ _ _ assms(10-12)] by blast
  have p: "sf_rows s2 = sf_rows s" "sf_viewportRows s2 = sf_viewportRows s" "distinct (map rowKey (sf_rows s))" "1 \<le> sf_viewportRows s"
    "0 \<le> sf_viewportStartIndex s" "sf_viewportStartIndex s + sf_viewportRows s \<le> int (length (sf_rows s))"
    "0 \<le> sf_viewportStartIndex s2" "sf_viewportStartIndex s2 + sf_viewportRows s \<le> int (length (sf_rows s))"
    "sf_viewportStartIndex s2 \<noteq> sf_viewportStartIndex s"
    using assms(1,2,5,6,11) ok f(1) by (auto simp: s1 surface_ok_def maxViewportStart_def)
  show ?thesis using visible_moves [OF p] unfolding v by (rule conjI [OF refl not_sym])
qed

lemma sample_scrolled:
  "sf_rows (snd (scrollByRows 2 (sample_loaded\<lparr>sf_pending := p\<rparr>))) = sf_rows sample_loaded \<and>
   sf_viewportStartIndex (snd (scrollByRows 2 (sample_loaded\<lparr>sf_pending := p\<rparr>))) = 3"
proof -
  have "sf_rows sample_loaded \<noteq> []" using sample_loaded_length by auto
  then show ?thesis
    by (simp add: scrollByRows_def returning_def snapshot_def Let_def trimCacheAroundViewport_def clampViewportStart_def
        maxViewportStart_def js_trunc_def sample_loaded_facts sample_loaded_length)
qed

theorem scroll_during_load_lost_witness:
  "case loadOlder_start None sample_loaded of
     (Inr (Some (rq, call)), s1) \<Rightarrow>
       (case scrollByRows 2 s1 of (_, s2) \<Rightarrow>
          (case surface_reply call (Inr (surface_window (asc ''abc''))) s2 of (_, t) \<Rightarrow>
             map rowKey (visible t) = map rowKey (visible sample_loaded) \<and> map rowKey (visible t) \<noteq> map rowKey (visible s2)))
   | _ \<Rightarrow> False"
proof -
  obtain rq call s1 where st: "loadOlder_start None sample_loaded = (Inr (Some (rq, call)), s1)" using sample_older(1) by blast
  then obtain key where s1: "s1 = sample_loaded\<lparr>sf_pending := insert key (sf_pending sample_loaded)\<rparr>" using loadOlder_started by blast
  obtain q s2 where s2: "scrollByRows 2 s1 = (q, s2)" by (cases "scrollByRows 2 s1")
  obtain r t where t: "surface_reply call (Inr (surface_window (asc ''abc''))) s2 = (r, t)"
    by (cases "surface_reply call (Inr (surface_window (asc ''abc''))) s2")
  have m: "sf_rows s2 = sf_rows sample_loaded \<and> sf_viewportStartIndex s2 = 3"
    using sample_scrolled [of "insert key (sf_pending sample_loaded)"] by (simp only: s1 [symmetric] s2 snd_conv)
  then have "sf_viewportStartIndex s2 \<noteq> sf_viewportStartIndex sample_loaded" by (simp add: sample_loaded_facts)
  from scroll_during_load_lost [OF sample_loaded_ok sample_older(5) st s2 conjunct1 [OF m] this sample_older(2,6,7,3,4) t]
  show ?thesis unfolding st s2 t prod.case sum.case option.case .
qed

end
