(* ===== verification/HistoryWire.thy ===== *)
theory HistoryWire
  imports HistorySurface
begin

text \<open>
  History results of the API as windows, \<open>clients/ui/src/terminal/coreV2TerminalProtocol.ts\<close>. The messages are those of
  \<open>generated/apipb/history_pb.ts\<close>, with the fields that the conversion reads: \<open>bigint\<close> fields of \<open>uint64\<close>
  as natural numbers, \<open>int64\<close> and \<open>int32\<close> fields as integers, open enums as integers, an absent message as
  \<open>None\<close>. A conversion that throws gives the message of the error.
\<close>

section \<open>Messages\<close>

record apiCellStyle =
  as_foreground :: ustr
  as_background :: ustr
  as_bold :: bool
  as_italic :: bool
  as_underline :: bool
  as_blink :: bool
  as_reverse :: bool
  as_strikethrough :: bool

record apiScreenCell =
  ac_content :: ustr
  ac_width :: int
  ac_style :: "apiCellStyle option"
  ac_linkUrl :: ustr
  ac_linkParams :: ustr

record apiScreenRow =
  ar_cells :: "apiScreenCell list"
  ar_tailFill :: "apiCellStyle option"

record apiHistoryRow =
  ah_row :: "apiScreenRow option"
  ah_timestampUnixNano :: int
  ah_rowKind :: ustr
  ah_wrapped :: bool
  ah_ownership :: int
  ah_fixedGrid :: bool
  ah_screenCols :: int
  ah_screenRows :: int
  ah_screenRowSet :: bool
  ah_logicalLineId :: nat
  ah_rowInLine :: int

record apiHistoryLineSpan =
  al_startRow :: int
  al_endRow :: int
  al_rowKind :: ustr
  al_logicalLineId :: nat
  al_timestampStartUnixNano :: int
  al_timestampEndUnixNano :: int
  al_clippedBefore :: bool
  al_clippedAfter :: bool

record apiViewportAnchor =
  aa_topLineId :: nat
  aa_topCellOffset :: int
  aa_atEnd :: bool
  aa_screenCols :: nat
  aa_screenRows :: nat

record apiHistoryWindow =
  aw_terminalId :: "ustr option"
  aw_token :: ustr
  aw_operation :: int
  aw_cols :: "int option"
  aw_rows :: "apiHistoryRow list"
  aw_lines :: "apiHistoryLineSpan list"
  aw_totalRows :: int
  aw_logicalTotal :: int
  aw_hasMore :: bool
  aw_historyGeneration :: nat
  aw_firstRowId :: nat
  aw_lastRowId :: nat
  aw_firstLineId :: nat
  aw_lastLineId :: nat
  aw_viewportAnchor :: "apiViewportAnchor option"

record apiHistoryRange =
  ag_startLineId :: nat
  ag_startCol :: int
  ag_endLineId :: nat
  ag_endCol :: int

record apiHistorySearch =
  ax_found :: bool
  ax_match :: "apiHistoryRange option"
  ax_window :: "apiHistoryWindow option"
  ax_wrapped :: bool
  ax_scanMatches :: "apiHistoryRange list"
  ax_scanNext :: "(nat \<times> int) option"
  ax_scanDone :: bool

section \<open>Conversions\<close>

definition optionalText :: "ustr \<Rightarrow> ustr option" where
  "optionalText value = (if value = [] then None else Some value)"

definition optionalID :: "nat \<Rightarrow> ustr option" where
  "optionalID value = (if value = 0 then None else Some (show_nat value))"

text \<open>\<open>bigint\<close> division truncates; the quotient of an \<open>int64\<close> is below \<open>2 ^ 53\<close>, so \<open>Number\<close> is exact.\<close>

definition unixNanoToMs :: "int \<Rightarrow> int option" where
  "unixNanoToMs value = (if value = 0 then None else Some (value sdiv 1000000))"

definition cleanStyle :: "historyCellStyle \<Rightarrow> historyCellStyle option" where
  "cleanStyle style =
     (if hs_fg style \<noteq> None \<or> hs_bg style \<noteq> None \<or>
         list_ex (\<lambda>value. value \<noteq> None \<and> value \<noteq> Some False)
           [hs_bold style, hs_italic style, hs_underline style, hs_blink style, hs_reverse style, hs_strikethrough style]
      then Some style else None)"

definition historyStyleFromAPI :: "apiCellStyle option \<Rightarrow> historyCellStyle option" where
  "historyStyleFromAPI style =
     (case style of
        None \<Rightarrow> None
      | Some s \<Rightarrow> cleanStyle
          \<lparr>hs_fg = optionalText (as_foreground s), hs_bg = optionalText (as_background s), hs_bold = Some (as_bold s),
           hs_italic = Some (as_italic s), hs_underline = Some (as_underline s), hs_blink = Some (as_blink s),
           hs_reverse = Some (as_reverse s), hs_strikethrough = Some (as_strikethrough s)\<rparr>)"

definition historyCellFromAPI :: "apiScreenCell \<Rightarrow> historyCell" where
  "historyCellFromAPI cell =
     \<lparr>hc_text = ac_content cell, hc_width = (if ac_width cell = 0 then 1 else of_int (ac_width cell)),
      hc_style = historyStyleFromAPI (ac_style cell), hc_linkUrl = optionalText (ac_linkUrl cell), hc_linkParams = optionalText (ac_linkParams cell)\<rparr>"

definition historyLineFromAPI :: "apiHistoryLineSpan \<Rightarrow> historyLineSpan" where
  "historyLineFromAPI line =
     \<lparr>hl_startRow = al_startRow line, hl_endRow = al_endRow line, hl_rowKind = optionalText (al_rowKind line),
      hl_logicalLineId = show_nat (al_logicalLineId line), hl_timestampStartUnixMs = unixNanoToMs (al_timestampStartUnixNano line),
      hl_timestampEndUnixMs = unixNanoToMs (al_timestampEndUnixNano line), hl_clippedBefore = al_clippedBefore line,
      hl_clippedAfter = al_clippedAfter line\<rparr>"

definition historyRangeFromAPI :: "apiHistoryRange \<Rightarrow> historyRange" where
  "historyRangeFromAPI value =
     \<lparr>hg_startLineId = show_nat (ag_startLineId value), hg_startCol = of_int (ag_startCol value),
      hg_endLineId = show_nat (ag_endLineId value), hg_endCol = of_int (ag_endCol value)\<rparr>"

definition historyOwnership :: "int \<Rightarrow> ustr + ustr option" where
  "historyOwnership value =
     (if value = 1 then Inr (Some (asc ''persisted''))
      else if value = 2 then Inr (Some (asc ''live_tail_reclaimed''))
      else if value = 3 then Inr (Some (asc ''live_tail_live''))
      else if value = 4 then Inr (Some (asc ''screen''))
      else if value = 0 then Inr None
      else Inl (asc ''unsupported history row ownership '' @ show_int value))"

definition historyWindowOp :: "int \<Rightarrow> ustr + windowOp" where
  "historyWindowOp value =
     (if value = 1 then Inr OpReplace
      else if value = 2 then Inr OpPrepend
      else if value = 3 then Inr OpAppend
      else Inl (asc ''unsupported history window operation '' @ show_int value))"

definition historyRowFromAPI :: "apiHistoryRow \<Rightarrow> nat \<Rightarrow> ustr + historyRow" where
  "historyRowFromAPI row index =
     andThen (historyOwnership (ah_ownership row)) (\<lambda>ownership.
       Inr \<lparr>hr_index = index,
         hr_cells = (case ah_row row of None \<Rightarrow> [] | Some r \<Rightarrow> map historyCellFromAPI (ar_cells r)),
         hr_tailFillStyle = historyStyleFromAPI (Option.bind (ah_row row) ar_tailFill), hr_kind = optionalText (ah_rowKind row),
         hr_wrapped = Some (ah_wrapped row), hr_ownership = ownership, hr_timestampUnixMs = unixNanoToMs (ah_timestampUnixNano row),
         hr_fixedGrid = Some (ah_fixedGrid row), hr_screenCols = Some (ah_screenCols row), hr_screenRow = Some (ah_screenRows row),
         hr_screenRowSet = Some (ah_screenRowSet row), hr_logicalLineId = optionalID (ah_logicalLineId row),
         hr_rowInLine = Some (ah_rowInLine row), hr_logicalStartCol = None\<rparr>)"

definition coreV2HistoryWindowFromAPI :: "apiHistoryWindow \<Rightarrow> ustr + historyWindow" where
  "coreV2HistoryWindowFromAPI value =
     andThen (historyWindowOp (aw_operation value)) (\<lambda>op.
     andThen (mapM (\<lambda>(i, row). historyRowFromAPI row i) (enumerate 0 (aw_rows value))) (\<lambda>renderRows.
       Inr \<lparr>hw_terminalId = (case aw_terminalId value of None \<Rightarrow> [] | Some i \<Rightarrow> i), hw_token = aw_token value, hw_op = op,
         hw_cols = (case aw_cols value of None \<Rightarrow> 0 | Some c \<Rightarrow> of_int c), hw_renderRows = renderRows,
         hw_lines = map historyLineFromAPI (aw_lines value), hw_totalRows = aw_totalRows value, hw_logicalTotal = aw_logicalTotal value,
         hw_hasMore = aw_hasMore value, hw_generation = show_nat (aw_historyGeneration value),
         hw_viewportAnchor = map_option (\<lambda>a. \<lparr>va_topLineId = show_nat (aa_topLineId a), va_topCellOffset = of_int (aa_topCellOffset a),
           va_atEnd = aa_atEnd a, va_screenCols = aa_screenCols a, va_screenRows = aa_screenRows a\<rparr>) (aw_viewportAnchor value),
         hw_firstRowId = optionalID (aw_firstRowId value), hw_lastRowId = optionalID (aw_lastRowId value),
         hw_firstLineId = optionalID (aw_firstLineId value), hw_lastLineId = optionalID (aw_lastLineId value)\<rparr>))"

text \<open>A search result: the match, its window and whether the search wrapped, if there is one.\<close>

definition coreV2HistorySearchFromAPI :: "apiHistorySearch \<Rightarrow> ustr + (historyRange \<times> historyWindow \<times> bool) option" where
  "coreV2HistorySearchFromAPI value =
     (if \<not> ax_found value then Inr None
      else case (ax_match value, ax_window value) of
        (Some m, Some w) \<Rightarrow> andThen (coreV2HistoryWindowFromAPI w) (\<lambda>window. Inr (Some (historyRangeFromAPI m, window, ax_wrapped value)))
      | _ \<Rightarrow> Inl (asc ''history search returned an incomplete match''))"

definition coreV2HistorySearchScanFromAPI :: "apiHistorySearch \<Rightarrow> ustr + (historyRange list \<times> (ustr \<times> int) option \<times> bool)" where
  "coreV2HistorySearchScanFromAPI value =
     (let matches = map historyRangeFromAPI (ax_scanMatches value);
        next = (case ax_scanNext value of Some (line, col) \<Rightarrow> if line \<noteq> 0 then Some (show_nat line, col) else None | None \<Rightarrow> None)
      in if \<not> ax_scanDone value \<and> (matches = [] \<or> next = None) then Inl (asc ''history search scan returned an incomplete batch'')
         else Inr (matches, next, ax_scanDone value))"

section \<open>Decoded windows\<close>

definition supported_row :: "apiHistoryRow \<Rightarrow> bool" where
  "supported_row row \<longleftrightarrow> ah_ownership row \<in> {0, 1, 2, 3, 4}"

lemma show_nat_nonempty [simp]: "show_nat n \<noteq> []"
  by (subst show_nat.simps) simp

lemma show_nat_no_colon: "58 \<notin> set (show_nat n)"
  using show_nat_digits [of n] by (auto simp: list_all_iff is_digit_def)

lemma show_nat_inject: "show_nat m = show_nat n \<longleftrightarrow> m = n"
  by (metis parse_show_nat)

lemma show_nat_no_minus: "show_nat n \<noteq> 45 # s"
  using show_nat_digits [of n] by (auto simp: is_digit_def)

lemma show_int_inject: "show_int m = show_int n \<longleftrightarrow> m = n"
  by (auto simp: show_int_def show_nat_inject show_nat_no_minus show_nat_no_minus [symmetric] split: if_splits)

text \<open>Keys of decoded rows: a decimal line number has no colon, so the key determines the line and the row.\<close>

definition row_key :: "apiHistoryRow \<Rightarrow> ustr option" where
  "row_key row = Some (show_nat (ah_logicalLineId row) @ 58 # show_int (ah_rowInLine row))"

lemma append_colon_inject: "58 \<notin> set a \<Longrightarrow> 58 \<notin> set b \<Longrightarrow> a @ 58 # (x :: ustr) = b @ 58 # y \<longleftrightarrow> a = b \<and> x = y"
proof (induction a arbitrary: b)
  case Nil
  then show ?case by (cases b) auto
next
  case (Cons c a)
  then show ?case by (cases b) auto
qed

lemma row_key_inject: "row_key a = row_key b \<longleftrightarrow> ah_logicalLineId a = ah_logicalLineId b \<and> ah_rowInLine a = ah_rowInLine b"
  by (simp add: row_key_def append_colon_inject show_nat_no_colon show_nat_inject show_int_inject)

lemma decoded_row:
  assumes "supported_row row"
  shows "\<exists>r. historyRowFromAPI row i = Inr r \<and> (ah_logicalLineId row \<noteq> 0 \<longrightarrow> has_cursor r \<and> rowKey r = row_key row)"
  using assms show_nat_nonempty [of "ah_logicalLineId row"]
  by (auto simp: historyRowFromAPI_def historyOwnership_def supported_row_def has_cursor_def rowKey_def row_key_def cursorFromRow_def optionalID_def
      split: list.split)

lemma unsupported_row:
  "\<not> supported_row row \<Longrightarrow> historyRowFromAPI row i = Inl (asc ''unsupported history row ownership '' @ show_int (ah_ownership row))"
  by (simp add: historyRowFromAPI_def historyOwnership_def supported_row_def)

lemma decoded_rows:
  assumes "list_all supported_row rows" and "list_all (\<lambda>row. ah_logicalLineId row \<noteq> 0) rows"
  shows "\<exists>rs. mapM (\<lambda>(i, row). historyRowFromAPI row i) (enumerate k rows) = Inr rs \<and> list_all has_cursor rs \<and> map rowKey rs = map row_key rows"
  using assms
proof (induction rows arbitrary: k)
  case (Cons row rows)
  then obtain r rs where "historyRowFromAPI row k = Inr r" "has_cursor r" "rowKey r = row_key row"
    and "mapM (\<lambda>(i, row). historyRowFromAPI row i) (enumerate (Suc k) rows) = Inr rs" "list_all has_cursor rs" "map rowKey rs = map row_key rows"
    using decoded_row [of row k] by fastforce
  then show ?case by simp
qed simp

lemma trim_decimal: "trim (show_nat n) = show_nat n"
proof -
  have "dropWhile js_space s = s" if "list_all is_digit s" for s
    using that by (cases s) (auto simp: is_digit_def js_space_def)
  then show ?thesis using show_nat_digits [of n] by (simp add: trim_def)
qed

lemma decoded_window:
  assumes "aw_operation v \<in> {1, 2, 3}" and "list_all supported_row (aw_rows v)" and "list_all (\<lambda>row. ah_logicalLineId row \<noteq> 0) (aw_rows v)"
  shows "\<exists>w. coreV2HistoryWindowFromAPI v = Inr w \<and> hw_terminalId w = (case aw_terminalId v of None \<Rightarrow> [] | Some i \<Rightarrow> i) \<and>
    hw_token w = aw_token v \<and> hw_cols w = (case aw_cols v of None \<Rightarrow> 0 | Some c \<Rightarrow> of_int c) \<and> list_all has_cursor (hw_renderRows w) \<and>
    map rowKey (hw_renderRows w) = map row_key (aw_rows v) \<and> hw_generation w = show_nat (aw_historyGeneration v)"
proof -
  obtain rs where "mapM (\<lambda>(i, row). historyRowFromAPI row i) (enumerate 0 (aw_rows v)) = Inr rs" "list_all has_cursor rs"
    "map rowKey rs = map row_key (aw_rows v)" using decoded_rows [OF assms(2,3)] by blast
  moreover obtain w where "historyWindowOp (aw_operation v) = Inr w" using assms(1) by (auto simp: historyWindowOp_def)
  ultimately show ?thesis by (simp add: coreV2HistoryWindowFromAPI_def)
qed

text \<open>A window that fits the surface replaces what it held, and the view goes to the end of it.\<close>

lemma latest_window_shown:
  assumes "base_ok s" and "assertWindowShape w s = Inr u" and "trim (hw_token w) \<noteq> []" and "trim (hw_generation w) \<noteq> []"
  shows "\<exists>snap t. loadLatest_finish w s = (Inr snap, t) \<and> surface_ok t \<and> \<not> sf_stale t \<and> sf_token t = Some (hw_token w) \<and>
    sf_generation t = Some (hw_generation w) \<and>
    map rowKey (visible t) = drop (length (hw_renderRows w) - nat (sf_viewportRows s)) (map rowKey (hw_renderRows w))"
proof -
  define s1 where "s1 = s\<lparr>sf_rows := normalizeWindowRows w, sf_lines := registerWindowLines w [], sf_token := Some (hw_token w),
    sf_generation := Some (hw_generation w), sf_totalRows := hw_totalRows w, sf_logicalTotal := hw_logicalTotal w,
    sf_hasOlder := hw_hasMore w, sf_hasNewer := False, sf_stale := False, sf_staleReason := None\<rparr>"
  define s2 where "s2 = s1\<lparr>sf_viewportStartIndex := maxViewportStart s1\<rparr>"
  have "hw_token w \<noteq> []" using assms(3) by (auto simp: trim_def)
  then have "rows_ok s1" using assms(1) assertWindowShape_ok [OF assms(2)] by (simp add: s1_def rows_ok_def base_ok_def)
  then have s2: "rows_ok s2" "0 \<le> sf_viewportStartIndex s2" "sf_viewportStartIndex s2 \<le> maxViewportStart s2" by (simp_all add: s2_def)
  define t where "t = finishWindowUpdate w s2"
  have e: "loadLatest_finish w s = returning t"
    by (simp add: loadLatest_finish_def applyReplace_def assms(2-4) Let_def t_def s2_def s1_def)
  have ok: "surface_ok t" unfolding t_def by (rule finish_keeps(1) [OF s2(1)])
  have f: "sf_token t = Some (hw_token w)" "sf_generation t = Some (hw_generation w)" "\<not> sf_stale t"
    by (simp_all add: t_def finishWindowUpdate_def Let_def s2_def s1_def)
  have r: "map rowKey (sf_rows s2) = map rowKey (hw_renderRows w)" "sf_viewportRows s2 = sf_viewportRows s"
    by (simp_all add: s2_def s1_def normalizeWindowRows_def)
  define n where "n = length (hw_renderRows w)"
  define p where "p = nat (sf_viewportRows s)"
  have "int (length (sf_rows s2)) = int n" using arg_cong [OF r(1), of length] by (simp add: n_def)
  then have "sf_viewportStartIndex s2 = max 0 (int n - sf_viewportRows s)" by (simp add: s2_def maxViewportStart_def s1_def)
  moreover have "1 \<le> sf_viewportRows s" using assms(1) by (simp add: base_ok_def rows_ok_def)
  ultimately have "nat (sf_viewportStartIndex s2) = n - p" unfolding p_def by arith
  then have "map rowKey (visible s2) = take p (drop (n - p) (map rowKey (hw_renderRows w)))" by (simp add: visible_keys r p_def)
  also have "\<dots> = drop (n - p) (map rowKey (hw_renderRows w))" by (simp add: n_def)
  finally have "map rowKey (visible t) = drop (n - p) (map rowKey (hw_renderRows w))" unfolding t_def using finish_keeps(2) [OF s2] by simp
  moreover obtain snap t' where "returning t = (Inr snap, t')" by (cases "snapshot t") (simp add: returning_def)
  moreover have "t' = t" using returning_same [OF ok] calculation(2) by simp
  ultimately show ?thesis using e ok f by (simp add: n_def p_def)
qed

text \<open>
  C21: A latest window of the terminal and width that a surface shows, decoded from a reply with a token that is not blank,
  with known operations and ownerships and with line numbers, is accepted: the load succeeds, the surface is fresh and holds the
  token and the generation, and it shows the last rows of the page. Rows with different positions have
  different keys.
\<close>

theorem decoded_window_loads:
  assumes "base_ok s" and "aw_terminalId v = Some (sf_terminalId s)" and "aw_cols v = Some (sf_cols s)" and "trim (aw_token v) \<noteq> []"
    and "aw_operation v \<in> {1, 2, 3}" and "list_all supported_row (aw_rows v)" and "list_all (\<lambda>row. ah_logicalLineId row \<noteq> 0) (aw_rows v)"
  shows "\<exists>w snap t. coreV2HistoryWindowFromAPI v = Inr w \<and> loadLatest_finish w s = (Inr snap, t) \<and> surface_ok t \<and> \<not> sf_stale t \<and>
      sf_token t = Some (aw_token v) \<and> sf_generation t = Some (show_nat (aw_historyGeneration v)) \<and>
      map rowKey (visible t) = map row_key (drop (length (aw_rows v) - nat (sf_viewportRows s)) (aw_rows v)) \<and>
      (distinct (map (\<lambda>row. (ah_logicalLineId row, ah_rowInLine row)) (aw_rows v)) \<longrightarrow> distinct (map rowKey (hw_renderRows w)))"
proof -
  obtain w where w: "coreV2HistoryWindowFromAPI v = Inr w" "hw_terminalId w = sf_terminalId s" "hw_token w = aw_token v" "hw_cols w = of_int (sf_cols s)"
    "list_all has_cursor (hw_renderRows w)" "map rowKey (hw_renderRows w) = map row_key (aw_rows v)" "hw_generation w = show_nat (aw_historyGeneration v)"
    using decoded_window [OF assms(5-7)] assms(2,3) by auto
  have "assertWindowShape w s = Inr ()" using w(2,4,5) by (simp add: assertWindowShape_def has_cursor_def [abs_def])
  moreover have "trim (hw_generation w) \<noteq> []" by (simp add: w(7) trim_decimal)
  moreover have "length (hw_renderRows w) = length (aw_rows v)" using arg_cong [OF w(6), of length] by simp
  moreover have "distinct (map row_key (aw_rows v))" if "distinct (map (\<lambda>row. (ah_logicalLineId row, ah_rowInLine row)) (aw_rows v))"
    using that by (auto simp: distinct_map inj_on_def row_key_inject)
  ultimately show ?thesis using latest_window_shown [OF assms(1), of w] assms(4) w(1,3,6,7) by (auto simp: drop_map)
qed

definition sample_api_row :: "nat \<Rightarrow> apiHistoryRow" where
  "sample_api_row line = \<lparr>ah_row = Some \<lparr>ar_cells = [\<lparr>ac_content = asc ''a'', ac_width = 1, ac_style = None, ac_linkUrl = [], ac_linkParams = []\<rparr>],
     ar_tailFill = None\<rparr>, ah_timestampUnixNano = 0, ah_rowKind = [], ah_wrapped = False, ah_ownership = 1, ah_fixedGrid = False,
     ah_screenCols = 0, ah_screenRows = 0, ah_screenRowSet = False, ah_logicalLineId = line, ah_rowInLine = 0\<rparr>"

definition sample_api_window :: "nat list \<Rightarrow> apiHistoryWindow" where
  "sample_api_window ids = \<lparr>aw_terminalId = Some (asc ''t''), aw_token = asc ''k'', aw_operation = 1, aw_cols = Some 80,
     aw_rows = map sample_api_row ids, aw_lines = [], aw_totalRows = 9, aw_logicalTotal = 9, aw_hasMore = True, aw_historyGeneration = 3,
     aw_firstRowId = 0, aw_lastRowId = 0, aw_firstLineId = 0, aw_lastLineId = 0, aw_viewportAnchor = None\<rparr>"

theorem decoded_window_loads_witness:
  "\<exists>w snap t. coreV2HistoryWindowFromAPI (sample_api_window [6, 7, 8]) = Inr w \<and> loadLatest_finish w sample_surface = (Inr snap, t) \<and>
     map rowKey (visible t) = map row_key [sample_api_row 7, sample_api_row 8]"
proof -
  have s: "base_ok sample_surface" "sf_terminalId sample_surface = asc ''t''" "sf_cols sample_surface = 80" "sf_viewportRows sample_surface = 2"
    using surface_base_ok [OF new_surface_ok [OF sample_surface_created]] by (simp_all add: sample_surface_def sample_surface_eq)
  then show ?thesis using decoded_window_loads [OF s(1), of "sample_api_window [6, 7, 8]"]
    by (auto simp: sample_api_window_def sample_api_row_def supported_row_def trim_def js_space_def)
qed

text \<open>A timestamp of 64 bits in milliseconds is a number that \<open>Number\<close> represents exactly.\<close>

lemma unixNanoToMs_exact: "\<bar>value\<bar> \<le> 2 ^ 63 \<Longrightarrow> unixNanoToMs value = Some ms \<Longrightarrow> \<bar>ms\<bar> < 2 ^ 53"
proof -
  assume v: "\<bar>value\<bar> \<le> 2 ^ 63" and "unixNanoToMs value = Some ms"
  then have "\<bar>ms\<bar> \<le> \<bar>value\<bar> div 1000000"
    by (auto simp: unixNanoToMs_def signed_divide_int_def abs_mult sgn_if split: if_splits)
  also have "\<dots> \<le> 2 ^ 63 div 1000000" using v by (rule zdiv_mono1) simp
  finally show ?thesis by simp
qed

lemma decode_rows_ok:
  "(\<exists>rs. mapM (\<lambda>(i, row). historyRowFromAPI row i) (enumerate k rows) = Inr rs) \<longleftrightarrow> list_all supported_row rows"
proof (induction rows arbitrary: k)
  case (Cons row rows)
  show ?case
  proof (cases "supported_row row")
    case True
    then obtain r where "historyRowFromAPI row k = Inr r" using decoded_row by blast
    then show ?thesis using Cons.IH [of "Suc k"] True by simp
  qed (simp add: unsupported_row)
qed simp

lemma decode_first_unsupported:
  "list_all supported_row rows \<Longrightarrow> \<not> supported_row row \<Longrightarrow>
   mapM (\<lambda>(i, row). historyRowFromAPI row i) (enumerate k (rows @ row # rest)) =
     Inl (asc ''unsupported history row ownership '' @ show_int (ah_ownership row))"
proof (induction rows arbitrary: k)
  case (Cons r rows)
  then obtain x where "historyRowFromAPI r k = Inr x" using decoded_row by force
  then show ?case using Cons by (simp del: asc_simps)
qed (simp add: unsupported_row del: asc_simps)

text \<open>
  A reply decodes unless it has an operation or an ownership that the enums do not know, and the first such value
  is the one reported: the operation, or else the ownership of the first row that has an unknown one.
\<close>

theorem decode_reports_first_unknown:
  "case coreV2HistoryWindowFromAPI v of
     Inr w \<Rightarrow> aw_operation v \<in> {1, 2, 3} \<and> list_all supported_row (aw_rows v)
   | Inl e \<Rightarrow>
       if aw_operation v \<notin> {1, 2, 3} then e = asc ''unsupported history window operation '' @ show_int (aw_operation v)
       else \<exists>rows row rest. aw_rows v = rows @ row # rest \<and> list_all supported_row rows \<and> \<not> supported_row row \<and>
         e = asc ''unsupported history row ownership '' @ show_int (ah_ownership row)"
proof (cases "aw_operation v \<in> {1, 2, 3}")
  case True
  then obtain op where op: "historyWindowOp (aw_operation v) = Inr op" by (auto simp: historyWindowOp_def)
  show ?thesis
  proof (cases "list_all supported_row (aw_rows v)")
    case rows: True
    then obtain rs where "mapM (\<lambda>(i, row). historyRowFromAPI row i) (enumerate 0 (aw_rows v)) = Inr rs" using decode_rows_ok by blast
    then show ?thesis using True op rows by (simp add: coreV2HistoryWindowFromAPI_def)
  next
    case False
    then obtain rows row rest where r: "aw_rows v = rows @ row # rest" "list_all supported_row rows" "\<not> supported_row row"
      using split_list_first_prop [of "aw_rows v" "\<lambda>row. \<not> supported_row row"] by (auto simp: list_all_iff)
    have "coreV2HistoryWindowFromAPI v = Inl (asc ''unsupported history row ownership '' @ show_int (ah_ownership row))"
      unfolding coreV2HistoryWindowFromAPI_def op r(1) decode_first_unsupported [OF r(2,3)] by (simp del: asc_simps)
    then show ?thesis using True r by (auto simp del: asc_simps)
  qed
qed (simp add: coreV2HistoryWindowFromAPI_def historyWindowOp_def)

end
