(* ===== verification/Spec2Isabelle.thy ===== *)
theory Spec2Isabelle
  imports HostSession TextArea Scrollbar SelectBox Form Layout SplitPanes EventQueue LiveScreen ScrollbackPager Mouse HistoryWire
begin

text \<open>
  AnyTTY, a remote terminal: its JavaScript and TypeScript clients.

  \<^bold>\<open>The program.\<close> Two groups of parts are modelled.

  \<^item> The \<^emph>\<open>layout program SDK\<close> (\<open>clients/tui/sdk/ts/src\<close>). A layout program describes its screen as a tree
    of boxes and talks to a host over a byte stream. \<open>wire.js\<close> encodes and decodes frames, messages, trees
    and differences of trees; \<open>core.js\<close> is the client that sends views and dispatches what arrives;
    \<open>builder.js\<close> builds trees and measures text; \<open>widgets/*.js\<close> are the editors, lists, tables, forms and
    bars that programs build their trees from. The host is written in Go (\<open>clients/tui/runtime\<close>); the parts
    of it that receive views (\<open>view_delta.go\<close>, \<open>session.go\<close>) are modelled too, because the client's
    correctness is that both sides hold the same tree.
  \<^item> The \<^emph>\<open>logic of the web and mobile user interface\<close> (\<open>clients/ui/src\<close>). Objects from outside pass a
    boundary check and are normalised (\<open>core/model.ts\<close>); messages of the connection pass a queue
    (\<open>connection/eventQueue.ts\<close>) and are folded into a snapshot (\<open>connection/connectionMessageReducer.ts\<close>);
    the terminals are arranged in tabs and split panes (\<open>app/webTerminalTabs.ts\<close>,
    \<open>app/terminalSplitLayout.ts\<close>); the screen of a terminal is kept up to date from deltas
    (\<open>terminal/liveScreenCache.ts\<close>); its history is fetched page by page and shown, searched and copied
    (\<open>terminal/coreV2ScrollbackPager.ts\<close>, \<open>coreV2HistorySurface.ts\<close>, \<open>coreV2HistoryANSI.ts\<close>).

  \<^bold>\<open>The base.\<close> Prelude has the result type of fallible code (\<open>'e + 'a\<close>, with \<open>andThen\<close> for the
  statement after a possible throw), the parts of JavaScript that the sources use, and the locale
  \<open>machine\<close>: a state, a step function and an invariant that the initial state has and every step keeps.
  Each stateful component interprets it (the client, both editors, both lists, the pane layout, the
  connection reducer, the event queue, the history pager), and its session theorems come from there. Utf8 has the
  encoder and the WHATWG decoder of \<open>Buffer\<close>; Decimal prints and reads decimal numbers; JsNumber has NaN,
  the infinities and comparisons with them; ObjectGraph has objects that share and contain each other.
  Strings are lists of code points, bytes are 8-bit words.

  \<^bold>\<open>The wire.\<close>

  \<^item> WireCodec: varints at 64 bits, protobuf fields, the field parser of \<open>wire.js\<close> with every error. The
    locales \<open>msg_codec\<close> and \<open>entry_codec\<close> state what an encoder and its decoder owe each other; BoxTree and
    WireMessages read messages through their interpretations.
  \<^item> FrameReader: \<open>class FrameReader\<close>, its buffer, its queue of waiting promises and \<open>tryRead\<close>. The locale
    \<open>framing\<close> is the contract of a frame format. Frames come out once each and in order.
  \<^item> WireMessages: HELLO, EVENT, RESPONSE, STREAM and RESULT. What a decoder returns on every message an
    encoder can write; the sign of a wheel event.
  \<^item> BoxTree: \<open>encodeBox\<close>, \<open>encodeView\<close>, \<open>decodeBox\<close>; the round trip, up to the normal form, of a tree with
    Unicode strings and numbers from 0 to 2^31-1 (\<open>box_ok\<close>).
  \<^item> ViewDelta, HostPatches, DeltaWire: \<open>diffView\<close> and its patches, what the host does with them, and the two
    together through the bytes: the host ends with the tree of the next view, if the trees have no empty
    boxes (\<open>solid\<close>) and the change is one that a merge expresses (\<open>delta_safe\<close>). The host's \<open>proto.Merge\<close> is
    the operation of the locale \<open>proto_merge\<close>, whose laws are the documented ones of proto3. DeltaWire also
    has changes that \<open>diffView\<close> takes for expressible and that are not.
  \<^item> ProtocolClient: \<open>class Client\<close> of \<open>core.js\<close>, every operation; callbacks run at most once; the base view
    is always the one the written frames show, as the revision kept with it.
  \<^item> HostSession: the host's acceptance of views. Client and host stay in step over commits whose views the
    wire carries without loss and whose changes a merge expresses (\<open>commits_ok\<close>); the client does not
    check these conditions, and two theorems show what happens otherwise: deltas that leave the host with
    another tree or are rejected, and the rejected delta after a failed write. After a rejection that the
    client hears of, they come back into step. The locale \<open>host_decoder\<close> is the decoder of the host,
    interpreted by the decoder of \<open>wire.js\<close>; \<open>view_host\<close> adds the merge.

  \<^bold>\<open>The widgets.\<close> Each theory models one file of \<open>widgets/\<close>, its constructors, its operations and its drawing.

  \<^item> Builder: node methods, \<open>displayWidth\<close>, truncation and padding of \<open>builder.js\<close>.
  \<^item> TextEditor, TextInput, TextArea (\<open>input.js\<close>): the editors refine an abstract editor whose state is the
    text before and after the cursor; positions and lines agree; the drawing has exactly the size asked for.
  \<^item> ListWindow (\<open>list.js\<close>), Scrollbar (\<open>scrollbar.js\<close>), SelectBox (\<open>select.js\<close>), Table (\<open>table.js\<close>): windows
    and selections stay in range, a click hits the row that is drawn there, columns fill the width.
  \<^item> Mouse (\<open>mouse.js\<close>): hit regions of lists and tables agree with the drawing; ranges, clicks, drags.
  \<^item> Civil, Calendar (\<open>datepicker.js\<close>): the day number conversions are inverse to each other; dates are parsed
    exactly; the month grid.
  \<^item> Validate (\<open>validate.js\<close>), Form (\<open>form.js\<close>): validators, focus and keys of forms.
  \<^item> Chrome (\<open>basics.js\<close>), Layout (\<open>layout.js\<close>): bars, frames, split areas; widths are exact, and where
    they are not the theorem says by how much.

  \<^bold>\<open>The user interface.\<close>

  \<^item> ObjectGraph, RemoteModel (\<open>core/model.ts\<close>): the walk for blocked keys decides every object graph; what
    normalisation lets through is well formed and in normal form.
  \<^item> Connection (\<open>connectionMessageReducer.ts\<close>), EventQueue (\<open>eventQueue.ts\<close>): invariants over every sequence
    of messages; order, bound and accounting of the queue; resuming.
  \<^item> SplitPanes (\<open>terminalSplitLayout.ts\<close>, \<open>webTerminalTabs.ts\<close>): the pane tree and the tabs.
  \<^item> LiveScreen (\<open>liveScreenCache.ts\<close>): a merge gives the rows the update describes.
  \<^item> HistoryRows (\<open>coreV2HistoryANSI.ts\<close>): reflow of history lines to the local width, the columns of a match
    and the top of the viewport in the reflowed rows, and the replay as ANSI text.
  \<^item> ScrollbackPager (\<open>coreV2ScrollbackPager.ts\<close>): loading, searching, copying and releasing, with every call
    split at its \<open>await\<close>s so that replies interleave. Which server handles it uses and which it gives back.
  \<^item> HistorySurface (\<open>coreV2HistorySurface.ts\<close>): the cache of rows and the viewport over it; the snapshot is
    consistent after any sequence of calls and replies, and an older page does not move the view.
  \<^item> HistoryWire (\<open>coreV2TerminalProtocol.ts\<close>): the decoding of history replies, and that the surface accepts what it
    gives.

  \<^bold>\<open>Bounds and termination.\<close> All functions are total. Loops over a buffer shrink it (\<open>parseFields\<close>,
  \<open>decodeBox\<close>: the length of the bytes; \<open>pump\<close>: the number of waiting promises); loops over an index have
  the distance to its end as measure. The one recursion without a measure of its own is the
  walk over an object graph with cycles: it has a depth bound, which \<open>walk_all\<close> sets to one more than the
  number of objects, and the walk is proved never to reach it.

  \<^bold>\<open>Parameters.\<close> Code that is not part of the repository is an argument: the Unicode classes L and Nd of
  the regular expression engine (\<open>letter\<close> in the editors), the compiler of regular expressions given to the
  validator \<open>pattern\<close>, the graphemes of \<open>Intl.Segmenter\<close> (\<open>segment\<close> in HistoryRows), \<open>proto.Merge\<close> and the host's generated decoder, and \<open>create\<close> of the protobuf library
  for rows and cursors of a live screen.

  \<^bold>\<open>Not modelled.\<close>

  \<^item> The React components and hooks (\<open>*.tsx\<close>, \<open>use*.ts\<close>): rendering, effects and browser events.
  \<^item> Generated protobuf descriptors (\<open>clients/ui/src/generated\<close>) and the bundled animation runtime
    (\<open>docs/assets\<close>): not written by hand. The history messages are records of HistoryWire.
  \<^item> Build and check scripts (\<open>*.mjs\<close>), configuration, examples and templates: they run tools or files, or
    only call the SDK.
  \<^item> The transports (\<open>webrtc\<close>, \<open>binding\<close>, web sockets, storage, clipboard, files): input and output through
    browser interfaces.
  \<^item> The widgets \<open>chart.js\<close>, \<open>richtext.js\<close>, \<open>theme.js\<close>, \<open>tokens.js\<close>, \<open>progress.js\<close>, \<open>border.js\<close>,
    \<open>modal.js\<close>, \<open>contextmenu.js\<close>, \<open>format.js\<close>, and the type declarations \<open>*.d.ts\<close> beside the widgets.
  \<^item> Of the Go host, layout, focus and drawing.
\<close>

end
